(* ===== verification/Prelude.thy ===== *)
theory Prelude
  imports Main "HOL-Library.Sublist" "HOL-Library.Multiset" "HOL-Library.Char_ord"
    "HOL-Library.List_Lexorder" "HOL-Library.AList"
begin

text \<open>
  What every component of the development shares: the collections its automation uses, the
  shape of a fallible result, the few list operations the Go code writes as loops, and the
  generic facts about lists and association lists that are needed more than once.

  A Go function that returns \<open>(T, error)\<close> is modelled with a result in \<open>error + T\<close>, the error on
  the left. A Go map is an association list with distinct keys: its order stands for the
  (unspecified) iteration order of the map, so a fact proved for every such list holds for
  every iteration order. A Go \<open>int\<close> or \<open>int64\<close> that the code only compares and adds is an \<open>int\<close>.
\<close>

section \<open>Collections and abbreviations\<close>

named_theorems well_formed "preservation of the well-formedness invariants"
named_theorems go_simps "defining equations used to evaluate the model"

type_synonym ('e, 'a) result = "'e + 'a"

abbreviation is_ok :: "('e, 'a) result \<Rightarrow> bool" where
  "is_ok r \<equiv> \<exists>x. r = Inr x"

section \<open>Lists\<close>

text \<open>The loop that appends an element unless the list already holds it.\<close>

definition append_unique :: "'a list \<Rightarrow> 'a \<Rightarrow> 'a list" where
  "append_unique xs x = (if x \<in> set xs then xs else xs @ [x])"

lemma set_append_unique [simp]: "set (append_unique xs x) = insert x (set xs)"
  by (auto simp: append_unique_def)

lemma distinct_append_unique [simp]: "distinct (append_unique xs x) = distinct xs"
  by (auto simp: append_unique_def)

text \<open>Deduplication that keeps the first occurrence, as a seen-map loop does.\<close>

definition dedup :: "'a list \<Rightarrow> 'a list" where
  "dedup xs = fold (\<lambda>x acc. append_unique acc x) xs []"

lemma fold_append_unique_set:
  "set (fold (\<lambda>x acc. append_unique acc x) xs acc) = set acc \<union> set xs"
  by (induction xs arbitrary: acc) auto

lemma fold_append_unique_distinct:
  "distinct (fold (\<lambda>x acc. append_unique acc x) xs acc) = distinct acc"
  by (induction xs arbitrary: acc) auto

lemma set_dedup [simp]: "set (dedup xs) = set xs"
  by (simp add: dedup_def fold_append_unique_set)

lemma distinct_dedup [simp]: "distinct (dedup xs)"
  by (simp add: dedup_def fold_append_unique_distinct)

lemma dedup_Nil_iff [simp]: "dedup xs = [] \<longleftrightarrow> xs = []"
  by (metis set_dedup set_empty)

text \<open>\<open>list_update\<close> through a predicate: the loop that rewrites the first matching element.\<close>

fun update_first :: "('a \<Rightarrow> bool) \<Rightarrow> ('a \<Rightarrow> 'a) \<Rightarrow> 'a list \<Rightarrow> 'a list" where
  "update_first P f [] = []"
| "update_first P f (x # xs) = (if P x then f x # xs else x # update_first P f xs)"

lemma update_first_none: "(\<And>x. x \<in> set xs \<Longrightarrow> \<not> P x) \<Longrightarrow> update_first P f xs = xs"
  by (induction xs) auto

lemma length_update_first [simp]: "length (update_first P f xs) = length xs"
  by (induction xs) auto

lemma map_update_first:
  "(\<And>x. x \<in> set xs \<Longrightarrow> P x \<Longrightarrow> g (f x) = g x) \<Longrightarrow> map g (update_first P f xs) = map g xs"
  by (induction xs) auto

lemma set_update_first:
  "x \<in> set (update_first P f xs) \<Longrightarrow> x \<in> set xs \<or> (\<exists>y \<in> set xs. P y \<and> x = f y)"
  by (induction xs) (auto split: if_splits)

text \<open>Removing the first matching element.\<close>

fun remove_first :: "('a \<Rightarrow> bool) \<Rightarrow> 'a list \<Rightarrow> 'a list" where
  "remove_first P [] = []"
| "remove_first P (x # xs) = (if P x then xs else x # remove_first P xs)"

lemma set_remove_first: "set (remove_first P xs) \<subseteq> set xs"
  by (induction xs) auto

lemma subseq_remove_first: "subseq (remove_first P xs) xs"
  by (induction xs) auto

lemma find_Some_iff2: "List.find P xs = Some x \<Longrightarrow> P x \<and> x \<in> set xs"
  by (auto simp: find_Some_iff)

lemma find_None_all: "List.find P xs = None \<longleftrightarrow> (\<forall>x \<in> set xs. \<not> P x)"
  by (auto simp: find_None_iff)

lemma distinct_map_unique:
  "distinct (map f xs) \<Longrightarrow> x \<in> set xs \<Longrightarrow> y \<in> set xs \<Longrightarrow> f x = f y \<Longrightarrow> x = y"
  by (auto simp: distinct_map dest: inj_onD)

lemma find_map_unique:
  "distinct (map f xs) \<Longrightarrow> x \<in> set xs \<Longrightarrow> List.find (\<lambda>y. f y = f x) xs = Some x"
  by (induction xs) (force simp: image_iff)+

section \<open>Association lists as Go maps\<close>

definition alist_get :: "('k \<times> 'v) list \<Rightarrow> 'k \<Rightarrow> 'v option" where
  "alist_get m k = map_of m k"

abbreviation keys :: "('k \<times> 'v) list \<Rightarrow> 'k list" where
  "keys m \<equiv> map fst m"

definition alist_wf :: "('k \<times> 'v) list \<Rightarrow> bool" where
  "alist_wf m \<longleftrightarrow> distinct (keys m)"

lemma alist_wf_Nil [simp]: "alist_wf []"
  by (simp add: alist_wf_def)

lemma alist_wf_update [simp, intro]: "alist_wf m \<Longrightarrow> alist_wf (AList.update k v m)"
  by (simp add: alist_wf_def distinct_update)

lemma alist_wf_delete [simp, intro]: "alist_wf m \<Longrightarrow> alist_wf (AList.delete k m)"
  by (simp add: alist_wf_def distinct_delete)

lemma alist_get_update [simp]:
  "alist_get (AList.update k v m) k' = (if k' = k then Some v else alist_get m k')"
  by (simp add: alist_get_def update_conv')

lemma alist_get_delete [simp]:
  "alist_get (AList.delete k m) k' = (if k' = k then None else alist_get m k')"
  by (simp add: alist_get_def delete_conv')

lemma alist_get_in_set: "alist_get m k = Some v \<Longrightarrow> (k, v) \<in> set m"
  by (simp add: alist_get_def map_of_SomeD)

lemma alist_get_from_set: "alist_wf m \<Longrightarrow> (k, v) \<in> set m \<Longrightarrow> alist_get m k = Some v"
  by (simp add: alist_get_def alist_wf_def)

lemma alist_get_None_iff: "alist_get m k = None \<longleftrightarrow> k \<notin> set (keys m)"
  by (simp add: alist_get_def map_of_eq_None_iff)

text \<open>A write to every value of a Go map, in iteration order.\<close>

definition alist_map :: "('v \<Rightarrow> 'w) \<Rightarrow> ('k \<times> 'v) list \<Rightarrow> ('k \<times> 'w) list" where
  "alist_map f m = map (\<lambda>(k, v). (k, f v)) m"

lemma keys_alist_map [simp]: "keys (alist_map f m) = keys m"
  by (induction m) (auto simp: alist_map_def)

lemma alist_wf_map [simp]: "alist_wf (alist_map f m) = alist_wf m"
  by (simp add: alist_wf_def)

lemma alist_get_map [simp]: "alist_get (alist_map f m) k = map_option f (alist_get m k)"
  by (induction m) (auto simp: alist_map_def alist_get_def)

lemma set_alist_map: "(k, w) \<in> set (alist_map f m) \<longleftrightarrow> (\<exists>v. (k, v) \<in> set m \<and> w = f v)"
  by (auto simp: alist_map_def)

lemma alist_update_values:
  "(k', v') \<in> set (AList.update k v m) \<Longrightarrow> (k' = k \<and> v' = v) \<or> (k', v') \<in> set m"
  by (induction m) (auto split: if_splits)

lemma alist_delete_values: "(k', v') \<in> set (AList.delete k m) \<Longrightarrow> (k', v') \<in> set m"
  by (auto simp: AList.delete_eq)

end
