(* ===== verification/GoStrings.thy ===== *)
theory GoStrings
  imports Prelude
begin

text \<open>
  The functions of Go's \<open>strings\<close> and \<open>strconv\<close> packages that the program uses. A Go string is a
  sequence of bytes, so it is a \<open>string\<close> (a list of \<open>char\<close>, each one byte); a literal with
  characters beyond ASCII is its UTF-8 encoding.

  \<open>trim_space\<close> removes every Unicode white space, by the byte encodings of the 25 code points.
  \<open>to_lower\<close> and \<open>to_upper\<close> map ASCII letters; the two code points outside ASCII whose lower case is an
  ASCII letter (U+0130 and U+212A) are mapped too, so a comparison of a lower-cased string with
  an ASCII constant is exact. Other letters beyond ASCII keep their case here.
\<close>

section \<open>Prefixes, suffixes and cutting\<close>

fun has_prefix :: "string \<Rightarrow> string \<Rightarrow> bool" where
  "has_prefix s [] = True"
| "has_prefix [] (c # p) = False"
| "has_prefix (d # s) (c # p) = (d = c \<and> has_prefix s p)"

lemma has_prefix_iff: "has_prefix s p \<longleftrightarrow> prefix p s"
  by (induction s p rule: has_prefix.induct) auto

lemma has_prefix_append [simp]: "has_prefix (p @ s) p"
  by (simp add: has_prefix_iff)

lemma has_prefix_refl [simp]: "has_prefix s s"
  by (simp add: has_prefix_iff)

definition has_suffix :: "string \<Rightarrow> string \<Rightarrow> bool" where
  "has_suffix s p = has_prefix (rev s) (rev p)"

lemma has_suffix_iff: "has_suffix s p \<longleftrightarrow> suffix p s"
  by (simp add: has_suffix_def has_prefix_iff suffix_to_prefix)

definition trim_prefix :: "string \<Rightarrow> string \<Rightarrow> string" where
  "trim_prefix s p = (if has_prefix s p then drop (length p) s else s)"

definition trim_suffix :: "string \<Rightarrow> string \<Rightarrow> string" where
  "trim_suffix s p = (if has_suffix s p then take (length s - length p) s else s)"

lemma trim_prefix_append [simp]: "trim_prefix (p @ s) p = s"
  by (simp add: trim_prefix_def)

section \<open>Splitting and joining\<close>

text \<open>\<open>strings.Split\<close> with a one-byte separator; the empty string gives one empty field.\<close>

fun split_on :: "char \<Rightarrow> string \<Rightarrow> string list" where
  "split_on c [] = [[]]"
| "split_on c (d # s) =
     (if d = c then [] # split_on c s
      else (case split_on c s of [] \<Rightarrow> [[d]] | w # ws \<Rightarrow> (d # w) # ws))"

fun join_with :: "string \<Rightarrow> string list \<Rightarrow> string" where
  "join_with sep [] = []"
| "join_with sep [w] = w"
| "join_with sep (w # ws) = w @ sep @ join_with sep ws"

lemma split_on_nonempty [simp]: "split_on c s \<noteq> []"
  by (induction s) (auto split: list.splits)

lemma split_on_no_sep: "w \<in> set (split_on c s) \<Longrightarrow> c \<notin> set w"
  by (induction s arbitrary: w) (auto split: list.splits if_splits)

lemma join_with_Cons: "ws \<noteq> [] \<Longrightarrow> join_with sep (w # ws) = w @ sep @ join_with sep ws"
  by (cases ws) auto

lemma join_split [simp]: "join_with [c] (split_on c s) = s"
proof (induction s)
  case Nil
  show ?case by simp
next
  case (Cons d s)
  obtain w ws where w: "split_on c s = w # ws"
    by (meson list.exhaust split_on_nonempty)
  show ?case
    using Cons w by (cases "ws = []") (auto simp: join_with_Cons)
qed

lemma split_on_word: "c \<notin> set w \<Longrightarrow> split_on c w = [w]"
  by (induction w) auto

lemma split_on_append_sep:
  "c \<notin> set w \<Longrightarrow> split_on c (w @ c # s) = w # split_on c s"
  by (induction w) auto

text \<open>Splitting a joined list gives it back when no word holds the separator.\<close>

lemma split_join:
  assumes "ws \<noteq> []" and "\<forall>w \<in> set ws. c \<notin> set w"
  shows "split_on c (join_with [c] ws) = ws"
  using assms
proof (induction ws)
  case Nil
  then show ?case by simp
next
  case (Cons w ws)
  then show ?case
    by (cases "ws = []") (auto simp: join_with_Cons split_on_word split_on_append_sep)
qed

section \<open>White space\<close>

text \<open>The UTF-8 encodings of the code points \<open>unicode.IsSpace\<close> accepts.\<close>

definition space_encodings :: "string list" where
  "space_encodings =
     [[CHR 0x09], [CHR 0x0A], [CHR 0x0B], [CHR 0x0C], [CHR 0x0D], [CHR 0x20],
      [CHR 0xC2, CHR 0x85], [CHR 0xC2, CHR 0xA0],
      [CHR 0xE1, CHR 0x9A, CHR 0x80],
      [CHR 0xE2, CHR 0x80, CHR 0x80], [CHR 0xE2, CHR 0x80, CHR 0x81], [CHR 0xE2, CHR 0x80, CHR 0x82],
      [CHR 0xE2, CHR 0x80, CHR 0x83], [CHR 0xE2, CHR 0x80, CHR 0x84], [CHR 0xE2, CHR 0x80, CHR 0x85],
      [CHR 0xE2, CHR 0x80, CHR 0x86], [CHR 0xE2, CHR 0x80, CHR 0x87], [CHR 0xE2, CHR 0x80, CHR 0x88],
      [CHR 0xE2, CHR 0x80, CHR 0x89], [CHR 0xE2, CHR 0x80, CHR 0x8A],
      [CHR 0xE2, CHR 0x80, CHR 0xA8], [CHR 0xE2, CHR 0x80, CHR 0xA9],
      [CHR 0xE2, CHR 0x80, CHR 0xAF], [CHR 0xE2, CHR 0x81, CHR 0x9F], [CHR 0xE3, CHR 0x80, CHR 0x80]]"

text \<open>Dropping the longest run of the given encodings from the front.\<close>

function drop_encodings :: "string list \<Rightarrow> string \<Rightarrow> string" where
  "drop_encodings es s =
     (case List.find (\<lambda>e. e \<noteq> [] \<and> has_prefix s e) es of
        None \<Rightarrow> s
      | Some e \<Rightarrow> drop_encodings es (drop (length e) s))"
  by pat_completeness auto
termination
proof (relation "measure (\<lambda>(es, s). length s)", goal_cases)
  case 1
  show ?case by simp
next
  case (2 es s e)
  then have "e \<noteq> []" and "has_prefix s e"
    by (auto simp: find_Some_iff)
  then have "0 < length e" and "length e \<le> length s"
    by (auto simp: has_prefix_iff prefix_length_le)
  then have "length s - length e < length s" by arith
  then show ?case by simp
qed

declare drop_encodings.simps [simp del]

definition trim_left_space :: "string \<Rightarrow> string" where
  "trim_left_space s = drop_encodings space_encodings s"

definition trim_right_space :: "string \<Rightarrow> string" where
  "trim_right_space s = rev (drop_encodings (map rev space_encodings) (rev s))"

definition trim_space :: "string \<Rightarrow> string" where
  "trim_space s = trim_right_space (trim_left_space s)"

lemma drop_encodings_suffix: "suffix (drop_encodings es s) s"
proof (induction es s rule: drop_encodings.induct)
  case (1 es s)
  show ?case
  proof (cases "List.find (\<lambda>e. e \<noteq> [] \<and> has_prefix s e) es")
    case None
    then show ?thesis by (simp add: drop_encodings.simps [of es s])
  next
    case (Some e)
    have "suffix (drop_encodings es (drop (length e) s)) (drop (length e) s)"
      using "1" [OF Some] .
    then have "suffix (drop_encodings es (drop (length e) s)) s"
      by (meson suffix_drop suffix_order.trans)
    then show ?thesis by (simp add: drop_encodings.simps [of es s] Some)
  qed
qed

lemma drop_encodings_idem [simp]:
  "drop_encodings es (drop_encodings es s) = drop_encodings es s"
proof (induction es s rule: drop_encodings.induct)
  case (1 es s)
  then show ?case
    by (cases "List.find (\<lambda>e. e \<noteq> [] \<and> has_prefix s e) es")
      (simp_all add: drop_encodings.simps [of es s])
qed

lemma trim_left_space_Nil [simp]: "trim_left_space [] = []"
  using drop_encodings_suffix [of space_encodings "[]"] by (simp add: trim_left_space_def)

lemma trim_right_space_Nil [simp]: "trim_right_space [] = []"
  using drop_encodings_suffix [of "map rev space_encodings" "[]"]
  by (simp add: trim_right_space_def)

lemma trim_space_Nil [simp]: "trim_space [] = []"
  by (simp add: trim_space_def)

lemma trim_right_space_prefix: "prefix (trim_right_space s) s"
  using drop_encodings_suffix [of "map rev space_encodings" "rev s"]
  by (simp add: trim_right_space_def suffix_to_prefix)

lemma trim_left_space_suffix: "suffix (trim_left_space s) s"
  by (simp add: trim_left_space_def drop_encodings_suffix)

lemma trim_right_space_idem [simp]: "trim_right_space (trim_right_space s) = trim_right_space s"
  by (simp add: trim_right_space_def)

lemma drop_encodings_prefix_stable:
  assumes "drop_encodings es s = s" and "prefix t s"
  shows "drop_encodings es t = t"
proof -
  have none: "List.find (\<lambda>e. e \<noteq> [] \<and> has_prefix s e) es = None"
  proof (rule ccontr)
    assume "List.find (\<lambda>e. e \<noteq> [] \<and> has_prefix s e) es \<noteq> None"
    then obtain e where e: "List.find (\<lambda>e. e \<noteq> [] \<and> has_prefix s e) es = Some e" by auto
    then have ne: "e \<noteq> []" "has_prefix s e" by (auto simp: find_Some_iff)
    have "drop_encodings es s = drop_encodings es (drop (length e) s)"
      by (simp add: drop_encodings.simps [of es s] e)
    then have shrunk: "length (drop_encodings es s) \<le> length s - length e"
      using suffix_length_le [OF drop_encodings_suffix [of es "drop (length e) s"]] by simp
    have "0 < length e" "length e \<le> length s"
      using ne by (auto simp: has_prefix_iff prefix_length_le)
    then have "length s - length e < length s" by arith
    with shrunk assms(1) show False by simp
  qed
  have "List.find (\<lambda>e. e \<noteq> [] \<and> has_prefix t e) es = None"
    using none assms(2) by (auto simp: find_None_iff has_prefix_iff dest: prefix_order.trans)
  then show ?thesis by (simp add: drop_encodings.simps [of es t])
qed

lemma trim_space_idem [simp]: "trim_space (trim_space s) = trim_space s"
proof -
  have "drop_encodings space_encodings (trim_left_space s) = trim_left_space s"
    by (simp add: trim_left_space_def)
  then have "drop_encodings space_encodings (trim_right_space (trim_left_space s)) =
      trim_right_space (trim_left_space s)"
    by (rule drop_encodings_prefix_stable) (rule trim_right_space_prefix)
  then have "trim_left_space (trim_right_space (trim_left_space s)) =
      trim_right_space (trim_left_space s)"
    by (simp add: trim_left_space_def)
  then show ?thesis by (simp add: trim_space_def)
qed

section \<open>Case\<close>

definition lower_char :: "char \<Rightarrow> char" where
  "lower_char c = (if 65 \<le> (of_char c :: nat) \<and> (of_char c :: nat) \<le> 90
                   then char_of ((of_char c :: nat) + 32) else c)"

definition upper_char :: "char \<Rightarrow> char" where
  "upper_char c = (if 97 \<le> (of_char c :: nat) \<and> (of_char c :: nat) \<le> 122
                   then char_of ((of_char c :: nat) - 32) else c)"

fun to_lower :: "string \<Rightarrow> string" where
  "to_lower [] = []"
| "to_lower (c # s) =
     (if has_prefix (c # s) [CHR 0xC4, CHR 0xB0] then CHR ''i'' # to_lower (drop 1 s)
      else if has_prefix (c # s) [CHR 0xE2, CHR 0x84, CHR 0xAA] then CHR ''k'' # to_lower (drop 2 s)
      else lower_char c # to_lower s)"

definition to_upper :: "string \<Rightarrow> string" where
  "to_upper s = map upper_char s"

text \<open>\<open>strings.EqualFold\<close> against an ASCII word; K also folds with U+212A and S with U+017F.\<close>

fun fold_case :: "string \<Rightarrow> string" where
  "fold_case [] = []"
| "fold_case (c # s) =
     (if has_prefix (c # s) [CHR 0xC5, CHR 0xBF] then CHR ''s'' # fold_case (drop 1 s)
      else if has_prefix (c # s) [CHR 0xE2, CHR 0x84, CHR 0xAA] then CHR ''k'' # fold_case (drop 2 s)
      else lower_char c # fold_case s)"

definition equal_fold :: "string \<Rightarrow> string \<Rightarrow> bool" where
  "equal_fold s t = (fold_case s = fold_case t)"

section \<open>Numbers\<close>

definition digit_char :: "nat \<Rightarrow> char" where
  "digit_char d = char_of (48 + d)"

fun nat_text :: "nat \<Rightarrow> string" where
  "nat_text n = (if n < 10 then [digit_char n] else nat_text (n div 10) @ [digit_char (n mod 10)])"

declare nat_text.simps [simp del]

text \<open>\<open>strconv.Itoa\<close> and the \<open>%d\<close> verb.\<close>

definition itoa :: "int \<Rightarrow> string" where
  "itoa i = (if i < 0 then CHR ''-'' # nat_text (nat (- i)) else nat_text (nat i))"

definition is_digit :: "char \<Rightarrow> bool" where
  "is_digit c \<longleftrightarrow> 48 \<le> (of_char c :: nat) \<and> (of_char c :: nat) \<le> 57"

definition digit_val :: "char \<Rightarrow> nat" where
  "digit_val c = of_char c - 48"

definition digits_val :: "string \<Rightarrow> nat" where
  "digits_val s = foldl (\<lambda>n c. 10 * n + digit_val c) 0 s"

text \<open>\<open>strconv.Atoi\<close> for a 64-bit int: an optional sign, then decimal digits, within range.\<close>

definition atoi :: "string \<Rightarrow> int option" where
  "atoi s =
     (let (neg, ds) = (case s of
            [] \<Rightarrow> (False, [])
          | c # t \<Rightarrow> if c = CHR ''-'' then (True, t) else if c = CHR ''+'' then (False, t) else (False, s));
          v = (if neg then - int (digits_val ds) else int (digits_val ds))
      in if ds \<noteq> [] \<and> list_all is_digit ds \<and> - (2 ^ 63) \<le> v \<and> v < 2 ^ 63 then Some v else None)"

lemma digit_char_val: "d < 10 \<Longrightarrow> digit_val (digit_char d) = d"
  by (simp add: digit_val_def digit_char_def of_char_of)

lemma digit_char_is_digit: "d < 10 \<Longrightarrow> is_digit (digit_char d)"
  by (simp add: is_digit_def digit_char_def of_char_of)

lemma digits_val_nat_text [simp]: "digits_val (nat_text n) = n"
proof (induction n rule: nat_text.induct)
  case (1 n)
  show ?case
  proof (cases "n < 10")
    case True
    then show ?thesis by (simp add: nat_text.simps [of n] digits_val_def digit_char_val)
  next
    case False
    then have "digits_val (nat_text (n div 10)) = n div 10" using "1" by simp
    with False show ?thesis
      by (simp add: nat_text.simps [of n] digits_val_def digit_char_val)
  qed
qed

lemma nat_text_digits: "c \<in> set (nat_text n) \<Longrightarrow> is_digit c"
proof (induction n rule: nat_text.induct)
  case (1 n)
  then show ?case
    by (cases "n < 10") (auto simp: nat_text.simps [of n] digit_char_is_digit)
qed

lemma nat_text_nonempty [simp]: "nat_text n \<noteq> []"
  by (subst nat_text.simps) simp

lemma atoi_itoa_nat:
  assumes "n < 2 ^ 63"
  shows "atoi (itoa (int n)) = Some (int n)"
proof -
  obtain c t where ct: "nat_text n = c # t"
    by (meson list.exhaust nat_text_nonempty)
  have "is_digit c" using nat_text_digits [of c n] ct by simp
  then have "c \<noteq> CHR ''-''" and "c \<noteq> CHR ''+''" by (auto simp: is_digit_def)
  moreover have "list_all is_digit (c # t)"
    using nat_text_digits ct by (metis list_all_iff)
  moreover have "digits_val (c # t) = n" using ct digits_val_nat_text by metis
  moreover have "int n < 2 ^ 63" using assms by (metis of_nat_less_iff of_nat_numeral of_nat_power)
  ultimately show ?thesis by (simp add: atoi_def itoa_def ct)
qed

section \<open>Other helpers\<close>

definition contains_any :: "string \<Rightarrow> string \<Rightarrow> bool" where
  "contains_any s cs \<longleftrightarrow> (\<exists>c \<in> set s. c \<in> set cs)"

fun contains_sub :: "string \<Rightarrow> string \<Rightarrow> bool" where
  "contains_sub [] p = (p = [])"
| "contains_sub (c # s) p = (has_prefix (c # s) p \<or> contains_sub s p)"

definition is_blank :: "string \<Rightarrow> bool" where
  "is_blank s \<longleftrightarrow> trim_space s = []"

end
