(* ===== verification/BoardId.thy ===== *)
theory BoardId
  imports GoStrings
begin

text \<open>
  Board ids (\<open>internal/msg/board_id.go\<close>) and the display name of an unnamed pane
  (\<open>BoardPersona\<close> in \<open>internal/msg/messages_board.go\<close>).

  A board id becomes one token of a NATS subject, so \<open>ValidateBoardID\<close> is what keeps a board id
  from addressing another subject. The subject prefix is made by \<open>T\<close> of the shared module, which is not
  part of the repository: it is a parameter \<open>topic\<close> of \<open>boardSubject\<close>.
\<close>

definition NormalizeBoardID :: "string \<Rightarrow> string" where
  "NormalizeBoardID raw =
     (let i = to_lower (trim_space raw) in if i = [] then ''session'' else i)"

definition IsReservedBoardID :: "string \<Rightarrow> bool" where
  "IsReservedBoardID i = (NormalizeBoardID i \<in> {''session'', ''fleet''})"

definition IsDefaultBoard :: "string \<Rightarrow> bool" where
  "IsDefaultBoard i = (NormalizeBoardID i = ''session'')"

datatype board_id_error = TooLong string | BadCharacter string | BadStart string

definition board_id_char :: "char \<Rightarrow> bool" where
  "board_id_char c \<longleftrightarrow> (97 \<le> (of_char c :: nat) \<and> (of_char c :: nat) \<le> 122) \<or> is_digit c \<or>
     c = CHR ''-'' \<or> c = CHR ''_''"

definition ValidateBoardID :: "string \<Rightarrow> board_id_error option" where
  "ValidateBoardID i =
     (let norm = NormalizeBoardID i
      in if 32 < length norm then Some (TooLong i)
         else if \<not> list_all board_id_char norm then Some (BadCharacter i)
         else if hd norm = CHR ''-'' \<or> hd norm = CHR ''_'' then Some (BadStart i)
         else None)"

definition BoardIDFromMeta :: "string \<Rightarrow> string" where
  "BoardIDFromMeta raw =
     (let i = trim_space raw
      in if i = [] \<or> ValidateBoardID i \<noteq> None then ''session'' else NormalizeBoardID i)"

definition boardSubject :: "(string list \<Rightarrow> string) \<Rightarrow> string \<Rightarrow> string \<Rightarrow> string" where
  "boardSubject topic board leaf =
     (if ValidateBoardID board \<noteq> None \<or> IsDefaultBoard board then topic [''board'', leaf]
      else topic [''board'', NormalizeBoardID board, leaf])"

text \<open>The parts are read from the end: the session name at the front may hold dots.\<close>

definition BoardIDFromSubject :: "string \<Rightarrow> string \<Rightarrow> string option" where
  "BoardIDFromSubject subject leaf =
     (let ps = rev (split_on (CHR ''.'') subject)
      in if length ps < 3 \<or> ps ! 0 \<noteq> leaf then None
         else if ps ! 1 = ''board'' then Some ''session''
         else if length ps < 4 \<or> ps ! 2 \<noteq> ''board'' then None
         else if ValidateBoardID (ps ! 1) \<noteq> None then None
         else Some (NormalizeBoardID (ps ! 1)))"

definition containsUnitSep :: "string \<Rightarrow> bool" where
  "containsUnitSep s \<longleftrightarrow> CHR 0x1F \<in> set s"

definition BoardPersona :: "string \<Rightarrow> string \<Rightarrow> string \<Rightarrow> string" where
  "BoardPersona givenName title paneID =
     (if givenName \<noteq> [] \<and> \<not> containsUnitSep givenName then givenName
      else if title \<noteq> [] then title
      else if 8 \<le> length paneID then ''pane-'' @ take 8 paneID
      else if paneID \<noteq> [] then ''pane-'' @ paneID
      else ''pane-unknown'')"

section \<open>Facts\<close>

lemma NormalizeBoardID_nonempty [simp]: "NormalizeBoardID i \<noteq> []"
  by (simp add: NormalizeBoardID_def Let_def)

lemma BoardPersona_nonempty: "BoardPersona g t p \<noteq> []"
  by (simp add: BoardPersona_def)

lemma valid_chars: "ValidateBoardID i = None \<Longrightarrow> c \<in> set (NormalizeBoardID i) \<Longrightarrow> board_id_char c"
  by (auto simp: ValidateBoardID_def Let_def list_all_iff split: if_splits)

text \<open>A string of board id characters is its own lower case and has no white space to trim.\<close>

lemma board_id_char_code:
  "board_id_char c \<Longrightarrow> (of_char c :: nat) < 128 \<and> 32 < (of_char c :: nat) \<and>
     \<not> (65 \<le> (of_char c :: nat) \<and> (of_char c :: nat) \<le> 90)"
  by (auto simp: board_id_char_def is_digit_def)

lemma to_lower_id:
  "\<forall>c \<in> set s. (of_char c :: nat) < 128 \<and> \<not> (65 \<le> (of_char c :: nat) \<and> (of_char c :: nat) \<le> 90) \<Longrightarrow>
   to_lower s = s"
proof (induction s)
  case Nil
  show ?case by simp
next
  case (Cons c s)
  then have "c \<noteq> CHR 0xC4" and "c \<noteq> CHR 0xE2" and "lower_char c = c"
    by (auto simp: lower_char_def)
  with Cons show ?case by simp
qed

lemma drop_encodings_id:
  assumes "\<forall>e \<in> set es. e \<noteq> [] \<longrightarrow> s = [] \<or> hd e \<noteq> hd s"
  shows "drop_encodings es s = s"
proof -
  have "\<not> (e \<noteq> [] \<and> has_prefix s e)" if "e \<in> set es" for e
    using assms that by (cases s; cases e) auto
  then have "List.find (\<lambda>e. e \<noteq> [] \<and> has_prefix s e) es = None"
    by (auto simp: find_None_iff)
  then show ?thesis by (simp add: drop_encodings.simps [of es s])
qed

lemma space_encoding_bytes:
  assumes "e \<in> set space_encodings" and "c \<in> set e"
  shows "\<not> (32 < (of_char c :: nat) \<and> (of_char c :: nat) < 128)"
proof -
  have "list_all (\<lambda>e. list_all (\<lambda>c. \<not> (32 < (of_char c :: nat) \<and> (of_char c :: nat) < 128)) e)
      space_encodings"
    by code_simp
  then show ?thesis using assms by (auto simp: list_all_iff)
qed

lemma trim_space_id:
  assumes "\<forall>c \<in> set s. 32 < (of_char c :: nat) \<and> (of_char c :: nat) < 128"
  shows "trim_space s = s"
proof -
  have "drop_encodings space_encodings s = s"
    by (rule drop_encodings_id) (metis assms hd_in_set space_encoding_bytes)
  moreover have "drop_encodings (map rev space_encodings) (rev s) = rev s"
  proof (rule drop_encodings_id, intro ballI impI)
    fix e assume "e \<in> set (map rev space_encodings)" "e \<noteq> []"
    then obtain e' where e: "e' \<in> set space_encodings" and "e = rev e'" by auto
    then have "hd e \<in> set e'" using \<open>e \<noteq> []\<close> by (metis hd_in_set set_rev)
    note e' = e this
    show "rev s = [] \<or> hd e \<noteq> hd (rev s)"
      using space_encoding_bytes [OF e'] assms by (cases s rule: rev_cases) auto
  qed
  ultimately show ?thesis
    by (simp add: trim_space_def trim_left_space_def trim_right_space_def)
qed

lemma NormalizeBoardID_id:
  assumes "\<forall>c \<in> set i. board_id_char c" and "i \<noteq> []"
  shows "NormalizeBoardID i = i"
proof -
  have "trim_space i = i"
    by (rule trim_space_id) (use assms(1) board_id_char_code in blast)
  moreover have "to_lower i = i"
    by (rule to_lower_id) (use assms(1) board_id_char_code in blast)
  ultimately show ?thesis using assms(2) by (simp add: NormalizeBoardID_def)
qed

text \<open>Lower-casing neither makes nor hides a word without lower-case letters, so normalising is idempotent.\<close>

definition no_lower :: "string \<Rightarrow> bool" where
  "no_lower e \<longleftrightarrow> (\<forall>c \<in> set e. \<not> (97 \<le> (of_char c :: nat) \<and> (of_char c :: nat) \<le> 122))"

lemma no_lower_Cons [simp]:
  "no_lower (c # e) \<longleftrightarrow> \<not> (97 \<le> (of_char c :: nat) \<and> (of_char c :: nat) \<le> 122) \<and> no_lower e"
  by (auto simp: no_lower_def)

lemma lower_char_not_lower:
  "\<not> (97 \<le> (of_char (lower_char c) :: nat) \<and> (of_char (lower_char c) :: nat) \<le> 122) \<Longrightarrow> lower_char c = c"
  by (auto simp: lower_char_def of_char_of split: if_splits)

lemma to_lower_cases:
  obtains (dotted) "has_prefix (c # s) [CHR 0xC4, CHR 0xB0]"
      and "to_lower (c # s) = CHR ''i'' # to_lower (drop 1 s)"
  | (kelvin) "\<not> has_prefix (c # s) [CHR 0xC4, CHR 0xB0]" and "has_prefix (c # s) [CHR 0xE2, CHR 0x84, CHR 0xAA]"
      and "to_lower (c # s) = CHR ''k'' # to_lower (drop 2 s)"
  | (plain) "\<not> has_prefix (c # s) [CHR 0xC4, CHR 0xB0]" and "\<not> has_prefix (c # s) [CHR 0xE2, CHR 0x84, CHR 0xAA]"
      and "to_lower (c # s) = lower_char c # to_lower s"
  using to_lower.simps(2) [of c s] that by presburger

lemma to_lower_Cons_no_lower:
  assumes "to_lower (c # s) = d # e" and "no_lower (d # e)"
  shows "c = d \<and> to_lower s = e"
  using assms lower_char_not_lower [of c] by (cases c s rule: to_lower_cases) auto

lemma to_lower_prefix: "has_prefix (to_lower t) e \<Longrightarrow> no_lower e \<Longrightarrow> has_prefix t e"
proof (induction e arbitrary: t)
  case Nil
  show ?case by simp
next
  case (Cons d e)
  then obtain c s where t: "t = c # s" by (cases t) auto
  from Cons.prems have "to_lower (c # s) = lower_char c # to_lower s"
    unfolding t by (cases c s rule: to_lower_cases) auto
  then have "lower_char c = d" "has_prefix (to_lower s) e" using Cons.prems(1) t by simp_all
  then show ?case using Cons.IH Cons.prems(2) lower_char_not_lower [of c] t by auto
qed

lemma to_lower_all: "to_lower t = e \<Longrightarrow> no_lower e \<Longrightarrow> t = e"
proof (induction t arbitrary: e)
  case Nil
  then show ?case by simp
next
  case (Cons c s)
  show ?case
  proof (cases e)
    case Nil
    then show ?thesis using Cons.prems by (cases c s rule: to_lower_cases) auto
  next
    case e: (Cons d e')
    then have "c = d" "to_lower s = e'" using to_lower_Cons_no_lower [of c s d e'] Cons.prems by auto
    then show ?thesis using Cons.IH [of e'] Cons.prems(2) e by simp
  qed
qed

lemma to_lower_suffix: "to_lower t = u @ e \<Longrightarrow> no_lower e \<Longrightarrow> suffix e t"
proof (induction "length t" arbitrary: t u rule: less_induct)
  case less
  show ?case
  proof (cases t)
    case Nil
    then show ?thesis using less.prems(1) by simp
  next
    case t: (Cons c s)
    show ?thesis
    proof (cases u)
      case Nil
      then show ?thesis using to_lower_all [of t e] less.prems by simp
    next
      case u: (Cons x u')
      obtain k where "to_lower (drop k s) = u' @ e"
      proof (cases c s rule: to_lower_cases)
        case dotted
        then show ?thesis using less.prems(1) that [of 1] unfolding t u by simp
      next
        case kelvin
        then show ?thesis using less.prems(1) that [of 2] unfolding t u by simp
      next
        case plain
        then show ?thesis using less.prems(1) that [of 0] unfolding t u by simp
      qed
      then have "suffix e (drop k s)" using less.hyps [of "drop k s"] less.prems(2) t by simp
      moreover have "suffix (drop k s) t" using suffix_drop [of k s] unfolding t by (simp add: suffix_ConsI)
      ultimately show ?thesis by (rule suffix_order.trans)
    qed
  qed
qed

lemma to_lower_idem [simp]: "to_lower (to_lower t) = to_lower t"
proof (induction "length t" arbitrary: t rule: less_induct)
  case less
  show ?case
  proof (cases t)
    case Nil
    then show ?thesis by simp
  next
    case t: (Cons c s)
    have fixed: "to_lower (to_lower (drop k s)) = to_lower (drop k s)" for k
      using less.hyps [of "drop k s"] t by simp
    show ?thesis
    proof (cases c s rule: to_lower_cases)
      case dotted
      have "to_lower (CHR ''i'' # w) = CHR ''i'' # to_lower w" for w by (simp add: lower_char_def)
      then show ?thesis unfolding t dotted(2) using fixed [of 1] by simp
    next
      case kelvin
      have "to_lower (CHR ''k'' # w) = CHR ''k'' # to_lower w" for w by (simp add: lower_char_def)
      then show ?thesis unfolding t kelvin(3) using fixed [of 2] by simp
    next
      case plain
      let ?o = "lower_char c # to_lower s"
      have no: "\<not> has_prefix ?o [CHR 0xC4, CHR 0xB0]" "\<not> has_prefix ?o [CHR 0xE2, CHR 0x84, CHR 0xAA]"
        using plain to_lower_prefix [of "c # s" "[CHR 0xC4, CHR 0xB0]"]
          to_lower_prefix [of "c # s" "[CHR 0xE2, CHR 0x84, CHR 0xAA]"]
        by (auto simp only: plain(3)) (simp_all add: no_lower_def)
      have "lower_char (lower_char c) = lower_char c" by (auto simp: lower_char_def of_char_of)
      then have "to_lower ?o = lower_char c # to_lower (to_lower s)"
        using no by (cases "lower_char c" "to_lower s" rule: to_lower_cases) auto
      then show ?thesis unfolding t plain(3) using fixed [of 0] by simp
    qed
  qed
qed

lemma space_encoding_no_lower: "e \<in> set space_encodings \<Longrightarrow> no_lower e"
proof -
  have "list_all (\<lambda>e. list_all (\<lambda>c. \<not> (97 \<le> (of_char c :: nat) \<and> (of_char c :: nat) \<le> 122)) e) space_encodings"
    by code_simp
  then show "e \<in> set space_encodings \<Longrightarrow> no_lower e" by (auto simp: list_all_iff no_lower_def)
qed

lemma drop_encodings_fixed_iff:
  "drop_encodings es s = s \<longleftrightarrow> (\<forall>e \<in> set es. e \<noteq> [] \<longrightarrow> \<not> has_prefix s e)"
proof
  assume "\<forall>e \<in> set es. e \<noteq> [] \<longrightarrow> \<not> has_prefix s e"
  then have "List.find (\<lambda>e. e \<noteq> [] \<and> has_prefix s e) es = None" by (auto simp: find_None_iff)
  then show "drop_encodings es s = s" by (simp add: drop_encodings.simps [of es s])
next
  assume fixed: "drop_encodings es s = s"
  show "\<forall>e \<in> set es. e \<noteq> [] \<longrightarrow> \<not> has_prefix s e"
  proof (intro ballI impI notI)
    fix e assume "e \<in> set es" "e \<noteq> []" "has_prefix s e"
    then have "prefix e s" "drop_encodings es e = e"
      using drop_encodings_prefix_stable [OF fixed, of e] by (auto simp: has_prefix_iff)
    then have "List.find (\<lambda>e'. e' \<noteq> [] \<and> has_prefix e e') es \<noteq> None"
      using \<open>e \<in> set es\<close> \<open>e \<noteq> []\<close> by (auto simp: find_None_iff)
    then obtain d where d: "List.find (\<lambda>e'. e' \<noteq> [] \<and> has_prefix e e') es = Some d" by auto
    then have "d \<noteq> []" "has_prefix e d" by (auto simp: find_Some_iff)
    have "length e \<le> length e - length d"
      using suffix_length_le [OF drop_encodings_suffix [of es "drop (length d) e"]] \<open>drop_encodings es e = e\<close>
      by (simp add: drop_encodings.simps [of es e] d)
    moreover have "0 < length d" "length d \<le> length e"
      using \<open>d \<noteq> []\<close> \<open>has_prefix e d\<close> by (auto simp: has_prefix_iff prefix_length_le)
    ultimately show False by linarith
  qed
qed

lemma trim_space_fixed_iff:
  "trim_space s = s \<longleftrightarrow>
     (\<forall>e \<in> set space_encodings. e \<noteq> [] \<longrightarrow> \<not> has_prefix s e \<and> \<not> has_suffix s e)"
proof -
  have right: "trim_right_space s = s \<longleftrightarrow> (\<forall>e \<in> set space_encodings. e \<noteq> [] \<longrightarrow> \<not> has_suffix s e)"
    using drop_encodings_fixed_iff [of "map rev space_encodings" "rev s"]
    by (auto simp: trim_right_space_def has_suffix_def rev_swap)
  have left: "trim_left_space s = s \<longleftrightarrow> (\<forall>e \<in> set space_encodings. e \<noteq> [] \<longrightarrow> \<not> has_prefix s e)"
    unfolding trim_left_space_def by (rule drop_encodings_fixed_iff)
  have "trim_space s = s \<longleftrightarrow> trim_left_space s = s \<and> trim_right_space s = s"
  proof
    assume fixed: "trim_space s = s"
    have "length (trim_space s) \<le> length (trim_left_space s)"
      unfolding trim_space_def by (rule prefix_length_le [OF trim_right_space_prefix])
    then have "length (trim_left_space s) = length s"
      using fixed suffix_length_le [OF trim_left_space_suffix [of s]] by simp
    then have "trim_left_space s = s"
      using trim_left_space_suffix [of s] by (metis suffixE append_eq_append_conv append_self_conv2 suffix_def)
    then show "trim_left_space s = s \<and> trim_right_space s = s" using fixed by (simp add: trim_space_def)
  qed (simp add: trim_space_def)
  then show ?thesis using left right by auto
qed

lemma trim_space_to_lower: "trim_space s = s \<Longrightarrow> trim_space (to_lower s) = to_lower s"
  unfolding trim_space_fixed_iff
proof (intro ballI impI conjI notI)
  fix e assume fixed: "\<forall>e \<in> set space_encodings. e \<noteq> [] \<longrightarrow> \<not> has_prefix s e \<and> \<not> has_suffix s e"
    and e: "e \<in> set space_encodings" "e \<noteq> []"
  show False if "has_prefix (to_lower s) e"
    using to_lower_prefix [OF that] space_encoding_no_lower e fixed by blast
  show False if suffix: "has_suffix (to_lower s) e"
  proof -
    obtain u where "to_lower s = u @ e" using suffix by (auto simp: has_suffix_iff suffix_def)
    then have "has_suffix s e"
      using to_lower_suffix space_encoding_no_lower e(1) by (simp add: has_suffix_iff)
    then show False using e fixed by blast
  qed
qed

lemma NormalizeBoardID_idem [simp]: "NormalizeBoardID (NormalizeBoardID i) = NormalizeBoardID i"
proof (cases "to_lower (trim_space i) = []")
  case True
  then have "NormalizeBoardID i = ''session''" by (simp add: NormalizeBoardID_def)
  moreover have "NormalizeBoardID ''session'' = ''session''" by code_simp
  ultimately show ?thesis by simp
next
  case False
  then show ?thesis
    using trim_space_to_lower [of "trim_space i"] by (simp add: NormalizeBoardID_def)
qed

lemma NormalizeBoardID_idem_valid:
  "ValidateBoardID i = None \<Longrightarrow> NormalizeBoardID (NormalizeBoardID i) = NormalizeBoardID i"
  by (rule NormalizeBoardID_id) (auto dest: valid_chars)

lemma ValidateBoardID_normalized:
  "ValidateBoardID i = None \<Longrightarrow> ValidateBoardID (NormalizeBoardID i) = None"
  using NormalizeBoardID_idem_valid [of i]
  by (auto simp: ValidateBoardID_def Let_def split: if_splits)

lemma IsReservedBoardID_normalized:
  "ValidateBoardID i = None \<Longrightarrow> IsReservedBoardID (NormalizeBoardID i) = IsReservedBoardID i"
  by (simp add: IsReservedBoardID_def NormalizeBoardID_idem_valid)

lemma valid_no_dot: "ValidateBoardID i = None \<Longrightarrow> CHR ''.'' \<notin> set (NormalizeBoardID i)"
  using valid_chars [of i "CHR ''.''"] by (auto simp: board_id_char_def is_digit_def)

text \<open>No NATS token separator or wildcard survives validation.\<close>

lemma valid_no_wildcard:
  "ValidateBoardID i = None \<Longrightarrow>
   CHR ''.'' \<notin> set (NormalizeBoardID i) \<and> CHR ''*'' \<notin> set (NormalizeBoardID i) \<and>
   CHR ''>'' \<notin> set (NormalizeBoardID i) \<and> CHR '' '' \<notin> set (NormalizeBoardID i)"
  using valid_chars [of i "CHR ''.''"] valid_chars [of i "CHR ''*''"]
    valid_chars [of i "CHR ''>''"] valid_chars [of i "CHR '' ''"]
  by (simp add: board_id_char_def is_digit_def) blast

text \<open>Splitting a subject: the parts of a joined list end a split, whatever the prefix holds.\<close>

lemma split_on_append:
  "split_on c (s @ c # t) = split_on c s @ split_on c t"
  by (induction s) (auto split: list.splits)

lemma split_on_suffix_words:
  assumes "ws \<noteq> []" and "\<forall>w \<in> set ws. c \<notin> set w"
  shows "split_on c (s @ c # join_with [c] ws) = split_on c s @ ws"
  using split_join [OF assms] by (simp add: split_on_append)

end
