(* ===== verification/FleetTypes.thy ===== *)
theory FleetTypes
  imports BoardId
begin

text \<open>
  The data of the fleet registry (\<open>internal/fleet/registry.go\<close>, \<open>status.go\<close>, \<open>goal.go\<close>): fleets,
  members, the status ledger's rows, goals and the executor's configuration and verdict.

  Field names carry a prefix per record (\<open>f_\<close> fleet, \<open>m_\<close> member, \<open>st_\<close> status row, \<open>g_\<close> goal,
  \<open>w_\<close> watch, \<open>ge_\<close> executor configuration, \<open>gs_\<close> executor verdict); a Go pointer that may be nil is
  an option. The copies the code makes (\<open>copyFleet\<close>, \<open>copyStatus\<close>, \<open>copyGoal\<close>) are identities on
  values. A refusal is a constructor of \<open>fleet_error\<close> with the values the message is made of.
\<close>

section \<open>States and names\<close>

abbreviation StateRegistered :: string where "StateRegistered \<equiv> ''registered''"
abbreviation StateUp :: string where "StateUp \<equiv> ''up''"
abbreviation StateDown :: string where "StateDown \<equiv> ''down''"

abbreviation WorkIdle :: string where "WorkIdle \<equiv> ''idle''"
abbreviation WorkProgress :: string where "WorkProgress \<equiv> ''progress''"
abbreviation WorkBlocked :: string where "WorkBlocked \<equiv> ''blocked''"
abbreviation WorkDone :: string where "WorkDone \<equiv> ''done''"

abbreviation ActivityWorking :: string where "ActivityWorking \<equiv> ''working''"
abbreviation ActivityIdle :: string where "ActivityIdle \<equiv> ''idle''"

abbreviation HealthOK :: string where "HealthOK \<equiv> ''ok''"
abbreviation HealthSilent :: string where "HealthSilent \<equiv> ''silent''"
abbreviation HealthStalled :: string where "HealthStalled \<equiv> ''stalled''"
abbreviation HealthUnblocked :: string where "HealthUnblocked \<equiv> ''unblocked''"
abbreviation HealthDeadlock :: string where "HealthDeadlock \<equiv> ''deadlock''"
abbreviation HealthAvailable :: string where "HealthAvailable \<equiv> ''available''"
abbreviation HealthUnresponsive :: string where "HealthUnresponsive \<equiv> ''unresponsive''"

abbreviation BlockerHuman :: string where "BlockerHuman \<equiv> ''human''"
abbreviation BlockerExternalPrefix :: string where "BlockerExternalPrefix \<equiv> ''ext:''"

abbreviation PolicySmart :: string where "PolicySmart \<equiv> ''smart''"
abbreviation PolicyAlways :: string where "PolicyAlways \<equiv> ''always''"
abbreviation PolicyOff :: string where "PolicyOff \<equiv> ''off''"

abbreviation AnswerAgent :: string where "AnswerAgent \<equiv> ''agent''"
abbreviation AnswerScout :: string where "AnswerScout \<equiv> ''scout''"

abbreviation GoalOpen :: string where "GoalOpen \<equiv> ''open''"
abbreviation GoalMet :: string where "GoalMet \<equiv> ''met''"
abbreviation GoalDropped :: string where "GoalDropped \<equiv> ''dropped''"

abbreviation GoalExecAdaptive :: string where "GoalExecAdaptive \<equiv> ''adaptive''"
abbreviation GoalExecFixed :: string where "GoalExecFixed \<equiv> ''fixed''"
abbreviation GoalExecOff :: string where "GoalExecOff \<equiv> ''off''"

section \<open>Records\<close>

record goal =
  g_text :: string
  g_done_when :: string
  g_due_at :: int
  g_state :: string
  g_set_by :: string
  g_set_at :: int
  g_met_at :: int
  g_note :: string

record watch =
  w_policy :: string
  w_interval_sec :: int
  w_stall_sec :: int
  w_answer :: string
  w_scout_model :: string

record goal_exec =
  ge_mode :: string
  ge_min_sec :: int
  ge_max_sec :: int

record goal_status =
  gs_state :: string
  gs_pct :: int
  gs_finish_at :: int
  gs_unknown :: int
  gs_bottleneck :: string
  gs_waiting :: int
  gs_summary :: string
  gs_why :: "string list"
  gs_assessed_at :: int
  gs_next_at :: int
  gs_sent :: int
  gs_members :: "(string \<times> string) list"

record member_status =
  st_work :: string
  st_task :: string
  st_note :: string
  st_blocked_by :: "string list"
  st_updated_at :: int
  st_work_since :: int
  st_blocker_for :: "string list"
  st_activity :: string
  st_attention :: string
  st_active_at :: int
  st_observed_at :: int
  st_joined_at :: int
  st_health :: string
  st_health_since :: int
  st_checkin_at :: int
  st_checkin_cmd :: string
  st_checkin_missed :: int
  st_pct :: "int option"
  st_eta_at :: int
  st_eta_set_at :: int
  st_goal_ask_at :: int
  st_goal_ask_cmd :: string
  st_declared_by :: string
  st_scout_at :: int
  st_scout_health :: string

text \<open>\<open>&MemberStatus{}\<close>: every field at its zero value.\<close>

definition empty_status :: member_status where
  "empty_status = \<lparr>st_work = [], st_task = [], st_note = [], st_blocked_by = [], st_updated_at = 0,
     st_work_since = 0, st_blocker_for = [], st_activity = [], st_attention = [], st_active_at = 0,
     st_observed_at = 0, st_joined_at = 0, st_health = [], st_health_since = 0, st_checkin_at = 0,
     st_checkin_cmd = [], st_checkin_missed = 0, st_pct = None, st_eta_at = 0, st_eta_set_at = 0,
     st_goal_ask_at = 0, st_goal_ask_cmd = [], st_declared_by = [], st_scout_at = 0,
     st_scout_health = []\<rparr>"

record member =
  m_pane :: string
  m_label :: string
  m_role :: string
  m_unit :: string
  m_parent :: string
  m_worktree :: string
  m_session :: string
  m_status :: "member_status option"
  m_goal :: "goal option"

record fleet =
  f_name :: string
  f_board :: string
  f_tab :: string
  f_source :: string
  f_roadmap_dir :: string
  f_state :: string
  f_created :: int
  f_watch :: "watch option"
  f_goal :: "goal option"
  f_goal_exec :: "goal_exec option"
  f_goal_status :: "goal_status option"
  f_members :: "member list"

text \<open>\<open>map[string]*Fleet\<close>, guarded by one mutex: every operation is one atomic step.\<close>

type_synonym registry = "(string \<times> fleet) list"

section \<open>Refusals\<close>

datatype fleet_error =
    NeedsName | IllegalName board_id_error | ReservedName string
  | IllegalBoard board_id_error | ReservedBoard string
  | NoFleet string | UnknownState string | NeedsPaneId | StatusNeedsPane
  | NotInAnyFleet string | NotInFleet string string
  | EmptyReference | NoMember string string | Ambiguous string string "string list"
  | UnknownWork string | BadPct int | NegativeEta | BlocksItself
  | BlockedNeedsBlocker | BlockerWithoutBlocked string
  | ExternalNeedsName string | BlockedByError fleet_error
  | UnknownPolicy string | IntervalTooShort int | NegativeStall | UnknownAnswer string
  | BadScoutModel string
  | GoalNeedsText | NegativeDue | NoGoalToClose string | UnknownGoalState string
  | UnknownExecMode string | NegativeCadence | MinTooShort int | MaxBelowMin int int
  | MaxBelowDefaultMin int

section \<open>Durations as text\<close>

text \<open>
  \<open>time.Duration.String\<close> on a whole number of seconds: the largest unit that is not zero comes
  first, and the units below it are always written.
\<close>

definition seconds_string :: "int \<Rightarrow> string" where
  "seconds_string s =
     (let a = \<bar>s\<bar>;
          body = (if a < 60 then itoa a @ ''s''
                  else if a < 3600 then itoa (a div 60) @ ''m'' @ itoa (a mod 60) @ ''s''
                  else itoa (a div 3600) @ ''h'' @ itoa (a div 60 mod 60) @ ''m'' @ itoa (a mod 60) @ ''s'')
      in if s < 0 then ''-'' @ body else body)"

definition trim_zero_units :: "string \<Rightarrow> string" where
  "trim_zero_units s =
     (let t = (if has_suffix s ''m0s'' then trim_suffix s ''0s'' else s)
      in if has_suffix t ''h0m'' then trim_suffix t ''0m'' else t)"

text \<open>\<open>Watch.IntervalText\<close>\<close>

definition IntervalText :: "watch \<Rightarrow> string" where
  "IntervalText w = trim_zero_units (seconds_string (w_interval_sec w))"

text \<open>\<open>Duration.Round\<close> to a unit, halves away from zero, on a non-negative duration.\<close>

definition round_to :: "int \<Rightarrow> int \<Rightarrow> int" where
  "round_to m d = (if d mod m + d mod m < m then d - d mod m else d + (m - d mod m))"

text \<open>\<open>DurationText\<close> on a duration in nanoseconds.\<close>

definition DurationText :: "int \<Rightarrow> string" where
  "DurationText d =
     (let a = round_to 1000000000 \<bar>d\<bar>;
          b = (if 60 * 1000000000 \<le> a then round_to (60 * 1000000000) a else a)
      in trim_zero_units (seconds_string (b div 1000000000)))"

definition shortPane :: "string \<Rightarrow> string" where
  "shortPane i = (if 8 < length i then take 8 i else i)"

end
