(* ===== verification/FleetRegistry.thy ===== *)
theory FleetRegistry
  imports FleetTypes
begin

text \<open>
  The registry operations of \<open>internal/fleet/registry.go\<close>: registration, membership, lifecycle,
  reconciliation with the panes that exist, and the lookups. Each definition is one method under
  the registry's lock, from the registry to the registry after it and the method's result.

  The well-formedness invariant \<open>registry_wf\<close> is what the rest of the package relies on: fleets are
  keyed by their own normalised name, names and boards are legal and not reserved, states are
  known, and no fleet lists a pane twice.
\<close>

section \<open>Names\<close>

definition ValidateName :: "string \<Rightarrow> fleet_error option" where
  "ValidateName name =
     (if trim_space name = [] then Some NeedsName
      else case ValidateBoardID name of
             Some e \<Rightarrow> Some (IllegalName e)
           | None \<Rightarrow> if IsReservedBoardID name then Some (ReservedName (NormalizeBoardID name)) else None)"

definition Normalise :: "fleet \<Rightarrow> fleet" where
  "Normalise f =
     (let name = NormalizeBoardID (f_name f);
          board = (if trim_space (f_board f) = [] then name else f_board f);
          state = (if trim_space (f_state f) = [] then StateRegistered else f_state f)
      in f\<lparr>f_name := name, f_board := NormalizeBoardID board, f_state := state\<rparr>)"

section \<open>Registration\<close>

definition or_else :: "'a option \<Rightarrow> 'a option \<Rightarrow> 'a option" where
  "or_else a b = (case a of None \<Rightarrow> b | Some x \<Rightarrow> Some x)"

text \<open>What a re-registration keeps of the fleet it replaces.\<close>

definition keep_existing :: "fleet \<Rightarrow> fleet \<Rightarrow> fleet" where
  "keep_existing old f =
     f\<lparr>f_members := f_members old,
       f_created := (if f_created f = 0 then f_created old else f_created f),
       f_watch := or_else (f_watch f) (f_watch old),
       f_goal := or_else (f_goal f) (f_goal old),
       f_goal_exec := or_else (f_goal_exec f) (f_goal_exec old),
       f_goal_status := or_else (f_goal_status f) (f_goal_status old)\<rparr>"

definition check_board :: "fleet \<Rightarrow> fleet_error option" where
  "check_board f =
     (if f_board f \<noteq> f_name f then
        (case ValidateBoardID (f_board f) of
           Some e \<Rightarrow> Some (IllegalBoard e)
         | None \<Rightarrow> if IsReservedBoardID (f_board f) then Some (ReservedBoard (f_board f)) else None)
      else None)"

definition Register :: "fleet \<Rightarrow> registry \<Rightarrow> registry \<times> (fleet_error, fleet) result" where
  "Register f0 r =
     (case ValidateName (f_name f0) of
        Some e \<Rightarrow> (r, Inl e)
      | None \<Rightarrow>
          (let f = Normalise f0
           in case check_board f of
                Some e \<Rightarrow> (r, Inl e)
              | None \<Rightarrow>
                  (let stored = (case alist_get r (f_name f) of None \<Rightarrow> f | Some old \<Rightarrow> keep_existing old f)
                   in (AList.update (f_name f) stored r, Inr stored))))"

section \<open>Lookups\<close>

definition Get :: "string \<Rightarrow> registry \<Rightarrow> fleet option" where
  "Get name r = alist_get r (NormalizeBoardID name)"

definition List_fleets :: "registry \<Rightarrow> fleet list" where
  "List_fleets r = sort_key f_name (map snd r)"

definition Len :: "registry \<Rightarrow> nat" where
  "Len r = length r"

definition has_pane :: "string \<Rightarrow> fleet \<Rightarrow> bool" where
  "has_pane pane f \<longleftrightarrow> list_ex (\<lambda>m. m_pane m = pane) (f_members f)"

definition FleetOfPane :: "string \<Rightarrow> registry \<Rightarrow> string" where
  "FleetOfPane pane r =
     (if pane = [] then []
      else case List.find (\<lambda>kf. has_pane pane (snd kf)) r of None \<Rightarrow> [] | Some kf \<Rightarrow> f_name (snd kf))"

definition TopRoles :: "string list" where
  "TopRoles = [''roadmap-manager'', ''ceo'', ''portfolio-lead'']"

definition IsTopRole :: "string \<Rightarrow> bool" where
  "IsTopRole role \<longleftrightarrow> to_lower (trim_space role) \<in> set TopRoles"

definition FleetBoardPoster :: "fleet list \<Rightarrow> string \<Rightarrow> string option" where
  "FleetBoardPoster fleets pane0 =
     (let pane = trim_space pane0
      in if pane = [] then None
         else map_option f_name
                (List.find (\<lambda>f. list_ex (\<lambda>m. m_pane m = pane \<and> IsTopRole (m_role m)) (f_members f)) fleets))"

section \<open>Updates\<close>

definition Forget :: "string \<Rightarrow> registry \<Rightarrow> registry \<times> bool" where
  "Forget name r =
     (let key = NormalizeBoardID name
      in if alist_get r key = None then (r, False) else (AList.delete key r, True))"

definition SetState :: "string \<Rightarrow> string \<Rightarrow> registry \<Rightarrow> registry \<times> fleet_error option" where
  "SetState name state r =
     (case alist_get r (NormalizeBoardID name) of
        None \<Rightarrow> (r, Some (NoFleet name))
      | Some f \<Rightarrow>
          if state \<in> {StateRegistered, StateUp, StateDown}
          then (AList.update (NormalizeBoardID name) (f\<lparr>f_state := state\<rparr>) r, None)
          else (r, Some (UnknownState state)))"

definition keep_row :: "member \<Rightarrow> member \<Rightarrow> member" where
  "keep_row m old = m\<lparr>m_status := or_else (m_status m) (m_status old), m_goal := or_else (m_goal m) (m_goal old)\<rparr>"

definition upsert :: "member \<Rightarrow> member list \<Rightarrow> member list" where
  "upsert m ms = (if list_ex (\<lambda>x. m_pane x = m_pane m) ms
                  then update_first (\<lambda>x. m_pane x = m_pane m) (keep_row m) ms
                  else ms @ [m])"

definition UpsertMember :: "string \<Rightarrow> member \<Rightarrow> registry \<Rightarrow> registry \<times> fleet_error option" where
  "UpsertMember name m r =
     (case alist_get r (NormalizeBoardID name) of
        None \<Rightarrow> (r, Some (NoFleet name))
      | Some f \<Rightarrow>
          if is_blank (m_pane m) then (r, Some NeedsPaneId)
          else (AList.update (NormalizeBoardID name) (f\<lparr>f_members := upsert m (f_members f)\<rparr>) r, None))"

definition RemoveMember :: "string \<Rightarrow> string \<Rightarrow> registry \<Rightarrow> registry \<times> bool" where
  "RemoveMember name pane r =
     (case alist_get r (NormalizeBoardID name) of
        None \<Rightarrow> (r, False)
      | Some f \<Rightarrow>
          if has_pane pane f
          then (AList.update (NormalizeBoardID name)
                  (f\<lparr>f_members := remove_first (\<lambda>m. m_pane m = pane) (f_members f)\<rparr>) r, True)
          else (r, False))"

text \<open>The live panes are a map from pane ids to booleans; an empty map keeps every member.\<close>

definition live :: "(string \<times> bool) list \<Rightarrow> string \<Rightarrow> bool" where
  "live panes p = (alist_get panes p = Some True)"

definition keep_live :: "(string \<times> bool) list \<Rightarrow> fleet \<Rightarrow> fleet" where
  "keep_live panes f = f\<lparr>f_members := filter (\<lambda>m. live panes (m_pane m)) (f_members f)\<rparr>"

definition member_count :: "registry \<Rightarrow> nat" where
  "member_count r = sum_list (map (\<lambda>kf. length (f_members (snd kf))) r)"

definition Reconcile :: "(string \<times> bool) list \<Rightarrow> registry \<Rightarrow> registry \<times> nat" where
  "Reconcile panes r =
     (if panes = [] then (r, 0)
      else (alist_map (keep_live panes) r,
            sum_list (map (\<lambda>kf. length (filter (\<lambda>m. \<not> live panes (m_pane m)) (f_members (snd kf)))) r)))"

section \<open>Well-formed registries\<close>

definition fleet_wf :: "string \<Rightarrow> fleet \<Rightarrow> bool" where
  "fleet_wf key f \<longleftrightarrow> f_name f = key \<and> NormalizeBoardID key = key \<and> ValidateName key = None \<and>
     NormalizeBoardID (f_board f) = f_board f \<and> ValidateName (f_board f) = None \<and>
     distinct (map m_pane (f_members f))"

text \<open>A property of every entry of a Go map, with what the map operations keep of it.\<close>

definition alist_all :: "('k \<Rightarrow> 'v \<Rightarrow> bool) \<Rightarrow> ('k \<times> 'v) list \<Rightarrow> bool" where
  "alist_all P m \<longleftrightarrow> alist_wf m \<and> (\<forall>(k, v) \<in> set m. P k v)"

lemma alist_all_Nil [simp]: "alist_all P []"
  by (simp add: alist_all_def)

lemma alist_all_get: "alist_all P m \<Longrightarrow> alist_get m k = Some v \<Longrightarrow> P k v"
  by (auto simp: alist_all_def dest: alist_get_in_set)

lemma alist_all_update: "alist_all P m \<Longrightarrow> P k v \<Longrightarrow> alist_all P (AList.update k v m)"
  by (fastforce simp: alist_all_def dest: alist_update_values)

lemma alist_all_delete: "alist_all P m \<Longrightarrow> alist_all P (AList.delete k m)"
  by (fastforce simp: alist_all_def dest: alist_delete_values)

lemma alist_all_map: "alist_all P m \<Longrightarrow> (\<And>k v. P k v \<Longrightarrow> P k (g v)) \<Longrightarrow> alist_all P (alist_map g m)"
  by (fastforce simp: alist_all_def set_alist_map)

definition registry_wf :: "registry \<Rightarrow> bool" where
  "registry_wf r \<longleftrightarrow> alist_all fleet_wf r"

lemma registry_wf_Nil [simp, well_formed]: "registry_wf []"
  by (simp add: registry_wf_def)

lemma registry_wf_get: "registry_wf r \<Longrightarrow> alist_get r key = Some f \<Longrightarrow> fleet_wf key f"
  unfolding registry_wf_def by (rule alist_all_get)

lemma registry_wf_update [well_formed]:
  "registry_wf r \<Longrightarrow> fleet_wf key f \<Longrightarrow> registry_wf (AList.update key f r)"
  unfolding registry_wf_def by (rule alist_all_update)

lemma registry_wf_delete [well_formed]: "registry_wf r \<Longrightarrow> registry_wf (AList.delete key r)"
  unfolding registry_wf_def by (rule alist_all_delete)

subsection \<open>Edits of one fleet\<close>

text \<open>
  What every operation that rewrites one fleet in place has to promise for the registry to stay
  well formed: the identity and the board stay, and no pane is listed twice.
\<close>

locale fleet_edit =
  fixes edit :: "fleet \<Rightarrow> fleet"
  assumes keeps_name: "f_name (edit f) = f_name f"
    and keeps_board: "f_board (edit f) = f_board f"
    and keeps_distinct: "distinct (map m_pane (f_members f)) \<Longrightarrow> distinct (map m_pane (f_members (edit f)))"
begin

lemma edit_wf: "fleet_wf key f \<Longrightarrow> fleet_wf key (edit f)"
  by (simp add: fleet_wf_def keeps_name keeps_board keeps_distinct)

lemma update_wf:
  "registry_wf r \<Longrightarrow> alist_get r key = Some f \<Longrightarrow> registry_wf (AList.update key (edit f) r)"
  by (intro registry_wf_update edit_wf registry_wf_get)

lemma map_wf: "registry_wf r \<Longrightarrow> registry_wf (alist_map edit r)"
  unfolding registry_wf_def by (rule alist_all_map) (simp_all add: edit_wf)

end

lemma upsert_panes [simp]: "map m_pane (upsert m ms) = append_unique (map m_pane ms) (m_pane m)"
proof -
  have "map m_pane (update_first (\<lambda>x. m_pane x = m_pane m) (keep_row m) ms) = map m_pane ms"
    by (rule map_update_first) (simp add: keep_row_def)
  moreover have "list_ex (\<lambda>x. m_pane x = m_pane m) ms \<longleftrightarrow> m_pane m \<in> set (map m_pane ms)"
    unfolding list_ex_iff set_map image_iff by metis
  ultimately show ?thesis by (auto simp: upsert_def append_unique_def)
qed

lemma remove_first_panes:
  "map m_pane (remove_first (\<lambda>m. m_pane m = pane) ms) = remove1 pane (map m_pane ms)"
  by (induction ms) auto

lemma filter_panes: "map m_pane (filter (\<lambda>m. P (m_pane m)) ms) = filter P (map m_pane ms)"
  by (simp add: filter_map o_def)

interpretation edit_state: fleet_edit "\<lambda>f. f\<lparr>f_state := s\<rparr>" for s
  by unfold_locales simp_all

interpretation edit_upsert: fleet_edit "\<lambda>f. f\<lparr>f_members := upsert m (f_members f)\<rparr>" for m
  by unfold_locales simp_all

interpretation edit_remove: fleet_edit
  "\<lambda>f. f\<lparr>f_members := remove_first (\<lambda>m. m_pane m = pane) (f_members f)\<rparr>" for pane
  by unfold_locales (simp_all add: remove_first_panes)

interpretation edit_live: fleet_edit "keep_live panes" for panes
  by unfold_locales (simp_all add: keep_live_def filter_panes)

subsection \<open>Preservation\<close>

lemma ValidateName_None_iff:
  "ValidateName name = None \<longleftrightarrow>
     trim_space name \<noteq> [] \<and> ValidateBoardID name = None \<and> \<not> IsReservedBoardID name"
  by (auto simp: ValidateName_def split: option.splits)

lemma trim_space_normalized:
  "ValidateBoardID i = None \<Longrightarrow> trim_space (NormalizeBoardID i) \<noteq> []"
  using trim_space_id [of "NormalizeBoardID i"] valid_chars [of i] board_id_char_code by fastforce

lemma ValidateName_normalized:
  "ValidateName name = None \<Longrightarrow> ValidateName (NormalizeBoardID name) = None"
  by (simp add: ValidateName_None_iff ValidateBoardID_normalized IsReservedBoardID_normalized
      trim_space_normalized)

lemma Normalise_simps [simp]:
  "f_name (Normalise f) = NormalizeBoardID (f_name f)"
  "f_members (Normalise f) = f_members f"
  "NormalizeBoardID (f_board (Normalise f)) = f_board (Normalise f)"
  by (simp_all add: Normalise_def Let_def)

lemma check_board_legal:
  assumes "ValidateName (f_name f0) = None" and "check_board (Normalise f0) = None"
  shows "ValidateName (f_board (Normalise f0)) = None"
proof (cases "f_board (Normalise f0) = f_name (Normalise f0)")
  case True
  then show ?thesis using ValidateName_normalized [OF assms(1)] by simp
next
  case False
  then have "ValidateBoardID (f_board (Normalise f0)) = None"
    and reserved: "\<not> IsReservedBoardID (f_board (Normalise f0))"
    using assms(2) by (auto simp: check_board_def split: option.splits if_splits)
  moreover have "trim_space (f_board (Normalise f0)) \<noteq> []"
    using reserved by (auto simp: IsReservedBoardID_def NormalizeBoardID_def)
  ultimately show ?thesis by (simp add: ValidateName_None_iff)
qed

lemma Register_wf [well_formed]:
  assumes "registry_wf r" and "distinct (map m_pane (f_members f0))"
  shows "registry_wf (fst (Register f0 r))"
proof (cases "ValidateName (f_name f0) = None \<and> check_board (Normalise f0) = None")
  case False
  then show ?thesis using assms(1) by (auto simp: Register_def Let_def split: option.splits)
next
  case True
  define key where "key = f_name (Normalise f0)"
  have key: "key = NormalizeBoardID (f_name f0)" by (simp add: key_def)
  have base: "NormalizeBoardID key = key" "ValidateName key = None"
    using True ValidateName_normalized [of "f_name f0"]
      NormalizeBoardID_idem_valid [of "f_name f0"] ValidateName_None_iff [of "f_name f0"]
    by (simp_all add: key)
  have board: "ValidateName (f_board (Normalise f0)) = None"
    using True check_board_legal by blast
  have fresh: "fleet_wf key (Normalise f0)"
    using base board assms(2) by (simp add: fleet_wf_def key_def)
  have "fleet_wf key (case alist_get r key of None \<Rightarrow> Normalise f0 | Some old \<Rightarrow> keep_existing old (Normalise f0))"
  proof (cases "alist_get r key")
    case None
    then show ?thesis using fresh by simp
  next
    case (Some old)
    then show ?thesis
      using fresh registry_wf_get [OF assms(1) Some] by (simp add: fleet_wf_def keep_existing_def)
  qed
  then show ?thesis
    using True registry_wf_update [OF assms(1)] by (simp add: Register_def Let_def key)
qed

lemma Forget_wf [well_formed]: "registry_wf r \<Longrightarrow> registry_wf (fst (Forget name r))"
  by (simp add: Forget_def Let_def registry_wf_delete)

lemma SetState_wf [well_formed]: "registry_wf r \<Longrightarrow> registry_wf (fst (SetState name s r))"
  by (auto simp: SetState_def edit_state.update_wf split: option.splits)

lemma UpsertMember_wf [well_formed]: "registry_wf r \<Longrightarrow> registry_wf (fst (UpsertMember name m r))"
  by (auto simp: UpsertMember_def edit_upsert.update_wf split: option.splits)

lemma RemoveMember_wf [well_formed]: "registry_wf r \<Longrightarrow> registry_wf (fst (RemoveMember name p r))"
  by (auto simp: RemoveMember_def edit_remove.update_wf split: option.splits)

lemma Reconcile_wf [well_formed]: "registry_wf r \<Longrightarrow> registry_wf (fst (Reconcile panes r))"
  by (simp add: Reconcile_def edit_live.map_wf)

section \<open>Rosters: the abstract view\<close>

text \<open>
  What the rest of the session sees of a registry: which fleets there are and which panes are in
  each, in order. The operations refine the obvious ones on such a map.
\<close>

type_synonym roster = "string \<Rightarrow> string list option"

definition roster_of :: "registry \<Rightarrow> roster" where
  "roster_of r = (\<lambda>key. map_option (\<lambda>f. map m_pane (f_members f)) (alist_get r key))"

definition edit_roster :: "string \<Rightarrow> (string list \<Rightarrow> string list) \<Rightarrow> roster \<Rightarrow> roster" where
  "edit_roster key g ro = (case ro key of None \<Rightarrow> ro | Some ps \<Rightarrow> ro(key \<mapsto> g ps))"

lemma roster_of_apply: "alist_get r key = Some f \<Longrightarrow> roster_of r key = Some (map m_pane (f_members f))"
  by (simp add: roster_of_def)

lemma roster_of_None: "roster_of r key = None \<longleftrightarrow> alist_get r key = None"
  by (simp add: roster_of_def)

lemma roster_of_update:
  "roster_of (AList.update key f r) = (roster_of r)(key \<mapsto> map m_pane (f_members f))"
  by (auto simp: roster_of_def)

lemma roster_of_delete: "roster_of (AList.delete key r) = (roster_of r)(key := None)"
  by (auto simp: roster_of_def)

lemma roster_of_same_members:
  "alist_get r key = Some f \<Longrightarrow> map m_pane (f_members f') = map m_pane (f_members f) \<Longrightarrow>
   roster_of (AList.update key f' r) = roster_of r"
  by (auto simp: roster_of_def)

lemmas roster_simps = roster_of_apply roster_of_update roster_of_delete edit_roster_def

lemma UpsertMember_roster:
  "snd (UpsertMember name m r) = None \<Longrightarrow>
   roster_of (fst (UpsertMember name m r)) =
     edit_roster (NormalizeBoardID name) (\<lambda>ps. append_unique ps (m_pane m)) (roster_of r)"
  by (auto simp: UpsertMember_def roster_simps split: option.splits if_splits)

lemma RemoveMember_roster:
  "snd (RemoveMember name p r) \<Longrightarrow>
   roster_of (fst (RemoveMember name p r)) = edit_roster (NormalizeBoardID name) (remove1 p) (roster_of r)"
  by (auto simp: RemoveMember_def roster_simps remove_first_panes split: option.splits if_splits)

lemma Forget_roster:
  "snd (Forget name r) \<Longrightarrow> roster_of (fst (Forget name r)) = (roster_of r)(NormalizeBoardID name := None)"
  by (auto simp: Forget_def Let_def roster_simps split: if_splits)

lemma SetState_roster: "roster_of (fst (SetState name s r)) = roster_of r"
  by (auto simp: SetState_def roster_of_same_members split: option.splits)

lemma Register_roster:
  "is_ok (snd (Register f r)) \<Longrightarrow>
   roster_of (fst (Register f r)) =
     (roster_of r)(NormalizeBoardID (f_name f) \<mapsto>
        (case roster_of r (NormalizeBoardID (f_name f)) of
           None \<Rightarrow> map m_pane (f_members f) | Some ps \<Rightarrow> ps))"
  by (cases "alist_get r (NormalizeBoardID (f_name f))")
    (auto simp: Register_def Let_def roster_of_update keep_existing_def roster_of_def split: option.splits)

lemma Reconcile_roster:
  "panes \<noteq> [] \<Longrightarrow>
   roster_of (fst (Reconcile panes r)) = (\<lambda>key. map_option (filter (live panes)) (roster_of r key))"
  by (auto simp: Reconcile_def roster_of_def keep_live_def filter_panes option.map_comp o_def)

section \<open>Reconciliation\<close>

lemma member_count_Cons [simp]: "member_count (kf # r) = length (f_members (snd kf)) + member_count r"
  by (simp add: member_count_def)

lemma member_count_Nil [simp]: "member_count [] = 0"
  by (simp add: member_count_def)

lemma Reconcile_count: "snd (Reconcile panes r) + member_count (fst (Reconcile panes r)) = member_count r"
proof (cases "panes = []")
  case True
  then show ?thesis by (simp add: Reconcile_def)
next
  case False
  have "sum_list (map (\<lambda>kf. length (filter (\<lambda>m. \<not> live panes (m_pane m)) (f_members (snd kf)))) r) +
      member_count (alist_map (keep_live panes) r) = member_count r"
  proof (induction r)
    case Nil
    show ?case by (simp add: alist_map_def)
  next
    case (Cons kf r)
    have "length (filter (\<lambda>m. live panes (m_pane m)) (f_members (snd kf))) +
        length (filter (\<lambda>m. \<not> live panes (m_pane m)) (f_members (snd kf))) = length (f_members (snd kf))"
      by (rule sum_length_filter_compl)
    with Cons show ?case by (simp add: alist_map_def keep_live_def case_prod_beta)
  qed
  with False show ?thesis by (simp add: Reconcile_def)
qed

section \<open>Listings\<close>

lemma List_fleets_mset: "mset (List_fleets r) = mset (map snd r)"
  by (simp add: List_fleets_def)

lemma List_fleets_sorted: "sorted (map f_name (List_fleets r))"
  by (simp add: List_fleets_def)

end
