(* ===== verification/Digraph.thy ===== *)
theory Digraph
  imports Prelude
begin

text \<open>
  The two graph algorithms the fleet and the board run on \<open>blocked_by\<close> edges.

  \<^item> The depth-first search with white, grey and black nodes that reports the ring a back edge
    closes. The program writes it three times (\<open>blockedCycles\<close>, \<open>deadlockCycles\<close> and
    \<open>flowDepCycles\<close>), differing only in what it does with a ring and in whether a node without
    edges is entered; here it is written once over those two parameters, and the locale
    \<open>ring_search\<close> states what the client's ring handler must satisfy and proves soundness,
    completeness and the fuel bound.
  \<^item> The stack-driven count of the nodes reachable from some start nodes (\<open>waitGraph\<close>,
    \<open>waitersOf\<close>), proved equal to the size of the reflexive transitive closure less the start.

  A graph is a Go map from a node to the list of its successors.
\<close>

section \<open>Graphs\<close>

type_synonym 'n graph = "('n \<times> 'n list) list"

definition nexts :: "'n graph \<Rightarrow> 'n \<Rightarrow> 'n list" where
  "nexts g n = (case alist_get g n of None \<Rightarrow> [] | Some l \<Rightarrow> l)"

definition edge :: "'n graph \<Rightarrow> ('n \<times> 'n) set" where
  "edge g = {(u, v). v \<in> set (nexts g u)}"

text \<open>\<open>g[b] = append(g[b], m)\<close>\<close>

definition add_next :: "'n graph \<Rightarrow> 'n \<Rightarrow> 'n \<Rightarrow> 'n graph" where
  "add_next g b m = AList.update b (nexts g b @ [m]) g"

definition graph_nodes :: "'n graph \<Rightarrow> 'n list" where
  "graph_nodes g = keys g @ concat (map snd g)"

lemma nexts_add_next [simp]:
  "nexts (add_next g b m) n = (if n = b then nexts g n @ [m] else nexts g n)"
  by (simp add: nexts_def add_next_def)

lemma nexts_Nil [simp]: "nexts [] n = []"
  by (simp add: nexts_def alist_get_def)

lemma nexts_entry: "v \<in> set (nexts g u) \<Longrightarrow> \<exists>l. (u, l) \<in> set g \<and> v \<in> set l"
  by (cases "alist_get g u") (auto simp: nexts_def dest: alist_get_in_set)

lemma nexts_key: "v \<in> set (nexts g u) \<Longrightarrow> u \<in> set (keys g)"
  using nexts_entry [of v g u] by force

lemma nexts_in_nodes: "v \<in> set (nexts g u) \<Longrightarrow> v \<in> set (graph_nodes g)"
  using nexts_entry [of v g u] by (force simp: graph_nodes_def)

lemma keys_in_nodes: "u \<in> set (keys g) \<Longrightarrow> u \<in> set (graph_nodes g)"
  by (simp add: graph_nodes_def)

lemma edge_iff [simp]: "(u, v) \<in> edge g \<longleftrightarrow> v \<in> set (nexts g u)"
  by (simp add: edge_def)

lemma edge_finite: "finite (edge g)"
proof (rule finite_subset)
  show "edge g \<subseteq> set (graph_nodes g) \<times> set (graph_nodes g)"
    by (auto simp: edge_def dest: nexts_in_nodes nexts_key [THEN keys_in_nodes])
qed simp

section \<open>Counting what is reachable\<close>

text \<open>
  The loop pops the last element of the stack; the list here is the stack from its top, so a
  pop takes the head and the pushed successors are reversed in front of it. \<open>seen\<close> lists the
  nodes marked so far and \<open>n\<close> counts those the loop marked.
\<close>

function reach_loop :: "'n graph \<Rightarrow> 'n list \<Rightarrow> 'n list \<Rightarrow> nat \<Rightarrow> nat \<times> 'n list" where
  "reach_loop g [] seen n = (n, seen)"
| "reach_loop g (x # st) seen n =
     (if x \<in> set seen then reach_loop g st seen n
      else reach_loop g (rev (nexts g x) @ st) (x # seen) (Suc n))"
  by pat_completeness auto
termination
proof (relation "inv_image (finite_psubset <*lex*> less_than)
    (\<lambda>(g, st, seen, n). (set (keys g) - set seen, length st))", goal_cases)
  case 1
  show ?case by auto
next
  case (2 g x st seen n)
  then show ?case by simp
next
  case (3 g x st seen n)
  show ?case
  proof (cases "x \<in> set (keys g)")
    case True
    with 3 show ?thesis by (auto simp: finite_psubset_def)
  next
    case False
    then have "nexts g x = []"
      using nexts_key [of _ g x] by (cases "nexts g x") auto
    moreover have "set (keys g) - insert x (set seen) = set (keys g) - set seen"
      using False by auto
    ultimately show ?thesis by simp
  qed
qed

lemma reach_loop_mono: "reach_loop g st seen n = (n', seen') \<Longrightarrow> set seen \<subseteq> set seen'"
proof (induction g st seen n rule: reach_loop.induct)
  case (1 g seen n)
  then show ?case by simp
next
  case (2 g x st seen n)
  then show ?case by (cases "x \<in> set seen") auto
qed

lemma reach_loop_count:
  "distinct seen \<Longrightarrow> reach_loop g st seen n = (n', seen') \<Longrightarrow>
   distinct seen' \<and> set seen \<subseteq> set seen' \<and> n' + length seen = n + length seen'"
proof (induction g st seen n rule: reach_loop.induct)
  case (1 g seen n)
  then show ?case by simp
next
  case (2 g x st seen n)
  then show ?case by (cases "x \<in> set seen") auto
qed

lemma reach_loop_sound:
  "reach_loop g st seen n = (n', seen') \<Longrightarrow> set seen' \<subseteq> set seen \<union> (edge g)\<^sup>* `` set st"
proof (induction g st seen n rule: reach_loop.induct)
  case (1 g seen n)
  then show ?case by auto
next
  case (2 g x st seen n)
  show ?case
  proof (cases "x \<in> set seen")
    case True
    with 2 show ?thesis by auto
  next
    case False
    then have "set seen' \<subseteq> set (x # seen) \<union> (edge g)\<^sup>* `` set (rev (nexts g x) @ st)"
      using 2 by simp
    moreover have "(edge g)\<^sup>* `` set (nexts g x) \<subseteq> (edge g)\<^sup>* `` {x}"
      by (auto intro: converse_rtrancl_into_rtrancl)
    ultimately show ?thesis by fastforce
  qed
qed

lemma reach_loop_closed:
  "reach_loop g st seen n = (n', seen') \<Longrightarrow> edge g `` set seen \<subseteq> set seen \<union> set st \<Longrightarrow>
   set st \<subseteq> set seen' \<and> edge g `` set seen' \<subseteq> set seen'"
proof (induction g st seen n rule: reach_loop.induct)
  case (1 g seen n)
  then show ?case by auto
next
  case (2 g x st seen n)
  show ?case
  proof (cases "x \<in> set seen")
    case True
    then have run: "reach_loop g st seen n = (n', seen')" using 2 by simp
    have "edge g `` set seen \<subseteq> set seen \<union> set st" using 2(4) True by auto
    then have "set st \<subseteq> set seen' \<and> edge g `` set seen' \<subseteq> set seen'"
      using 2(1) [OF True run] by blast
    moreover have "set seen \<subseteq> set seen'"
      using run by (rule reach_loop_mono)
    ultimately show ?thesis using True by auto
  next
    case False
    then have run: "reach_loop g (rev (nexts g x) @ st) (x # seen) (Suc n) = (n', seen')"
      using 2 by simp
    have "edge g `` set (x # seen) \<subseteq> set (x # seen) \<union> set (rev (nexts g x) @ st)"
      using 2(4) by auto
    then have "set (rev (nexts g x) @ st) \<subseteq> set seen' \<and> edge g `` set seen' \<subseteq> set seen'"
      using 2(2) [OF False run] by blast
    moreover have "set (x # seen) \<subseteq> set seen'"
      using run by (rule reach_loop_mono)
    ultimately show ?thesis by auto
  qed
qed

text \<open>How many nodes other than \<open>ids\<close> are reachable from \<open>ids\<close>, as the loop counts them.\<close>

definition reach_count :: "'n graph \<Rightarrow> 'n list \<Rightarrow> nat" where
  "reach_count g ids = fst (reach_loop g (rev (concat (map (nexts g) ids))) (dedup ids) 0)"

lemma concat_nexts_Image: "set (concat (map (nexts g) ids)) = edge g `` set ids"
  by (auto simp: edge_def)

lemma rtrancl_step_Image: "r\<^sup>* `` S = S \<union> r\<^sup>* `` (r `` S)"
  by (auto elim: converse_rtranclE intro: converse_rtrancl_into_rtrancl)

lemma closed_rtrancl_Image: "r `` X \<subseteq> X \<Longrightarrow> S \<subseteq> X \<Longrightarrow> r\<^sup>* `` S \<subseteq> X"
proof
  fix y
  assume closed: "r `` X \<subseteq> X" and sub: "S \<subseteq> X" and "y \<in> r\<^sup>* `` S"
  then obtain x where "x \<in> S" and "(x, y) \<in> r\<^sup>*" by auto
  from this(2) show "y \<in> X"
    by (induction rule: rtrancl_induct) (use closed sub \<open>x \<in> S\<close> in auto)
qed

text \<open>The count is the number of nodes outside \<open>ids\<close> that a path from \<open>ids\<close> leads to.\<close>

lemma reach_count_card: "reach_count g ids = card ((edge g)\<^sup>* `` set ids - set ids)"
proof -
  obtain n seen where run:
    "reach_loop g (rev (concat (map (nexts g) ids))) (dedup ids) 0 = (n, seen)"
    by (metis surj_pair)
  have st: "set (rev (concat (map (nexts g) ids))) = edge g `` set ids"
    using concat_nexts_Image [of g ids] by simp
  have count: "distinct seen" "set ids \<subseteq> set seen" "n + length (dedup ids) = length seen"
    using reach_loop_count [OF _ run] by auto
  have "set seen \<subseteq> set ids \<union> (edge g)\<^sup>* `` (edge g `` set ids)"
    using reach_loop_sound [OF run] st by simp
  then have "set seen \<subseteq> (edge g)\<^sup>* `` set ids"
    by (subst rtrancl_step_Image)
  moreover have "edge g `` set ids \<subseteq> set seen \<and> edge g `` set seen \<subseteq> set seen"
    using reach_loop_closed [OF run] st by simp
  then have "(edge g)\<^sup>* `` set ids \<subseteq> set seen"
    using closed_rtrancl_Image count(2) by blast
  ultimately have seen: "set seen = (edge g)\<^sup>* `` set ids"
    by (rule equalityI)
  have "card (set seen - set ids) = card (set seen) - card (set ids)"
    using count(2) by (simp add: card_Diff_subset)
  also have "\<dots> = length seen - length (dedup ids)"
    using distinct_card [OF count(1)] distinct_card [OF distinct_dedup [of ids]] by simp
  also have "\<dots> = n" using count(3) by simp
  finally show ?thesis using seen run by (simp add: reach_count_def)
qed

section \<open>Depth-first search for rings\<close>

datatype colour = White | Grey | Black

text \<open>The search state: \<open>stack\<close> grows at its end, as the Go slice does.\<close>

record ('n, 'r) dfs =
  colour_of :: "'n \<Rightarrow> colour"
  path :: "'n list"
  rings :: 'r

text \<open>\<open>stack[i:]\<close> for the last \<open>i\<close> with \<open>stack[i] == m\<close>.\<close>

definition ring_from :: "'n \<Rightarrow> 'n list \<Rightarrow> 'n list" where
  "ring_from m st = m # rev (takeWhile (\<lambda>x. x \<noteq> m) (rev st))"

text \<open>
  \<open>visit\<close> colours its node grey, pushes it, walks its successors, pops and colours it black.
  \<open>ok\<close> is the guard on entering a white successor and \<open>on_ring\<close> what a back edge does with its
  ring. The fuel bounds the depth of the recursion; \<open>None\<close> is running out of it.
\<close>

function (sequential) dfs_visit ::
  "'n graph \<Rightarrow> ('n \<Rightarrow> bool) \<Rightarrow> ('n list \<Rightarrow> 'r \<Rightarrow> 'r) \<Rightarrow> nat \<Rightarrow> 'n \<Rightarrow> ('n, 'r) dfs \<Rightarrow> ('n, 'r) dfs option"
and dfs_nexts ::
  "'n graph \<Rightarrow> ('n \<Rightarrow> bool) \<Rightarrow> ('n list \<Rightarrow> 'r \<Rightarrow> 'r) \<Rightarrow> nat \<Rightarrow> 'n list \<Rightarrow> ('n, 'r) dfs \<Rightarrow> ('n, 'r) dfs option"
where
  "dfs_visit g ok on_ring 0 n s = None"
| "dfs_visit g ok on_ring (Suc k) n s =
     (case dfs_nexts g ok on_ring k (nexts g n)
             (s\<lparr>colour_of := (colour_of s)(n := Grey), path := path s @ [n]\<rparr>) of
        None \<Rightarrow> None
      | Some t \<Rightarrow> Some (t\<lparr>colour_of := (colour_of t)(n := Black), path := butlast (path t)\<rparr>))"
| "dfs_nexts g ok on_ring k [] s = Some s"
| "dfs_nexts g ok on_ring k (m # ms) s =
     (case (case colour_of s m of
              White \<Rightarrow> if ok m then dfs_visit g ok on_ring k m s else Some s
            | Grey \<Rightarrow> Some (s\<lparr>rings := on_ring (ring_from m (path s)) (rings s)\<rparr>)
            | Black \<Rightarrow> Some s) of
        None \<Rightarrow> None
      | Some t \<Rightarrow> dfs_nexts g ok on_ring k ms t)"
  by pat_completeness auto
termination
  by (relation "measures [\<lambda>x. (case x of Inl (g, ok, on_ring, k, n, s) \<Rightarrow> k
                               | Inr (g, ok, on_ring, k, ms, s) \<Rightarrow> k),
                          \<lambda>x. (case x of Inl (g, ok, on_ring, k, n, s) \<Rightarrow> 0
                               | Inr (g, ok, on_ring, k, ms, s) \<Rightarrow> Suc (length ms))]") auto

fun dfs_roots ::
  "'n graph \<Rightarrow> ('n \<Rightarrow> bool) \<Rightarrow> ('n list \<Rightarrow> 'r \<Rightarrow> 'r) \<Rightarrow> nat \<Rightarrow> 'n list \<Rightarrow> ('n, 'r) dfs \<Rightarrow> ('n, 'r) dfs option"
where
  "dfs_roots g ok on_ring k [] s = Some s"
| "dfs_roots g ok on_ring k (r # rs) s =
     (case (if colour_of s r = White then dfs_visit g ok on_ring k r s else Some s) of
        None \<Rightarrow> None
      | Some t \<Rightarrow> dfs_roots g ok on_ring k rs t)"

definition dfs_start :: "'r \<Rightarrow> ('n, 'r) dfs" where
  "dfs_start r = \<lparr>colour_of = (\<lambda>_. White), path = [], rings = r\<rparr>"

definition dfs_fuel :: "'n graph \<Rightarrow> nat" where
  "dfs_fuel g = Suc (length (graph_nodes g))"

definition dfs_run ::
  "'n graph \<Rightarrow> ('n \<Rightarrow> bool) \<Rightarrow> ('n list \<Rightarrow> 'r \<Rightarrow> 'r) \<Rightarrow> 'n list \<Rightarrow> 'r \<Rightarrow> 'r option" where
  "dfs_run g ok on_ring roots r0 =
     map_option rings (dfs_roots g ok on_ring (dfs_fuel g) roots (dfs_start r0))"

text \<open>A ring: distinct nodes, each with an edge to the next and the last to the first.\<close>

definition is_ring :: "'n graph \<Rightarrow> 'n list \<Rightarrow> bool" where
  "is_ring g c \<longleftrightarrow> c \<noteq> [] \<and> distinct c \<and>
     successively (\<lambda>u v. v \<in> set (nexts g u)) c \<and> hd c \<in> set (nexts g (last c))"

lemma takeWhile_rev_split:
  assumes "m \<in> set st"
  shows "\<exists>pre. st = pre @ ring_from m st"
proof -
  let ?t = "takeWhile (\<lambda>x. x \<noteq> m) (rev st)"
  obtain d where d: "dropWhile (\<lambda>x. x \<noteq> m) (rev st) = m # d"
    using assms by (metis (mono_tags, lifting) dropWhile_eq_Nil_conv hd_Cons_tl hd_dropWhile set_rev)
  have "rev st = ?t @ m # d" using d by (metis takeWhile_dropWhile_id)
  then have "st = rev d @ m # rev ?t" by (metis append.assoc append_Cons append_Nil rev_append rev_rev_ident rev.simps(2))
  then show ?thesis by (auto simp: ring_from_def)
qed

definition dfs_inv :: "'n graph \<Rightarrow> ('n, 'r) dfs \<Rightarrow> bool" where
  "dfs_inv g s \<longleftrightarrow> distinct (path s) \<and> successively (\<lambda>u v. v \<in> set (nexts g u)) (path s) \<and>
     (\<forall>x. colour_of s x = Grey \<longleftrightarrow> x \<in> set (path s))"

text \<open>What a completed call leaves behind: the stack as it was, settled colours untouched.\<close>

definition dfs_post :: "'n graph \<Rightarrow> ('n, 'r) dfs \<Rightarrow> ('n, 'r) dfs \<Rightarrow> bool" where
  "dfs_post g s t \<longleftrightarrow> dfs_inv g t \<and> path t = path s \<and>
     (\<forall>x. colour_of s x \<noteq> White \<longrightarrow> colour_of t x = colour_of s x)"

lemma dfs_post_refl: "dfs_inv g s \<Longrightarrow> dfs_post g s s"
  by (simp add: dfs_post_def)

lemma dfs_post_trans: "dfs_post g s t \<Longrightarrow> dfs_post g t u \<Longrightarrow> dfs_post g s u"
  by (simp add: dfs_post_def)

lemma ring_from_is_ring:
  assumes "dfs_inv g s" and "m \<in> set (path s)" and "m \<in> set (nexts g (last (path s)))"
  shows "is_ring g (ring_from m (path s))"
proof -
  obtain pre where pre: "path s = pre @ ring_from m (path s)"
    using takeWhile_rev_split [OF assms(2)] by blast
  have ne: "ring_from m (path s) \<noteq> []" "hd (ring_from m (path s)) = m"
    by (simp_all add: ring_from_def)
  have "distinct (pre @ ring_from m (path s))"
    and "successively (\<lambda>u v. v \<in> set (nexts g u)) (pre @ ring_from m (path s))"
    using assms(1) pre by (simp_all add: dfs_inv_def)
  moreover have "last (ring_from m (path s)) = last (path s)"
    using pre ne(1) by (metis last_appendR)
  ultimately show ?thesis
    using ne assms(3) by (simp add: is_ring_def successively_append_iff)
qed

lemma dfs_inv_push:
  assumes "dfs_inv g s" and "colour_of s n = White"
    and "path s \<noteq> [] \<longrightarrow> n \<in> set (nexts g (last (path s)))"
  shows "dfs_inv g (s\<lparr>colour_of := (colour_of s)(n := Grey), path := path s @ [n]\<rparr>)"
proof -
  have "n \<notin> set (path s)" using assms(1,2) by (metis colour.distinct(1) dfs_inv_def)
  then show ?thesis using assms by (auto simp: dfs_inv_def successively_append_iff)
qed

lemma dfs_inv_pop:
  assumes "dfs_inv g s" and "colour_of s n = White"
    and post: "dfs_post g (s\<lparr>colour_of := (colour_of s)(n := Grey), path := path s @ [n]\<rparr>) t"
  shows "dfs_post g s (t\<lparr>colour_of := (colour_of t)(n := Black), path := butlast (path t)\<rparr>)"
proof -
  have n: "n \<notin> set (path s)" using assms(1,2) by (metis colour.distinct(1) dfs_inv_def)
  have pt: "path t = path s @ [n]" and it: "dfs_inv g t"
    and c: "\<And>x. colour_of s x \<noteq> White \<Longrightarrow> x \<noteq> n \<Longrightarrow> colour_of t x = colour_of s x"
    using post by (auto simp: dfs_post_def)
  have "dfs_inv g (t\<lparr>colour_of := (colour_of t)(n := Black), path := butlast (path t)\<rparr>)"
    using it pt n by (auto simp: dfs_inv_def successively_append_iff)
  then show ?thesis using pt c assms(2) by (auto simp: dfs_post_def)
qed

text \<open>
  The black nodes can be ranked along the edges: what holds as long as no ring was reported.
\<close>

definition settled :: "'n graph \<Rightarrow> ('n \<Rightarrow> bool) \<Rightarrow> ('n, 'r) dfs \<Rightarrow> bool" where
  "settled g ok s \<longleftrightarrow> (\<exists>f :: 'n \<Rightarrow> nat. \<forall>u v. colour_of s u = Black \<longrightarrow> v \<in> set (nexts g u) \<longrightarrow>
      (colour_of s v = Black \<or> \<not> ok v) \<and> f v < f u)"

lemma settled_grey:
  assumes "settled g ok s" and "colour_of s n = White"
  shows "settled g ok (s\<lparr>colour_of := (colour_of s)(n := Grey), path := p\<rparr>)"
proof -
  from assms(1) obtain f :: "_ \<Rightarrow> nat" where f:
    "\<And>u v. colour_of s u = Black \<Longrightarrow> v \<in> set (nexts g u) \<Longrightarrow>
       (colour_of s v = Black \<or> \<not> ok v) \<and> f v < f u"
    unfolding settled_def by blast
  have "(((colour_of s)(n := Grey)) v = Black \<or> \<not> ok v) \<and> f v < f u"
    if "((colour_of s)(n := Grey)) u = Black" and v: "v \<in> set (nexts g u)" for u v
  proof -
    have "colour_of s u = Black" using that(1) by (auto split: if_splits)
    from f [OF this v] show ?thesis using assms(2) by auto
  qed
  then show ?thesis unfolding settled_def by (auto intro!: exI [of _ f])
qed

lemma settled_blacken:
  assumes settled: "settled g ok t" and n: "colour_of t n \<noteq> Black" "ok n"
    and closed: "\<forall>v \<in> set (nexts g n). colour_of t v = Black \<or> \<not> ok v"
  shows "settled g ok (t\<lparr>colour_of := (colour_of t)(n := Black), path := p\<rparr>)"
proof -
  from settled obtain f :: "_ \<Rightarrow> nat" where f:
    "\<And>u v. colour_of t u = Black \<Longrightarrow> v \<in> set (nexts g u) \<Longrightarrow>
       (colour_of t v = Black \<or> \<not> ok v) \<and> f v < f u"
    unfolding settled_def by blast
  define f' where "f' = f(n := Suc (sum_list (map f (nexts g n))))"
  have "(((colour_of t)(n := Black)) v = Black \<or> \<not> ok v) \<and> f' v < f' u"
    if u: "((colour_of t)(n := Black)) u = Black" and v: "v \<in> set (nexts g u)" for u v
  proof (cases "u = n")
    case True
    then have "v \<noteq> n" using closed n v by auto
    moreover have "f v < Suc (sum_list (map f (nexts g n)))"
      using v True by (simp add: less_Suc_eq_le member_le_sum_list)
    ultimately show ?thesis using closed v True by (auto simp: f'_def)
  next
    case False
    then have "colour_of t u = Black" using u by simp
    from f [OF this v] n have "colour_of t v = Black \<or> \<not> ok v" "f v < f u" "v \<noteq> n" by auto
    then show ?thesis using False by (auto simp: f'_def)
  qed
  then show ?thesis unfolding settled_def by (auto intro!: exI [of _ f'])
qed

text \<open>
  The contract between the search and what its client does with a ring: \<open>ok\<close> may refuse only
  nodes without successors, \<open>good\<close> holds of the result when every ring handed over was one, and
  \<open>hit\<close> tells that a ring has been reported.
\<close>

locale ring_search =
  fixes g :: "'n graph" and ok :: "'n \<Rightarrow> bool" and on_ring :: "'n list \<Rightarrow> 'r \<Rightarrow> 'r"
    and good :: "'r \<Rightarrow> bool" and hit :: "'r \<Rightarrow> bool"
  assumes refused: "\<not> ok n \<Longrightarrow> nexts g n = []"
    and keeps_good: "is_ring g c \<Longrightarrow> good r \<Longrightarrow> good (on_ring c r)"
    and reports: "is_ring g c \<Longrightarrow> good r \<Longrightarrow> hit (on_ring c r)"
begin

text \<open>Soundness: every reported ring is a ring, and a call leaves the stack as it found it.\<close>

lemma visit_good_step:
  assumes nexts: "\<And>ms s t. dfs_nexts g ok on_ring k ms s = Some t \<Longrightarrow> dfs_inv g s \<Longrightarrow> path s \<noteq> [] \<Longrightarrow>
      set ms \<subseteq> set (nexts g (last (path s))) \<Longrightarrow> good (rings s) \<Longrightarrow> dfs_post g s t \<and> good (rings t)"
    and run: "dfs_visit g ok on_ring (Suc k) n s = Some t" and inv: "dfs_inv g s"
    and white: "colour_of s n = White"
    and tip: "path s \<noteq> [] \<longrightarrow> n \<in> set (nexts g (last (path s)))" and "good (rings s)"
  shows "dfs_post g s t \<and> colour_of t n = Black \<and> good (rings t)"
proof -
  let ?s = "s\<lparr>colour_of := (colour_of s)(n := Grey), path := path s @ [n]\<rparr>"
  from run obtain u where u: "dfs_nexts g ok on_ring k (nexts g n) ?s = Some u"
    and t: "t = u\<lparr>colour_of := (colour_of u)(n := Black), path := butlast (path u)\<rparr>"
    by (auto split: option.splits)
  have "dfs_post g ?s u \<and> good (rings u)"
    using nexts [OF u] dfs_inv_push [OF inv white tip] \<open>good (rings s)\<close> by simp
  then show ?thesis using dfs_inv_pop [OF inv white] t by simp
qed

lemma nexts_good_step:
  assumes visit: "\<And>n s t. dfs_visit g ok on_ring k n s = Some t \<Longrightarrow> dfs_inv g s \<Longrightarrow>
      colour_of s n = White \<Longrightarrow> (path s \<noteq> [] \<longrightarrow> n \<in> set (nexts g (last (path s)))) \<Longrightarrow>
      good (rings s) \<Longrightarrow> dfs_post g s t \<and> good (rings t)"
  shows "dfs_nexts g ok on_ring k ms s = Some t \<Longrightarrow> dfs_inv g s \<Longrightarrow> path s \<noteq> [] \<Longrightarrow>
      set ms \<subseteq> set (nexts g (last (path s))) \<Longrightarrow> good (rings s) \<Longrightarrow> dfs_post g s t \<and> good (rings t)"
proof (induction ms arbitrary: s)
  case Nil
  then show ?case by (simp add: dfs_post_refl)
next
  case (Cons m ms)
  from Cons.prems(1) obtain u where
    u: "(case colour_of s m of
              White \<Rightarrow> if ok m then dfs_visit g ok on_ring k m s else Some s
            | Grey \<Rightarrow> Some (s\<lparr>rings := on_ring (ring_from m (path s)) (rings s)\<rparr>)
            | Black \<Rightarrow> Some s) = Some u"
    and rest: "dfs_nexts g ok on_ring k ms u = Some t"
    by (auto split: option.splits)
  have m: "m \<in> set (nexts g (last (path s)))" using Cons.prems(4) by simp
  have su: "dfs_post g s u \<and> good (rings u)"
  proof (cases "colour_of s m")
    case White
    show ?thesis
    proof (cases "ok m")
      case True
      then show ?thesis
        using u White visit Cons.prems(2,5) m by simp
    next
      case False
      then show ?thesis using u White Cons.prems(2,5) by (simp add: dfs_post_refl)
    qed
  next
    case Grey
    then have "m \<in> set (path s)" using Cons.prems(2) by (simp add: dfs_inv_def)
    then have "is_ring g (ring_from m (path s))"
      by (rule ring_from_is_ring [OF Cons.prems(2) _ m])
    then show ?thesis
      using u Grey Cons.prems(2,5) keeps_good by (auto simp: dfs_post_def dfs_inv_def)
  next
    case Black
    then show ?thesis using u Cons.prems(2,5) by (simp add: dfs_post_refl)
  qed
  then have "dfs_post g u t \<and> good (rings t)"
    using Cons.IH [OF rest] Cons.prems(3,4) by (auto simp: dfs_post_def)
  with su show ?case by (meson dfs_post_trans)
qed

lemma visit_good:
  "dfs_visit g ok on_ring k n s = Some t \<Longrightarrow> dfs_inv g s \<Longrightarrow> colour_of s n = White \<Longrightarrow>
     (path s \<noteq> [] \<longrightarrow> n \<in> set (nexts g (last (path s)))) \<Longrightarrow> good (rings s) \<Longrightarrow>
     dfs_post g s t \<and> colour_of t n = Black \<and> good (rings t)"
proof (induction k arbitrary: n s t)
  case 0
  then show ?case by simp
next
  case (Suc k)
  show ?case
    by (rule visit_good_step [OF nexts_good_step Suc.prems]) (use Suc.IH in blast)+
qed

lemma nexts_good:
  "dfs_nexts g ok on_ring k ms s = Some t \<Longrightarrow> dfs_inv g s \<Longrightarrow> path s \<noteq> [] \<Longrightarrow>
      set ms \<subseteq> set (nexts g (last (path s))) \<Longrightarrow> good (rings s) \<Longrightarrow> dfs_post g s t \<and> good (rings t)"
  using nexts_good_step visit_good by blast

lemma visit_settled_step:
  assumes nexts: "\<And>ms s t. dfs_nexts g ok on_ring k ms s = Some t \<Longrightarrow> dfs_inv g s \<Longrightarrow> path s \<noteq> [] \<Longrightarrow>
      set ms \<subseteq> set (nexts g (last (path s))) \<Longrightarrow> good (rings s) \<Longrightarrow>
      (hit (rings t) \<or> rings t = rings s) \<and>
      (settled g ok s \<longrightarrow> hit (rings t) \<or> settled g ok t \<and> (\<forall>m \<in> set ms. colour_of t m = Black \<or> \<not> ok m))"
    and run: "dfs_visit g ok on_ring (Suc k) n s = Some t" and inv: "dfs_inv g s"
    and white: "colour_of s n = White" and "ok n"
    and tip: "path s \<noteq> [] \<longrightarrow> n \<in> set (nexts g (last (path s)))" and "good (rings s)"
  shows "(hit (rings t) \<or> rings t = rings s) \<and> (settled g ok s \<longrightarrow> hit (rings t) \<or> settled g ok t)"
proof -
  let ?s = "s\<lparr>colour_of := (colour_of s)(n := Grey), path := path s @ [n]\<rparr>"
  from run obtain u where u: "dfs_nexts g ok on_ring k (nexts g n) ?s = Some u"
    and t: "t = u\<lparr>colour_of := (colour_of u)(n := Black), path := butlast (path u)\<rparr>"
    by (auto split: option.splits)
  have push: "dfs_inv g ?s" using dfs_inv_push [OF inv white tip] .
  have step: "(hit (rings u) \<or> rings u = rings ?s) \<and> (settled g ok ?s \<longrightarrow> hit (rings u) \<or>
      settled g ok u \<and> (\<forall>m \<in> set (nexts g n). colour_of u m = Black \<or> \<not> ok m))"
    using nexts [OF u push] \<open>good (rings s)\<close> by simp
  have "dfs_post g ?s u" using nexts_good [OF u push] \<open>good (rings s)\<close> by simp
  then have "colour_of u n = Grey" by (simp add: dfs_post_def)
  then have "settled g ok u \<Longrightarrow> \<forall>m \<in> set (nexts g n). colour_of u m = Black \<or> \<not> ok m \<Longrightarrow> settled g ok t"
    unfolding t by (intro settled_blacken) (use \<open>ok n\<close> in auto)
  moreover have "settled g ok s \<Longrightarrow> settled g ok ?s" by (rule settled_grey [OF _ white])
  ultimately show ?thesis using step t by auto
qed

lemma nexts_settled_step:
  assumes visit: "\<And>n s t. dfs_visit g ok on_ring k n s = Some t \<Longrightarrow> dfs_inv g s \<Longrightarrow>
      colour_of s n = White \<Longrightarrow> ok n \<Longrightarrow> (path s \<noteq> [] \<longrightarrow> n \<in> set (nexts g (last (path s)))) \<Longrightarrow>
      good (rings s) \<Longrightarrow>
      (hit (rings t) \<or> rings t = rings s) \<and> (settled g ok s \<longrightarrow> hit (rings t) \<or> settled g ok t)"
  shows "dfs_nexts g ok on_ring k ms s = Some t \<Longrightarrow> dfs_inv g s \<Longrightarrow> path s \<noteq> [] \<Longrightarrow>
      set ms \<subseteq> set (nexts g (last (path s))) \<Longrightarrow> good (rings s) \<Longrightarrow>
      (hit (rings t) \<or> rings t = rings s) \<and>
      (settled g ok s \<longrightarrow> hit (rings t) \<or> settled g ok t \<and> (\<forall>m \<in> set ms. colour_of t m = Black \<or> \<not> ok m))"
proof (induction ms arbitrary: s)
  case Nil
  then show ?case by simp
next
  case (Cons m ms)
  let ?c = "case colour_of s m of
              White \<Rightarrow> if ok m then dfs_visit g ok on_ring k m s else Some s
            | Grey \<Rightarrow> Some (s\<lparr>rings := on_ring (ring_from m (path s)) (rings s)\<rparr>)
            | Black \<Rightarrow> Some s"
  from Cons.prems(1) obtain u where u: "?c = Some u"
    and rest: "dfs_nexts g ok on_ring k ms u = Some t"
    by (auto split: option.splits)
  have m: "m \<in> set (nexts g (last (path s)))" using Cons.prems(4) by simp
  have one: "dfs_nexts g ok on_ring k [m] s = Some u" using u by simp
  have post: "dfs_post g s u \<and> good (rings u)"
    using nexts_good [OF one Cons.prems(2,3)] m Cons.prems(5) by simp
  have head: "(hit (rings u) \<or> rings u = rings s) \<and>
      (settled g ok s \<longrightarrow> hit (rings u) \<or> settled g ok u \<and> (colour_of u m = Black \<or> \<not> ok m))"
  proof (cases "colour_of s m")
    case White
    then show ?thesis
    proof (cases "ok m")
      case True
      then have v: "dfs_visit g ok on_ring k m s = Some u" using u White by simp
      have "colour_of u m = Black"
        using visit_good [OF v Cons.prems(2) White] m Cons.prems(5) by simp
      then show ?thesis using visit [OF v Cons.prems(2) White True] m Cons.prems(5) by simp
    next
      case False
      then show ?thesis using u White by simp
    qed
  next
    case Grey
    then have "m \<in> set (path s)" using Cons.prems(2) by (simp add: dfs_inv_def)
    then have "is_ring g (ring_from m (path s))"
      by (rule ring_from_is_ring [OF Cons.prems(2) _ m])
    then show ?thesis using u Grey Cons.prems(5) reports by auto
  next
    case Black
    then show ?thesis using u by simp
  qed
  have pu: "path u = path s" "dfs_inv g u" using post by (auto simp: dfs_post_def)
  have tail: "(hit (rings t) \<or> rings t = rings u) \<and>
      (settled g ok u \<longrightarrow> hit (rings t) \<or> settled g ok t \<and> (\<forall>m \<in> set ms. colour_of t m = Black \<or> \<not> ok m))"
    using Cons.IH [OF rest] pu Cons.prems(3,4) post by simp
  have "dfs_post g u t"
    using nexts_good [OF rest] pu Cons.prems(3,4) post by simp
  then have "colour_of u m = Black \<Longrightarrow> colour_of t m = Black" by (simp add: dfs_post_def)
  then show ?case using head tail by auto
qed

lemma visit_settled:
  "dfs_visit g ok on_ring k n s = Some t \<Longrightarrow> dfs_inv g s \<Longrightarrow> colour_of s n = White \<Longrightarrow> ok n \<Longrightarrow>
     (path s \<noteq> [] \<longrightarrow> n \<in> set (nexts g (last (path s)))) \<Longrightarrow> good (rings s) \<Longrightarrow>
     (hit (rings t) \<or> rings t = rings s) \<and> (settled g ok s \<longrightarrow> hit (rings t) \<or> settled g ok t)"
proof (induction k arbitrary: n s t)
  case 0
  then show ?case by simp
next
  case (Suc k)
  show ?case
    by (rule visit_settled_step [OF nexts_settled_step Suc.prems]) (use Suc.IH in blast)+
qed

lemma roots_good:
  "dfs_roots g ok on_ring k rs s = Some t \<Longrightarrow> dfs_inv g s \<Longrightarrow> path s = [] \<Longrightarrow> good (rings s) \<Longrightarrow>
     \<forall>r \<in> set rs. ok r \<Longrightarrow>
     dfs_post g s t \<and> good (rings t) \<and> (\<forall>r \<in> set rs. colour_of t r = Black) \<and>
     (hit (rings t) \<or> rings t = rings s) \<and> (settled g ok s \<longrightarrow> hit (rings t) \<or> settled g ok t)"
proof (induction rs arbitrary: s)
  case Nil
  then show ?case by (simp add: dfs_post_refl)
next
  case (Cons r rs)
  from Cons.prems(1) obtain u where
    u: "(if colour_of s r = White then dfs_visit g ok on_ring k r s else Some s) = Some u"
    and rest: "dfs_roots g ok on_ring k rs u = Some t"
    by (auto split: option.splits)
  have head: "dfs_post g s u \<and> colour_of u r = Black \<and> good (rings u) \<and>
      (hit (rings u) \<or> rings u = rings s) \<and> (settled g ok s \<longrightarrow> hit (rings u) \<or> settled g ok u)"
  proof (cases "colour_of s r = White")
    case True
    then have v: "dfs_visit g ok on_ring k r s = Some u" using u by simp
    show ?thesis
      using visit_good [OF v Cons.prems(2) True] visit_settled [OF v Cons.prems(2) True]
        Cons.prems(3-5) by simp
  next
    case False
    moreover have "colour_of s r \<noteq> Grey" using Cons.prems(2,3) by (simp add: dfs_inv_def)
    ultimately have "colour_of s r = Black" by (cases "colour_of s r") auto
    then show ?thesis using u False Cons.prems(2,4) by (simp add: dfs_post_refl)
  qed
  then have "dfs_inv g u" "path u = []" "good (rings u)"
    using Cons.prems(3) by (auto simp: dfs_post_def)
  note tail = Cons.IH [OF rest this]
  have "dfs_post g u t" using tail Cons.prems(5) by simp
  then have "colour_of t r = Black" and "dfs_post g s t"
    using head by (auto simp: dfs_post_def)
  then show ?case using head tail Cons.prems(5) by auto
qed

lemma start_inv: "dfs_inv g (dfs_start r)" "settled g ok (dfs_start r)"
  by (auto simp: dfs_inv_def dfs_start_def settled_def)

text \<open>Every run reports rings only, so its result keeps the client's invariant.\<close>

lemma run_good:
  assumes "dfs_run g ok on_ring roots r0 = Some r" and "good r0" and "\<forall>n \<in> set roots. ok n"
  shows "good r"
proof -
  from assms(1) obtain t where "dfs_roots g ok on_ring (dfs_fuel g) roots (dfs_start r0) = Some t"
    and "r = rings t"
    by (auto simp: dfs_run_def)
  then show ?thesis
    using roots_good [OF _ start_inv(1)] assms(2,3) by (simp add: dfs_start_def)
qed

text \<open>A run that starts from every node with successors and reports nothing proves there is no ring.\<close>

lemma run_complete:
  assumes run: "dfs_run g ok on_ring roots r0 = Some r" and "good r0" and "\<forall>n \<in> set roots. ok n"
    and all: "\<And>n. nexts g n \<noteq> [] \<Longrightarrow> n \<in> set roots" and quiet: "\<not> hit r"
  shows "\<not> is_ring g c"
proof
  assume ring: "is_ring g c"
  from run obtain t where t: "dfs_roots g ok on_ring (dfs_fuel g) roots (dfs_start r0) = Some t"
    and r: "r = rings t"
    by (auto simp: dfs_run_def)
  have final: "(\<forall>n \<in> set roots. colour_of t n = Black) \<and> settled g ok t"
    using roots_good [OF t start_inv(1)] assms(2,3) quiet r start_inv(2) [of r0]
    by (simp add: dfs_start_def)
  then obtain f :: "'n \<Rightarrow> nat" where f:
    "\<And>u v. colour_of t u = Black \<Longrightarrow> v \<in> set (nexts g u) \<Longrightarrow> f v < f u"
    unfolding settled_def by blast
  have down: "f v < f u" if "v \<in> set (nexts g u)" for u v
  proof -
    have "u \<in> set roots" using all that by force
    then show ?thesis using f final that by blast
  qed
  have "f (last c) \<le> f (hd c)"
    if "c \<noteq> []" "successively (\<lambda>u v. v \<in> set (nexts g u)) c" for c
    using that by (induction c rule: induct_list012) (auto dest: down)
  then have "f (last c) \<le> f (hd c)" using ring by (simp add: is_ring_def)
  moreover have "f (hd c) < f (last c)" using ring down by (simp add: is_ring_def)
  ultimately show False by simp
qed

end

section \<open>The fuel is enough\<close>

definition whites :: "'n set \<Rightarrow> ('n, 'r) dfs \<Rightarrow> nat" where
  "whites U s = card {x \<in> U. colour_of s x = White}"

lemma whites_mono:
  assumes "finite U" and "\<And>x. colour_of t x = White \<Longrightarrow> colour_of s x = White"
  shows "whites U t \<le> whites U s"
  unfolding whites_def by (rule card_mono) (use assms in auto)

lemma whites_grey:
  assumes "finite U" and "n \<in> U" and "colour_of s n = White"
  shows "Suc (whites U (s\<lparr>colour_of := (colour_of s)(n := Grey), path := p\<rparr>)) = whites U s"
proof -
  have "{x \<in> U. colour_of s x = White} =
      insert n {x \<in> U. ((colour_of s)(n := Grey)) x = White}"
    using assms(2,3) by auto
  then show ?thesis using assms(1) by (simp add: whites_def)
qed

text \<open>Within a set closed under successors, a call with as much fuel as white nodes returns.\<close>

lemma dfs_nexts_enough:
  assumes visit: "\<And>n s. n \<in> U \<Longrightarrow> colour_of s n = White \<Longrightarrow> whites U s \<le> k \<Longrightarrow>
      \<exists>t. dfs_visit g ok on_ring k n s = Some t \<and>
          (\<forall>x. colour_of t x = White \<longrightarrow> colour_of s x = White)"
    and fin: "finite U"
  shows "set ms \<subseteq> U \<Longrightarrow> whites U s \<le> k \<Longrightarrow>
      \<exists>t. dfs_nexts g ok on_ring k ms s = Some t \<and>
          (\<forall>x. colour_of t x = White \<longrightarrow> colour_of s x = White)"
proof (induction ms arbitrary: s)
  case Nil
  then show ?case by simp
next
  case (Cons m ms)
  let ?c = "case colour_of s m of
              White \<Rightarrow> if ok m then dfs_visit g ok on_ring k m s else Some s
            | Grey \<Rightarrow> Some (s\<lparr>rings := on_ring (ring_from m (path s)) (rings s)\<rparr>)
            | Black \<Rightarrow> Some s"
  have "\<exists>u. ?c = Some u \<and> (\<forall>x. colour_of u x = White \<longrightarrow> colour_of s x = White)"
    using visit [of m s] Cons.prems by (cases "colour_of s m") auto
  then obtain u where u: "?c = Some u"
    and mono: "\<And>x. colour_of u x = White \<Longrightarrow> colour_of s x = White" by blast
  have "whites U u \<le> k" using whites_mono [OF fin mono] Cons.prems(2) by (meson le_trans)
  then obtain t where "dfs_nexts g ok on_ring k ms u = Some t"
    and "\<forall>x. colour_of t x = White \<longrightarrow> colour_of u x = White"
    using Cons.IH [of u] Cons.prems(1) by auto
  then show ?case using u mono by auto
qed

lemma dfs_visit_enough:
  assumes fin: "finite U" and closed: "\<And>u v. v \<in> set (nexts g u) \<Longrightarrow> v \<in> U"
  shows "n \<in> U \<Longrightarrow> colour_of s n = White \<Longrightarrow> whites U s \<le> k \<Longrightarrow>
      \<exists>t. dfs_visit g ok on_ring k n s = Some t \<and>
          (\<forall>x. colour_of t x = White \<longrightarrow> colour_of s x = White)"
proof (induction k arbitrary: n s)
  case 0
  then have "{x \<in> U. colour_of s x = White} = {}" using fin by (simp add: whites_def)
  then show ?case using 0 by blast
next
  case (Suc k)
  let ?s = "s\<lparr>colour_of := (colour_of s)(n := Grey), path := path s @ [n]\<rparr>"
  have "whites U ?s \<le> k"
    using whites_grey [OF fin Suc.prems(1,2), of "path s @ [n]"] Suc.prems(3) by simp
  then obtain t where "dfs_nexts g ok on_ring k (nexts g n) ?s = Some t"
    and "\<forall>x. colour_of t x = White \<longrightarrow> colour_of ?s x = White"
    using dfs_nexts_enough [OF Suc.IH fin, of "nexts g n" ?s] closed by blast
  then show ?case by (auto split: if_splits)
qed

lemma dfs_roots_enough:
  assumes fin: "finite U" and closed: "\<And>u v. v \<in> set (nexts g u) \<Longrightarrow> v \<in> U"
  shows "set rs \<subseteq> U \<Longrightarrow> whites U s \<le> k \<Longrightarrow> \<exists>t. dfs_roots g ok on_ring k rs s = Some t"
proof (induction rs arbitrary: s)
  case Nil
  then show ?case by simp
next
  case (Cons r rs)
  have "\<exists>u. (if colour_of s r = White then dfs_visit g ok on_ring k r s else Some s) = Some u \<and>
      (\<forall>x. colour_of u x = White \<longrightarrow> colour_of s x = White)"
    using dfs_visit_enough [OF fin closed, where n = r and s = s and k = k] Cons.prems by auto
  then obtain u where u: "(if colour_of s r = White then dfs_visit g ok on_ring k r s else Some s) = Some u"
    and mono: "\<And>x. colour_of u x = White \<Longrightarrow> colour_of s x = White" by blast
  have "whites U u \<le> k" using whites_mono [OF fin mono] Cons.prems(2) by (meson le_trans)
  then show ?case using Cons.IH [of u] Cons.prems(1) u by auto
qed

lemma dfs_run_total:
  assumes "set roots \<subseteq> set (graph_nodes g)"
  shows "\<exists>r. dfs_run g ok on_ring roots r0 = Some r"
proof -
  let ?U = "set (graph_nodes g)"
  have "whites ?U (dfs_start r0) \<le> dfs_fuel g"
  proof -
    have "whites ?U (dfs_start r0) \<le> card ?U" unfolding whites_def by (rule card_mono) auto
    also have "\<dots> \<le> length (graph_nodes g)" by (rule card_length)
    finally show ?thesis by (simp add: dfs_fuel_def)
  qed
  then have "\<exists>t. dfs_roots g ok on_ring (dfs_fuel g) roots (dfs_start r0) = Some t"
    by (intro dfs_roots_enough [where U = ?U]) (use assms nexts_in_nodes in auto)
  then show ?thesis by (auto simp: dfs_run_def)
qed

end
