(* ===== verification/FleetStatus.thy ===== *)
theory FleetStatus
  imports FleetRegistry Digraph
begin

text \<open>
  The declared half of the status ledger (\<open>internal/fleet/status.go\<close>): the watch configuration, the
  resolution of member and blocker references, \<open>Declare\<close> and \<open>SetStatus\<close>, the derived
  \<open>blocker_for\<close> index and the observations. \<open>FleetHealth\<close> holds what is derived from them.

  A method that returns a pointer into a fleet returns the key and the index of the member here.
\<close>

section \<open>Watch configuration\<close>

definition Watch_Resolved :: "watch option \<Rightarrow> watch" where
  "Watch_Resolved w =
     (let base = \<lparr>w_policy = PolicySmart, w_interval_sec = 600, w_stall_sec = 300,
                  w_answer = AnswerAgent, w_scout_model = ''haiku''\<rparr>
      in case w of
           None \<Rightarrow> base
         | Some x \<Rightarrow>
             \<lparr>w_policy = (if w_policy x \<noteq> [] then w_policy x else w_policy base),
              w_interval_sec = (if 0 < w_interval_sec x then w_interval_sec x else w_interval_sec base),
              w_stall_sec = (if 0 < w_stall_sec x then w_stall_sec x else w_stall_sec base),
              w_answer = (if w_answer x \<noteq> [] then w_answer x else w_answer base),
              w_scout_model = (if w_scout_model x \<noteq> [] then w_scout_model x else w_scout_model base)\<rparr>)"

definition Watch_Validate :: "watch \<Rightarrow> fleet_error option" where
  "Watch_Validate w =
     (if w_policy w \<notin> {[], PolicySmart, PolicyAlways, PolicyOff} then Some (UnknownPolicy (w_policy w))
      else if w_interval_sec w \<noteq> 0 \<and> w_interval_sec w < 30 then Some (IntervalTooShort (w_interval_sec w))
      else if w_stall_sec w < 0 then Some NegativeStall
      else if w_answer w \<notin> {[], AnswerAgent, AnswerScout} then Some (UnknownAnswer (w_answer w))
      else if contains_any (w_scout_model w) [CHR '' '', CHR 0x09, CHR 0x27, CHR 0x22]
        then Some (BadScoutModel (w_scout_model w))
      else None)"

definition SetWatch :: "string \<Rightarrow> watch \<Rightarrow> registry \<Rightarrow> registry \<times> (fleet_error, fleet) result" where
  "SetWatch name w r =
     (case Watch_Validate w of
        Some e \<Rightarrow> (r, Inl e)
      | None \<Rightarrow>
          (case alist_get r (NormalizeBoardID name) of
             None \<Rightarrow> (r, Inl (NoFleet name))
           | Some f \<Rightarrow>
               (let g = f\<lparr>f_watch := Some w\<rparr> in (AList.update (NormalizeBoardID name) g r, Inr g))))"

section \<open>Finding members\<close>

fun find_index :: "('a \<Rightarrow> bool) \<Rightarrow> 'a list \<Rightarrow> nat option" where
  "find_index P [] = None"
| "find_index P (x # xs) = (if P x then Some 0 else map_option Suc (find_index P xs))"

lemma find_index_Some: "find_index P xs = Some i \<Longrightarrow> i < length xs \<and> P (xs ! i)"
  by (induction xs arbitrary: i) (auto split: if_splits)

lemma find_index_None: "find_index P xs = None \<longleftrightarrow> (\<forall>x \<in> set xs. \<not> P x)"
  by (induction xs) auto

definition matches_ref :: "string \<Rightarrow> member \<Rightarrow> bool" where
  "matches_ref ref m \<longleftrightarrow> (4 \<le> length ref \<and> has_prefix (m_pane m) ref) \<or>
     (m_label m \<noteq> [] \<and> has_prefix (m_label m) ref)"

definition ResolveMember :: "fleet \<Rightarrow> string \<Rightarrow> (fleet_error, nat) result" where
  "ResolveMember f ref0 =
     (let ref = trim_space ref0;
          hits = filter (\<lambda>i. matches_ref ref (f_members f ! i)) [0..<length (f_members f)]
      in if ref = [] then Inl EmptyReference
         else case find_index (\<lambda>m. m_pane m = ref \<or> m_label m = ref) (f_members f) of
                Some i \<Rightarrow> Inr i
              | None \<Rightarrow>
                  (case hits of
                     [i] \<Rightarrow> Inr i
                   | [] \<Rightarrow> Inl (NoMember (f_name f) ref)
                   | _ \<Rightarrow> Inl (Ambiguous ref (f_name f) (map (\<lambda>i. m_label (f_members f ! i)) hits))))"

text \<open>
  \<open>resolveBlocker\<close>: \<open>human\<close> in any case, an external reference with a name, or a member.
\<close>

definition resolveBlocker :: "fleet \<Rightarrow> string \<Rightarrow> (fleet_error, string) result" where
  "resolveBlocker f ref =
     (if equal_fold ref BlockerHuman then Inr BlockerHuman
      else if has_prefix ref BlockerExternalPrefix then
        (if is_blank (trim_prefix ref BlockerExternalPrefix) then Inl (ExternalNeedsName ref) else Inr ref)
      else case ResolveMember f ref of
             Inl e \<Rightarrow> Inl (BlockedByError e)
           | Inr i \<Rightarrow> Inr (m_pane (f_members f ! i)))"

text \<open>
  Without a fleet name the loop keeps overwriting its candidate, so the last fleet of the map's
  iteration that holds the pane is the one used.
\<close>

definition memberLocked :: "string \<Rightarrow> string \<Rightarrow> registry \<Rightarrow> (fleet_error, string \<times> fleet \<times> nat) result" where
  "memberLocked fleetName pane r =
     (if is_blank pane then Inl StatusNeedsPane
      else
        (let cand = (if fleetName \<noteq> [] then
                       (case alist_get r (NormalizeBoardID fleetName) of
                          None \<Rightarrow> Inl (NoFleet fleetName)
                        | Some f \<Rightarrow> Inr (NormalizeBoardID fleetName, f))
                     else (case List.find (\<lambda>kf. has_pane pane (snd kf)) (rev r) of
                             None \<Rightarrow> Inl (NotInAnyFleet (shortPane pane))
                           | Some kf \<Rightarrow> Inr kf))
         in case cand of
              Inl e \<Rightarrow> Inl e
            | Inr (key, f) \<Rightarrow>
                (case find_index (\<lambda>m. m_pane m = pane) (f_members f) of
                   None \<Rightarrow> Inl (NotInFleet (shortPane pane) (f_name f))
                 | Some i \<Rightarrow> Inr (key, f, i))))"

definition MemberLabel :: "fleet \<Rightarrow> string \<Rightarrow> string" where
  "MemberLabel f pane =
     (if pane = BlockerHuman \<or> has_prefix pane BlockerExternalPrefix then pane
      else case List.find (\<lambda>m. m_pane m = pane \<and> m_label m \<noteq> []) (f_members f) of
             Some m \<Rightarrow> m_label m
           | None \<Rightarrow> ''pane-'' @ shortPane pane)"

section \<open>The derived index\<close>

definition is_blocked :: "member \<Rightarrow> bool" where
  "is_blocked m = (case m_status m of None \<Rightarrow> False | Some st \<Rightarrow> st_work st = WorkBlocked)"

definition blockers_of :: "member \<Rightarrow> string list" where
  "blockers_of m = (case m_status m of None \<Rightarrow> [] | Some st \<Rightarrow> st_blocked_by st)"

definition blocker_index :: "member list \<Rightarrow> string graph" where
  "blocker_index ms =
     fold (\<lambda>m g. if is_blocked m then fold (\<lambda>b h. add_next h b (m_pane m)) (blockers_of m) g else g) ms []"

definition derive_row :: "string graph \<Rightarrow> member \<Rightarrow> member" where
  "derive_row index m =
     (let waiting = sort (nexts index (m_pane m))
      in case m_status m of
           None \<Rightarrow> if waiting = [] then m
                    else m\<lparr>m_status := Some (empty_status\<lparr>st_blocker_for := waiting\<rparr>)\<rparr>
         | Some st \<Rightarrow> m\<lparr>m_status := Some (st\<lparr>st_blocker_for := waiting\<rparr>)\<rparr>)"

definition deriveBlockerFor :: "fleet \<Rightarrow> fleet" where
  "deriveBlockerFor f = f\<lparr>f_members := map (derive_row (blocker_index (f_members f))) (f_members f)\<rparr>"

section \<open>Declarations\<close>

definition ValidWork :: "string \<Rightarrow> bool" where
  "ValidWork w \<longleftrightarrow> w \<in> {WorkIdle, WorkProgress, WorkBlocked, WorkDone}"

record status_update =
  su_work :: string
  su_task :: string
  su_note :: string
  su_blocked_by :: "string list"
  su_keep_task :: bool
  su_pct :: "int option"
  su_eta_sec :: int
  su_by :: string

record status_result =
  sr_fleet :: string
  sr_member :: member
  sr_answered_checkin :: string
  sr_answered_goal_ask :: string

fun collect_blockers :: "fleet \<Rightarrow> string \<Rightarrow> string list \<Rightarrow> string list \<Rightarrow> (fleet_error, string list) result" where
  "collect_blockers f me [] acc = Inr acc"
| "collect_blockers f me (raw # refs) acc =
     (let ref = trim_space raw
      in if ref = [] then collect_blockers f me refs acc
         else case resolveBlocker f ref of
                Inl e \<Rightarrow> Inl e
              | Inr b \<Rightarrow> if b = me then Inl BlocksItself
                         else collect_blockers f me refs (append_unique acc b))"

text \<open>The checks \<open>Declare\<close> makes before it changes anything, in its order.\<close>

definition check_update :: "fleet \<Rightarrow> string \<Rightarrow> string \<Rightarrow> status_update \<Rightarrow> (fleet_error, string list) result" where
  "check_update f me work u =
     (if \<not> ValidWork work then Inl (UnknownWork work)
      else if (case su_pct u of None \<Rightarrow> False | Some p \<Rightarrow> p < 0 \<or> 100 < p) then Inl (BadPct (the (su_pct u)))
      else if su_eta_sec u < 0 then Inl NegativeEta
      else case collect_blockers f me (concat (map (split_on (CHR '','')) (su_blocked_by u))) [] of
             Inl e \<Rightarrow> Inl e
           | Inr blockers \<Rightarrow>
               if work = WorkBlocked \<and> blockers = [] then Inl BlockedNeedsBlocker
               else if work \<noteq> WorkBlocked \<and> blockers \<noteq> [] then Inl (BlockerWithoutBlocked work)
               else Inr blockers)"

text \<open>The row after an accepted declaration.\<close>

definition declare_row :: "string \<Rightarrow> string list \<Rightarrow> status_update \<Rightarrow> int \<Rightarrow> member_status \<Rightarrow> member_status" where
  "declare_row work blockers u now st0 =
     (let st = (if st_work st0 \<noteq> work then st0\<lparr>st_work_since := now\<rparr> else st0)\<lparr>st_work := work\<rparr>;
          task = (if \<not> is_blank (su_task u) \<or> \<not> su_keep_task u then trim_space (su_task u) else st_task st);
          st = (if task \<noteq> st_task st
                then st\<lparr>st_task := task, st_pct := None, st_eta_at := 0, st_eta_set_at := 0\<rparr> else st);
          st = (case su_pct u of None \<Rightarrow> st | Some p \<Rightarrow> st\<lparr>st_pct := Some p\<rparr>);
          st = (if 0 < su_eta_sec u then st\<lparr>st_eta_at := now + su_eta_sec u * 1000, st_eta_set_at := now\<rparr>
                else if work = WorkIdle then st\<lparr>st_eta_at := 0, st_eta_set_at := 0\<rparr> else st);
          st = st\<lparr>st_note := trim_space (su_note u), st_blocked_by := blockers\<rparr>;
          st = (if su_by u = [] then st\<lparr>st_updated_at := now\<rparr> else st);
          st = st\<lparr>st_declared_by := su_by u\<rparr>
      in if su_by u = [] then st\<lparr>st_checkin_cmd := [], st_checkin_missed := 0, st_goal_ask_cmd := []\<rparr>
         else st)"

definition status_or_new :: "int \<Rightarrow> member \<Rightarrow> member_status" where
  "status_or_new now m = (case m_status m of None \<Rightarrow> empty_status\<lparr>st_joined_at := now\<rparr> | Some st \<Rightarrow> st)"

definition set_member :: "nat \<Rightarrow> member \<Rightarrow> fleet \<Rightarrow> fleet" where
  "set_member i m f = f\<lparr>f_members := (f_members f)[i := m]\<rparr>"

definition Declare :: "string \<Rightarrow> string \<Rightarrow> status_update \<Rightarrow> int \<Rightarrow> registry \<Rightarrow>
    registry \<times> (fleet_error, status_result) result" where
  "Declare fleetName pane u now r =
     (case memberLocked fleetName pane r of
        Inl e \<Rightarrow> (r, Inl e)
      | Inr (key, f, i) \<Rightarrow>
          (let m = f_members f ! i; work = trim_space (to_lower (su_work u))
           in case check_update f (m_pane m) work u of
                Inl e \<Rightarrow> (r, Inl e)
              | Inr blockers \<Rightarrow>
                  (let st0 = status_or_new now m;
                       f' = deriveBlockerFor
                              (set_member i (m\<lparr>m_status := Some (declare_row work blockers u now st0)\<rparr>) f)
                   in (AList.update key f' r,
                       Inr \<lparr>sr_fleet = f_name f, sr_member = f_members f' ! i,
                            sr_answered_checkin = (if su_by u = [] then st_checkin_cmd st0 else []),
                            sr_answered_goal_ask = (if su_by u = [] then st_goal_ask_cmd st0 else [])\<rparr>))))"

definition SetStatus :: "string \<Rightarrow> string \<Rightarrow> status_update \<Rightarrow> int \<Rightarrow> registry \<Rightarrow>
    registry \<times> (fleet_error, string \<times> member \<times> string) result" where
  "SetStatus fleetName pane u now r =
     (let (r', res) = Declare fleetName pane u now r
      in (r', case res of Inl e \<Rightarrow> Inl e
              | Inr s \<Rightarrow> Inr (sr_fleet s, sr_member s, sr_answered_checkin s)))"

section \<open>Observations\<close>

definition on_pane :: "string \<Rightarrow> (member \<Rightarrow> member) \<Rightarrow> fleet \<Rightarrow> fleet" where
  "on_pane pane g f = f\<lparr>f_members := map (\<lambda>m. if m_pane m = pane then g m else m) (f_members f)\<rparr>"

definition observe_row :: "string \<Rightarrow> int \<Rightarrow> member_status \<Rightarrow> member_status" where
  "observe_row activity now st0 =
     (let st = (if st_joined_at st0 = 0 then st0\<lparr>st_joined_at := now\<rparr> else st0)
                 \<lparr>st_observed_at := now, st_activity := activity\<rparr>
      in if activity = ActivityWorking then st\<lparr>st_active_at := now\<rparr> else st)"

definition Observe :: "string \<Rightarrow> string \<Rightarrow> int \<Rightarrow> registry \<Rightarrow> registry" where
  "Observe pane activity now r =
     alist_map (on_pane pane (\<lambda>m. m\<lparr>m_status := Some (observe_row activity now (status_or_new now m))\<rparr>)) r"

definition ObserveAttention :: "string \<Rightarrow> string \<Rightarrow> int \<Rightarrow> registry \<Rightarrow> registry" where
  "ObserveAttention pane attention now r =
     alist_map (on_pane pane
       (\<lambda>m. m\<lparr>m_status := Some ((status_or_new now m)\<lparr>st_attention := attention\<rparr>)\<rparr>)) r"

definition on_status :: "string \<Rightarrow> string \<Rightarrow> (member_status option \<Rightarrow> member_status option) \<Rightarrow> registry \<Rightarrow> registry" where
  "on_status fleetName pane g r =
     (case memberLocked fleetName pane r of
        Inl e \<Rightarrow> r
      | Inr (key, f, i) \<Rightarrow>
          AList.update key (set_member i ((f_members f ! i)\<lparr>m_status := g (m_status (f_members f ! i))\<rparr>) f) r)"

definition CheckinSent :: "string \<Rightarrow> string \<Rightarrow> string \<Rightarrow> registry \<Rightarrow> registry" where
  "CheckinSent fleetName pane cmd r =
     on_status fleetName pane (map_option (\<lambda>st. st\<lparr>st_checkin_cmd := cmd\<rparr>)) r"

definition ScoutAnswered :: "string \<Rightarrow> string \<Rightarrow> string \<Rightarrow> int \<Rightarrow> registry \<Rightarrow> registry" where
  "ScoutAnswered fleetName pane health now r =
     on_status fleetName pane (map_option (\<lambda>st. st\<lparr>st_scout_at := now, st_scout_health := health\<rparr>)) r"

definition GoalAskSent :: "string \<Rightarrow> string \<Rightarrow> string \<Rightarrow> int \<Rightarrow> registry \<Rightarrow> registry" where
  "GoalAskSent fleetName pane cmd now r =
     on_status fleetName pane
       (\<lambda>s. Some ((case s of None \<Rightarrow> empty_status\<lparr>st_joined_at := now\<rparr> | Some st \<Rightarrow> st)
              \<lparr>st_goal_ask_cmd := cmd, st_goal_ask_at := now\<rparr>)) r"

section \<open>Well-formed ledger rows\<close>

text \<open>
  What \<open>Declare\<close> refuses to store, as an invariant of a row: a known work state, blockers exactly
  when the work is blocked, no blocker twice, no member its own blocker, a percentage in range.
\<close>

definition row_wf :: "string \<Rightarrow> member_status \<Rightarrow> bool" where
  "row_wf pane st \<longleftrightarrow> (st_work st = [] \<or> ValidWork (st_work st)) \<and>
     (st_work st = WorkBlocked \<longleftrightarrow> st_blocked_by st \<noteq> []) \<and>
     distinct (st_blocked_by st) \<and> pane \<notin> set (st_blocked_by st) \<and>
     (\<forall>p \<in> set_option (st_pct st). 0 \<le> p \<and> p \<le> 100) \<and> 0 \<le> st_checkin_missed st"

definition member_wf :: "member \<Rightarrow> bool" where
  "member_wf m \<longleftrightarrow> (\<forall>st \<in> set_option (m_status m). row_wf (m_pane m) st)"

definition rows_wf :: "fleet \<Rightarrow> bool" where
  "rows_wf f \<longleftrightarrow> (\<forall>m \<in> set (f_members f). member_wf m)"

definition ledger_wf :: "registry \<Rightarrow> bool" where
  "ledger_wf r \<longleftrightarrow> registry_wf r \<and> alist_all (\<lambda>_. rows_wf) r"

lemma ledger_wf_Nil [simp, well_formed]: "ledger_wf []"
  by (simp add: ledger_wf_def)

lemma ledger_wf_registry: "ledger_wf r \<Longrightarrow> registry_wf r"
  by (simp add: ledger_wf_def)

lemma ledger_wf_get: "ledger_wf r \<Longrightarrow> alist_get r key = Some f \<Longrightarrow> rows_wf f"
  by (auto simp: ledger_wf_def dest: alist_all_get)

lemma row_wf_empty [simp]: "row_wf pane empty_status"
  by (simp add: row_wf_def empty_status_def)

lemma row_wf_joined [simp]: "row_wf pane (st\<lparr>st_joined_at := t\<rparr>) = row_wf pane st"
  by (simp add: row_wf_def)

lemma row_wf_blocker_for [simp]: "row_wf pane (st\<lparr>st_blocker_for := l\<rparr>) = row_wf pane st"
  by (simp add: row_wf_def)

lemma row_wf_status_or_new: "member_wf m \<Longrightarrow> row_wf (m_pane m) (status_or_new now m)"
  by (auto simp: member_wf_def status_or_new_def split: option.splits)

text \<open>An edit of one fleet that also keeps its rows well formed.\<close>

locale ledger_edit = fleet_edit +
  assumes keeps_rows: "rows_wf f \<Longrightarrow> rows_wf (edit f)"
begin

lemma update_ledger:
  "ledger_wf r \<Longrightarrow> alist_get r key = Some f \<Longrightarrow> ledger_wf (AList.update key (edit f) r)"
  unfolding ledger_wf_def using update_wf [of r key f] keeps_rows [of f]
  by (auto intro: alist_all_update dest: alist_all_get)

lemma map_ledger: "ledger_wf r \<Longrightarrow> ledger_wf (alist_map edit r)"
  unfolding ledger_wf_def using map_wf [of r] keeps_rows by (auto intro: alist_all_map)

end

text \<open>A rewrite of one member that keeps its pane and a well-formed row.\<close>

locale member_edit =
  fixes g :: "member \<Rightarrow> member"
  assumes keeps_pane: "m_pane (g m) = m_pane m"
    and keeps_row: "member_wf m \<Longrightarrow> member_wf (g m)"

lemma on_pane_panes: "(\<And>m. m_pane (g m) = m_pane m) \<Longrightarrow> map m_pane (f_members (on_pane p g f)) = map m_pane (f_members f)"
  by (simp add: on_pane_def)

sublocale member_edit \<subseteq> at_pane: ledger_edit "on_pane p g" for p
  by unfold_locales
    (simp_all add: on_pane_panes keeps_pane, auto simp: on_pane_def rows_wf_def keeps_row)

lemma set_member_panes:
  "i < length (f_members f) \<Longrightarrow> m_pane m = m_pane (f_members f ! i) \<Longrightarrow>
   map m_pane (f_members (set_member i m f)) = map m_pane (f_members f)"
  by (simp add: set_member_def map_update list_update_same_conv)

lemma set_member_rows: "rows_wf f \<Longrightarrow> member_wf m \<Longrightarrow> rows_wf (set_member i m f)"
  by (auto simp: rows_wf_def set_member_def dest!: set_update_subset_insert [THEN subsetD])

lemma set_member_fleet [simp]: "f_name (set_member i m f) = f_name f" "f_board (set_member i m f) = f_board f"
  by (simp_all add: set_member_def)

lemma ledger_wf_set:
  assumes "ledger_wf r" and "alist_get r key = Some f"
    and "f_name f' = f_name f" and "f_board f' = f_board f"
    and "map m_pane (f_members f') = map m_pane (f_members f)" and "rows_wf f'"
  shows "ledger_wf (AList.update key f' r)"
proof -
  have "fleet_wf key f" using assms(1,2) registry_wf_get ledger_wf_registry by blast
  then have "fleet_wf key f'" using assms(3-5) by (simp add: fleet_wf_def)
  then show ?thesis
    using assms(1,6) by (simp add: ledger_wf_def registry_wf_update alist_all_update)
qed

subsection \<open>The index\<close>

lemma blocker_index_member:
  "nexts (fold (\<lambda>b h. add_next h b p) bs g) x = nexts g x @ replicate (count_list bs x) p"
proof (induction bs arbitrary: g)
  case Nil
  show ?case by simp
next
  case (Cons b bs)
  show ?case by (simp add: Cons replicate_app_Cons_same)
qed

lemma blocker_index_nexts:
  "nexts (blocker_index ms) x =
     concat (map (\<lambda>m. if is_blocked m then replicate (count_list (blockers_of m) x) (m_pane m) else []) ms)"
proof -
  have "nexts (fold (\<lambda>m g. if is_blocked m then fold (\<lambda>b h. add_next h b (m_pane m)) (blockers_of m) g else g) ms g) x =
      nexts g x @ concat (map (\<lambda>m. if is_blocked m then replicate (count_list (blockers_of m) x) (m_pane m) else []) ms)" for g
    by (induction ms arbitrary: g) (auto simp: blocker_index_member)
  from this [of "[]"] show ?thesis by (simp add: blocker_index_def)
qed

lemma blocker_index_set:
  "set (nexts (blocker_index ms) x) = {m_pane m | m. m \<in> set ms \<and> is_blocked m \<and> x \<in> set (blockers_of m)}"
  by (auto simp: blocker_index_nexts count_list_0_iff split: if_splits)

lemma count_list_distinct_le: "distinct xs \<Longrightarrow> count_list xs x \<le> 1"
proof (induction xs)
  case Nil
  show ?case by simp
next
  case (Cons y xs)
  then show ?case by (cases "x = y") (auto simp: count_list_0_iff)
qed

text \<open>When no row lists a blocker twice, a waiting member appears once per member that blocks it.\<close>

lemma blocker_index_distinct:
  assumes "distinct (map m_pane ms)" and "\<forall>m \<in> set ms. distinct (blockers_of m)"
  shows "distinct (nexts (blocker_index ms) x)"
  using assms
proof (induction ms)
  case Nil
  show ?case by (simp add: blocker_index_def)
next
  case (Cons m ms)
  define c where "c = (if is_blocked m then count_list (blockers_of m) x else 0)"
  have "c \<le> 1"
    using Cons.prems(2) count_list_distinct_le [of "blockers_of m" x] by (simp add: c_def)
  then have c: "c = 0 \<or> c = 1" by linarith
  have "m_pane m \<notin> set (nexts (blocker_index ms) x)"
    using Cons.prems(1) by (auto simp: blocker_index_set)
  moreover have "distinct (nexts (blocker_index ms) x)" using Cons by simp
  moreover have "nexts (blocker_index (m # ms)) x = replicate c (m_pane m) @ nexts (blocker_index ms) x"
    by (simp add: blocker_index_nexts c_def)
  ultimately show ?case using c by fastforce
qed

lemma derive_row_pane [simp]: "m_pane (derive_row g m) = m_pane m"
  by (simp add: derive_row_def Let_def split: option.splits)

lemma derive_row_wf: "member_wf m \<Longrightarrow> member_wf (derive_row g m)"
  by (auto simp: derive_row_def Let_def member_wf_def split: option.splits)

lemma derive_row_blocks [simp]:
  "is_blocked (derive_row g m) = is_blocked m" "blockers_of (derive_row g m) = blockers_of m"
  by (auto simp: derive_row_def Let_def is_blocked_def blockers_of_def empty_status_def split: option.splits)

interpretation derive: ledger_edit deriveBlockerFor
  by unfold_locales (auto simp: deriveBlockerFor_def o_def rows_wf_def derive_row_wf)

lemma deriveBlockerFor_panes [simp]: "map m_pane (f_members (deriveBlockerFor f)) = map m_pane (f_members f)"
  by (simp add: deriveBlockerFor_def o_def)

lemma deriveBlockerFor_length [simp]: "length (f_members (deriveBlockerFor f)) = length (f_members f)"
  by (simp add: deriveBlockerFor_def)

text \<open>Deriving again changes nothing: the index depends on the declared edges only.\<close>

lemma blocker_index_derived: "blocker_index (map (derive_row g) ms) = blocker_index ms"
  by (simp add: blocker_index_def fold_map o_def cong: if_cong)

lemma derive_row_idem: "derive_row g (derive_row g m) = derive_row g m"
  by (auto simp: derive_row_def Let_def empty_status_def split: option.splits)

lemma deriveBlockerFor_idem: "deriveBlockerFor (deriveBlockerFor f) = deriveBlockerFor f"
  by (simp add: deriveBlockerFor_def blocker_index_derived o_def derive_row_idem)

definition waiting_on :: "fleet \<Rightarrow> string \<Rightarrow> string set" where
  "waiting_on f pane = {m_pane m | m. m \<in> set (f_members f) \<and> is_blocked m \<and> pane \<in> set (blockers_of m)}"

definition blocker_for :: "member \<Rightarrow> string list" where
  "blocker_for m = (case m_status m of None \<Rightarrow> [] | Some st \<Rightarrow> st_blocker_for st)"

lemma derive_row_blocker_for: "blocker_for (derive_row g m) = sort (nexts g (m_pane m))"
  by (auto simp: blocker_for_def derive_row_def Let_def split: option.splits)

lemma deriveBlockerFor_waiting:
  assumes "m \<in> set (f_members (deriveBlockerFor f))"
  shows "set (blocker_for m) = waiting_on (deriveBlockerFor f) (m_pane m)"
    and "sorted (blocker_for m)"
proof -
  obtain m0 where m0: "m0 \<in> set (f_members f)" "m = derive_row (blocker_index (f_members f)) m0"
    using assms by (auto simp: deriveBlockerFor_def)
  then have b: "blocker_for m = sort (nexts (blocker_index (f_members f)) (m_pane m))"
    by (simp add: derive_row_blocker_for)
  have "waiting_on (deriveBlockerFor f) p = waiting_on f p" for p
    unfolding waiting_on_def deriveBlockerFor_def by (auto simp: image_iff) (metis derive_row_pane derive_row_blocks)+
  then show "set (blocker_for m) = waiting_on (deriveBlockerFor f) (m_pane m)"
    using b by (simp add: blocker_index_set waiting_on_def)
  show "sorted (blocker_for m)" using b by simp
qed

subsection \<open>Declarations\<close>

lemma memberLocked_Inr:
  assumes "memberLocked n p r = Inr (key, f, i)" and "alist_wf r"
  shows "alist_get r key = Some f \<and> i < length (f_members f) \<and> m_pane (f_members f ! i) = p \<and> \<not> is_blank p"
proof -
  have idx: "find_index (\<lambda>m. m_pane m = p) (f_members f) = Some i" and nb: "\<not> is_blank p"
    using assms(1) by (auto simp: memberLocked_def Let_def split: if_splits sum.splits option.splits prod.splits)
  have "alist_get r key = Some f"
  proof (cases "n = []")
    case False
    then show ?thesis
      using assms(1) nb by (auto simp: memberLocked_def Let_def split: option.splits)
  next
    case True
    then have "List.find (\<lambda>kf. has_pane p (snd kf)) (rev r) = Some (key, f)"
      using assms(1) nb by (auto simp: memberLocked_def Let_def split: option.splits)
    then have "(key, f) \<in> set r" by (auto dest: find_Some_iff2)
    then show ?thesis using assms(2) by (rule alist_get_from_set [rotated])
  qed
  with idx nb show ?thesis by (auto dest: find_index_Some)
qed

lemma registry_wf_alist: "registry_wf r \<Longrightarrow> alist_wf r"
  by (simp add: registry_wf_def alist_all_def)

lemma ledger_wf_alist: "ledger_wf r \<Longrightarrow> alist_wf r"
  by (simp add: ledger_wf_def registry_wf_alist)

lemma collect_blockers_ok:
  "collect_blockers f me refs acc = Inr bs \<Longrightarrow> distinct acc \<Longrightarrow> me \<notin> set acc \<Longrightarrow>
   distinct bs \<and> me \<notin> set bs \<and> set acc \<subseteq> set bs"
proof (induction f me refs acc rule: collect_blockers.induct)
  case (1 f me acc)
  then show ?case by simp
next
  case (2 f me raw refs acc)
  show ?case
  proof (cases "trim_space raw = []")
    case True
    then show ?thesis using 2 by simp
  next
    case False
    then obtain b where b: "resolveBlocker f (trim_space raw) = Inr b" and "b \<noteq> me"
      and "collect_blockers f me refs (append_unique acc b) = Inr bs"
      using 2(3) by (auto simp: Let_def split: sum.splits if_splits)
    then show ?thesis using 2(2) [OF refl False b] 2(4,5) by auto
  qed
qed

lemma check_update_ok:
  assumes "check_update f me work u = Inr bs"
  shows "ValidWork work \<and> (\<forall>p \<in> set_option (su_pct u). 0 \<le> p \<and> p \<le> 100) \<and> 0 \<le> su_eta_sec u \<and>
    (work = WorkBlocked \<longleftrightarrow> bs \<noteq> []) \<and> distinct bs \<and> me \<notin> set bs"
proof -
  have "collect_blockers f me (concat (map (split_on (CHR '','')) (su_blocked_by u))) [] = Inr bs"
    using assms by (auto simp: check_update_def split: if_splits sum.splits)
  then have "distinct bs \<and> me \<notin> set bs" using collect_blockers_ok by fastforce
  moreover have "ValidWork work" "0 \<le> su_eta_sec u" "work = WorkBlocked \<longleftrightarrow> bs \<noteq> []"
    using assms by (auto simp: check_update_def split: if_splits sum.splits)
  moreover have "\<forall>p \<in> set_option (su_pct u). 0 \<le> p \<and> p \<le> 100"
    using assms by (auto simp: check_update_def split: if_splits option.splits)
  ultimately show ?thesis by simp
qed

lemma declare_row_fields [simp]:
  "st_work (declare_row w bs u now st) = w"
  "st_blocked_by (declare_row w bs u now st) = bs"
  "st_blocker_for (declare_row w bs u now st) = st_blocker_for st"
  "st_declared_by (declare_row w bs u now st) = su_by u"
  "st_activity (declare_row w bs u now st) = st_activity st"
  "st_observed_at (declare_row w bs u now st) = st_observed_at st"
  "st_health (declare_row w bs u now st) = st_health st"
  by (simp_all add: declare_row_def Let_def split: option.split)

lemma declare_row_pct:
  "st_pct (declare_row w bs u now st) =
     (case su_pct u of Some p \<Rightarrow> Some p
      | None \<Rightarrow> if (\<not> is_blank (su_task u) \<or> \<not> su_keep_task u) \<and> trim_space (su_task u) \<noteq> st_task st
               then None else st_pct st)"
  by (auto simp: declare_row_def Let_def split: option.splits)

lemma declare_row_checkin:
  "st_checkin_cmd (declare_row w bs u now st) = (if su_by u = [] then [] else st_checkin_cmd st)"
  "st_checkin_missed (declare_row w bs u now st) = (if su_by u = [] then 0 else st_checkin_missed st)"
  "st_goal_ask_cmd (declare_row w bs u now st) = (if su_by u = [] then [] else st_goal_ask_cmd st)"
  "st_updated_at (declare_row w bs u now st) = (if su_by u = [] then now else st_updated_at st)"
  by (simp_all add: declare_row_def Let_def split: option.split)

lemma declare_row_wf:
  assumes "check_update f pane w u = Inr bs" and "row_wf pane st"
  shows "row_wf pane (declare_row w bs u now st)"
  using check_update_ok [OF assms(1)] assms(2)
  by (auto simp: row_wf_def declare_row_pct declare_row_checkin split: option.splits if_splits)

text \<open>An accepted declaration, taken apart.\<close>

lemma Declare_cases:
  assumes "Declare n p u now r = (r', res)" and "alist_wf r"
  obtains (refused) e where "res = Inl e" and "r' = r"
  | (accepted) key f i bs where
      "memberLocked n p r = Inr (key, f, i)" and "alist_get r key = Some f"
      and "i < length (f_members f)" and "m_pane (f_members f ! i) = p"
      and "check_update f p (trim_space (to_lower (su_work u))) u = Inr bs"
      and "r' = AList.update key
             (deriveBlockerFor (set_member i ((f_members f ! i)\<lparr>m_status := Some
               (declare_row (trim_space (to_lower (su_work u))) bs u now (status_or_new now (f_members f ! i)))\<rparr>) f)) r"
      and "\<exists>s. res = Inr s \<and> sr_fleet s = f_name f \<and>
             sr_member s = f_members (deriveBlockerFor (set_member i ((f_members f ! i)\<lparr>m_status := Some
               (declare_row (trim_space (to_lower (su_work u))) bs u now (status_or_new now (f_members f ! i)))\<rparr>) f)) ! i \<and>
             sr_answered_checkin s = (if su_by u = [] then st_checkin_cmd (status_or_new now (f_members f ! i)) else []) \<and>
             sr_answered_goal_ask s = (if su_by u = [] then st_goal_ask_cmd (status_or_new now (f_members f ! i)) else [])"
proof (cases "memberLocked n p r")
  case (Inl e)
  then show ?thesis using assms(1) refused [of e] by (simp add: Declare_def)
next
  case (Inr kfi)
  obtain key f i where kfi: "kfi = (key, f, i)" by (cases kfi)
  have m: "alist_get r key = Some f \<and> i < length (f_members f) \<and> m_pane (f_members f ! i) = p \<and> \<not> is_blank p"
    using memberLocked_Inr [OF Inr [unfolded kfi] assms(2)] .
  show ?thesis
  proof (cases "check_update f p (trim_space (to_lower (su_work u))) u")
    case (Inl e)
    then show ?thesis using assms(1) Inr kfi m refused [of e] by (simp add: Declare_def)
  next
    case bs: (Inr bs)
    show ?thesis
      by (rule accepted [of key f i bs])
        (use assms(1) Inr kfi m bs in \<open>auto simp: Declare_def Let_def\<close>)
  qed
qed

lemma Declare_wf [well_formed]:
  assumes "ledger_wf r"
  shows "ledger_wf (fst (Declare n p u now r))"
proof -
  obtain r' res where d: "Declare n p u now r = (r', res)" by (cases "Declare n p u now r")
  from d ledger_wf_alist [OF assms] show ?thesis
  proof (cases rule: Declare_cases)
    case (refused e)
    then show ?thesis using d assms by simp
  next
    case (accepted key f i bs)
    let ?m = "(f_members f ! i)\<lparr>m_status := Some
      (declare_row (trim_space (to_lower (su_work u))) bs u now (status_or_new now (f_members f ! i)))\<rparr>"
    have rows: "rows_wf f" by (rule ledger_wf_get [OF assms accepted(2)])
    then have "member_wf (f_members f ! i)" using accepted(3) by (simp add: rows_wf_def)
    then have "row_wf p (status_or_new now (f_members f ! i))"
      using row_wf_status_or_new accepted(4) by metis
    then have "member_wf ?m"
      using declare_row_wf [OF accepted(5)] accepted(4) by (simp add: member_wf_def)
    then have "rows_wf (deriveBlockerFor (set_member i ?m f))"
      by (intro derive.keeps_rows set_member_rows rows)
    moreover have "map m_pane (f_members (set_member i ?m f)) = map m_pane (f_members f)"
      by (rule set_member_panes [OF accepted(3)]) simp
    ultimately have "ledger_wf (AList.update key (deriveBlockerFor (set_member i ?m f)) r)"
      by (intro ledger_wf_set [OF assms accepted(2)]) (simp_all add: derive.keeps_name derive.keeps_board)
    then show ?thesis using d accepted(6) by simp
  qed
qed

lemma SetStatus_fst: "fst (SetStatus n p u now r) = fst (Declare n p u now r)"
  by (simp add: SetStatus_def case_prod_beta)

lemma on_status_wf:
  assumes "ledger_wf r" and "\<And>pane s. \<forall>st \<in> set_option s. row_wf pane st \<Longrightarrow> \<forall>st \<in> set_option (g s). row_wf pane st"
  shows "ledger_wf (on_status n p g r)"
proof (cases "memberLocked n p r")
  case (Inl e)
  then show ?thesis using assms(1) by (simp add: on_status_def)
next
  case (Inr kfi)
  obtain key f i where kfi: "kfi = (key, f, i)" by (cases kfi)
  have m: "alist_get r key = Some f" "i < length (f_members f)"
    using memberLocked_Inr [OF Inr [unfolded kfi] ledger_wf_alist [OF assms(1)]] by auto
  have rows: "rows_wf f" by (rule ledger_wf_get [OF assms(1) m(1)])
  then have "member_wf (f_members f ! i)" using m(2) by (simp add: rows_wf_def)
  then have "member_wf ((f_members f ! i)\<lparr>m_status := g (m_status (f_members f ! i))\<rparr>)"
    using assms(2) by (simp add: member_wf_def)
  then show ?thesis
    using Inr kfi m rows
    by (auto simp: on_status_def intro!: ledger_wf_set [OF assms(1) m(1)] set_member_rows set_member_panes)
qed

lemma CheckinSent_wf [well_formed]: "ledger_wf r \<Longrightarrow> ledger_wf (CheckinSent n p cmd r)"
  unfolding CheckinSent_def by (rule on_status_wf) (auto simp: row_wf_def)

lemma ScoutAnswered_wf [well_formed]: "ledger_wf r \<Longrightarrow> ledger_wf (ScoutAnswered n p h now r)"
  unfolding ScoutAnswered_def by (rule on_status_wf) (auto simp: row_wf_def)

lemma GoalAskSent_wf [well_formed]: "ledger_wf r \<Longrightarrow> ledger_wf (GoalAskSent n p cmd now r)"
  unfolding GoalAskSent_def
  by (rule on_status_wf) (auto simp: row_wf_def empty_status_def split: option.splits)

lemma observe_row_wf: "row_wf p st \<Longrightarrow> row_wf p (observe_row a now st)"
  by (auto simp: row_wf_def observe_row_def Let_def)

interpretation observe: member_edit "\<lambda>m. m\<lparr>m_status := Some (observe_row a now (status_or_new now m))\<rparr>"
  for a now
  by unfold_locales (auto simp: member_wf_def [of "_\<lparr>m_status := _\<rparr>"] observe_row_wf row_wf_status_or_new)

interpretation attention: member_edit "\<lambda>m. m\<lparr>m_status := Some ((status_or_new now m)\<lparr>st_attention := a\<rparr>)\<rparr>"
  for a now
proof
  fix m
  show "m_pane (m\<lparr>m_status := Some ((status_or_new now m)\<lparr>st_attention := a\<rparr>)\<rparr>) = m_pane m" by simp
  assume "member_wf m"
  then have "row_wf (m_pane m) (status_or_new now m)" by (rule row_wf_status_or_new)
  then show "member_wf (m\<lparr>m_status := Some ((status_or_new now m)\<lparr>st_attention := a\<rparr>)\<rparr>)"
    by (simp add: member_wf_def row_wf_def)
qed

lemma Observe_wf [well_formed]: "ledger_wf r \<Longrightarrow> ledger_wf (Observe p a now r)"
  unfolding Observe_def by (rule observe.at_pane.map_ledger)

lemma ObserveAttention_wf [well_formed]: "ledger_wf r \<Longrightarrow> ledger_wf (ObserveAttention p a now r)"
  unfolding ObserveAttention_def by (rule attention.at_pane.map_ledger)

interpretation watch_edit: ledger_edit "\<lambda>f. f\<lparr>f_watch := w\<rparr>" for w
  by unfold_locales (simp_all add: rows_wf_def)

lemma SetWatch_wf [well_formed]: "ledger_wf r \<Longrightarrow> ledger_wf (fst (SetWatch n w r))"
  by (auto simp: SetWatch_def Let_def watch_edit.update_ledger split: option.splits)

end
