(* ===== verification/FleetHealth.thy ===== *)
theory FleetHealth
  imports FleetStatus
begin

text \<open>
  The derived half of the status ledger (\<open>internal/fleet/status.go\<close>, \<open>scout.go\<close>): rings of blocked
  members, health, the check-ins that are due, and who may answer one.

  \<open>Evaluate\<close> and \<open>DueCheckins\<close> walk the fleets in the order of their names and the members of each
  fleet in order, each member seeing the rows the loop has already rewritten.
\<close>

section \<open>Rings of blocked members\<close>

definition blocked_edges :: "fleet \<Rightarrow> string graph" where
  "blocked_edges f =
     fold (\<lambda>m g. if is_blocked m then AList.update (m_pane m) (blockers_of m) g else g) (f_members f) []"

text \<open>A ring is recorded for each of its members that has none yet.\<close>

definition record_ring :: "string list \<Rightarrow> (string \<times> string list) list \<Rightarrow> (string \<times> string list) list" where
  "record_ring c out = fold (\<lambda>i o'. if alist_get o' i = None then AList.update i c o' else o') c out"

definition blockedCycles_opt :: "fleet \<Rightarrow> (string \<times> string list) list option" where
  "blockedCycles_opt f =
     (let edges = blocked_edges f in dfs_run edges (\<lambda>_. True) record_ring (sort (keys edges)) [])"

definition blockedCycles :: "fleet \<Rightarrow> (string \<times> string list) list" where
  "blockedCycles f = (case blockedCycles_opt f of None \<Rightarrow> [] | Some out \<Rightarrow> out)"

section \<open>Health\<close>

definition lastNonZero :: "int \<Rightarrow> int \<Rightarrow> int" where
  "lastNonZero a b = (if a \<noteq> 0 then a else b)"

definition find_last :: "('a \<Rightarrow> bool) \<Rightarrow> 'a list \<Rightarrow> 'a option" where
  "find_last P xs = List.find P (rev xs)"

definition blockersResolved :: "fleet \<Rightarrow> string list \<Rightarrow> bool" where
  "blockersResolved f blockers \<longleftrightarrow> blockers \<noteq> [] \<and>
     list_all (\<lambda>b. b \<noteq> BlockerHuman \<and> \<not> has_prefix b BlockerExternalPrefix \<and>
       (case find_last (\<lambda>m. m_pane m = b) (f_members f) of
          None \<Rightarrow> True
        | Some bm \<Rightarrow> (case m_status bm of None \<Rightarrow> False
                     | Some st \<Rightarrow> st_work st = WorkDone \<or> st_work st = WorkIdle))) blockers"

definition memberHealth :: "fleet \<Rightarrow> member_status \<Rightarrow> watch \<Rightarrow> bool \<Rightarrow> int \<Rightarrow> string" where
  "memberHealth f st w inCycle now =
     (let idle = (st_activity st = ActivityIdle);
          stall = w_stall_sec w * 1000;
          interval = w_interval_sec w * 1000
      in if st_observed_at st = 0 \<and> st_updated_at st = 0 then []
         else if inCycle then HealthDeadlock
         else if 2 \<le> st_checkin_missed st then HealthUnresponsive
         else if st_work st = WorkBlocked \<and> blockersResolved f (st_blocked_by st) then HealthUnblocked
         else if st_work st = WorkProgress \<and> idle \<and>
           stall \<le> now - lastNonZero (st_active_at st) (st_joined_at st) \<and> stall \<le> now - st_updated_at st
           then HealthStalled
         else if (st_work st = WorkIdle \<or> st_work st = WorkDone) \<and> idle then HealthAvailable
         else if st_work st = [] \<and> idle \<and> interval \<le> now - st_joined_at st then HealthSilent
         else HealthOK)"

record health_change =
  hc_fleet :: string
  hc_member :: member
  hc_from :: string
  hc_to :: string
  hc_cycle :: "string list"

definition ring_of :: "(string \<times> string list) list \<Rightarrow> string \<Rightarrow> string list" where
  "ring_of cycles pane = (case alist_get cycles pane of None \<Rightarrow> [] | Some c \<Rightarrow> c)"

fun evaluate_members ::
  "fleet \<Rightarrow> watch \<Rightarrow> (string \<times> string list) list \<Rightarrow> int \<Rightarrow> member list \<Rightarrow> member list \<Rightarrow>
   member list \<times> health_change list" where
  "evaluate_members f w cycles now seen [] = (seen, [])"
| "evaluate_members f w cycles now seen (m # ms) =
     (let st = status_or_new now m;
          m' = m\<lparr>m_status := Some st\<rparr>;
          h = memberHealth (f\<lparr>f_members := seen @ m' # ms\<rparr>) st w (alist_get cycles (m_pane m) \<noteq> None) now
      in if h = st_health st then evaluate_members f w cycles now (seen @ [m']) ms
         else let m'' = m\<lparr>m_status := Some (st\<lparr>st_health := h, st_health_since := now\<rparr>)\<rparr>;
                  ch = \<lparr>hc_fleet = f_name f, hc_member = m'', hc_from = st_health st, hc_to = h,
                        hc_cycle = ring_of cycles (m_pane m)\<rparr>;
                  (ms', chs) = evaluate_members f w cycles now (seen @ [m'']) ms
              in (ms', ch # chs))"

definition evaluate_fleet :: "int \<Rightarrow> fleet \<Rightarrow> fleet \<times> health_change list" where
  "evaluate_fleet now f0 =
     (let f = deriveBlockerFor f0;
          (ms, chs) = evaluate_members f (Watch_Resolved (f_watch f0)) (blockedCycles f) now [] (f_members f)
      in (f\<lparr>f_members := ms\<rparr>, chs))"

text \<open>A sweep over the fleets in the order of their names.\<close>

definition sweep_step :: "(fleet \<Rightarrow> fleet \<times> 'c list) \<Rightarrow> string \<Rightarrow> registry \<times> 'c list \<Rightarrow> registry \<times> 'c list" where
  "sweep_step g name rc =
     (case alist_get (fst rc) name of
        None \<Rightarrow> rc
      | Some f \<Rightarrow> (AList.update name (fst (g f)) (fst rc), snd rc @ snd (g f)))"

definition sweep :: "(fleet \<Rightarrow> fleet \<times> 'c list) \<Rightarrow> registry \<Rightarrow> registry \<times> 'c list" where
  "sweep g r = fold (sweep_step g) (sort (keys r)) (r, [])"

definition Evaluate :: "int \<Rightarrow> registry \<Rightarrow> registry \<times> health_change list" where
  "Evaluate now r = sweep (evaluate_fleet now) r"

section \<open>Check-ins\<close>

record checkin =
  c_fleet :: string
  c_board :: string
  c_member :: member
  c_reason :: string
  c_missed :: int

text \<open>Why a member is asked now, and the least time since it was last asked.\<close>

definition checkin_reason :: "watch \<Rightarrow> member_status \<Rightarrow> string \<times> int" where
  "checkin_reason w st =
     (let gap = w_interval_sec w * 1000
      in if w_policy w = PolicyAlways then (''scheduled'', gap)
         else if st_health st = HealthSilent \<or> st_health st = HealthUnresponsive then (st_health st, gap)
         else if st_health st = HealthStalled \<or> st_health st = HealthUnblocked
           then (st_health st, if st_checkin_at st < st_health_since st then 0 else gap)
         else ([], gap))"

definition checkin_due :: "watch \<Rightarrow> int \<Rightarrow> member_status \<Rightarrow> bool" where
  "checkin_due w now st \<longleftrightarrow>
     fst (checkin_reason w st) \<noteq> [] \<and> snd (checkin_reason w st) \<le> now - st_checkin_at st"

definition ask_row :: "int \<Rightarrow> member_status \<Rightarrow> member_status" where
  "ask_row now st =
     (if st_checkin_cmd st \<noteq> [] then st\<lparr>st_checkin_missed := st_checkin_missed st + 1\<rparr> else st)
       \<lparr>st_checkin_at := now\<rparr>"

fun due_members :: "fleet \<Rightarrow> watch \<Rightarrow> int \<Rightarrow> member list \<Rightarrow> member list \<times> checkin list" where
  "due_members f w now [] = ([], [])"
| "due_members f w now (m # ms) =
     (let (ms', cs) = due_members f w now ms
      in case m_status m of
           None \<Rightarrow> (m # ms', cs)
         | Some st \<Rightarrow>
             if checkin_due w now st then
               (let m' = m\<lparr>m_status := Some (ask_row now st)\<rparr>
                in (m' # ms', \<lparr>c_fleet = f_name f, c_board = f_board f, c_member = m',
                               c_reason = fst (checkin_reason w st),
                               c_missed = st_checkin_missed (ask_row now st)\<rparr> # cs))
             else (m # ms', cs))"

definition due_fleet :: "int \<Rightarrow> fleet \<Rightarrow> fleet \<times> checkin list" where
  "due_fleet now f =
     (let w = Watch_Resolved (f_watch f)
      in if f_state f \<noteq> StateUp \<or> w_policy w = PolicyOff then (f, [])
         else let (ms, cs) = due_members f w now (f_members f) in (f\<lparr>f_members := ms\<rparr>, cs))"

definition DueCheckins :: "int \<Rightarrow> registry \<Rightarrow> registry \<times> checkin list" where
  "DueCheckins now r = sweep (due_fleet now) r"

section \<open>The status scout\<close>

definition ScoutEligible :: "checkin \<Rightarrow> watch \<Rightarrow> bool" where
  "ScoutEligible c w =
     (if w_answer w \<noteq> AnswerScout then False
      else case m_status (c_member c) of
             None \<Rightarrow> False
           | Some st \<Rightarrow>
               if c_reason c = ''scheduled'' then True
               else if c_reason c = HealthSilent \<or> c_reason c = HealthStalled
                 then \<not> (0 < st_scout_at st \<and> st_scout_health st = st_health st \<and>
                         st_health_since st \<le> st_scout_at st)
               else False)"

section \<open>Rings: soundness and completeness\<close>

lemma blocked_edges_fold_wf:
  "alist_wf g \<Longrightarrow> alist_wf (fold (\<lambda>m g. if is_blocked m then AList.update (m_pane m) (blockers_of m) g else g) ms g)"
  by (induction ms arbitrary: g) auto

lemma blocked_edges_fold_get:
  "distinct (map m_pane ms) \<Longrightarrow>
   alist_get (fold (\<lambda>m g. if is_blocked m then AList.update (m_pane m) (blockers_of m) g else g) ms g) p =
     (case List.find (\<lambda>m. m_pane m = p) ms of
        Some m \<Rightarrow> if is_blocked m then Some (blockers_of m) else alist_get g p
      | None \<Rightarrow> alist_get g p)"
proof (induction ms arbitrary: g)
  case Nil
  show ?case by simp
next
  case (Cons m ms)
  have "List.find (\<lambda>x. m_pane x = m_pane m) ms = None"
    using Cons.prems by (auto simp: find_None_iff) (metis imageI)
  then show ?case using Cons by (auto split: option.splits)
qed

text \<open>The edges are the declared ones of the blocked members.\<close>

lemma blocked_edges_edge:
  assumes "distinct (map m_pane (f_members f))"
  shows "(p, q) \<in> edge (blocked_edges f) \<longleftrightarrow>
    (\<exists>m \<in> set (f_members f). m_pane m = p \<and> is_blocked m \<and> q \<in> set (blockers_of m))"
proof (cases "List.find (\<lambda>m. m_pane m = p) (f_members f)")
  case None
  have "alist_get (blocked_edges f) p = None"
    using blocked_edges_fold_get [OF assms, of "[]" p] None
    by (simp add: blocked_edges_def alist_get_def)
  then have "nexts (blocked_edges f) p = []" by (simp add: nexts_def)
  then show ?thesis using None by (auto simp: find_None_iff)
next
  case (Some m)
  then have m: "m \<in> set (f_members f)" "m_pane m = p" by (auto dest: find_Some_iff2)
  have "x = m" if "x \<in> set (f_members f)" "m_pane x = p" for x
    using distinct_map_unique [OF assms that(1) m(1)] that(2) m(2) by simp
  moreover have "alist_get (blocked_edges f) p = (if is_blocked m then Some (blockers_of m) else None)"
    using blocked_edges_fold_get [OF assms, of "[]" p] Some
    by (simp add: blocked_edges_def alist_get_def)
  then have "(p, q) \<in> edge (blocked_edges f) \<longleftrightarrow> is_blocked m \<and> q \<in> set (blockers_of m)"
    by (simp add: nexts_def)
  ultimately show ?thesis using m by blast
qed

lemma blocked_edges_wf: "alist_wf (blocked_edges f)"
  by (simp add: blocked_edges_def blocked_edges_fold_wf)

definition rings_ok :: "string graph \<Rightarrow> (string \<times> string list) list \<Rightarrow> bool" where
  "rings_ok g out \<longleftrightarrow> alist_all (\<lambda>i c. is_ring g c \<and> i \<in> set c) out"

lemma record_ring_fold:
  "alist_all P out \<Longrightarrow> (\<And>i. i \<in> set ids \<Longrightarrow> P i c) \<Longrightarrow>
   alist_all P (fold (\<lambda>i o'. if alist_get o' i = None then AList.update i c o' else o') ids out)"
  by (induction ids arbitrary: out) (auto intro: alist_all_update)

lemma record_ring_nonempty: "c \<noteq> [] \<Longrightarrow> record_ring c out \<noteq> []"
proof -
  have keep: "o' \<noteq> [] \<Longrightarrow> fold (\<lambda>i o'. if alist_get o' i = None then AList.update i c o' else o') ids o' \<noteq> []" for ids o'
    by (induction ids arbitrary: o') (auto simp: update_nonempty)
  assume "c \<noteq> []"
  then obtain i ids where "c = i # ids" by (cases c) auto
  then show "record_ring c out \<noteq> []"
    using keep [of "if alist_get out i = None then AList.update i c out else out" ids]
    by (cases out) (auto simp: record_ring_def update_nonempty alist_get_def)
qed

interpretation blocked_search: ring_search g "\<lambda>_. True" record_ring "rings_ok g" "\<lambda>out. out \<noteq> []"
  for g :: "string graph"
proof
  show "rings_ok g (record_ring c r)" if "is_ring g c" "rings_ok g r" for c r
    using that unfolding record_ring_def rings_ok_def by (intro record_ring_fold) auto
  show "record_ring c r \<noteq> []" if "is_ring g c" for c r
    using that record_ring_nonempty by (auto simp: is_ring_def)
qed simp_all

lemma blockedCycles_run: "blockedCycles_opt f = Some (blockedCycles f)"
proof -
  let ?g = "blocked_edges f"
  have "\<exists>out. dfs_run ?g (\<lambda>_. True) record_ring (sort (keys ?g)) [] = Some out"
    by (rule dfs_run_total) (metis keys_in_nodes set_sort subsetI)
  then show ?thesis by (auto simp: blockedCycles_def blockedCycles_opt_def Let_def)
qed

lemma blockedCycles_sound: "rings_ok (blocked_edges f) (blockedCycles f)"
  using blocked_search.run_good [of "blocked_edges f" "sort (keys (blocked_edges f))" "[]" "blockedCycles f"]
    blockedCycles_run [of f]
  by (simp add: blockedCycles_opt_def Let_def rings_ok_def)

lemma blockedCycles_complete: "blockedCycles f = [] \<Longrightarrow> \<not> is_ring (blocked_edges f) c"
proof (rule blocked_search.run_complete [of "blocked_edges f" "sort (keys (blocked_edges f))" "[]" "blockedCycles f"])
  show "n \<in> set (sort (keys (blocked_edges f)))" if n: "nexts (blocked_edges f) n \<noteq> []" for n
  proof -
    obtain v where "v \<in> set (nexts (blocked_edges f) n)" using n by (cases "nexts (blocked_edges f) n") auto
    then show ?thesis by (metis nexts_key set_sort)
  qed
qed (use blockedCycles_run [of f] in \<open>simp_all add: blockedCycles_opt_def Let_def rings_ok_def\<close>)

section \<open>Sweeps\<close>

lemma sweep_fold:
  "distinct ns \<Longrightarrow>
   alist_get (fst (fold (sweep_step g) ns (r, out))) k =
     (if k \<in> set ns then map_option (\<lambda>f. fst (g f)) (alist_get r k) else alist_get r k) \<and>
   snd (fold (sweep_step g) ns (r, out)) =
     out @ concat (map (\<lambda>n. case alist_get r n of None \<Rightarrow> [] | Some f \<Rightarrow> snd (g f)) ns)"
proof (induction ns arbitrary: r out)
  case Nil
  show ?case by simp
next
  case (Cons n ns)
  show ?case
  proof (cases "alist_get r n")
    case None
    then show ?thesis using Cons by (simp add: sweep_step_def)
  next
    case (Some f)
    let ?r = "AList.update n (fst (g f)) r"
    have step: "fold (sweep_step g) (n # ns) (r, out) = fold (sweep_step g) ns (?r, out @ snd (g f))"
      by (simp add: sweep_step_def Some)
    have eq: "concat (map (\<lambda>x. case alist_get ?r x of None \<Rightarrow> [] | Some f \<Rightarrow> snd (g f)) ns) =
        concat (map (\<lambda>x. case alist_get r x of None \<Rightarrow> [] | Some f \<Rightarrow> snd (g f)) ns)"
      using Cons.prems by (intro arg_cong [where f = concat] map_cong) auto
    have "distinct ns" and "n \<notin> set ns" using Cons.prems by auto
    show ?thesis
      unfolding step Cons.IH [OF \<open>distinct ns\<close>, of ?r "out @ snd (g f)", THEN conjunct1]
        Cons.IH [OF \<open>distinct ns\<close>, of ?r "out @ snd (g f)", THEN conjunct2] eq
      using Some \<open>n \<notin> set ns\<close> by auto
  qed
qed

lemma sweep_get:
  "alist_wf r \<Longrightarrow> alist_get (fst (sweep g r)) k = map_option (\<lambda>f. fst (g f)) (alist_get r k)"
  using sweep_fold [of "sort (keys r)" g r "[]" k]
    alist_get_None_iff [of r k]
  by (auto simp: sweep_def alist_wf_def)

lemma sweep_out:
  assumes "alist_wf r"
  shows "snd (sweep g r) = concat (map (\<lambda>n. snd (g (the (alist_get r n)))) (sort (keys r)))"
proof -
  have "map (\<lambda>n. case alist_get r n of None \<Rightarrow> [] | Some f \<Rightarrow> snd (g f)) (sort (keys r)) =
      map (\<lambda>n. snd (g (the (alist_get r n)))) (sort (keys r))"
  proof (rule map_cong)
    fix n assume "n \<in> set (sort (keys r))"
    then have "alist_get r n \<noteq> None" by (metis alist_get_None_iff set_sort)
    then show "(case alist_get r n of None \<Rightarrow> [] | Some f \<Rightarrow> snd (g f)) = snd (g (the (alist_get r n)))" by auto
  qed simp
  then show ?thesis
    using sweep_fold [of "sort (keys r)" g r "[]"] assms
    unfolding sweep_def alist_wf_def by (metis append_Nil distinct_sort)
qed

lemma sweep_all_fold:
  "alist_all P r \<Longrightarrow> (\<And>k f. P k f \<Longrightarrow> P k (fst (g f))) \<Longrightarrow>
   alist_all P (fst (fold (sweep_step g) ns (r, out)))"
proof (induction ns arbitrary: r out)
  case Nil
  then show ?case by simp
next
  case (Cons n ns)
  show ?case
  proof (cases "alist_get r n")
    case None
    then show ?thesis using Cons by (simp add: sweep_step_def)
  next
    case (Some f)
    then have "alist_all P (AList.update n (fst (g f)) r)"
      using Cons.prems by (intro alist_all_update) (auto dest: alist_all_get)
    then show ?thesis using Cons Some by (simp add: sweep_step_def)
  qed
qed

lemma sweep_all:
  "alist_all P r \<Longrightarrow> (\<And>k f. P k f \<Longrightarrow> P k (fst (g f))) \<Longrightarrow> alist_all P (fst (sweep g r))"
  unfolding sweep_def by (rule sweep_all_fold)

section \<open>Evaluation, member by member\<close>

text \<open>What a member's health depends on in the other members: their panes and declared work.\<close>

definition view :: "member \<Rightarrow> string \<times> string" where
  "view m = (m_pane m, case m_status m of None \<Rightarrow> [] | Some st \<Rightarrow> st_work st)"

lemma find_map: "List.find P (map f xs) = map_option f (List.find (\<lambda>x. P (f x)) xs)"
  by (induction xs) auto

definition resolved_view :: "(string \<times> string) list \<Rightarrow> string \<Rightarrow> bool" where
  "resolved_view vs b \<longleftrightarrow> b \<noteq> BlockerHuman \<and> \<not> has_prefix b BlockerExternalPrefix \<and>
     (case find_last (\<lambda>v. fst v = b) vs of None \<Rightarrow> True | Some v \<Rightarrow> snd v = WorkDone \<or> snd v = WorkIdle)"

lemma blockersResolved_view:
  "blockersResolved f bs \<longleftrightarrow> bs \<noteq> [] \<and> list_all (resolved_view (map view (f_members f))) bs"
proof -
  have "find_last (\<lambda>v. fst v = b) (map view (f_members f)) =
      map_option view (find_last (\<lambda>m. m_pane m = b) (f_members f))" for b
    by (simp add: find_last_def rev_map find_map view_def)
  then have "resolved_view (map view (f_members f)) b \<longleftrightarrow> b \<noteq> BlockerHuman \<and>
      \<not> has_prefix b BlockerExternalPrefix \<and>
      (case find_last (\<lambda>m. m_pane m = b) (f_members f) of None \<Rightarrow> True
       | Some bm \<Rightarrow> (case m_status bm of None \<Rightarrow> False
                    | Some st \<Rightarrow> st_work st = WorkDone \<or> st_work st = WorkIdle))" for b
    by (auto simp: resolved_view_def view_def split: option.splits)
  then show ?thesis by (simp add: blockersResolved_def list_all_iff)
qed

lemma memberHealth_view:
  "map view (f_members f) = map view (f_members g) \<Longrightarrow> memberHealth f st w c now = memberHealth g st w c now"
  by (simp add: memberHealth_def blockersResolved_view cong: if_cong)

lemma memberHealth_own [simp]:
  "memberHealth f (st\<lparr>st_health := h, st_health_since := t\<rparr>) w c now = memberHealth f st w c now"
  by (simp add: memberHealth_def Let_def)

definition eval_row ::
  "fleet \<Rightarrow> watch \<Rightarrow> (string \<times> string list) list \<Rightarrow> int \<Rightarrow> member \<Rightarrow> member" where
  "eval_row f w cycles now m =
     (let st = status_or_new now m;
          h = memberHealth f st w (alist_get cycles (m_pane m) \<noteq> None) now
      in m\<lparr>m_status := Some (if h = st_health st then st
                              else st\<lparr>st_health := h, st_health_since := now\<rparr>)\<rparr>)"

definition eval_change ::
  "fleet \<Rightarrow> watch \<Rightarrow> (string \<times> string list) list \<Rightarrow> int \<Rightarrow> member \<Rightarrow> health_change list" where
  "eval_change f w cycles now m =
     (let st = status_or_new now m;
          h = memberHealth f st w (alist_get cycles (m_pane m) \<noteq> None) now
      in if h = st_health st then []
         else [\<lparr>hc_fleet = f_name f, hc_member = eval_row f w cycles now m, hc_from = st_health st,
                hc_to = h, hc_cycle = ring_of cycles (m_pane m)\<rparr>])"

lemma view_new [simp]: "view (m\<lparr>m_status := Some (status_or_new now m)\<rparr>) = view m"
  by (simp add: view_def status_or_new_def empty_status_def split: option.splits)

lemma status_or_new_work: "st_work (status_or_new now m) = snd (view m)"
  by (simp add: view_def status_or_new_def empty_status_def split: option.splits)

lemma view_eval_row [simp]: "view (eval_row f w cycles now m) = view m"
  by (simp add: eval_row_def Let_def view_def status_or_new_def empty_status_def split: option.splits)

lemma eval_row_pane [simp]: "m_pane (eval_row f w cycles now m) = m_pane m"
  by (simp add: eval_row_def Let_def)

lemma evaluate_members_rows:
  "map view seen @ map view ms = map view (f_members f) \<Longrightarrow>
   evaluate_members f w cycles now seen ms =
     (seen @ map (eval_row f w cycles now) ms, concat (map (eval_change f w cycles now) ms))"
proof (induction ms arbitrary: seen)
  case Nil
  then show ?case by simp
next
  case (Cons m ms)
  let ?st = "status_or_new now m"
  let ?f = "f\<lparr>f_members := seen @ m\<lparr>m_status := Some ?st\<rparr> # ms\<rparr>"
  have h: "memberHealth ?f ?st w c now = memberHealth f ?st w c now" for c
    using Cons.prems by (intro memberHealth_view) simp
  have rest: "evaluate_members f w cycles now (seen @ [eval_row f w cycles now m]) ms =
      ((seen @ [eval_row f w cycles now m]) @ map (eval_row f w cycles now) ms,
       concat (map (eval_change f w cycles now) ms))"
    by (rule Cons.IH) (use Cons.prems in simp)
  show ?case
  proof (cases "memberHealth f ?st w (alist_get cycles (m_pane m) \<noteq> None) now = st_health ?st")
    case True
    then have "eval_row f w cycles now m = m\<lparr>m_status := Some ?st\<rparr>"
      and "eval_change f w cycles now m = []" by (simp_all add: eval_row_def eval_change_def Let_def)
    with True rest h show ?thesis by (simp add: Let_def)
  next
    case False
    then have "eval_row f w cycles now m = m\<lparr>m_status := Some (?st\<lparr>st_health :=
        memberHealth f ?st w (alist_get cycles (m_pane m) \<noteq> None) now, st_health_since := now\<rparr>)\<rparr>"
      by (simp add: eval_row_def Let_def)
    with False rest h show ?thesis by (simp add: Let_def eval_change_def [of _ _ _ _ m])
  qed
qed

definition eval_all :: "int \<Rightarrow> fleet \<Rightarrow> member \<Rightarrow> member" where
  "eval_all now f = eval_row f (Watch_Resolved (f_watch f)) (blockedCycles f) now"

lemma evaluate_fleet_rows:
  "evaluate_fleet now f0 =
     (let f = deriveBlockerFor f0
      in (f\<lparr>f_members := map (eval_all now f) (f_members f)\<rparr>,
          concat (map (eval_change f (Watch_Resolved (f_watch f)) (blockedCycles f) now) (f_members f))))"
proof -
  have "f_watch (deriveBlockerFor f0) = f_watch f0" by (simp add: deriveBlockerFor_def)
  then show ?thesis
    by (simp add: evaluate_fleet_def Let_def evaluate_members_rows eval_all_def [abs_def])
qed

subsection \<open>Evaluating twice\<close>

lemma evaluate_fleet_fields [simp]:
  "f_name (fst (evaluate_fleet now f)) = f_name f" "f_board (fst (evaluate_fleet now f)) = f_board f"
  "f_watch (fst (evaluate_fleet now f)) = f_watch f" "f_state (fst (evaluate_fleet now f)) = f_state f"
  by (simp_all add: evaluate_fleet_rows Let_def deriveBlockerFor_def)

lemma eval_all_simps [simp]: "m_pane (eval_all now f m) = m_pane m" "view (eval_all now f m) = view m"
  by (simp_all add: eval_all_def)

lemma eval_row_blocks [simp]:
  "is_blocked (eval_row f w c now m) = is_blocked m" "blockers_of (eval_row f w c now m) = blockers_of m"
  "blocker_for (eval_row f w c now m) = blocker_for m"
  by (simp_all add: is_blocked_def blockers_of_def blocker_for_def eval_row_def Let_def
      status_or_new_def empty_status_def split: option.splits)

lemma eval_all_blocks [simp]:
  "is_blocked (eval_all now f m) = is_blocked m" "blockers_of (eval_all now f m) = blockers_of m"
  "blocker_for (eval_all now f m) = blocker_for m"
  by (simp_all add: eval_all_def)

lemma blocker_index_map:
  assumes "\<And>m. m_pane (h m) = m_pane m" "\<And>m. is_blocked (h m) = is_blocked m" "\<And>m. blockers_of (h m) = blockers_of m"
  shows "blocker_index (map h ms) = blocker_index ms"
  by (simp add: blocker_index_def fold_map o_def assms cong: if_cong)

lemma blockedCycles_map:
  assumes "\<And>m. m_pane (h m) = m_pane m" "\<And>m. is_blocked (h m) = is_blocked m" "\<And>m. blockers_of (h m) = blockers_of m"
  shows "blockedCycles (f\<lparr>f_members := map h (f_members f)\<rparr>) = blockedCycles f"
  by (simp add: blockedCycles_def blockedCycles_opt_def blocked_edges_def fold_map o_def assms cong: if_cong)

lemma derive_row_fixed:
  "m_status m = Some st \<Longrightarrow> st_blocker_for st = sort (nexts g (m_pane m)) \<Longrightarrow> derive_row g m = m"
  by (simp add: derive_row_def)

lemma eval_row_has_status: "\<exists>st. m_status (eval_row f w c now m) = Some st"
  by (simp add: eval_row_def Let_def)

lemma derive_evaluated:
  "deriveBlockerFor (fst (evaluate_fleet now f0)) = fst (evaluate_fleet now f0)"
proof -
  let ?f = "deriveBlockerFor f0"
  let ?g = "blocker_index (f_members f0)"
  have index: "blocker_index (map (eval_all now ?f) (f_members ?f)) = ?g"
    by (simp add: blocker_index_map deriveBlockerFor_def)
  have "derive_row ?g (eval_all now ?f m) = eval_all now ?f m" if "m \<in> set (f_members ?f)" for m
  proof -
    have "m \<in> derive_row ?g ` set (f_members f0)" using that by (simp add: deriveBlockerFor_def)
    then obtain m0 where "m = derive_row ?g m0" by blast
    then have "blocker_for (eval_all now ?f m) = sort (nexts ?g (m_pane m))"
      by (simp add: derive_row_blocker_for)
    moreover obtain st where st: "m_status (eval_all now ?f m) = Some st"
      using eval_row_has_status unfolding eval_all_def by blast
    ultimately show ?thesis by (intro derive_row_fixed) (auto simp: blocker_for_def)
  qed
  then show ?thesis
    by (simp add: evaluate_fleet_rows Let_def deriveBlockerFor_def [of "_\<lparr>f_members := _\<rparr>"] index)
qed

lemma status_or_new_Some [simp]: "m_status m = Some st \<Longrightarrow> status_or_new now m = st"
  by (simp add: status_or_new_def)

lemma eval_row_again:
  assumes "m' = eval_row f w c now m"
    and "\<And>st d. memberHealth f' st w d now = memberHealth f st w d now"
  shows "eval_row f' w c now m' = m'" and "eval_change f' w c now m' = []"
proof -
  obtain st where st: "m_status m' = Some st"
    and h: "st_health st = memberHealth f st w (alist_get c (m_pane m) \<noteq> None) now"
    and pane: "m_pane m' = m_pane m"
    using assms(1) by (auto simp: eval_row_def Let_def)
  then show "eval_row f' w c now m' = m'" "eval_change f' w c now m' = []"
    by (simp_all add: eval_row_def eval_change_def assms(2) del: memberHealth_own)
qed

lemma evaluate_fleet_twice:
  "evaluate_fleet now (fst (evaluate_fleet now f0)) = (fst (evaluate_fleet now f0), [])"
proof -
  define f where "f = deriveBlockerFor f0"
  define f1 where "f1 = f\<lparr>f_members := map (eval_all now f) (f_members f)\<rparr>"
  have run: "fst (evaluate_fleet now f0) = f1" by (simp add: evaluate_fleet_rows Let_def f_def f1_def)
  have cycles: "blockedCycles f1 = blockedCycles f" unfolding f1_def by (rule blockedCycles_map) simp_all
  have watch: "f_watch f1 = f_watch f" by (simp add: f1_def)
  have health: "memberHealth f1 st w d now = memberHealth f st w d now" for st w d
    by (rule memberHealth_view) (simp add: f1_def o_def)
  have row: "eval_all now f1 (eval_all now f m) = eval_all now f m" for m
    using eval_row_again(1) [OF refl health] unfolding eval_all_def cycles watch by blast
  have quiet: "eval_change f1 (Watch_Resolved (f_watch f1)) (blockedCycles f1) now (eval_all now f m) = []" for m
    using eval_row_again(2) [OF refl health] unfolding eval_all_def cycles watch by blast
  have members: "f_members f1 = map (eval_all now f) (f_members f)" by (simp add: f1_def)
  have "deriveBlockerFor f1 = f1" using derive_evaluated [of now f0] by (simp add: run)
  then have "evaluate_fleet now f1 = (f1\<lparr>f_members := map (eval_all now f1) (f_members f1)\<rparr>,
      concat (map (eval_change f1 (Watch_Resolved (f_watch f1)) (blockedCycles f1) now) (f_members f1)))"
    by (simp add: evaluate_fleet_rows Let_def)
  also have "\<dots> = (f1\<lparr>f_members := f_members f1\<rparr>, [])"
    unfolding members by (simp add: o_def row quiet)
  finally show ?thesis by (simp add: run)
qed

lemma Evaluate_get:
  "alist_wf r \<Longrightarrow> alist_get (fst (Evaluate now r)) k = map_option (\<lambda>f. fst (evaluate_fleet now f)) (alist_get r k)"
  unfolding Evaluate_def by (rule sweep_get)

lemma sweep_wf: "alist_wf r \<Longrightarrow> alist_wf (fst (sweep g r))"
  using sweep_all [of "\<lambda>_ _. True" r g] by (simp add: alist_all_def)

lemma Evaluate_twice_quiet:
  assumes "alist_wf r"
  shows "snd (Evaluate now (fst (Evaluate now r))) = []"
proof -
  let ?r = "fst (Evaluate now r)"
  have wf: "alist_wf ?r" unfolding Evaluate_def by (rule sweep_wf [OF assms])
  have "snd (evaluate_fleet now (the (alist_get ?r n))) = []" if "n \<in> set (keys ?r)" for n
  proof -
    have "alist_get ?r n \<noteq> None" using that alist_get_None_iff by metis
    then obtain f where "alist_get ?r n = Some (fst (evaluate_fleet now f))"
      using Evaluate_get [OF assms, of now n] by auto
    then show ?thesis by (simp add: evaluate_fleet_twice)
  qed
  then show ?thesis
    unfolding Evaluate_def [of now ?r] sweep_out [OF wf] by (simp add: concat_eq_Nil_conv)
qed

subsection \<open>The invariant\<close>

lemma eval_row_wf: "member_wf m \<Longrightarrow> member_wf (eval_row f w c now m)"
proof -
  assume "member_wf m"
  then have "row_wf (m_pane m) (status_or_new now m)" by (rule row_wf_status_or_new)
  then show "member_wf (eval_row f w c now m)"
    unfolding member_wf_def eval_row_def Let_def by (auto simp: row_wf_def)
qed

interpretation evaluation: ledger_edit "\<lambda>f. fst (evaluate_fleet now f)" for now
proof
  fix f
  show "f_name (fst (evaluate_fleet now f)) = f_name f" "f_board (fst (evaluate_fleet now f)) = f_board f"
    by simp_all
  have panes: "map m_pane (f_members (fst (evaluate_fleet now f))) = map m_pane (f_members f)"
    by (simp add: evaluate_fleet_rows Let_def o_def deriveBlockerFor_def)
  show "distinct (map m_pane (f_members (fst (evaluate_fleet now f))))" if "distinct (map m_pane (f_members f))"
    using that by (simp only: panes)
  assume "rows_wf f"
  then have "rows_wf (deriveBlockerFor f)" by (rule derive.keeps_rows)
  then show "rows_wf (fst (evaluate_fleet now f))"
    by (auto simp: rows_wf_def evaluate_fleet_rows Let_def eval_all_def eval_row_wf)
qed

text \<open>A sweep of edits that keep the ledger keeps it.\<close>

lemma sweep_ledger:
  assumes "ledger_wf r" and "\<And>k f. fleet_wf k f \<Longrightarrow> fleet_wf k (fst (g f))" and "\<And>f. rows_wf f \<Longrightarrow> rows_wf (fst (g f))"
  shows "ledger_wf (fst (sweep g r))"
  using assms unfolding ledger_wf_def registry_wf_def by (auto intro: sweep_all)

lemma Evaluate_wf [well_formed]: "ledger_wf r \<Longrightarrow> ledger_wf (fst (Evaluate now r))"
  unfolding Evaluate_def
  by (rule sweep_ledger [OF _ evaluation.edit_wf evaluation.keeps_rows])

section \<open>Check-ins: rate and misses\<close>

definition ask_member :: "watch \<Rightarrow> int \<Rightarrow> member \<Rightarrow> member" where
  "ask_member w now m =
     (case m_status m of None \<Rightarrow> m
      | Some st \<Rightarrow> if checkin_due w now st then m\<lparr>m_status := Some (ask_row now st)\<rparr> else m)"

definition due_member :: "fleet \<Rightarrow> watch \<Rightarrow> int \<Rightarrow> member \<Rightarrow> checkin list" where
  "due_member f w now m =
     (case m_status m of None \<Rightarrow> []
      | Some st \<Rightarrow> if checkin_due w now st
                   then [\<lparr>c_fleet = f_name f, c_board = f_board f, c_member = ask_member w now m,
                          c_reason = fst (checkin_reason w st), c_missed = st_checkin_missed (ask_row now st)\<rparr>]
                   else [])"

lemma due_members_rows:
  "due_members f w now ms = (map (ask_member w now) ms, concat (map (due_member f w now) ms))"
  by (induction ms) (auto simp: Let_def ask_member_def due_member_def split: option.splits)

lemma ask_member_pane [simp]: "m_pane (ask_member w now m) = m_pane m"
  by (simp add: ask_member_def split: option.split)

lemma ask_row_wf: "row_wf p st \<Longrightarrow> row_wf p (ask_row now st)"
  by (simp add: row_wf_def ask_row_def)

lemma ask_member_wf: "member_wf m \<Longrightarrow> member_wf (ask_member w now m)"
  by (auto simp: ask_member_def member_wf_def ask_row_wf split: option.splits if_splits)

lemma due_fleet_members:
  "f_members (fst (due_fleet now f)) =
     (if f_state f \<noteq> StateUp \<or> w_policy (Watch_Resolved (f_watch f)) = PolicyOff then f_members f
      else map (ask_member (Watch_Resolved (f_watch f)) now) (f_members f))"
  by (simp add: due_fleet_def Let_def due_members_rows)

interpretation asking: ledger_edit "\<lambda>f. fst (due_fleet now f)" for now
proof
  fix f
  show "f_name (fst (due_fleet now f)) = f_name f" "f_board (fst (due_fleet now f)) = f_board f"
    by (simp_all add: due_fleet_def Let_def due_members_rows)
  show "distinct (map m_pane (f_members (fst (due_fleet now f))))" if "distinct (map m_pane (f_members f))"
    using that by (simp add: due_fleet_members o_def)
  show "rows_wf (fst (due_fleet now f))" if "rows_wf f"
    using that by (simp add: due_fleet_members rows_wf_def ask_member_wf)
qed

lemma DueCheckins_wf [well_formed]: "ledger_wf r \<Longrightarrow> ledger_wf (fst (DueCheckins now r))"
  unfolding DueCheckins_def by (rule sweep_ledger [OF _ asking.edit_wf asking.keeps_rows])

lemma Watch_Resolved_pos [simp]: "0 < w_interval_sec (Watch_Resolved w)" "0 < w_stall_sec (Watch_Resolved w)"
  by (simp_all add: Watch_Resolved_def Let_def split: option.split)

lemma checkin_again:
  assumes "st_health_since st \<le> now" and "now' - now < w_interval_sec w * 1000"
  shows "\<not> checkin_due w now' (ask_row now st)"
  using assms by (auto simp: checkin_due_def checkin_reason_def ask_row_def Let_def)

lemma ask_row_missed:
  "st_checkin_missed (ask_row now st) = st_checkin_missed st + (if st_checkin_cmd st \<noteq> [] then 1 else 0)"
  by (simp add: ask_row_def)

lemma due_fleet_out:
  "c \<in> set (snd (due_fleet now f)) \<Longrightarrow>
   \<exists>m st. m \<in> set (f_members f) \<and> m_status m = Some st \<and> f_state f = StateUp \<and>
     w_policy (Watch_Resolved (f_watch f)) \<noteq> PolicyOff \<and>
     checkin_due (Watch_Resolved (f_watch f)) now st \<and> c_fleet c = f_name f \<and>
     c_member c = m\<lparr>m_status := Some (ask_row now st)\<rparr> \<and>
     c_reason c = fst (checkin_reason (Watch_Resolved (f_watch f)) st) \<and>
     c_missed c = st_checkin_missed (ask_row now st)"
proof -
  let ?w = "Watch_Resolved (f_watch f)"
  assume c: "c \<in> set (snd (due_fleet now f))"
  then have up: "f_state f = StateUp" "w_policy ?w \<noteq> PolicyOff"
    and "c \<in> set (concat (map (due_member f ?w now) (f_members f)))"
    by (auto simp: due_fleet_def Let_def due_members_rows split: if_splits)
  then obtain m where m: "m \<in> set (f_members f)" and cm: "c \<in> set (due_member f ?w now m)" by auto
  then obtain st where "m_status m = Some st" "checkin_due ?w now st"
    by (cases "m_status m") (auto simp: due_member_def split: if_splits)
  then show ?thesis using m cm up by (auto simp: due_member_def ask_member_def)
qed

lemma DueCheckins_out:
  assumes "registry_wf r" and "c \<in> set (snd (DueCheckins now r))"
  shows "\<exists>f. alist_get r (c_fleet c) = Some f \<and> c \<in> set (snd (due_fleet now f))"
proof -
  have wf: "alist_wf r" using assms(1) by (rule registry_wf_alist)
  obtain n where n: "n \<in> set (keys r)" and c: "c \<in> set (snd (due_fleet now (the (alist_get r n))))"
    using assms(2) unfolding DueCheckins_def sweep_out [OF wf] by auto
  obtain f where f: "alist_get r n = Some f" using n alist_get_None_iff by fastforce
  then have "f_name f = n" using registry_wf_get [OF assms(1)] by (auto simp: fleet_wf_def)
  moreover have "c_fleet c = f_name f" using due_fleet_out [OF c] f by auto
  ultimately show ?thesis using f c by auto
qed

end
