(* ===== verification/FleetGoals.thy ===== *)
theory FleetGoals
  imports FleetHealth Complex_Main
begin

text \<open>
  Goals and the goal executor's configuration and verdict (\<open>internal/fleet/goal.go\<close>), the write
  switch of the registry (\<open>apply\<close> in \<open>internal/fleet/wire.go\<close>), the restore of persisted fleets
  (\<open>persist.go\<close>, its store and decoder left out) and the change events (\<open>events.go\<close>).

  \<open>ledger_step\<close> is everything the fleet actor does to a registry, one step per call under the lock;
  the invariant of the ledger holds in every state reachable from the empty registry.
\<close>

section \<open>Goals\<close>

definition Goal_IsOpen :: "goal option \<Rightarrow> bool" where
  "Goal_IsOpen g = (case g of None \<Rightarrow> False
     | Some x \<Rightarrow> \<not> is_blank (g_text x) \<and> (g_state x = [] \<or> g_state x = GoalOpen))"

definition Goal_IsMet :: "goal option \<Rightarrow> bool" where
  "Goal_IsMet g = (case g of None \<Rightarrow> False | Some x \<Rightarrow> g_state x = GoalMet)"

record goal_update =
  gu_member :: string
  gu_text :: string
  gu_done_when :: string
  gu_due_sec :: int
  gu_state :: string
  gu_note :: string
  gu_set_by :: string

definition GoalExec_Resolved :: "goal_exec option \<Rightarrow> goal_exec" where
  "GoalExec_Resolved g =
     (case g of
        None \<Rightarrow> \<lparr>ge_mode = GoalExecAdaptive, ge_min_sec = 300, ge_max_sec = 1800\<rparr>
      | Some x \<Rightarrow>
          (let lo = (if 0 < ge_min_sec x then ge_min_sec x else 300);
               hi = (if 0 < ge_max_sec x then ge_max_sec x else 1800)
           in \<lparr>ge_mode = (if ge_mode x \<noteq> [] then ge_mode x else GoalExecAdaptive),
               ge_min_sec = lo, ge_max_sec = (if hi < lo then lo else hi)\<rparr>))"

definition GoalExec_Validate :: "goal_exec \<Rightarrow> fleet_error option" where
  "GoalExec_Validate g =
     (if ge_mode g \<notin> {[], GoalExecAdaptive, GoalExecFixed, GoalExecOff} then Some (UnknownExecMode (ge_mode g))
      else if ge_min_sec g < 0 \<or> ge_max_sec g < 0 then Some NegativeCadence
      else if ge_min_sec g \<noteq> 0 \<and> ge_min_sec g < 60 then Some (MinTooShort (ge_min_sec g))
      else if ge_max_sec g \<noteq> 0 \<and> ge_min_sec g \<noteq> 0 \<and> ge_max_sec g < ge_min_sec g
        then Some (MaxBelowMin (ge_max_sec g) (ge_min_sec g))
      else if ge_max_sec g \<noteq> 0 \<and> ge_min_sec g = 0 \<and> ge_max_sec g < 300
        then Some (MaxBelowDefaultMin (ge_max_sec g))
      else None)"

text \<open>The goal a slot holds after an update of it; \<open>whose\<close> names the slot in a refusal.\<close>

definition goal_for :: "string \<Rightarrow> goal_update \<Rightarrow> int \<Rightarrow> goal option \<Rightarrow> (fleet_error, goal) result" where
  "goal_for whose gu now slot =
     (let state = to_lower (trim_space (gu_state gu))
      in if state = [] \<or> state = GoalOpen then
           (let text = trim_space (gu_text gu)
            in if text = [] then Inl GoalNeedsText
               else if gu_due_sec gu < 0 then Inl NegativeDue
               else Inr \<lparr>g_text = text, g_done_when = trim_space (gu_done_when gu),
                         g_due_at = (if 0 < gu_due_sec gu then now + gu_due_sec gu * 1000
                                     else case slot of None \<Rightarrow> 0
                                          | Some old \<Rightarrow> if g_text old = text then g_due_at old else 0),
                         g_state = GoalOpen, g_set_by = trim_space (gu_set_by gu), g_set_at = now,
                         g_met_at = 0, g_note = trim_space (gu_note gu)\<rparr>)
         else if state = GoalMet \<or> state = GoalDropped then
           (case slot of
              None \<Rightarrow> Inl (NoGoalToClose whose)
            | Some old \<Rightarrow>
                (let n = trim_space (gu_note gu)
                 in Inr (old\<lparr>g_state := state,
                             g_met_at := (if state = GoalMet then now else g_met_at old),
                             g_note := (if n \<noteq> [] then n else g_note old)\<rparr>)))
         else Inl (UnknownGoalState (gu_state gu)))"

definition SetGoal :: "string \<Rightarrow> goal_update \<Rightarrow> int \<Rightarrow> registry \<Rightarrow> registry \<times> (fleet_error, fleet) result" where
  "SetGoal fleetName gu now r =
     (case alist_get r (NormalizeBoardID fleetName) of
        None \<Rightarrow> (r, Inl (NoFleet fleetName))
      | Some f \<Rightarrow>
          (let key = NormalizeBoardID fleetName
           in if is_blank (gu_member gu) then
                (case goal_for (f_name f) gu now (f_goal f) of
                   Inl e \<Rightarrow> (r, Inl e)
                 | Inr g \<Rightarrow> (let f' = f\<lparr>f_goal := Some g\<rparr> in (AList.update key f' r, Inr f')))
              else
                (case ResolveMember f (gu_member gu) of
                   Inl e \<Rightarrow> (r, Inl e)
                 | Inr i \<Rightarrow>
                     (let m = f_members f ! i
                      in case goal_for (MemberLabel f (m_pane m)) gu now (m_goal m) of
                           Inl e \<Rightarrow> (r, Inl e)
                         | Inr g \<Rightarrow>
                             (let f' = set_member i (m\<lparr>m_goal := Some g\<rparr>) f
                              in (AList.update key f' r, Inr f'))))))"

definition SetGoalExec :: "string \<Rightarrow> goal_exec \<Rightarrow> registry \<Rightarrow> registry \<times> (fleet_error, fleet) result" where
  "SetGoalExec name g0 r =
     (let g = g0\<lparr>ge_mode := to_lower (trim_space (ge_mode g0))\<rparr>
      in case GoalExec_Validate g of
           Some e \<Rightarrow> (r, Inl e)
         | None \<Rightarrow>
             (case alist_get r (NormalizeBoardID name) of
                None \<Rightarrow> (r, Inl (NoFleet name))
              | Some f \<Rightarrow>
                  (let f' = f\<lparr>f_goal_exec := Some g\<rparr> in (AList.update (NormalizeBoardID name) f' r, Inr f'))))"

definition SetGoalStatus :: "string \<Rightarrow> goal_status \<Rightarrow> registry \<Rightarrow> registry" where
  "SetGoalStatus name gs r =
     (case alist_get r (NormalizeBoardID name) of
        None \<Rightarrow> r
      | Some f \<Rightarrow> AList.update (NormalizeBoardID name) (f\<lparr>f_goal_status := Some gs\<rparr>) r)"

section \<open>The write switch\<close>

abbreviation OpRegister :: string where "OpRegister \<equiv> ''register''"
abbreviation OpForget :: string where "OpForget \<equiv> ''forget''"
abbreviation OpState :: string where "OpState \<equiv> ''state''"
abbreviation OpMemberUpsert :: string where "OpMemberUpsert \<equiv> ''member-upsert''"
abbreviation OpMemberRemove :: string where "OpMemberRemove \<equiv> ''member-remove''"
abbreviation OpStatus :: string where "OpStatus \<equiv> ''status''"
abbreviation OpWatch :: string where "OpWatch \<equiv> ''watch''"
abbreviation OpGoal :: string where "OpGoal \<equiv> ''goal''"
abbreviation OpGoalExec :: string where "OpGoalExec \<equiv> ''goal-exec''"

record update =
  u_op :: string
  u_fleet :: fleet
  u_name :: string
  u_state :: string
  u_member :: member
  u_pane :: string
  u_status :: status_update
  u_watch :: watch
  u_goal :: goal_update
  u_goal_exec :: goal_exec
  u_now :: int

datatype update_error = Refused fleet_error | UnknownFleet string | NoMemberWithPane string string | UnknownOp string

record update_reply =
  ur_ok :: bool
  ur_fleet :: "fleet option"
  ur_member :: "member option"
  ur_answered_checkin :: string
  ur_answered_goal_ask :: string
  ur_err :: "update_error option"

definition reply_ok :: "fleet option \<Rightarrow> update_reply" where
  "reply_ok f = \<lparr>ur_ok = True, ur_fleet = f, ur_member = None, ur_answered_checkin = [],
                 ur_answered_goal_ask = [], ur_err = None\<rparr>"

definition reply_err :: "update_error \<Rightarrow> update_reply" where
  "reply_err e = \<lparr>ur_ok = False, ur_fleet = None, ur_member = None, ur_answered_checkin = [],
                  ur_answered_goal_ask = [], ur_err = Some e\<rparr>"

definition reply_fleet :: "registry \<times> (fleet_error, fleet) result \<Rightarrow> registry \<times> update_reply" where
  "reply_fleet x = (fst x, case snd x of Inl e \<Rightarrow> reply_err (Refused e) | Inr f \<Rightarrow> reply_ok (Some f))"

definition apply_update :: "update \<Rightarrow> registry \<Rightarrow> registry \<times> update_reply" where
  "apply_update u r =
     (if u_op u = OpRegister then reply_fleet (Register (u_fleet u) r)
      else if u_op u = OpForget then
        (let (r', found) = Forget (u_name u) r
         in (r', if found then reply_ok None else reply_err (UnknownFleet (u_name u))))
      else if u_op u = OpState then
        (let (r', e) = SetState (u_name u) (u_state u) r
         in (r', case e of Some x \<Rightarrow> reply_err (Refused x) | None \<Rightarrow> reply_ok (Get (u_name u) r')))
      else if u_op u = OpMemberUpsert then
        (let (r', e) = UpsertMember (u_name u) (u_member u) r
         in (r', case e of Some x \<Rightarrow> reply_err (Refused x) | None \<Rightarrow> reply_ok (Get (u_name u) r')))
      else if u_op u = OpMemberRemove then
        (let (r', found) = RemoveMember (u_name u) (u_pane u) r
         in (r', if found then reply_ok (Get (u_name u) r')
                 else reply_err (NoMemberWithPane (u_name u) (u_pane u))))
      else if u_op u = OpStatus then
        (let (r', res) = Declare (u_name u) (u_pane u) (u_status u) (u_now u) r
         in (r', case res of
                   Inl e \<Rightarrow> reply_err (Refused e)
                 | Inr s \<Rightarrow> (reply_ok (Get (sr_fleet s) r'))
                     \<lparr>ur_member := Some (sr_member s), ur_answered_checkin := sr_answered_checkin s,
                      ur_answered_goal_ask := sr_answered_goal_ask s\<rparr>))
      else if u_op u = OpGoal then reply_fleet (SetGoal (u_name u) (u_goal u) (u_now u) r)
      else if u_op u = OpGoalExec then reply_fleet (SetGoalExec (u_name u) (u_goal_exec u) r)
      else if u_op u = OpWatch then reply_fleet (SetWatch (u_name u) (u_watch u) r)
      else (r, reply_err (UnknownOp (u_op u))))"

section \<open>Restoring persisted fleets\<close>

text \<open>
  \<open>Restore\<close> over the records that could be fetched and decoded, in the order of their keys; a fleet
  the registry refuses is skipped, and the count is of the fleets applied.
\<close>

definition restore_one :: "fleet \<Rightarrow> registry \<times> nat \<Rightarrow> registry \<times> nat" where
  "restore_one f rn =
     (case Register f (fst rn) of
        (r', Inl e) \<Rightarrow> rn
      | (r', Inr _) \<Rightarrow> (fold (\<lambda>m q. fst (UpsertMember (f_name f) m q)) (f_members f) r', Suc (snd rn)))"

definition Restore :: "fleet list \<Rightarrow> registry \<Rightarrow> registry \<times> nat" where
  "Restore records r = fold restore_one records (r, 0)"

section \<open>Change events\<close>

definition LedgerState :: "member_status option \<Rightarrow> string" where
  "LedgerState s =
     (case s of None \<Rightarrow> WorkIdle
      | Some st \<Rightarrow> if ValidWork (st_work st) then st_work st
                   else if st_activity st = ActivityWorking then WorkProgress else WorkIdle)"

lemma LedgerState_valid: "ValidWork (LedgerState s)"
  by (auto simp: LedgerState_def ValidWork_def split: option.splits)

section \<open>The scout's declarations\<close>

text \<open>The confidence is the exact number of the reply; \<open>None\<close> stands for a refusal to use it.\<close>

record scout_answer =
  sa_answerable :: bool
  sa_work :: string
  sa_task :: string
  sa_blocked_by :: "string list"
  sa_note :: string
  sa_confidence :: rat
  sa_reason :: string

definition ScoutUpdate :: "scout_answer \<Rightarrow> string \<Rightarrow> status_update option" where
  "ScoutUpdate a model =
     (if \<not> sa_answerable a then None
      else if sa_confidence a < 7 / 10 then None
      else if \<not> ValidWork (sa_work a) then None
      else if sa_work a = WorkBlocked \<and> sa_blocked_by a = [] then None
      else let note = ''answered by the status scout ('' @ model @ '')'';
               s = trim_space (sa_note a)
           in Some \<lparr>su_work = sa_work a, su_task = trim_space (sa_task a),
                    su_note = (if s \<noteq> [] then note @ '': '' @ s else note),
                    su_blocked_by = (if sa_work a = WorkBlocked then sa_blocked_by a else []),
                    su_keep_task = True, su_pct = None, su_eta_sec = 0, su_by = ''scout''\<rparr>)"

section \<open>Preservation\<close>

interpretation goal_edit: ledger_edit "\<lambda>f. f\<lparr>f_goal := g\<rparr>" for g
  by unfold_locales (simp_all add: rows_wf_def)

interpretation exec_edit: ledger_edit "\<lambda>f. f\<lparr>f_goal_exec := g\<rparr>" for g
  by unfold_locales (simp_all add: rows_wf_def)

interpretation verdict_edit: ledger_edit "\<lambda>f. f\<lparr>f_goal_status := g\<rparr>" for g
  by unfold_locales (simp_all add: rows_wf_def)

interpretation state_edit: ledger_edit "\<lambda>f. f\<lparr>f_state := s\<rparr>" for s
  by unfold_locales (simp_all add: rows_wf_def)

interpretation remove_edit: ledger_edit
  "\<lambda>f. f\<lparr>f_members := remove_first (\<lambda>m. m_pane m = pane) (f_members f)\<rparr>" for pane
  by unfold_locales (auto simp: rows_wf_def dest: set_remove_first [THEN subsetD])

interpretation live_edit: ledger_edit "keep_live panes" for panes
  by unfold_locales (simp_all add: rows_wf_def keep_live_def)

lemma ResolveMember_Inr: "ResolveMember f ref = Inr i \<Longrightarrow> i < length (f_members f)"
proof -
  assume r: "ResolveMember f ref = Inr i"
  let ?hits = "filter (\<lambda>i. matches_ref (trim_space ref) (f_members f ! i)) [0..<length (f_members f)]"
  show ?thesis
  proof (cases "find_index (\<lambda>m. m_pane m = trim_space ref \<or> m_label m = trim_space ref) (f_members f)")
    case None
    then have "?hits = [i]"
      using r by (auto simp: ResolveMember_def Let_def split: if_splits list.splits)
    then have "i \<in> set ?hits" by simp
    then show ?thesis by simp
  next
    case (Some j)
    then show ?thesis using r by (auto simp: ResolveMember_def Let_def dest: find_index_Some split: if_splits)
  qed
qed

lemma SetGoal_wf [well_formed]:
  assumes "ledger_wf r"
  shows "ledger_wf (fst (SetGoal n gu now r))"
proof (cases "alist_get r (NormalizeBoardID n)")
  case None
  then show ?thesis using assms by (simp add: SetGoal_def)
next
  case (Some f)
  have member: "ledger_wf (AList.update (NormalizeBoardID n) (set_member i ((f_members f ! i)\<lparr>m_goal := Some g\<rparr>) f) r)"
    if "i < length (f_members f)" for i g
  proof -
    have rows: "rows_wf f" by (rule ledger_wf_get [OF assms Some])
    then have "member_wf (f_members f ! i)" using that by (simp add: rows_wf_def)
    then have "member_wf ((f_members f ! i)\<lparr>m_goal := Some g\<rparr>)" by (simp add: member_wf_def)
    then show ?thesis
      using that rows by (intro ledger_wf_set [OF assms Some] set_member_rows set_member_panes) simp_all
  qed
  then show ?thesis
    using assms Some ResolveMember_Inr
    by (auto simp: SetGoal_def Let_def goal_edit.update_ledger split: sum.splits)
qed

lemma SetGoalExec_wf [well_formed]: "ledger_wf r \<Longrightarrow> ledger_wf (fst (SetGoalExec n g r))"
  by (auto simp: SetGoalExec_def Let_def exec_edit.update_ledger split: option.splits)

lemma SetGoalStatus_wf [well_formed]: "ledger_wf r \<Longrightarrow> ledger_wf (SetGoalStatus n g r)"
  by (auto simp: SetGoalStatus_def verdict_edit.update_ledger split: option.splits)

lemma SetState_ledger [well_formed]: "ledger_wf r \<Longrightarrow> ledger_wf (fst (SetState n s r))"
  by (auto simp: SetState_def state_edit.update_ledger split: option.splits)

lemma RemoveMember_ledger [well_formed]: "ledger_wf r \<Longrightarrow> ledger_wf (fst (RemoveMember n p r))"
  by (auto simp: RemoveMember_def remove_edit.update_ledger split: option.splits)

lemma Reconcile_ledger [well_formed]: "ledger_wf r \<Longrightarrow> ledger_wf (fst (Reconcile panes r))"
  by (simp add: Reconcile_def live_edit.map_ledger)

lemma Forget_ledger [well_formed]: "ledger_wf r \<Longrightarrow> ledger_wf (fst (Forget n r))"
  by (simp add: ledger_wf_def Forget_wf) (simp add: Forget_def Let_def alist_all_delete)

lemma keep_row_wf: "m_pane m = m_pane old \<Longrightarrow> member_wf m \<Longrightarrow> member_wf old \<Longrightarrow> member_wf (keep_row m old)"
  by (auto simp: member_wf_def keep_row_def or_else_def split: option.splits)

lemma upsert_rows:
  assumes "\<forall>x \<in> set ms. member_wf x" and "member_wf m" and "x \<in> set (upsert m ms)"
  shows "member_wf x"
  using assms set_update_first [of x "\<lambda>x. m_pane x = m_pane m" "keep_row m" ms]
  by (auto simp: upsert_def keep_row_wf split: if_splits)

lemma UpsertMember_ledger [well_formed]:
  assumes "ledger_wf r" and "member_wf m"
  shows "ledger_wf (fst (UpsertMember n m r))"
proof (cases "alist_get r (NormalizeBoardID n)")
  case None
  then show ?thesis using assms by (simp add: UpsertMember_def)
next
  case (Some f)
  have "rows_wf (f\<lparr>f_members := upsert m (f_members f)\<rparr>)"
    using ledger_wf_get [OF assms(1) Some] upsert_rows [OF _ assms(2)] by (auto simp: rows_wf_def)
  then have "alist_all (\<lambda>_. rows_wf) (fst (UpsertMember n m r))"
    using assms(1) Some by (auto simp: UpsertMember_def ledger_wf_def alist_all_update)
  then show ?thesis using UpsertMember_wf [OF ledger_wf_registry [OF assms(1)]] by (simp add: ledger_wf_def)
qed

lemma Register_ledger [well_formed]:
  assumes "ledger_wf r" and "rows_wf f" and "distinct (map m_pane (f_members f))"
  shows "ledger_wf (fst (Register f r))"
proof -
  have "rows_wf (Normalise f)" using assms(2) by (simp add: rows_wf_def)
  moreover have "rows_wf (keep_existing old (Normalise f))" if "alist_get r key = Some old" for key old
    using ledger_wf_get [OF assms(1) that] by (simp add: rows_wf_def keep_existing_def)
  ultimately have "alist_all (\<lambda>_. rows_wf) (fst (Register f r))"
    using assms(1) by (auto simp: Register_def Let_def ledger_wf_def intro!: alist_all_update split: option.splits)
  then show ?thesis
    using Register_wf [OF ledger_wf_registry [OF assms(1)] assms(3)] by (simp add: ledger_wf_def)
qed

text \<open>What the registry relies on in a write: the rows a caller hands over are well formed.\<close>

definition update_wf :: "update \<Rightarrow> bool" where
  "update_wf u \<longleftrightarrow> rows_wf (u_fleet u) \<and> distinct (map m_pane (f_members (u_fleet u))) \<and> member_wf (u_member u)"

lemma apply_update_wf [well_formed]:
  assumes "ledger_wf r" and "update_wf u"
  shows "ledger_wf (fst (apply_update u r))"
  using assms Forget_ledger [OF assms(1), of "u_name u"] SetState_ledger [OF assms(1), of "u_name u" "u_state u"]
    UpsertMember_ledger [OF assms(1), of "u_member u" "u_name u"]
    RemoveMember_ledger [OF assms(1), of "u_name u" "u_pane u"]
    Declare_wf [OF assms(1), of "u_name u" "u_pane u" "u_status u" "u_now u"]
  by (auto simp: apply_update_def update_wf_def reply_fleet_def Register_ledger SetGoal_wf SetGoalExec_wf
      SetWatch_wf split: prod.splits)

text \<open>Every call the fleet actor makes.\<close>

inductive ledger_step :: "registry \<Rightarrow> registry \<Rightarrow> bool" where
  written: "update_wf u \<Longrightarrow> ledger_step r (fst (apply_update u r))"
| observe: "ledger_step r (Observe pane activity now r)"
| attention: "ledger_step r (ObserveAttention pane attention now r)"
| evaluate: "ledger_step r (fst (Evaluate now r))"
| ask: "ledger_step r (fst (DueCheckins now r))"
| asked: "ledger_step r (CheckinSent n pane cmd r)"
| scouted: "ledger_step r (ScoutAnswered n pane health now r)"
| goal_asked: "ledger_step r (GoalAskSent n pane cmd now r)"
| verdict: "ledger_step r (SetGoalStatus n gs r)"
| reconcile: "ledger_step r (fst (Reconcile panes r))"

lemma ledger_step_wf: "ledger_step r r' \<Longrightarrow> ledger_wf r \<Longrightarrow> ledger_wf r'"
  by (induction rule: ledger_step.induct) (simp_all add: well_formed)

lemma ledger_reachable_wf: "ledger_step\<^sup>*\<^sup>* [] r \<Longrightarrow> ledger_wf r"
  by (induction rule: rtranclp_induct) (simp_all add: ledger_step_wf)

section \<open>Refusals and rosters\<close>

text \<open>A refused write leaves the registry as it was.\<close>

lemma Register_refused: "snd (Register f r) = Inl e \<Longrightarrow> fst (Register f r) = r"
  by (auto simp: Register_def Let_def split: option.splits)

lemma Forget_refused: "\<not> snd (Forget n r) \<Longrightarrow> fst (Forget n r) = r"
  by (auto simp: Forget_def Let_def split: if_splits)

lemma SetState_refused: "snd (SetState n s r) = Some e \<Longrightarrow> fst (SetState n s r) = r"
  by (auto simp: SetState_def split: option.splits if_splits)

lemma UpsertMember_refused: "snd (UpsertMember n m r) = Some e \<Longrightarrow> fst (UpsertMember n m r) = r"
  by (auto simp: UpsertMember_def split: option.splits if_splits)

lemma RemoveMember_refused: "\<not> snd (RemoveMember n p r) \<Longrightarrow> fst (RemoveMember n p r) = r"
  by (auto simp: RemoveMember_def split: option.splits if_splits)

lemma Declare_refused: "snd (Declare n p u now r) = Inl e \<Longrightarrow> fst (Declare n p u now r) = r"
  by (auto simp: Declare_def Let_def split: sum.splits prod.splits)

lemma SetGoal_refused: "snd (SetGoal n gu now r) = Inl e \<Longrightarrow> fst (SetGoal n gu now r) = r"
  by (auto simp: SetGoal_def Let_def split: option.splits sum.splits if_splits)

lemma SetGoalExec_refused: "snd (SetGoalExec n g r) = Inl e \<Longrightarrow> fst (SetGoalExec n g r) = r"
  by (auto simp: SetGoalExec_def Let_def split: option.splits)

lemma SetWatch_refused: "snd (SetWatch n w r) = Inl e \<Longrightarrow> fst (SetWatch n w r) = r"
  by (auto simp: SetWatch_def Let_def split: option.splits)

lemma apply_update_refused_keeps:
  "\<not> ur_ok (snd (apply_update u r)) \<Longrightarrow> fst (apply_update u r) = r"
  using Forget_refused [of "u_name u" r] SetState_refused [of "u_name u" "u_state u" r]
    UpsertMember_refused [of "u_name u" "u_member u" r] RemoveMember_refused [of "u_name u" "u_pane u" r]
    Declare_refused [of "u_name u" "u_pane u" "u_status u" "u_now u" r]
    Register_refused [of "u_fleet u" r] SetGoal_refused [of "u_name u" "u_goal u" "u_now u" r]
    SetGoalExec_refused [of "u_name u" "u_goal_exec u" r] SetWatch_refused [of "u_name u" "u_watch u" r]
  by (auto simp: apply_update_def reply_fleet_def reply_ok_def reply_err_def
      split: prod.splits option.splits sum.splits if_splits)

text \<open>The abstract write: what each accepted operation does to who is in which fleet.\<close>

definition roster_update :: "update \<Rightarrow> roster \<Rightarrow> roster" where
  "roster_update u ro =
     (if u_op u = OpRegister then
        ro(NormalizeBoardID (f_name (u_fleet u)) \<mapsto>
             (case ro (NormalizeBoardID (f_name (u_fleet u))) of
                None \<Rightarrow> map m_pane (f_members (u_fleet u)) | Some ps \<Rightarrow> ps))
      else if u_op u = OpForget then ro(NormalizeBoardID (u_name u) := None)
      else if u_op u = OpMemberUpsert then
        edit_roster (NormalizeBoardID (u_name u)) (\<lambda>ps. append_unique ps (m_pane (u_member u))) ro
      else if u_op u = OpMemberRemove then
        edit_roster (NormalizeBoardID (u_name u)) (remove1 (u_pane u)) ro
      else ro)"

lemma Declare_roster:
  assumes "alist_wf r"
  shows "roster_of (fst (Declare n p u now r)) = roster_of r"
proof -
  obtain r' res where d: "Declare n p u now r = (r', res)" by (cases "Declare n p u now r")
  from d assms show ?thesis
  proof (cases rule: Declare_cases)
    case (refused e)
    then show ?thesis using d by simp
  next
    case (accepted key f i bs)
    let ?m = "(f_members f ! i)\<lparr>m_status := Some
      (declare_row (trim_space (to_lower (su_work u))) bs u now (status_or_new now (f_members f ! i)))\<rparr>"
    have "map m_pane (f_members (set_member i ?m f)) = map m_pane (f_members f)"
      by (rule set_member_panes [OF accepted(3)]) simp
    then show ?thesis using d accepted(2,6) by (simp add: roster_of_same_members)
  qed
qed

lemma SetGoal_roster: "roster_of (fst (SetGoal n gu now r)) = roster_of r"
  using ResolveMember_Inr
  by (auto simp: SetGoal_def Let_def roster_of_same_members set_member_panes split: option.splits sum.splits)

lemma SetGoalExec_roster: "roster_of (fst (SetGoalExec n g r)) = roster_of r"
  by (auto simp: SetGoalExec_def Let_def roster_of_same_members split: option.splits)

lemma SetWatch_roster: "roster_of (fst (SetWatch n w r)) = roster_of r"
  by (auto simp: SetWatch_def Let_def roster_of_same_members split: option.splits)

lemma apply_update_roster:
  assumes "alist_wf r" and "ur_ok (snd (apply_update u r))"
  shows "roster_of (fst (apply_update u r)) = roster_update u (roster_of r)"
  using assms(2) Register_roster [of "u_fleet u" r] Forget_roster [of "u_name u" r]
    UpsertMember_roster [of "u_name u" "u_member u" r] RemoveMember_roster [of "u_name u" "u_pane u" r]
    SetState_roster [of "u_name u" "u_state u" r] SetGoal_roster [of "u_name u" "u_goal u" "u_now u" r]
    SetGoalExec_roster [of "u_name u" "u_goal_exec u" r] SetWatch_roster [of "u_name u" "u_watch u" r]
    Declare_roster [OF assms(1), of "u_name u" "u_pane u" "u_status u" "u_now u"]
  by (auto simp: apply_update_def roster_update_def reply_fleet_def reply_ok_def reply_err_def
      split: prod.splits option.splits sum.splits if_splits)

section \<open>Restoring a registry\<close>

lemma alist_update_same: "alist_get r k = Some v \<Longrightarrow> AList.update k v r = r"
  by (induction r) (auto simp: alist_get_def split: if_splits)

lemma alist_update_new: "alist_get r k = None \<Longrightarrow> AList.update k v r = r @ [(k, v)]"
  by (induction r) (auto simp: alist_get_def split: if_splits)

lemma keep_row_self: "keep_row m m = m"
  by (simp add: keep_row_def or_else_def split: option.split)

lemma update_first_id: "(\<And>x. x \<in> set xs \<Longrightarrow> P x \<Longrightarrow> f x = x) \<Longrightarrow> update_first P f xs = xs"
  by (induction xs) auto

lemma upsert_present:
  assumes "distinct (map m_pane ms)" and "m \<in> set ms"
  shows "upsert m ms = ms"
proof -
  have "keep_row m x = x" if "x \<in> set ms" "m_pane x = m_pane m" for x
    using distinct_map_unique [OF assms(1) that(1) assms(2) that(2)] by (simp add: keep_row_self)
  then have "update_first (\<lambda>x. m_pane x = m_pane m) (keep_row m) ms = ms"
    by (intro update_first_id) auto
  then show ?thesis using assms(2) by (auto simp: upsert_def list_ex_iff)
qed

lemma UpsertMember_present:
  assumes "alist_get r (NormalizeBoardID n) = Some f" and "distinct (map m_pane (f_members f))"
    and "m \<in> set (f_members f)"
  shows "fst (UpsertMember n m r) = r"
  using assms by (simp add: UpsertMember_def upsert_present alist_update_same)

lemma upserts_present:
  assumes "alist_get r (NormalizeBoardID n) = Some f" and "distinct (map m_pane (f_members f))"
    and "set ms \<subseteq> set (f_members f)"
  shows "fold (\<lambda>m q. fst (UpsertMember n m q)) ms r = r"
  using assms(3) by (induction ms) (use assms(1,2) in \<open>simp_all add: UpsertMember_present\<close>)

text \<open>A stored fleet is its own normal form once its state is written.\<close>

lemma Normalise_stored:
  assumes "fleet_wf key f" and "\<not> is_blank (f_state f)"
  shows "Normalise f = f"
proof -
  have "f_board f \<noteq> []" using assms(1) by (metis NormalizeBoardID_nonempty fleet_wf_def)
  moreover have "trim_space (f_board f) \<noteq> []"
    using assms(1) by (simp add: fleet_wf_def ValidateName_None_iff)
  ultimately show ?thesis using assms by (simp add: Normalise_def Let_def fleet_wf_def is_blank_def)
qed

lemma restore_one_new:
  assumes "fleet_wf (f_name f) f" and "\<not> is_blank (f_state f)" and "alist_get q (f_name f) = None"
  shows "restore_one f (q, n) = (q @ [(f_name f, f)], Suc n)"
proof -
  have "ValidateName (f_name f) = None" "check_board f = None"
    using assms(1) by (simp_all add: fleet_wf_def check_board_def ValidateName_None_iff)
  then have reg: "Register f q = (q @ [(f_name f, f)], Inr f)"
    using assms by (simp add: Register_def Normalise_stored alist_update_new)
  have "alist_get (q @ [(f_name f, f)]) (NormalizeBoardID (f_name f)) = Some f"
    using assms(1,3) by (simp add: fleet_wf_def alist_get_def map_add_def)
  moreover have "distinct (map m_pane (f_members f))" using assms(1) by (simp add: fleet_wf_def)
  ultimately have "fold (\<lambda>m q. fst (UpsertMember (f_name f) m q)) (f_members f) (q @ [(f_name f, f)]) =
      q @ [(f_name f, f)]"
    by (rule upserts_present) simp
  then show ?thesis by (simp add: restore_one_def reg)
qed

lemma restore_fold:
  assumes "\<forall>f \<in> set recs. fleet_wf (f_name f) f \<and> \<not> is_blank (f_state f)" and "distinct (map f_name recs)"
    and "\<forall>f \<in> set recs. alist_get q (f_name f) = None"
  shows "fold restore_one recs (q, n) = (q @ map (\<lambda>f. (f_name f, f)) recs, n + length recs)"
  using assms
proof (induction recs arbitrary: q n)
  case Nil
  then show ?case by simp
next
  case (Cons f recs)
  have "alist_get (q @ [(f_name f, f)]) (f_name x) = None" if "x \<in> set recs" for x
    using Cons.prems(2,3) that by (auto simp: alist_get_def map_add_def image_iff)
  then show ?case using Cons restore_one_new [of f q n] by simp
qed

lemma Restore_listed:
  assumes "registry_wf r" and "\<forall>f \<in> set (map snd r). \<not> is_blank (f_state f)"
  shows "snd (Restore (List_fleets r) []) = Len r"
    and "alist_get (fst (Restore (List_fleets r) [])) k = alist_get r k"
proof -
  let ?recs = "List_fleets r"
  have wf: "fleet_wf k f" if "(k, f) \<in> set r" for k f
    using assms(1) that by (auto simp: registry_wf_def alist_all_def)
  have names: "map f_name (map snd r) = keys r"
    using wf by (auto simp: fleet_wf_def)
  have set: "set ?recs = snd ` set r" by (simp add: List_fleets_def)
  have dist: "distinct (map f_name ?recs)"
  proof -
    have "mset (map f_name ?recs) = mset (map f_name (map snd r))"
      unfolding mset_map List_fleets_mset by simp
    then have "mset (map f_name ?recs) = mset (keys r)" by (simp only: names)
    then show ?thesis
      using registry_wf_alist [OF assms(1)] by (metis alist_wf_def mset_eq_imp_distinct_iff)
  qed
  have all: "\<forall>f \<in> set ?recs. fleet_wf (f_name f) f \<and> \<not> is_blank (f_state f)"
    using wf assms(2) unfolding set by (fastforce simp: fleet_wf_def)
  have run: "Restore ?recs [] = (map (\<lambda>f. (f_name f, f)) ?recs, length ?recs)"
    unfolding Restore_def using restore_fold [OF all dist, of "[]" 0] by (simp add: alist_get_def)
  then show "snd (Restore ?recs []) = Len r" by (simp add: Len_def List_fleets_def)
  let ?q = "map (\<lambda>f. (f_name f, f)) ?recs"
  have wq: "alist_wf ?q" using dist by (simp add: alist_wf_def o_def)
  have same: "set ?q = set r"
    unfolding set_map set using wf by (force simp: fleet_wf_def image_iff)
  have "alist_get ?q k = alist_get r k"
  proof (cases "alist_get r k")
    case None
    then have "k \<notin> fst ` set r" using alist_get_None_iff [of r k] by simp
    then have "alist_get ?q k = None" unfolding alist_get_None_iff set_map [of fst] same .
    then show ?thesis using None by simp
  next
    case (Some f)
    have "(k, f) \<in> set ?q" unfolding same using Some by (rule alist_get_in_set)
    then have "alist_get ?q k = Some f" by (rule alist_get_from_set [OF wq])
    then show ?thesis using Some by simp
  qed
  then show "alist_get (fst (Restore ?recs [])) k = alist_get r k" by (simp add: run)
qed

end
