(* ===== verification/FleetProperties.thy ===== *)
theory FleetProperties
  imports FleetGoals
begin

text \<open>
  The properties of the fleet registry and its status ledger, each with a concrete instance where
  it has hypotheses. The example fleets are small rosters of the kind the tests of the package use.
\<close>

section \<open>Examples\<close>

definition member_row :: "string \<Rightarrow> string \<Rightarrow> member" where
  "member_row pane label = \<lparr>m_pane = pane, m_label = label, m_role = [], m_unit = [], m_parent = [],
     m_worktree = [], m_session = [], m_status = None, m_goal = None\<rparr>"

definition blocked_row :: "string \<Rightarrow> string list \<Rightarrow> member" where
  "blocked_row pane bs = (member_row pane pane)\<lparr>m_status :=
     Some (empty_status\<lparr>st_work := WorkBlocked, st_blocked_by := bs\<rparr>)\<rparr>"

definition fleet_of :: "string \<Rightarrow> member list \<Rightarrow> fleet" where
  "fleet_of name ms = \<lparr>f_name = name, f_board = name, f_tab = [], f_source = [], f_roadmap_dir = [],
     f_state = StateUp, f_created = 1, f_watch = None, f_goal = None, f_goal_exec = None,
     f_goal_status = None, f_members = ms\<rparr>"

definition plain_update :: update where
  "plain_update = \<lparr>u_op = [], u_fleet = fleet_of ''alpha'' [], u_name = ''alpha'', u_state = [],
     u_member = member_row ''pane-a'' ''mgr'', u_pane = ''pane-a'',
     u_status = \<lparr>su_work = ''idle'', su_task = [], su_note = [], su_blocked_by = [], su_keep_task = False,
                 su_pct = None, su_eta_sec = 0, su_by = []\<rparr>,
     u_watch = \<lparr>w_policy = [], w_interval_sec = 0, w_stall_sec = 0, w_answer = [], w_scout_model = []\<rparr>,
     u_goal = \<lparr>gu_member = [], gu_text = [], gu_done_when = [], gu_due_sec = 0, gu_state = [], gu_note = [],
               gu_set_by = []\<rparr>,
     u_goal_exec = \<lparr>ge_mode = [], ge_min_sec = 0, ge_max_sec = 0\<rparr>, u_now = 5\<rparr>"

definition two_agents :: registry where
  "two_agents = [(''alpha'', fleet_of ''alpha'' [member_row ''pane-a'' ''mgr'', member_row ''pane-b'' ''wkr''])]"

lemma two_agents_wf: "ledger_wf two_agents"
proof -
  have "ValidateName ''alpha'' = None" "NormalizeBoardID ''alpha'' = ''alpha''" by code_simp+
  then show ?thesis
    by (simp add: two_agents_def ledger_wf_def registry_wf_def alist_all_def alist_wf_def fleet_wf_def
        fleet_of_def member_row_def rows_wf_def member_wf_def)
qed

section \<open>The registry\<close>



text \<open>
  C2: the write switch refines the abstract roster (which fleets there are and which panes are in
  each, in order): an accepted write does to the roster exactly what its operation says, a pane is
  added at most once, and a refused write changes nothing at all.
\<close>

theorem apply_refines_roster:
  assumes "alist_wf r"
  shows "(ur_ok (snd (apply_update u r)) \<longrightarrow>
            roster_of (fst (apply_update u r)) = roster_update u (roster_of r)) \<and>
         (\<not> ur_ok (snd (apply_update u r)) \<longrightarrow> fst (apply_update u r) = r)"
  using apply_update_roster [OF assms] apply_update_refused_keeps by blast

theorem apply_refines_roster_witness:
  "roster_of (fst (apply_update (plain_update\<lparr>u_op := OpMemberUpsert\<rparr>) two_agents)) =
     roster_update (plain_update\<lparr>u_op := OpMemberUpsert\<rparr>) (roster_of two_agents)"
proof -
  have wf: "alist_wf two_agents" by (simp add: two_agents_def alist_wf_def)
  have "ur_ok (snd (apply_update (plain_update\<lparr>u_op := OpMemberUpsert\<rparr>) two_agents))" by code_simp
  then show ?thesis using apply_refines_roster [OF wf] by blast
qed

text \<open>
  C3: a registry survives a daemon restart: replaying its listed fleets into an empty registry gives
  back every fleet unchanged, members, ledger and goals included, and counts each of them.
\<close>

theorem restore_roundtrip:
  assumes "registry_wf r" and "\<forall>f \<in> set (map snd r). \<not> is_blank (f_state f)"
  shows "snd (Restore (List_fleets r) []) = Len r \<and>
    (\<forall>k. alist_get (fst (Restore (List_fleets r) [])) k = alist_get r k)"
  using Restore_listed [OF assms] by blast

theorem restore_roundtrip_witness:
  "snd (Restore (List_fleets two_agents) []) = Len two_agents \<and>
    (\<forall>k. alist_get (fst (Restore (List_fleets two_agents) [])) k = alist_get two_agents k)"
proof (rule restore_roundtrip)
  show "registry_wf two_agents" by (rule ledger_wf_registry [OF two_agents_wf])
  have "\<not> is_blank StateUp" by code_simp
  then show "\<forall>f \<in> set (map snd two_agents). \<not> is_blank (f_state f)"
    by (simp add: two_agents_def fleet_of_def)
qed

text \<open>
  C4: reconciliation never empties a roster on an empty snapshot; on any other snapshot it keeps
  exactly the members whose pane is live, in order, keeps every fleet, and reports the exact number
  of members dropped.
\<close>

theorem reconcile_exact:
  "Reconcile [] r = (r, 0) \<and>
   (panes \<noteq> [] \<longrightarrow> roster_of (fst (Reconcile panes r)) = (\<lambda>key. map_option (filter (live panes)) (roster_of r key))) \<and>
   keys (fst (Reconcile panes r)) = keys r \<and>
   snd (Reconcile panes r) + member_count (fst (Reconcile panes r)) = member_count r"
proof -
  have "Reconcile [] r = (r, 0)" by (simp add: Reconcile_def)
  moreover have "keys (fst (Reconcile panes r)) = keys r"
    by (cases "panes = []") (simp_all add: Reconcile_def)
  ultimately show ?thesis using Reconcile_roster Reconcile_count by blast
qed

theorem reconcile_exact_witness:
  "roster_of (fst (Reconcile [(''pane-b'', True)] two_agents)) =
     (\<lambda>key. map_option (filter (live [(''pane-b'', True)])) (roster_of two_agents key)) \<and>
   snd (Reconcile [(''pane-b'', True)] two_agents) + member_count (fst (Reconcile [(''pane-b'', True)] two_agents)) =
     member_count two_agents"
  using reconcile_exact [of two_agents "[(''pane-b'', True)]"] by blast

section \<open>Declarations\<close>



text \<open>
  An accepted declaration writes the declared row of that member and no other: the stored work and
  blockers are the declared ones, every other member keeps its pane, its declared work and blockers,
  and afterwards each member's \<open>blocker_for\<close> is the sorted set of the members blocked on it.
\<close>

lemma declare_effect:
  assumes "alist_wf r" and "Declare n p u now r = (r', Inr s)"
  shows "\<exists>key f i f'. memberLocked n p r = Inr (key, f, i) \<and> alist_get r' key = Some f' \<and>
    (\<forall>k. k \<noteq> key \<longrightarrow> alist_get r' k = alist_get r k) \<and>
    sr_member s = f_members f' ! i \<and> m_pane (f_members f' ! i) = p \<and>
    (\<exists>st. m_status (f_members f' ! i) = Some st \<and> st_work st = trim_space (to_lower (su_work u)) \<and>
          (st_work st = WorkBlocked \<longleftrightarrow> st_blocked_by st \<noteq> []) \<and> p \<notin> set (st_blocked_by st)) \<and>
    length (f_members f') = length (f_members f) \<and>
    (\<forall>j < length (f_members f). j \<noteq> i \<longrightarrow> view (f_members f' ! j) = view (f_members f ! j) \<and>
       blockers_of (f_members f' ! j) = blockers_of (f_members f ! j)) \<and>
    (\<forall>m \<in> set (f_members f'). sorted (blocker_for m) \<and> set (blocker_for m) = waiting_on f' (m_pane m))"
  using assms(2,1)
proof (cases rule: Declare_cases)
  case (refused e)
  then show ?thesis by simp
next
  case (accepted key f i bs)
  let ?row = "declare_row (trim_space (to_lower (su_work u))) bs u now (status_or_new now (f_members f ! i))"
  let ?g = "set_member i ((f_members f ! i)\<lparr>m_status := Some ?row\<rparr>) f"
  let ?f' = "deriveBlockerFor ?g"
  have len: "length (f_members ?g) = length (f_members f)" by (simp add: set_member_def)
  have nth: "f_members ?f' ! j = derive_row (blocker_index (f_members ?g)) (f_members ?g ! j)"
    if "j < length (f_members f)" for j
    using that len by (simp add: deriveBlockerFor_def)
  have mine: "f_members ?g ! i = (f_members f ! i)\<lparr>m_status := Some ?row\<rparr>"
    using accepted(3) by (simp add: set_member_def)
  have "m_status (f_members ?f' ! i) = Some (?row\<lparr>st_blocker_for := sort (nexts (blocker_index (f_members ?g)) p)\<rparr>)"
    and "m_pane (f_members ?f' ! i) = p"
    using nth [OF accepted(3)] mine accepted(4) by (simp_all add: derive_row_def Let_def)
  moreover have "view (f_members ?f' ! j) = view (f_members f ! j) \<and>
      blockers_of (f_members ?f' ! j) = blockers_of (f_members f ! j)"
    if "j < length (f_members f)" "j \<noteq> i" for j
    using nth [OF that(1)] that
    by (simp add: set_member_def view_def derive_row_def Let_def empty_status_def split: option.split)
      (simp add: blockers_of_def)
  moreover have "sorted (blocker_for m) \<and> set (blocker_for m) = waiting_on ?f' (m_pane m)"
    if "m \<in> set (f_members ?f')" for m
    using deriveBlockerFor_waiting [OF that] by simp
  ultimately show ?thesis
    using accepted check_update_ok [OF accepted(5)] len
    by (intro exI [of _ key] exI [of _ f] exI [of _ i] exI [of _ ?f']) auto
qed

definition block_on_b :: status_update where
  "block_on_b = (u_status plain_update)\<lparr>su_work := '' Blocked'', su_blocked_by := [''wkr, human'']\<rparr>"

lemma ok_if_right: "\<not> isl x \<Longrightarrow> is_ok x"
  by (cases x) simp_all

lemma block_on_b_accepted: "is_ok (snd (Declare [] ''pane-a'' block_on_b 5 two_agents))"
  by (rule ok_if_right) code_simp

theorem declare_effect_witness:
  "\<exists>r' s. Declare [] ''pane-a'' block_on_b 5 two_agents = (r', Inr s) \<and>
     (\<exists>key i f'. alist_get r' key = Some f' \<and> sr_member s = f_members f' ! i)"
proof -
  obtain r' s where d: "Declare [] ''pane-a'' block_on_b 5 two_agents = (r', Inr s)"
    using block_on_b_accepted by (metis prod.collapse)
  have "alist_wf two_agents" by (simp add: two_agents_def alist_wf_def)
  from declare_effect [OF this d] show ?thesis using d by blast
qed

text \<open>
  a declaration by the status scout answers nothing that was asked of the agent: the pending
  check-in and goal ask stay pending, the miss count and the time of the agent's last word stay as
  they were, and no answered command is reported. So a scout cannot hide a stall.
\<close>

theorem scout_answers_nothing:
  assumes "alist_wf r" and "Declare n p u now r = (r', Inr s)" and "su_by u \<noteq> []"
    and "memberLocked n p r = Inr (key, f, i)" and "m_status (f_members f ! i) = Some st"
  shows "sr_answered_checkin s = [] \<and> sr_answered_goal_ask s = [] \<and>
    (\<exists>st'. m_status (sr_member s) = Some st' \<and> st_checkin_cmd st' = st_checkin_cmd st \<and>
       st_checkin_missed st' = st_checkin_missed st \<and> st_goal_ask_cmd st' = st_goal_ask_cmd st \<and>
       st_updated_at st' = st_updated_at st \<and> st_declared_by st' = su_by u)"
  using assms(2,1)
proof (cases rule: Declare_cases)
  case (refused e)
  then show ?thesis by simp
next
  case (accepted key' f' i' bs)
  then have eq: "key' = key" "f' = f" "i' = i" using assms(4) by auto
  let ?row = "declare_row (trim_space (to_lower (su_work u))) bs u now st"
  let ?g = "set_member i ((f_members f ! i)\<lparr>m_status := Some ?row\<rparr>) f"
  have "f_members (deriveBlockerFor ?g) ! i =
      derive_row (blocker_index (f_members ?g)) ((f_members f ! i)\<lparr>m_status := Some ?row\<rparr>)"
    using accepted(3) by (simp add: eq deriveBlockerFor_def set_member_def)
  then have "m_status (f_members (deriveBlockerFor ?g) ! i) =
      Some (?row\<lparr>st_blocker_for := sort (nexts (blocker_index (f_members ?g)) (m_pane (f_members f ! i)))\<rparr>)"
    by (simp add: derive_row_def Let_def)
  then show ?thesis
    using accepted(7) assms(3,5) by (auto simp: eq declare_row_checkin)
qed

definition asked_agents :: registry where
  "asked_agents = [(''alpha'', fleet_of ''alpha'' [(member_row ''pane-a'' ''mgr'')\<lparr>m_status :=
     Some (empty_status\<lparr>st_checkin_cmd := ''c-9'', st_checkin_missed := 1, st_updated_at := 3\<rparr>)\<rparr>])]"

theorem scout_answers_nothing_witness:
  "\<exists>r' s. Declare [] ''pane-a'' ((u_status plain_update)\<lparr>su_by := ''scout''\<rparr>) 5 asked_agents = (r', Inr s) \<and>
     sr_answered_checkin s = [] \<and> (\<exists>st'. m_status (sr_member s) = Some st' \<and> st_checkin_cmd st' = ''c-9'')"
proof -
  let ?u = "(u_status plain_update)\<lparr>su_by := ''scout''\<rparr>"
  have "is_ok (snd (Declare [] ''pane-a'' ?u 5 asked_agents))" by (rule ok_if_right) code_simp
  then obtain r' s where d: "Declare [] ''pane-a'' ?u 5 asked_agents = (r', Inr s)"
    by (metis prod.collapse)
  have wf: "alist_wf asked_agents" by (simp add: asked_agents_def alist_wf_def)
  have found: "memberLocked [] ''pane-a'' asked_agents = Inr (''alpha'', snd (hd asked_agents), 0)" by code_simp
  have st: "m_status (f_members (snd (hd asked_agents)) ! 0) =
      Some (empty_status\<lparr>st_checkin_cmd := ''c-9'', st_checkin_missed := 1, st_updated_at := 3\<rparr>)"
    by (simp add: asked_agents_def fleet_of_def)
  have "sr_answered_checkin s = [] \<and> sr_answered_goal_ask s = [] \<and>
    (\<exists>st'. m_status (sr_member s) = Some st' \<and> st_checkin_cmd st' = ''c-9'' \<and>
       st_checkin_missed st' = 1 \<and> st_goal_ask_cmd st' = [] \<and> st_updated_at st' = 3 \<and> st_declared_by st' = ''scout'')"
    using scout_answers_nothing [OF wf d _ found st] by (simp add: empty_status_def)
  with d show ?thesis by blast
qed

section \<open>Deadlocks\<close>

text \<open>
  C6: every ring \<open>blockedCycles\<close> reports is a ring of declared \<open>blocked_by\<close> edges between blocked members
  and holds the member it is reported for, the search always returns, and it reports nothing exactly
  when no ring exists: a deadlocked fleet is never reported as free of deadlock.
\<close>

theorem blockedCycles_exact:
  "blockedCycles_opt f = Some (blockedCycles f) \<and>
   (\<forall>(pane, c) \<in> set (blockedCycles f). is_ring (blocked_edges f) c \<and> pane \<in> set c) \<and>
   (blockedCycles f = [] \<longleftrightarrow> \<not> (\<exists>c. is_ring (blocked_edges f) c))"
proof -
  have sound: "\<forall>(pane, c) \<in> set (blockedCycles f). is_ring (blocked_edges f) c \<and> pane \<in> set c"
    using blockedCycles_sound [of f] by (auto simp: rings_ok_def alist_all_def)
  have "\<exists>c. is_ring (blocked_edges f) c" if "blockedCycles f \<noteq> []"
  proof -
    obtain pane c rest where "blockedCycles f = (pane, c) # rest"
      using \<open>blockedCycles f \<noteq> []\<close> by (metis list.exhaust surj_pair)
    then show ?thesis using sound by auto
  qed
  then show ?thesis using sound blockedCycles_run blockedCycles_complete by blast
qed

definition diamond :: fleet where
  "diamond = fleet_of ''alpha'' [blocked_row ''aa'' [''bb'', ''cc''], blocked_row ''bb'' [''dd''],
     blocked_row ''cc'' [''dd''], blocked_row ''dd'' [''aa'']]"

theorem blockedCycles_exact_witness: "blockedCycles diamond \<noteq> []"
proof -
  have "is_ring (blocked_edges diamond) [''aa'', ''bb'', ''dd'']" by code_simp
  then show ?thesis using blockedCycles_exact [of diamond] by blast
qed

text \<open>
  The comment of \<open>blockedCycles\<close> promises every member that sits on a ring, and the code does not
  keep that promise: with two rings that share an edge, the member of the second ring that is reached
  after its shared part is finished is left out, although it sits on a ring of blocked members.
\<close>

lemma blockedCycles_misses_member:
  "\<exists>c. is_ring (blocked_edges diamond) c \<and> ''cc'' \<in> set c \<and> alist_get (blockedCycles diamond) ''cc'' = None"
proof (intro exI conjI)
  show "is_ring (blocked_edges diamond) [''aa'', ''cc'', ''dd'']" by code_simp
  show "''cc'' \<in> set [''aa'', ''cc'', ''dd'']" by simp
  show "alist_get (blockedCycles diamond) ''cc'' = None" by code_simp
qed

section \<open>Health and check-ins\<close>

text \<open>
  C7: an evaluation leaves every member with a row whose health is the derivation from the fleet as
  it is afterwards, with the \<open>blocker_for\<close> index up to date, and it is stable: evaluating again at the
  same time reports no change, so a member that stays stalled is reported once.
\<close>

theorem evaluate_settles:
  assumes "alist_wf r"
  shows "snd (Evaluate now (fst (Evaluate now r))) = [] \<and>
    (\<forall>key f. alist_get (fst (Evaluate now r)) key = Some f \<longrightarrow>
       (\<forall>m \<in> set (f_members f). \<exists>st. m_status m = Some st \<and>
          st_health st = memberHealth f st (Watch_Resolved (f_watch f))
                           (alist_get (blockedCycles f) (m_pane m) \<noteq> None) now \<and>
          set (st_blocker_for st) = waiting_on f (m_pane m)))"
proof (intro conjI allI impI ballI)
  show "snd (Evaluate now (fst (Evaluate now r))) = []" by (rule Evaluate_twice_quiet [OF assms])
  fix key f m
  assume "alist_get (fst (Evaluate now r)) key = Some f" and m: "m \<in> set (f_members f)"
  then obtain f0 where f: "f = fst (evaluate_fleet now f0)" using Evaluate_get [OF assms] by auto
  have "evaluate_fleet now f = (f, [])" using evaluate_fleet_twice f by simp
  moreover have fix_f: "deriveBlockerFor f = f" using derive_evaluated f by simp
  ultimately have "eval_change f (Watch_Resolved (f_watch f)) (blockedCycles f) now m = []"
    using m by (auto simp: evaluate_fleet_rows Let_def)
  moreover have "\<exists>x. m = eval_all now (deriveBlockerFor f0) x"
    using m unfolding f evaluate_fleet_rows Let_def by auto
  then obtain st where st: "m_status m = Some st"
    using eval_row_has_status unfolding eval_all_def by metis
  ultimately have "st_health st = memberHealth f st (Watch_Resolved (f_watch f))
      (alist_get (blockedCycles f) (m_pane m) \<noteq> None) now"
    by (auto simp: eval_change_def Let_def split: if_splits)
  moreover have "set (st_blocker_for st) = waiting_on f (m_pane m)"
    using deriveBlockerFor_waiting(1) [of m f] m st by (simp add: fix_f blocker_for_def)
  ultimately show "\<exists>st. m_status m = Some st \<and>
          st_health st = memberHealth f st (Watch_Resolved (f_watch f))
                           (alist_get (blockedCycles f) (m_pane m) \<noteq> None) now \<and>
          set (st_blocker_for st) = waiting_on f (m_pane m)"
    using st by blast
qed

theorem evaluate_settles_witness: "snd (Evaluate 7 (fst (Evaluate 7 [(''alpha'', diamond)]))) = []"
proof -
  have "alist_wf [(''alpha'', diamond)]" by (simp add: alist_wf_def)
  from evaluate_settles [OF this] show ?thesis by blast
qed




section \<open>References, intervals and cadences\<close>

text \<open>
  a reference resolves only to a member it names exactly or is a prefix of, and a prefix
  shared by two members is refused, never guessed.
\<close>

theorem resolve_member_unique:
  assumes "ResolveMember f ref = Inr i"
  shows "i < length (f_members f) \<and>
    ((m_pane (f_members f ! i) = trim_space ref \<or> m_label (f_members f ! i) = trim_space ref) \<or>
     (matches_ref (trim_space ref) (f_members f ! i) \<and>
      (\<forall>j < length (f_members f). matches_ref (trim_space ref) (f_members f ! j) \<longrightarrow> j = i)))"
proof (cases "find_index (\<lambda>m. m_pane m = trim_space ref \<or> m_label m = trim_space ref) (f_members f)")
  case None
  let ?hits = "filter (\<lambda>i. matches_ref (trim_space ref) (f_members f ! i)) [0..<length (f_members f)]"
  have hits: "?hits = [i]"
    using None assms by (auto simp: ResolveMember_def Let_def split: if_splits list.splits)
  have "set ?hits = {i}" unfolding hits by simp
  then show ?thesis by (auto simp: set_eq_iff)
next
  case (Some j)
  then show ?thesis
    using assms by (auto simp: ResolveMember_def Let_def dest!: find_index_Some split: if_splits)
qed

theorem resolve_member_unique_witness:
  "1 < length (f_members (snd (hd two_agents))) \<and> matches_ref ''wk'' (f_members (snd (hd two_agents)) ! 1)"
proof -
  have "ResolveMember (snd (hd two_agents)) ''wk'' = Inr 1" by code_simp
  moreover have "trim_space ''wk'' = ''wk''" by code_simp
  moreover have "\<not> (m_pane (f_members (snd (hd two_agents)) ! 1) = ''wk'' \<or>
      m_label (f_members (snd (hd two_agents)) ! 1) = ''wk'')" by code_simp
  ultimately show ?thesis using resolve_member_unique [of "snd (hd two_agents)" "''wk''" 1] by metis
qed

text \<open>
  The comment of \<open>ResolveMember\<close> says an ambiguous reference is an error and never a guess, but a
  label that two members share, which \<open>UpsertMember\<close> allows, resolves to the first of them; the
  blocker is then recorded against the wrong agent without a refusal.
\<close>

lemma shared_label_guessed:
  "\<exists>f i j. i \<noteq> j \<and> distinct (map m_pane (f_members f)) \<and> i < length (f_members f) \<and> j < length (f_members f) \<and>
     m_label (f_members f ! i) = ''wkr-01'' \<and> m_label (f_members f ! j) = ''wkr-01'' \<and>
     ResolveMember f ''wkr-01'' = Inr i"
proof (intro exI conjI)
  let ?f = "fleet_of ''alpha'' [member_row ''pane-a'' ''wkr-01'', member_row ''pane-b'' ''wkr-01'']"
  show "ResolveMember ?f ''wkr-01'' = Inr 0" by code_simp
  show "(0::nat) \<noteq> 1" by simp
qed (simp_all add: fleet_of_def member_row_def)

text \<open>
  a goal executor's configuration that passes validation resolves to a known mode and a cadence of
  at least a minute whose minimum does not exceed its maximum, and the fields that were set are
  the ones used.
\<close>

theorem goal_exec_cadence:
  assumes "GoalExec_Validate g = None"
  shows "ge_mode (GoalExec_Resolved (Some g)) \<in> {GoalExecAdaptive, GoalExecFixed, GoalExecOff} \<and>
    60 \<le> ge_min_sec (GoalExec_Resolved (Some g)) \<and>
    ge_min_sec (GoalExec_Resolved (Some g)) \<le> ge_max_sec (GoalExec_Resolved (Some g)) \<and>
    (ge_min_sec g \<noteq> 0 \<longrightarrow> ge_min_sec (GoalExec_Resolved (Some g)) = ge_min_sec g) \<and>
    (ge_max_sec g \<noteq> 0 \<longrightarrow> ge_max_sec (GoalExec_Resolved (Some g)) = ge_max_sec g)"
  using assms by (auto simp: GoalExec_Validate_def GoalExec_Resolved_def Let_def split: if_splits)

theorem goal_exec_cadence_witness:
  "60 \<le> ge_min_sec (GoalExec_Resolved (Some \<lparr>ge_mode = GoalExecFixed, ge_min_sec = 90, ge_max_sec = 0\<rparr>))"
proof -
  have "GoalExec_Validate \<lparr>ge_mode = GoalExecFixed, ge_min_sec = 90, ge_max_sec = 0\<rparr> = None" by code_simp
  from goal_exec_cadence [OF this] show ?thesis by blast
qed

end
