(* ===== verification/BoardInbox.thy ===== *)
theory BoardInbox
  imports GoStrings
begin

text \<open>
  The command inbox (\<open>internal/board/inbox.go\<close>): which commands on a board are addressed to one pane
  and which of them it has answered. Posts and threads carry the fields the inbox reads.

  The map of items is an association list; \<open>sort.SliceStable\<close> by descending time and descending
  command id is a stable sort by the two keys.
\<close>

section \<open>Posts, threads and items\<close>

record board_post =
  p_pane :: string
  p_persona :: string
  p_kind :: string
  p_text :: string
  p_thread :: string
  p_ts :: int
  p_to_pane :: string
  p_cmd_id :: string
  p_file :: string
  p_version :: int

record thread =
  t_key :: string
  t_root :: "board_post option"
  t_replies :: "board_post list"

record inbox_item =
  i_cmd_id :: string
  i_thread :: string
  i_from :: string
  i_from_pane :: string
  i_ts :: int
  i_text :: string
  i_file :: string
  i_answered :: bool
  i_ack_ts :: int

abbreviation BoardKindCmd :: string where "BoardKindCmd \<equiv> ''cmd''"
abbreviation BoardKindAck :: string where "BoardKindAck \<equiv> ''ack''"

definition thread_posts :: "thread list \<Rightarrow> board_post list" where
  "thread_posts ts =
     concat (map (\<lambda>t. (case t_root t of None \<Rightarrow> [] | Some p \<Rightarrow> [p]) @ t_replies t) ts)"

section \<open>The inbox\<close>

definition is_command_to :: "string \<Rightarrow> board_post \<Rightarrow> bool" where
  "is_command_to pane p \<longleftrightarrow> p_kind p = BoardKindCmd \<and> p_to_pane p = pane \<and> p_cmd_id p \<noteq> []"

definition item_of :: "board_post \<Rightarrow> inbox_item" where
  "item_of p = \<lparr>i_cmd_id = p_cmd_id p, i_thread = p_thread p, i_from = p_persona p,
     i_from_pane = p_pane p, i_ts = p_ts p, i_text = p_text p, i_file = p_file p,
     i_answered = False, i_ack_ts = 0\<rparr>"

text \<open>A command counts once: the first post with its sender and id wins.\<close>

definition collect_item ::
  "string \<Rightarrow> board_post \<Rightarrow> ((string \<times> string) \<times> inbox_item) list \<Rightarrow> ((string \<times> string) \<times> inbox_item) list"
where
  "collect_item pane p items =
     (if \<not> is_command_to pane p \<or> alist_get items (p_pane p, p_cmd_id p) \<noteq> None then items
      else AList.update (p_pane p, p_cmd_id p) (item_of p) items)"

definition answers :: "string \<Rightarrow> board_post \<Rightarrow> inbox_item \<Rightarrow> bool" where
  "answers pane p it \<longleftrightarrow> p_pane p = pane \<and> p_kind p \<noteq> BoardKindCmd \<and>
     (if p_kind p = BoardKindAck then p_cmd_id p = i_cmd_id it \<and> (p_thread p = i_thread it \<or> p_thread p = [])
      else p_thread p \<noteq> [] \<and> p_thread p = i_thread it)"

definition answer_item :: "string \<Rightarrow> board_post \<Rightarrow> inbox_item \<Rightarrow> inbox_item" where
  "answer_item pane p it =
     (if answers pane p it \<and> (\<not> i_answered it \<or> p_ts p < i_ack_ts it)
      then it\<lparr>i_answered := True, i_ack_ts := p_ts p\<rparr> else it)"

text \<open>The comparison \<open>out[i].CmdID > out[j].CmdID\<close> at equal times, both descending.\<close>

definition newest_first :: "inbox_item list \<Rightarrow> inbox_item list" where
  "newest_first its =
     rev (sort_key (\<lambda>it. i_ts it) (sort_key (\<lambda>it. i_cmd_id it) (rev its)))"

definition inbox_items :: "thread list \<Rightarrow> string \<Rightarrow> inbox_item list" where
  "inbox_items ts pane =
     (let posts = thread_posts ts;
          items = fold (collect_item pane) posts []
      in map snd (fold (\<lambda>p its. alist_map (answer_item pane p) its) posts items))"

definition Inbox :: "thread list \<Rightarrow> string \<Rightarrow> inbox_item list" where
  "Inbox ts pane = (if pane = [] then [] else newest_first (inbox_items ts pane))"

definition FindCommand :: "thread list \<Rightarrow> string \<Rightarrow> string \<Rightarrow> inbox_item option" where
  "FindCommand ts pane cmd = List.find (\<lambda>it. i_cmd_id it = cmd) (Inbox ts pane)"

section \<open>Each command once\<close>

lemma collect_items_wf: "alist_wf items \<Longrightarrow> alist_wf (fold (collect_item pane) posts items)"
  by (induction posts arbitrary: items) (auto simp: collect_item_def)

lemma collect_items_get:
  "alist_get (fold (collect_item pane) posts items) k =
     (case alist_get items k of
        Some it \<Rightarrow> Some it
      | None \<Rightarrow> map_option item_of
                 (List.find (\<lambda>p. is_command_to pane p \<and> (p_pane p, p_cmd_id p) = k) posts))"
proof (induction posts arbitrary: items)
  case Nil
  show ?case by (simp split: option.split)
next
  case (Cons p posts)
  show ?case
    unfolding fold_simps(2) Cons by (auto simp: collect_item_def split: option.splits)
qed

lemma answers_stable: "answers pane p (answer_item pane q it) = answers pane p it"
  by (simp add: answers_def answer_item_def)

lemma answer_fold_map:
  "fold (\<lambda>p its. alist_map (answer_item pane p) its) posts items =
   alist_map (fold (answer_item pane) posts) items"
proof (induction posts arbitrary: items)
  case Nil
  show ?case by (simp add: alist_map_def)
next
  case (Cons p posts)
  show ?case unfolding fold_simps(2) Cons by (simp add: alist_map_def o_def case_prod_beta)
qed

lemma answer_item_same [simp]:
  "i_cmd_id (answer_item pane p it) = i_cmd_id it" "i_from_pane (answer_item pane p it) = i_from_pane it"
  "i_ts (answer_item pane p it) = i_ts it" "i_thread (answer_item pane p it) = i_thread it"
  by (simp_all add: answer_item_def)

lemma answer_fold_same [simp]:
  "i_cmd_id (fold (answer_item pane) posts it) = i_cmd_id it"
  "i_from_pane (fold (answer_item pane) posts it) = i_from_pane it"
  "i_ts (fold (answer_item pane) posts it) = i_ts it"
  "i_thread (fold (answer_item pane) posts it) = i_thread it"
  by (induction posts arbitrary: it) simp_all

lemma answer_fold_answered:
  "i_answered (fold (answer_item pane) posts it) \<longleftrightarrow> i_answered it \<or> (\<exists>p \<in> set posts. answers pane p it)"
proof (induction posts arbitrary: it)
  case Nil
  show ?case by simp
next
  case (Cons p posts)
  have "i_answered (answer_item pane p it) \<longleftrightarrow> i_answered it \<or> answers pane p it"
    by (auto simp: answer_item_def)
  then show ?case using Cons by (auto simp: answers_stable)
qed

text \<open>The time of an answered item is the time of its first answer.\<close>

lemma answer_fold_ack:
  "i_answered (fold (answer_item pane) posts it) \<Longrightarrow>
   ((\<exists>p \<in> set posts. answers pane p it \<and> i_ack_ts (fold (answer_item pane) posts it) = p_ts p) \<or>
     i_answered it \<and> i_ack_ts (fold (answer_item pane) posts it) = i_ack_ts it) \<and>
   (\<forall>p \<in> set posts. answers pane p it \<longrightarrow> i_ack_ts (fold (answer_item pane) posts it) \<le> p_ts p) \<and>
   (i_answered it \<longrightarrow> i_ack_ts (fold (answer_item pane) posts it) \<le> i_ack_ts it)"
proof (induction posts arbitrary: it)
  case Nil
  then show ?case by simp
next
  case (Cons p posts)
  let ?a = "answer_item pane p it"
  have fin: "fold (answer_item pane) (p # posts) it = fold (answer_item pane) posts ?a" by simp
  have a: "answers pane p it \<Longrightarrow> i_answered ?a \<and> i_ack_ts ?a \<le> p_ts p"
    "i_answered it \<Longrightarrow> i_answered ?a \<and> i_ack_ts ?a \<le> i_ack_ts it"
    "i_answered ?a \<Longrightarrow> (answers pane p it \<and> i_ack_ts ?a = p_ts p) \<or> (i_answered it \<and> i_ack_ts ?a = i_ack_ts it)"
    by (auto simp: answer_item_def)
  have "i_answered (fold (answer_item pane) posts ?a)" using Cons.prems by (simp only: fin)
  from Cons.IH [OF this] have ih:
    "(\<exists>q \<in> set posts. answers pane q it \<and> i_ack_ts (fold (answer_item pane) posts ?a) = p_ts q) \<or>
      i_answered ?a \<and> i_ack_ts (fold (answer_item pane) posts ?a) = i_ack_ts ?a"
    "\<forall>q \<in> set posts. answers pane q it \<longrightarrow> i_ack_ts (fold (answer_item pane) posts ?a) \<le> p_ts q"
    "i_answered ?a \<longrightarrow> i_ack_ts (fold (answer_item pane) posts ?a) \<le> i_ack_ts ?a"
    by (simp_all add: answers_stable)
  show ?case
    unfolding fin using ih a by fastforce
qed

lemma inbox_items_eq:
  "inbox_items ts pane =
     map (\<lambda>ki. fold (answer_item pane) (thread_posts ts) (snd ki)) (fold (collect_item pane) (thread_posts ts) [])"
  unfolding inbox_items_def Let_def answer_fold_map by (simp add: alist_map_def case_prod_beta)

lemma newest_first_mset [simp]: "mset (newest_first its) = mset its"
  by (simp add: newest_first_def)

lemma newest_first_set [simp]: "set (newest_first its) = set its"
  using newest_first_mset by (metis set_mset_mset)

text \<open>The order is by time and then by command id, both descending.\<close>

lemma newest_first_sorted:
  "sorted_wrt (\<lambda>a b. i_ts b \<le> i_ts a) (newest_first its)"
proof -
  have "sorted (map i_ts (sort_key i_ts (sort_key i_cmd_id (rev its))))" by simp
  then have "sorted_wrt (\<lambda>a b. i_ts a \<le> i_ts b) (sort_key i_ts (sort_key i_cmd_id (rev its)))"
    by (simp add: sorted_wrt_map)
  then show ?thesis unfolding newest_first_def sorted_wrt_rev .
qed

lemma collected_items:
  assumes "ki \<in> set (fold (collect_item pane) (thread_posts ts) [])"
  shows "\<exists>p \<in> set (thread_posts ts). is_command_to pane p \<and> fst ki = (p_pane p, p_cmd_id p) \<and> snd ki = item_of p"
proof -
  have "alist_wf (fold (collect_item pane) (thread_posts ts) [])" by (rule collect_items_wf) simp
  then have "alist_get (fold (collect_item pane) (thread_posts ts) []) (fst ki) = Some (snd ki)"
    using alist_get_from_set assms by (metis prod.collapse)
  then show ?thesis
    unfolding collect_items_get by (auto simp: alist_get_def dest!: find_Some_iff2)
qed

lemma inbox_items_keys:
  "map (\<lambda>it. (i_from_pane it, i_cmd_id it)) (inbox_items ts pane) = keys (fold (collect_item pane) (thread_posts ts) [])"
  unfolding inbox_items_eq
proof (simp, intro ballI)
  fix ki assume "ki \<in> set (fold (collect_item pane) (thread_posts ts) [])"
  then show "(i_from_pane (snd ki), i_cmd_id (snd ki)) = fst ki"
    using collected_items by (fastforce simp: item_of_def)
qed

lemma inbox_items_distinct: "distinct (map (\<lambda>it. (i_from_pane it, i_cmd_id it)) (inbox_items ts pane))"
  unfolding inbox_items_keys using collect_items_wf [of "[]" pane "thread_posts ts"] by (simp add: alist_wf_def)

end
