(* ===== verification/GoalAssess.thy ===== *)
theory GoalAssess
  imports FleetGoals BoardInbox
begin

text \<open>
  The judgement of the goal executor (\<open>internal/fleetgoal/assess.go\<close>): what it observes of a fleet,
  the conditions and pressure of each member, the critical path and the state of the fleet.

  \<open>Assess\<close> takes from the board's flow view the ids of its team table (\<open>rows\<close>) and
  its bottleneck with the number waiting. \<open>clock\<close> is the rendering of a time of day, which depends on
  the local time zone. Texts are byte strings; \<open>clip\<close> counts runes by their first bytes.
\<close>

section \<open>Texts\<close>

definition go_div :: "int \<Rightarrow> int \<Rightarrow> int" where
  "go_div a b = sgn a * sgn b * (\<bar>a\<bar> div \<bar>b\<bar>)"

definition is_rune_start :: "char \<Rightarrow> bool" where
  "is_rune_start c \<longleftrightarrow> (of_char c :: nat) < 128 \<or> 192 \<le> (of_char c :: nat)"

fun take_runes :: "nat \<Rightarrow> string \<Rightarrow> string" where
  "take_runes n [] = []"
| "take_runes n (c # s) =
     (if is_rune_start c then (case n of 0 \<Rightarrow> [] | Suc k \<Rightarrow> c # take_runes k s) else c # take_runes n s)"

definition rune_count :: "string \<Rightarrow> nat" where
  "rune_count s = length (filter is_rune_start s)"

definition ellipsis :: string where
  "ellipsis = [CHR 0xE2, CHR 0x80, CHR 0xA6]"

definition clip :: "string \<Rightarrow> nat \<Rightarrow> string" where
  "clip s n = (let t = trim_space s in if rune_count t \<le> n then t else take_runes (n - 1) t @ ellipsis)"

definition hex_digit :: "nat \<Rightarrow> char" where
  "hex_digit d = (if d < 10 then char_of (48 + d) else char_of (87 + d))"

definition quote_char :: "char \<Rightarrow> string" where
  "quote_char c =
     (let n = (of_char c :: nat)
      in if c = CHR 0x22 \<or> c = CHR 0x5C then [CHR 0x5C, c]
         else if n = 7 then [CHR 0x5C, CHR ''a''] else if n = 8 then [CHR 0x5C, CHR ''b'']
         else if n = 9 then [CHR 0x5C, CHR ''t''] else if n = 10 then [CHR 0x5C, CHR ''n'']
         else if n = 11 then [CHR 0x5C, CHR ''v''] else if n = 12 then [CHR 0x5C, CHR ''f'']
         else if n = 13 then [CHR 0x5C, CHR ''r'']
         else if n < 32 \<or> n = 127 then [CHR 0x5C, CHR ''x'', hex_digit (n div 16), hex_digit (n mod 16)]
         else [c])"

text \<open>The \<open>%q\<close> verb, on text whose characters beyond ASCII are printable.\<close>

definition quoted :: "string \<Rightarrow> string" where
  "quoted s = [CHR 0x22] @ concat (map quote_char s) @ [CHR 0x22]"

definition plural :: "int \<Rightarrow> string" where "plural n = (if n = 1 then [] else ''s'')"
definition verbS :: "int \<Rightarrow> string" where "verbS n = (if n = 1 then ''s'' else [])"

definition ms_text :: "int \<Rightarrow> string" where
  "ms_text ms = DurationText (ms * 1000000)"

section \<open>State\<close>

abbreviation CondDeadlock :: string where "CondDeadlock \<equiv> ''deadlock''"
abbreviation CondStressed :: string where "CondStressed \<equiv> ''stressed''"
abbreviation CondStrayed :: string where "CondStrayed \<equiv> ''strayed''"
abbreviation CondStalled :: string where "CondStalled \<equiv> ''stalled''"
abbreviation CondBlocker :: string where "CondBlocker \<equiv> ''blocker''"
abbreviation CondBlocked :: string where "CondBlocked \<equiv> ''blocked''"
abbreviation CondUnblocked :: string where "CondUnblocked \<equiv> ''unblocked''"
abbreviation CondIdle :: string where "CondIdle \<equiv> ''idle''"
abbreviation CondProgressing :: string where "CondProgressing \<equiv> ''progressing''"
abbreviation CondMet :: string where "CondMet \<equiv> ''met''"

definition ConditionOrder :: "string list" where
  "ConditionOrder = [CondDeadlock, CondStressed, CondStrayed, CondStalled, CondBlocker,
     CondBlocked, CondUnblocked, CondIdle, CondProgressing, CondMet]"

abbreviation StateStarting :: string where "StateStarting \<equiv> ''starting''"
abbreviation StateOnTrack :: string where "StateOnTrack \<equiv> ''on-track''"
abbreviation StateAtRisk :: string where "StateAtRisk \<equiv> ''at-risk''"
abbreviation StateOffTrack :: string where "StateOffTrack \<equiv> ''off-track''"
abbreviation StateStuck :: string where "StateStuck \<equiv> ''stuck''"
abbreviation StateMet :: string where "StateMet \<equiv> ''met''"
abbreviation StateNoGoal :: string where "StateNoGoal \<equiv> ''no-goal''"

definition stateRank :: "string \<Rightarrow> nat" where
  "stateRank s = (if s = StateAtRisk then 1 else if s = StateOffTrack then 2
                  else if s = StateStuck then 3 else 0)"

abbreviation StressThreshold :: int where "StressThreshold \<equiv> 3"
abbreviation RecentWindow :: int where "RecentWindow \<equiv> 900000"
abbreviation WanderWindow :: int where "WanderWindow \<equiv> 1800000"
abbreviation OverrunGrace :: int where "OverrunGrace \<equiv> 600000"
abbreviation sampleCap :: nat where "sampleCap \<equiv> 12"

record input =
  in_fleet :: fleet
  in_threads :: "thread list"
  in_board_ok :: bool
  in_now :: int
  in_config :: goal_exec

record sample =
  sp_at :: int
  sp_work :: string
  sp_task :: string
  sp_activity :: string
  sp_pct :: int
  sp_updated :: int

record rung =
  rg_fingerprint :: string
  rg_level :: int
  rg_sent_at :: int

record memory =
  mem_samples :: "(string \<times> sample list) list"
  mem_ladder :: "(string \<times> rung) list"
  mem_sent :: "(string \<times> int list) list"
  mem_cycles :: int
  mem_last_state :: string
  mem_last_report :: string
  mem_last_report_at :: int
  mem_interval_sec :: int

record assessed =
  ma_pane :: string
  ma_label :: string
  ma_role :: string
  ma_parent :: string
  ma_primary :: string
  ma_conditions :: "string list"
  ma_work :: string
  ma_task :: string
  ma_activity :: string
  ma_health :: string
  ma_pct :: "int option"
  ma_eta_at :: int
  ma_goal :: "goal option"
  ma_waiting :: int
  ma_waiters :: "string list"
  ma_blocked_by :: "string list"
  ma_open :: int
  ma_recent :: int
  ma_stress :: int
  ma_stress_why :: "string list"
  ma_stray_why :: "string list"
  ma_finish :: int

record assessment =
  as_fleet :: string
  as_board :: string
  as_state :: string
  as_why :: "string list"
  as_pct :: int
  as_finish :: int
  as_unknown :: int
  as_due_at :: int
  as_bottleneck :: string
  as_bottleneck_waiting :: int
  as_members :: "assessed list"
  as_cycles :: "string list list"
  as_board_ok :: bool

definition Has :: "assessed \<Rightarrow> string \<Rightarrow> bool" where
  "Has ma c \<longleftrightarrow> c \<in> set (ma_conditions ma)"

definition assessed_member :: "assessment \<Rightarrow> string \<Rightarrow> assessed option" where
  "assessed_member a i = List.find (\<lambda>ma. ma_pane ma = i) (as_members a)"

definition memberOf :: "fleet \<Rightarrow> string \<Rightarrow> member option" where
  "memberOf f i = List.find (\<lambda>m. m_pane m = i) (f_members f)"

definition label_of :: "member \<Rightarrow> string" where
  "label_of m = (if m_label m \<noteq> [] then m_label m else BoardPersona [] [] (m_pane m))"

section \<open>Observation\<close>

definition sample_of :: "int \<Rightarrow> member \<Rightarrow> sample" where
  "sample_of now m =
     (case m_status m of
        None \<Rightarrow> \<lparr>sp_at = now, sp_work = [], sp_task = [], sp_activity = [], sp_pct = -1, sp_updated = 0\<rparr>
      | Some st \<Rightarrow> \<lparr>sp_at = now, sp_work = st_work st, sp_task = st_task st, sp_activity = st_activity st,
                    sp_pct = (case st_pct st of None \<Rightarrow> -1 | Some p \<Rightarrow> p), sp_updated = st_updated_at st\<rparr>)"

definition last_n :: "nat \<Rightarrow> 'a list \<Rightarrow> 'a list" where
  "last_n n xs = drop (length xs - n) xs"

definition samples_of :: "(string \<times> sample list) list \<Rightarrow> string \<Rightarrow> sample list" where
  "samples_of ss i = (case alist_get ss i of None \<Rightarrow> [] | Some l \<Rightarrow> l)"

definition add_sample :: "int \<Rightarrow> member \<Rightarrow> (string \<times> sample list) list \<Rightarrow> (string \<times> sample list) list" where
  "add_sample now m ss =
     AList.update (m_pane m) (last_n sampleCap (samples_of ss (m_pane m) @ [sample_of now m])) ss"

definition GoalObserve :: "memory \<Rightarrow> input \<Rightarrow> memory" where
  "GoalObserve mem i =
     (let ms = f_members (in_fleet i);
          ss = fold (add_sample (in_now i)) ms (mem_samples mem)
      in mem\<lparr>mem_samples := filter (\<lambda>ks. fst ks \<in> set (map m_pane ms)) ss\<rparr>)"

section \<open>Who waits on whom\<close>

definition waitGraph :: "fleet \<Rightarrow> string graph \<times> (string \<times> nat) list" where
  "waitGraph f =
     (let direct = alist_map sort (blocker_index (f_members f))
      in (direct, map (\<lambda>i. (i, reach_count direct [i])) (keys direct)))"

definition waiters_on :: "fleet \<Rightarrow> string \<Rightarrow> string list" where
  "waiters_on f i = nexts (fst (waitGraph f)) i"

definition waiting_count :: "fleet \<Rightarrow> string \<Rightarrow> int" where
  "waiting_count f i = (case alist_get (snd (waitGraph f)) i of None \<Rightarrow> 0 | Some n \<Rightarrow> int n)"

section \<open>Pressure\<close>

definition Identity :: string where "Identity = ''fleet''"

definition peer_items :: "input \<Rightarrow> string \<Rightarrow> inbox_item list" where
  "peer_items i pane = filter (\<lambda>it. i_from_pane it \<noteq> Identity) (Inbox (in_threads i) pane)"

definition pressure :: "input \<Rightarrow> string \<Rightarrow> int \<times> int" where
  "pressure i pane =
     (if \<not> in_board_ok i \<or> memberOf (in_fleet i) pane = None then (0, 0)
      else (int (length (filter (\<lambda>it. \<not> i_answered it) (peer_items i pane))),
            int (length (filter (\<lambda>it. in_now i - RecentWindow \<le> i_ts it) (peer_items i pane)))))"

definition stress :: "assessed \<Rightarrow> member_status option \<Rightarrow> int \<Rightarrow> int \<times> string list" where
  "stress ma s now =
     (case s of None \<Rightarrow> (0, [])
      | Some st \<Rightarrow>
          if st_work st = WorkDone \<or> Goal_IsMet (ma_goal ma) then (0, [])
          else
            let w = ma_waiting ma; op = ma_open ma;
                waits = (if 3 \<le> w then (2, [itoa w @ '' agents wait on it''])
                         else if 1 \<le> w
                         then (1, [itoa w @ '' agent'' @ plural w @ '' wait'' @ verbS w @ '' on it''])
                         else (0, []));
                opens = (if 3 \<le> op then (2, [itoa op @ '' unanswered prompts''])
                         else if op = 2 then (1, [''2 unanswered prompts'']) else (0, []));
                recents = (if 4 \<le> ma_recent ma
                           then (1, [itoa (ma_recent ma) @ '' prompts in the last '' @ ms_text RecentWindow])
                           else (0, []));
                late = (if 1 \<le> w \<and> 0 < st_eta_at st \<and> st_eta_at st < now
                        then (1, [''past its own ETA while others wait'']) else (0, []));
                missed = (if 1 \<le> st_checkin_missed st then (1, [''missed a check-in'']) else (0, []));
                parts = [waits, opens, recents, late, missed]
            in (sum_list (map fst parts), concat (map snd parts)))"

section \<open>Drift\<close>

definition word_char :: "char \<Rightarrow> bool" where
  "word_char c \<longleftrightarrow> (97 \<le> (of_char c :: nat) \<and> (of_char c :: nat) \<le> 122) \<or> is_digit c"

text \<open>\<open>strings.FieldsFunc\<close> on the characters outside \<open>a-z0-9\<close>; bytes beyond ASCII are outside.\<close>

fun fields_func :: "(char \<Rightarrow> bool) \<Rightarrow> string \<Rightarrow> string \<Rightarrow> string list" where
  "fields_func ok cur [] = (if cur = [] then [] else [cur])"
| "fields_func ok cur (c # s) =
     (if ok c then fields_func ok (cur @ [c]) s
      else (if cur = [] then fields_func ok [] s else cur # fields_func ok [] s))"

definition stopwords :: "string list" where
  "stopwords = [''with'', ''from'', ''that'', ''this'', ''into'', ''then'', ''than'', ''have'', ''will'',
     ''make'', ''done'', ''work'', ''task'', ''goal'', ''when'', ''what'', ''your'', ''their'', ''about'']"

definition contentWords :: "string \<Rightarrow> string list" where
  "contentWords s =
     dedup (map (\<lambda>w. trim_suffix w ''s'')
       (filter (\<lambda>w. 4 \<le> length w \<and> w \<notin> set stopwords) (fields_func word_char [] (to_lower s))))"

definition goal_words :: "goal option \<Rightarrow> string" where
  "goal_words g = (case g of None \<Rightarrow> [] | Some x \<Rightarrow> g_text x @ '' '' @ g_done_when x @ '' '')"

definition offGoal :: "string \<Rightarrow> goal option \<Rightarrow> goal option \<Rightarrow> bool" where
  "offGoal task own fleetGoal =
     (let tw = contentWords task; gw = contentWords (goal_words own @ goal_words fleetGoal)
      in if length tw < 2 then False
         else if gw = [] then False
         else \<not> list_ex (\<lambda>w. w \<in> set gw) tw)"

definition stray_stuck :: "member_status \<Rightarrow> sample list \<Rightarrow> int \<Rightarrow> int \<Rightarrow> string list" where
  "stray_stuck st samples minGap now =
     (if length samples < 3 then []
      else
        let tail = last_n 3 samples; first = tail ! 0; final = tail ! 2;
            need = (if now < st_eta_at st \<and> 0 < st_eta_set_at st
                    then max (2 * minGap) (go_div (st_eta_at st - st_eta_set_at st) 4) else 2 * minGap);
            span = sp_at final - sp_at first
        in if need \<le> span \<and>
              list_all (\<lambda>s. sp_work s = WorkProgress \<and> sp_activity s = ActivityWorking \<and> 0 \<le> sp_pct s \<and>
                            sp_task s = sp_task first \<and> sp_pct s = sp_pct first) tail
           then [''working on '' @ quoted (clip (sp_task first) 50) @ '' for '' @ ms_text span @
                 '' with no progress (still '' @ itoa (sp_pct first) @ ''%)'']
           else [])"

definition stray_wander :: "sample list \<Rightarrow> int \<Rightarrow> string list" where
  "stray_wander samples now =
     (let recent = filter (\<lambda>s. now - WanderWindow \<le> sp_at s) samples;
          order = dedup (map sp_task (filter (\<lambda>s. sp_task s \<noteq> []) recent));
          pcts = map sp_pct (filter (\<lambda>s. 0 \<le> sp_pct s) recent);
          finished = list_ex (\<lambda>s. sp_work s = WorkDone) recent
      in if 3 \<le> length order \<and> \<not> finished \<and> (pcts = [] \<or> foldl max (-1) pcts \<le> hd pcts)
         then [''switched task '' @ itoa (int (length order) - 1) @ '' times in '' @ ms_text WanderWindow @
               '' without progress ('' @
               clip (join_with ('' '' @ [CHR 0xE2, CHR 0x86, CHR 0x92] @ '' '') order) 90 @ '')'']
         else [])"

definition stray_undeclared :: "sample list \<Rightarrow> string list" where
  "stray_undeclared samples =
     (if length samples < 2 then []
      else
        let a = samples ! (length samples - 2); b = samples ! (length samples - 1)
        in if (sp_work b = WorkIdle \<or> sp_work b = WorkDone) \<and> sp_work b = sp_work a \<and>
              sp_activity a = ActivityWorking \<and> sp_activity b = ActivityWorking
           then [''working on screen while it declared '' @ sp_work b] else [])"

definition stray_overrun :: "member_status \<Rightarrow> int \<Rightarrow> string list" where
  "stray_overrun st now =
     (let slack = max OverrunGrace (go_div (st_eta_at st - st_eta_set_at st) 2)
      in if st_work st = WorkProgress \<and> 0 < st_eta_at st \<and> st_eta_at st + slack < now
         then [ms_text (now - st_eta_at st) @ '' past its own ETA''] else [])"

definition stray ::
  "assessed \<Rightarrow> member_status option \<Rightarrow> fleet \<Rightarrow> sample list \<Rightarrow> goal_exec \<Rightarrow> int \<Rightarrow> string list" where
  "stray ma s f samples cfg now =
     (case s of None \<Rightarrow> []
      | Some st \<Rightarrow>
          if Goal_IsMet (ma_goal ma) then []
          else
            let why = stray_stuck st samples (ge_min_sec cfg * 1000) now @ stray_wander samples now @
                      stray_undeclared samples @ stray_overrun st now
            in if why \<noteq> [] \<and> offGoal (st_task st) (ma_goal ma) (f_goal f)
               then why @ [''its task shares no word with its goal or the fleet goal''] else why)"

section \<open>Conditions\<close>

definition condition_holds :: "assessed \<Rightarrow> member_status option \<Rightarrow> string \<Rightarrow> bool" where
  "condition_holds ma s c =
     (let met = Goal_IsMet (ma_goal ma)
      in case s of
           None \<Rightarrow> c = CondMet \<and> met
         | Some st \<Rightarrow>
             let h = st_health st; w = st_work st; stalled = (h = HealthStalled \<or> h = HealthUnresponsive)
             in (c = CondDeadlock \<and> h = HealthDeadlock) \<or>
                (c = CondStalled \<and> stalled) \<or>
                (c = CondUnblocked \<and> h = HealthUnblocked) \<or>
                (c = CondIdle \<and> \<not> met \<and>
                   (h = HealthAvailable \<or> h = HealthSilent \<or> w = WorkIdle \<or> w = WorkDone)) \<or>
                (c = CondStressed \<and> StressThreshold \<le> ma_stress ma) \<or>
                (c = CondStrayed \<and> ma_stray_why ma \<noteq> []) \<or>
                (c = CondBlocker \<and> 1 \<le> ma_waiting ma \<and> w \<noteq> WorkDone) \<or>
                (c = CondBlocked \<and> w = WorkBlocked) \<or>
                (c = CondProgressing \<and> w = WorkProgress \<and> \<not> stalled) \<or>
                (c = CondMet \<and> met))"

definition conditions :: "assessed \<Rightarrow> member_status option \<Rightarrow> string list" where
  "conditions ma s = filter (condition_holds ma s) ConditionOrder"

section \<open>Deadlocks\<close>

text \<open>A ring is kept when none of its members is on a ring already kept.\<close>

definition fresh_ring :: "string list \<Rightarrow> string list \<times> string list list \<Rightarrow> string list \<times> string list list" where
  "fresh_ring ring r =
     (if list_ex (\<lambda>i. i \<in> set (fst r)) ring then r else (ring @ fst r, snd r @ [ring]))"

definition deadlockCycles_opt :: "fleet \<Rightarrow> (string list \<times> string list list) option" where
  "deadlockCycles_opt f =
     (let edges = blocked_edges f
      in dfs_run edges (\<lambda>n. alist_get edges n \<noteq> None) fresh_ring
           (map m_pane (filter is_blocked (f_members f))) ([], []))"

definition deadlockCycles :: "fleet \<Rightarrow> string list list" where
  "deadlockCycles f = (case deadlockCycles_opt f of None \<Rightarrow> [] | Some r \<Rightarrow> snd r)"

section \<open>The critical path\<close>

definition unknown :: int where "unknown = -1"

function (sequential) finish ::
  "nat \<Rightarrow> fleet \<Rightarrow> int \<Rightarrow> string list \<Rightarrow> (string \<times> int) list \<Rightarrow> string \<Rightarrow> (int \<times> (string \<times> int) list) option"
and finish_blockers ::
  "nat \<Rightarrow> fleet \<Rightarrow> int \<Rightarrow> string list \<Rightarrow> (string \<times> int) list \<Rightarrow> string list \<Rightarrow> int \<Rightarrow>
   (int \<times> (string \<times> int) list) option"
where
  "finish 0 f now visiting memo i = None"
| "finish (Suc k) f now visiting memo i =
     (case alist_get memo i of
        Some v \<Rightarrow> Some (v, memo)
      | None \<Rightarrow>
          (case memberOf f i of
             None \<Rightarrow> Some (unknown, memo)
           | Some m \<Rightarrow>
               if i \<in> set visiting then Some (unknown, memo)
               else if Goal_IsMet (m_goal m) then Some (now, AList.update i now memo)
               else (case m_status m of
                       None \<Rightarrow> Some (unknown, AList.update i unknown memo)
                     | Some st \<Rightarrow>
                         if st_work st = WorkDone then Some (now, AList.update i now memo)
                         else if st_work st = WorkProgress \<and> 0 < st_eta_at st
                         then Some (max (st_eta_at st) now, AList.update i (max (st_eta_at st) now) memo)
                         else if st_work st = WorkBlocked then
                           (case finish_blockers k f now (i # visiting) memo (st_blocked_by st) now of
                              None \<Rightarrow> None
                            | Some (start, memo') \<Rightarrow>
                                let v = (if start \<noteq> unknown \<and> 0 < st_eta_at st \<and> 0 < st_eta_set_at st
                                         then start + (st_eta_at st - st_eta_set_at st) else unknown)
                                in Some (v, AList.update i v memo'))
                         else if st_work st = WorkIdle \<and> \<not> Goal_IsOpen (m_goal m)
                         then Some (now, AList.update i now memo)
                         else Some (unknown, AList.update i unknown memo))))"
| "finish_blockers k f now visiting memo [] start = Some (start, memo)"
| "finish_blockers k f now visiting memo (b # bs) start =
     (case (if memberOf f b = None then Some (unknown, memo) else finish k f now visiting memo b) of
        None \<Rightarrow> None
      | Some (fb, memo') \<Rightarrow>
          if fb = unknown then Some (unknown, memo')
          else finish_blockers k f now visiting memo' bs (max start fb))"
  by pat_completeness auto
termination
  by (relation "measures [\<lambda>x. (case x of Inl (k, f, now, visiting, memo, i) \<Rightarrow> k
                               | Inr (k, f, now, visiting, memo, bs, start) \<Rightarrow> k),
                          \<lambda>x. (case x of Inl (k, f, now, visiting, memo, i) \<Rightarrow> 0
                               | Inr (k, f, now, visiting, memo, bs, start) \<Rightarrow> Suc (length bs))]") auto

definition finish_fuel :: "fleet \<Rightarrow> nat" where
  "finish_fuel f = length (f_members f) + 2"

fun path_members :: "fleet \<Rightarrow> int \<Rightarrow> (string \<times> int) list \<Rightarrow> assessment \<Rightarrow> assessed list \<Rightarrow> assessment" where
  "path_members f now memo a [] = a"
| "path_members f now memo a (ma # mas) =
     (case finish (finish_fuel f) f now [] memo (ma_pane ma) of
        None \<Rightarrow> a
      | Some (v, memo') \<Rightarrow>
          if v = unknown
          then path_members f now memo'
                 (a\<lparr>as_members := as_members a @ [ma\<lparr>ma_finish := 0\<rparr>],
                    as_unknown := as_unknown a + (if Has ma CondMet then 0 else 1)\<rparr>) mas
          else path_members f now memo'
                 (a\<lparr>as_members := as_members a @ [ma\<lparr>ma_finish := v\<rparr>],
                    as_finish := max (as_finish a) v\<rparr>) mas)"

definition criticalPath :: "assessment \<Rightarrow> fleet \<Rightarrow> int \<Rightarrow> assessment" where
  "criticalPath a0 f now =
     (let a = path_members f now [] (a0\<lparr>as_members := []\<rparr>) (as_members a0);
          pcts = concat (map (\<lambda>ma. case ma_pct ma of None \<Rightarrow> [] | Some p \<Rightarrow> [p]) (as_members a))
      in if pcts = [] then a else a\<lparr>as_pct := go_div (sum_list pcts) (int (length pcts))\<rparr>)"

section \<open>The state of the fleet\<close>

definition count_members :: "(assessed \<Rightarrow> bool) \<Rightarrow> assessment \<Rightarrow> int" where
  "count_members P a = int (length (filter P (as_members a)))"

definition is_troubled :: "assessed \<Rightarrow> bool" where
  "is_troubled ma \<longleftrightarrow> Has ma CondStressed \<or> Has ma CondStrayed \<or> Has ma CondStalled"

definition is_progressing :: "assessed \<Rightarrow> bool" where
  "is_progressing ma \<longleftrightarrow> Has ma CondProgressing \<or> ma_activity ma = ActivityWorking"

definition is_finished :: "assessed \<Rightarrow> bool" where
  "is_finished ma \<longleftrightarrow> Has ma CondMet \<or> ma_work ma = WorkDone"

definition add_why :: "string \<Rightarrow> assessment \<Rightarrow> assessment" where
  "add_why s a = a\<lparr>as_why := as_why a @ [s]\<rparr>"

text \<open>The due time: past it, or expected past it by more than a quarter of the span, is off track.\<close>

definition due_verdict ::
  "(int \<Rightarrow> string) \<Rightarrow> goal \<Rightarrow> int \<Rightarrow> assessment \<Rightarrow> bool \<times> bool \<times> string list" where
  "due_verdict clock g now a =
     (let past = (0 < g_due_at g \<and> g_due_at g < now);
          late = (0 < g_due_at g \<and> g_due_at g < as_finish a);
          span = g_due_at g - g_set_at g;
          far = (0 < span \<and> g_due_at g + go_div span 4 < as_finish a)
      in (past \<or> (late \<and> far), late \<and> \<not> far,
          (if past then [''past the due time by '' @ ms_text (now - g_due_at g)] else []) @
          (if late then [''expected finish '' @ clock (as_finish a) @ '' is past the due '' @ clock (g_due_at g)]
           else [])))"

definition trouble_verdict :: "assessment \<Rightarrow> bool \<times> bool \<times> string list" where
  "trouble_verdict a =
     (let t = count_members is_troubled a; n = int (length (as_members a))
      in if 0 < n \<and> n \<le> t * 2
         then (True, False, [itoa t @ '' of '' @ itoa n @ '' agents are stressed, strayed or stalled''])
         else if 0 < t then (False, True, [itoa t @ '' agent'' @ plural t @ '' stressed, strayed or stalled''])
         else (False, False, []))"

definition bottleneck_verdict :: "int \<Rightarrow> assessment \<Rightarrow> bool \<times> string list" where
  "bottleneck_verdict now a =
     (if as_bottleneck a \<noteq> [] \<and> 2 \<le> as_bottleneck_waiting a then
        (case assessed_member a (as_bottleneck a) of
           None \<Rightarrow> (False, [])
         | Some b \<Rightarrow>
             if ma_eta_at b = 0 \<or> ma_eta_at b < now
             then (True, [''bottleneck '' @ ma_label b @ '' has '' @ itoa (as_bottleneck_waiting a) @
                          '' waiting and no current ETA''])
             else (False, []))
      else (False, []))"

definition fleetState :: "(int \<Rightarrow> string) \<Rightarrow> assessment \<Rightarrow> fleet \<Rightarrow> int \<Rightarrow> assessment" where
  "fleetState clock a f now =
     (if Goal_IsMet (f_goal f) then a\<lparr>as_state := StateMet\<rparr>
      else if count_members (\<lambda>ma. ma_work ma \<noteq> []) a = 0 then a\<lparr>as_state := StateStarting\<rparr>
      else if as_cycles a \<noteq> [] then
        add_why (itoa (int (length (as_cycles a))) @ '' deadlock'' @ plural (int (length (as_cycles a))))
          (a\<lparr>as_state := StateStuck\<rparr>)
      else if count_members is_progressing a = 0 \<and>
              count_members is_finished a < int (length (as_members a)) then
        add_why ''nobody is progressing'' (a\<lparr>as_state := StateStuck\<rparr>)
      else (case f_goal f of
              None \<Rightarrow> add_why (''no fleet goal set '' @ [CHR 0xE2, CHR 0x80, CHR 0x94] @
                       '' `rysh fleet goal set '' @ f_name f @ '' --goal '' @ [CHR 0x27] @ ellipsis @ [CHR 0x27, CHR 0x60])
                       (a\<lparr>as_state := StateNoGoal\<rparr>)
            | Some g \<Rightarrow>
                if \<not> Goal_IsOpen (Some g) then
                  add_why (''no fleet goal set '' @ [CHR 0xE2, CHR 0x80, CHR 0x94] @
                       '' `rysh fleet goal set '' @ f_name f @ '' --goal '' @ [CHR 0x27] @ ellipsis @ [CHR 0x27, CHR 0x60])
                       (a\<lparr>as_state := StateNoGoal\<rparr>)
                else
                  let (off1, risk1, why1) = due_verdict clock g now a;
                      (off2, risk2, why2) = trouble_verdict a;
                      (risk3, why3) = bottleneck_verdict now a
                  in a\<lparr>as_why := as_why a @ why1 @ why2 @ why3,
                       as_state := (if off1 \<or> off2 then StateOffTrack
                                    else if risk1 \<or> risk2 \<or> risk3 then StateAtRisk else StateOnTrack)\<rparr>))"

section \<open>The assessment\<close>

definition assess_order :: "fleet \<Rightarrow> string list \<Rightarrow> string list" where
  "assess_order f rows = dedup (filter (\<lambda>i. memberOf f i \<noteq> None) rows @ map m_pane (f_members f))"

definition assess_member :: "input \<Rightarrow> memory \<Rightarrow> string \<Rightarrow> assessed list" where
  "assess_member i mem pane =
     (case memberOf (in_fleet i) pane of
        None \<Rightarrow> []
      | Some m \<Rightarrow>
          let f = in_fleet i; s = m_status m;
              fld = (\<lambda>g. case s of None \<Rightarrow> [] | Some st \<Rightarrow> g st);
              ma = \<lparr>ma_pane = m_pane m, ma_label = label_of m, ma_role = m_role m, ma_parent = m_parent m,
                    ma_primary = [], ma_conditions = [], ma_work = fld st_work, ma_task = fld st_task,
                    ma_activity = fld st_activity, ma_health = fld st_health,
                    ma_pct = (case s of None \<Rightarrow> None | Some st \<Rightarrow> st_pct st),
                    ma_eta_at = (case s of None \<Rightarrow> 0 | Some st \<Rightarrow> st_eta_at st), ma_goal = m_goal m,
                    ma_waiting = waiting_count f pane, ma_waiters = waiters_on f pane,
                    ma_blocked_by = (case s of None \<Rightarrow> [] | Some st \<Rightarrow> st_blocked_by st),
                    ma_open = (if in_board_ok i then fst (pressure i pane) else -1),
                    ma_recent = (if in_board_ok i then snd (pressure i pane) else -1),
                    ma_stress = 0, ma_stress_why = [], ma_stray_why = [], ma_finish = 0\<rparr>;
              (score, why) = stress ma s (in_now i);
              ma = ma\<lparr>ma_stress := score, ma_stress_why := why,
                      ma_stray_why := stray ma s f (samples_of (mem_samples mem) pane) (in_config i) (in_now i)\<rparr>;
              conds = conditions ma s
          in [ma\<lparr>ma_conditions := conds, ma_primary := (case conds of [] \<Rightarrow> [] | c # _ \<Rightarrow> c)\<rparr>])"

definition Assess :: "(int \<Rightarrow> string) \<Rightarrow> string list \<Rightarrow> (string \<times> int) option \<Rightarrow> input \<Rightarrow> memory \<Rightarrow> assessment" where
  "Assess clock rows bottleneck i mem =
     (let f = in_fleet i;
          bn = (case bottleneck of None \<Rightarrow> ([], 0)
                | Some b \<Rightarrow> if memberOf f (fst b) \<noteq> None then b else ([], 0));
          a = \<lparr>as_fleet = f_name f, as_board = f_board f, as_state = [], as_why = [], as_pct = -1,
               as_finish = 0, as_unknown = 0,
               as_due_at = (case f_goal f of None \<Rightarrow> 0 | Some g \<Rightarrow> g_due_at g),
               as_bottleneck = fst bn, as_bottleneck_waiting = snd bn,
               as_members = concat (map (assess_member i mem) (assess_order f rows)),
               as_cycles = deadlockCycles f, as_board_ok = in_board_ok i\<rparr>
      in fleetState clock (criticalPath a f (in_now i)) f (in_now i))"

end
