(* ===== verification/CriticalPath.thy ===== *)
theory CriticalPath
  imports GoalAssess
begin

text \<open>
  The critical path of a fleet (\<open>criticalPath\<close> in \<open>internal/fleetgoal/assess.go\<close>): the memoised search
  with its set of nodes being visited computes a solution of the equations the estimates are meant to
  satisfy, on every graph, rings included, and always returns.
\<close>

section \<open>The equations\<close>

fun blocked_start :: "fleet \<Rightarrow> (string \<Rightarrow> int) \<Rightarrow> string list \<Rightarrow> int \<Rightarrow> int" where
  "blocked_start f look [] start = start"
| "blocked_start f look (b # bs) start =
     (let fb = (if memberOf f b = None then unknown else look b)
      in if fb = unknown then unknown else blocked_start f look bs (max start fb))"

text \<open>When a member is done: now, its own estimate, or its blockers' finish plus its own duration.\<close>

definition finish_rule :: "fleet \<Rightarrow> int \<Rightarrow> (string \<Rightarrow> int) \<Rightarrow> member \<Rightarrow> int" where
  "finish_rule f now look m =
     (if Goal_IsMet (m_goal m) then now
      else case m_status m of
             None \<Rightarrow> unknown
           | Some st \<Rightarrow>
               if st_work st = WorkDone then now
               else if st_work st = WorkProgress \<and> 0 < st_eta_at st then max (st_eta_at st) now
               else if st_work st = WorkBlocked then
                 (let start = blocked_start f look (st_blocked_by st) now
                  in if start \<noteq> unknown \<and> 0 < st_eta_at st \<and> 0 < st_eta_set_at st
                     then start + (st_eta_at st - st_eta_set_at st) else unknown)
               else if st_work st = WorkIdle \<and> \<not> Goal_IsOpen (m_goal m) then now else unknown)"

definition look_in :: "(string \<times> int) list \<Rightarrow> string \<Rightarrow> int" where
  "look_in memo i = (case alist_get memo i of None \<Rightarrow> unknown | Some v \<Rightarrow> v)"

section \<open>The search always returns\<close>

lemma memberOf_Some: "memberOf f i = Some m \<Longrightarrow> m \<in> set (f_members f) \<and> m_pane m = i"
  by (auto simp: memberOf_def dest: find_Some_iff2)

definition room :: "fleet \<Rightarrow> string list \<Rightarrow> nat" where
  "room f visiting = card (m_pane ` set (f_members f) - set visiting)"

lemma room_Cons:
  assumes "memberOf f i \<noteq> None" and "i \<notin> set visiting"
  shows "Suc (room f (i # visiting)) = room f visiting"
proof -
  have "i \<in> m_pane ` set (f_members f) - set visiting" using assms memberOf_Some by fastforce
  moreover have "m_pane ` set (f_members f) - set (i # visiting) =
      (m_pane ` set (f_members f) - set visiting) - {i}" by auto
  ultimately show ?thesis unfolding room_def by (metis card_Suc_Diff1 finite_Diff finite_imageI finite_set)
qed

lemma finish_blockers_total:
  assumes "\<And>i memo. \<exists>r. finish k f now visiting memo i = Some r"
  shows "\<exists>r. finish_blockers k f now visiting memo bs start = Some r"
proof (induction bs arbitrary: memo start)
  case Nil
  show ?case by simp
next
  case (Cons b bs)
  obtain fb memo' where "(if memberOf f b = None then Some (unknown, memo) else finish k f now visiting memo b) =
      Some (fb, memo')"
    using assms [of memo b] by fastforce
  then show ?case using Cons [of memo' "max start fb"] by auto
qed

lemma finish_total: "room f visiting < k \<Longrightarrow> \<exists>r. finish k f now visiting memo i = Some r"
proof (induction k arbitrary: visiting memo i)
  case 0
  then show ?case by simp
next
  case (Suc k)
  show ?case
  proof (cases "alist_get memo i \<noteq> None \<or> memberOf f i = None \<or> i \<in> set visiting")
    case True
    then show ?thesis by (auto split: option.splits)
  next
    case False
    then have "room f (i # visiting) < k" using room_Cons [of f i visiting] Suc.prems by auto
    then have "\<exists>r. finish_blockers k f now (i # visiting) memo bs now = Some r" for bs
      by (intro finish_blockers_total Suc.IH)
    then have run: "finish_blockers k f now (i # visiting) memo bs now \<noteq> None" for bs
      by (metis option.distinct(1))
    obtain m where m: "memberOf f i = Some m" using False by auto
    show ?thesis
    proof (cases "m_status m")
      case None
      then show ?thesis using False m by simp
    next
      case (Some st)
      obtain s memo' where run': "finish_blockers k f now (i # visiting) memo (st_blocked_by st) now = Some (s, memo')"
        using run [of "st_blocked_by st"] by fastforce
      show ?thesis using False m Some by (simp add: Let_def run')
    qed
  qed
qed

lemma finish_fuel_enough: "\<exists>r. finish (finish_fuel f) f now [] memo i = Some r"
proof (rule finish_total)
  have "room f [] \<le> length (f_members f)"
    unfolding room_def by (metis Diff_empty card_image_le card_length finite_set le_trans list.set(1))
  then show "room f [] < finish_fuel f" by (simp add: finish_fuel_def)
qed

section \<open>What the search keeps\<close>

definition is_waiting :: "member \<Rightarrow> member_status \<Rightarrow> bool" where
  "is_waiting m st \<longleftrightarrow> \<not> Goal_IsMet (m_goal m) \<and> m_status m = Some st \<and> st_work st = WorkBlocked"

text \<open>A blocker whose finish is not known: outside the fleet, found unknown, or still being visited.\<close>

definition held_by :: "fleet \<Rightarrow> string set \<Rightarrow> (string \<times> int) list \<Rightarrow> string \<Rightarrow> bool" where
  "held_by f V memo b \<longleftrightarrow> memberOf f b = None \<or> alist_get memo b = Some unknown \<or> b \<in> V"

definition known :: "fleet \<Rightarrow> (string \<times> int) list \<Rightarrow> string \<Rightarrow> bool" where
  "known f memo b \<longleftrightarrow> memberOf f b \<noteq> None \<and> (\<exists>v. alist_get memo b = Some v \<and> v \<noteq> unknown)"

definition entry_ok :: "fleet \<Rightarrow> int \<Rightarrow> string set \<Rightarrow> (string \<times> int) list \<Rightarrow> member \<Rightarrow> int \<Rightarrow> bool" where
  "entry_ok f now V memo m v \<longleftrightarrow>
     (\<forall>st. is_waiting m st \<longrightarrow>
        (v = unknown \<and> (\<exists>b \<in> set (st_blocked_by st). held_by f V memo b)) \<or>
        (v = finish_rule f now (look_in memo) m \<and> (\<forall>b \<in> set (st_blocked_by st). known f memo b))) \<and>
     ((\<forall>st. \<not> is_waiting m st) \<longrightarrow> v = finish_rule f now (look_in memo) m)"

definition memo_ok :: "fleet \<Rightarrow> int \<Rightarrow> string set \<Rightarrow> (string \<times> int) list \<Rightarrow> bool" where
  "memo_ok f now V memo \<longleftrightarrow>
     (\<forall>i v. alist_get memo i = Some v \<longrightarrow> i \<notin> V \<and> (\<exists>m. memberOf f i = Some m \<and> entry_ok f now V memo m v))"

definition extends :: "(string \<times> int) list \<Rightarrow> (string \<times> int) list \<Rightarrow> bool" where
  "extends memo memo' \<longleftrightarrow> (\<forall>i v. alist_get memo i = Some v \<longrightarrow> alist_get memo' i = Some v)"

definition only_known :: "(string \<times> int) list \<Rightarrow> (string \<times> int) list \<Rightarrow> bool" where
  "only_known memo memo' \<longleftrightarrow> (\<forall>i. alist_get memo' i = Some unknown \<longrightarrow> alist_get memo i = Some unknown)"

lemma extends_refl [simp]: "extends memo memo" and only_known_refl [simp]: "only_known memo memo"
  by (simp_all add: extends_def only_known_def)

lemma extends_trans: "extends a b \<Longrightarrow> extends b c \<Longrightarrow> extends a c"
  by (simp add: extends_def)

lemma only_known_trans: "only_known a b \<Longrightarrow> only_known b c \<Longrightarrow> only_known a c"
  by (simp add: only_known_def)

lemma known_extends: "known f memo b \<Longrightarrow> extends memo memo' \<Longrightarrow> known f memo' b"
  by (auto simp: known_def extends_def)

lemma held_extends: "held_by f V memo b \<Longrightarrow> extends memo memo' \<Longrightarrow> held_by f V memo' b"
  by (auto simp: held_by_def extends_def)

lemma look_in_extends: "known f memo b \<Longrightarrow> extends memo memo' \<Longrightarrow> look_in memo' b = look_in memo b"
  by (auto simp: known_def extends_def look_in_def)

lemma blocked_start_cong:
  "(\<And>b. b \<in> set bs \<Longrightarrow> look' b = look b) \<Longrightarrow> blocked_start f look' bs s = blocked_start f look bs s"
  by (induction bs arbitrary: s) (auto simp: Let_def)

lemma finish_rule_cong:
  assumes "\<And>st b. is_waiting m st \<Longrightarrow> b \<in> set (st_blocked_by st) \<Longrightarrow> look' b = look b"
  shows "finish_rule f now look' m = finish_rule f now look m"
proof (cases "\<exists>st. is_waiting m st")
  case True
  then obtain st where st: "is_waiting m st" by blast
  then have "blocked_start f look' (st_blocked_by st) now = blocked_start f look (st_blocked_by st) now"
    using assms by (intro blocked_start_cong) blast
  then show ?thesis using st by (simp add: finish_rule_def is_waiting_def)
next
  case False
  then show ?thesis by (auto simp: finish_rule_def is_waiting_def split: option.splits)
qed

lemma entry_ok_extends:
  assumes "entry_ok f now V memo m v" and "extends memo memo'"
  shows "entry_ok f now V memo' m v"
proof -
  have "finish_rule f now (look_in memo') m = finish_rule f now (look_in memo) m"
    if "\<And>st. is_waiting m st \<Longrightarrow> \<forall>b \<in> set (st_blocked_by st). known f memo b"
    using that look_in_extends [OF _ assms(2)] by (intro finish_rule_cong) blast
  moreover have "is_waiting m st \<Longrightarrow> is_waiting m st' \<Longrightarrow> st = st'" for st st'
    by (simp add: is_waiting_def)
  ultimately show ?thesis
    using assms(1) known_extends [OF _ assms(2)] held_extends [OF _ assms(2)]
    unfolding entry_ok_def by metis
qed

text \<open>Finishing the visit of a node: the reasons that named it now name its entry.\<close>

lemma memo_ok_store:
  assumes "memo_ok f now (insert i V) memo" and "i \<notin> V" and "memberOf f i = Some m"
    and "entry_ok f now (insert i V) memo m v" and "v = unknown \<or> (memo_ok f now V memo \<and> entry_ok f now V memo m v)"
  shows "memo_ok f now V (AList.update i v memo)"
proof -
  let ?memo = "AList.update i v memo"
  have fresh: "alist_get memo i = None"
    using assms(1) unfolding memo_ok_def by (cases "alist_get memo i") auto
  have ext: "extends memo ?memo" using fresh by (auto simp: extends_def)
  have lift: "entry_ok f now V ?memo m' v'" if "entry_ok f now (insert i V) memo m' v'" "v = unknown" for m' v'
  proof -
    have "entry_ok f now (insert i V) ?memo m' v'" by (rule entry_ok_extends [OF that(1) ext])
    moreover have "held_by f (insert i V) ?memo b \<longleftrightarrow> held_by f V ?memo b" for b
      using that(2) by (auto simp: held_by_def)
    ultimately show ?thesis by (simp add: entry_ok_def)
  qed
  have lift': "entry_ok f now V ?memo m' v'" if "entry_ok f now V memo m' v'" for m' v'
    by (rule entry_ok_extends [OF that ext])
  show ?thesis
    unfolding memo_ok_def
  proof (intro allI impI)
    fix j u assume j: "alist_get ?memo j = Some u"
    show "j \<notin> V \<and> (\<exists>m. memberOf f j = Some m \<and> entry_ok f now V ?memo m u)"
    proof (cases "j = i")
      case True
      then show ?thesis using j assms(2-5) lift lift' by auto
    next
      case False
      then have "alist_get memo j = Some u" using j by simp
      then show ?thesis using assms(1,5) lift lift' unfolding memo_ok_def by (metis insert_iff)
    qed
  qed
qed

definition visit_post ::
  "fleet \<Rightarrow> int \<Rightarrow> string set \<Rightarrow> (string \<times> int) list \<Rightarrow> string \<Rightarrow> int \<Rightarrow> (string \<times> int) list \<Rightarrow> bool" where
  "visit_post f now V memo i v memo' \<longleftrightarrow> extends memo memo' \<and> memo_ok f now V memo' \<and>
     (v \<noteq> unknown \<longrightarrow> only_known memo memo') \<and>
     (if memberOf f i = None \<or> i \<in> V then v = unknown \<or> alist_get memo' i = Some v else alist_get memo' i = Some v)"

lemma finish_blockers_post:
  assumes visit: "\<And>memo i v memo'. finish k f now visiting memo i = Some (v, memo') \<Longrightarrow>
      memo_ok f now V memo \<Longrightarrow> visit_post f now V memo i v memo'"
    and "0 \<le> now"
  shows "finish_blockers k f now visiting memo bs start = Some (s, memo') \<Longrightarrow> memo_ok f now V memo \<Longrightarrow>
    0 \<le> start \<Longrightarrow>
    extends memo memo' \<and> memo_ok f now V memo' \<and>
    (if s = unknown then \<exists>b \<in> set bs. held_by f V memo' b
     else only_known memo memo' \<and> (\<forall>b \<in> set bs. known f memo' b) \<and>
          s = blocked_start f (look_in memo') bs start)"
proof (induction bs arbitrary: memo start)
  case Nil
  then show ?case by (simp add: unknown_def)
next
  case (Cons b bs)
  from Cons.prems(1) obtain fb memo1 where
    fb: "(if memberOf f b = None then Some (unknown, memo) else finish k f now visiting memo b) = Some (fb, memo1)"
    and rest: "(if fb = unknown then Some (unknown, memo1)
                else finish_blockers k f now visiting memo1 bs (max start fb)) = Some (s, memo')"
    by (auto split: option.splits prod.splits)
  have one: "extends memo memo1 \<and> memo_ok f now V memo1 \<and> (fb \<noteq> unknown \<longrightarrow> only_known memo memo1) \<and>
      (if fb = unknown then held_by f V memo1 b else memberOf f b \<noteq> None \<and> alist_get memo1 b = Some fb)"
  proof (cases "memberOf f b = None")
    case True
    then show ?thesis using fb Cons.prems(2) by (auto simp: held_by_def)
  next
    case False
    then have "finish k f now visiting memo b = Some (fb, memo1)" using fb by (simp only: if_False)
    then have "visit_post f now V memo b fb memo1" using visit Cons.prems(2) by blast
    then show ?thesis using False by (auto simp: visit_post_def held_by_def split: if_splits)
  qed
  show ?case
  proof (cases "fb = unknown")
    case True
    then show ?thesis using rest one by auto
  next
    case False
    then have "finish_blockers k f now visiting memo1 bs (max start fb) = Some (s, memo')"
      using rest by simp
    note ih = Cons.IH [OF this] 
    have ih: "extends memo1 memo' \<and> memo_ok f now V memo' \<and>
      (if s = unknown then \<exists>b \<in> set bs. held_by f V memo' b
       else only_known memo1 memo' \<and> (\<forall>b \<in> set bs. known f memo' b) \<and>
            s = blocked_start f (look_in memo') bs (max start fb))"
      using ih one Cons.prems(3) by simp
    have b: "memberOf f b \<noteq> None" "alist_get memo' b = Some fb"
      using one ih False by (auto simp: extends_def)
    then have "look_in memo' b = fb" "known f memo' b"
      using False by (simp_all add: look_in_def known_def)
    then show ?thesis
      using ih one False b extends_trans [of memo memo1 memo'] only_known_trans [of memo memo1 memo']
      by (auto split: if_splits)
  qed
qed

lemma entry_ok_plain:
  "(\<And>st. \<not> is_waiting m st) \<Longrightarrow> v = finish_rule f now look m \<Longrightarrow> entry_ok f now V memo m v"
  unfolding entry_ok_def using finish_rule_cong [of m "look_in memo" look f now] by metis

lemma memo_ok_insert_plain:
  assumes "memo_ok f now V memo" and "i \<notin> V" and "alist_get memo i = None" and "memberOf f i = Some m"
    and "entry_ok f now V memo m v"
  shows "memo_ok f now V (AList.update i v memo)"
proof -
  have ext: "extends memo (AList.update i v memo)" using assms(3) by (auto simp: extends_def)
  show ?thesis
    unfolding memo_ok_def
  proof (intro allI impI)
    fix j u assume j: "alist_get (AList.update i v memo) j = Some u"
    show "j \<notin> V \<and> (\<exists>m. memberOf f j = Some m \<and> entry_ok f now V (AList.update i v memo) m u)"
    proof (cases "j = i")
      case True
      then show ?thesis using j assms(2,4,5) entry_ok_extends [OF _ ext] by simp
    next
      case False
      then have "alist_get memo j = Some u" using j by simp
      then show ?thesis using assms(1) entry_ok_extends [OF _ ext] unfolding memo_ok_def by blast
    qed
  qed
qed

lemma entry_ok_mono: "entry_ok f now V memo m v \<Longrightarrow> entry_ok f now (insert i V) memo m v"
proof -
  assume e: "entry_ok f now V memo m v"
  have "held_by f V memo b \<Longrightarrow> held_by f (insert i V) memo b" for b by (auto simp: held_by_def)
  then show ?thesis using e unfolding entry_ok_def by blast
qed

lemma memo_ok_enter:
  assumes "memo_ok f now V memo" and "alist_get memo i = None"
  shows "memo_ok f now (insert i V) memo"
  unfolding memo_ok_def
proof (intro allI impI)
  fix j u assume j: "alist_get memo j = Some u"
  then have "j \<noteq> i" using assms(2) by auto
  then show "j \<notin> insert i V \<and> (\<exists>m. memberOf f j = Some m \<and> entry_ok f now (insert i V) memo m u)"
    using assms(1) j entry_ok_mono unfolding memo_ok_def by (metis insert_iff)
qed

lemma memo_ok_leave:
  assumes "memo_ok f now (insert i V) memo'" and "memo_ok f now V memo" and "extends memo memo'"
    and "only_known memo memo'"
  shows "memo_ok f now V memo'"
  unfolding memo_ok_def
proof (intro allI impI)
  fix j u assume j: "alist_get memo' j = Some u"
  obtain m where m: "memberOf f j = Some m" "entry_ok f now (insert i V) memo' m u" "j \<notin> V"
    using assms(1) j unfolding memo_ok_def by blast
  have "entry_ok f now V memo' m u"
  proof (cases "u = unknown")
    case True
    then have "alist_get memo j = Some unknown" using assms(4) j by (simp add: only_known_def)
    then have "entry_ok f now V memo m u" using assms(2) m(1) True unfolding memo_ok_def by force
    then show ?thesis using assms(3) by (rule entry_ok_extends)
  next
    case False
    then show ?thesis using m(2) unfolding entry_ok_def by blast
  qed
  then show "j \<notin> V \<and> (\<exists>m. memberOf f j = Some m \<and> entry_ok f now V memo' m u)" using m by blast
qed

lemma only_known_update:
  "v \<noteq> unknown \<Longrightarrow> only_known memo memo' \<Longrightarrow> only_known memo (AList.update i v memo')"
  by (auto simp: only_known_def)

lemma extends_update: "extends memo memo' \<Longrightarrow> alist_get memo i = None \<Longrightarrow> extends memo (AList.update i v memo')"
  by (auto simp: extends_def)

text \<open>A visit that stores a value not depending on other members.\<close>

lemma visit_plain:
  assumes "memo_ok f now (set visiting) memo" and "i \<notin> set visiting" and "alist_get memo i = None"
    and "memberOf f i = Some m" and "\<And>st. \<not> is_waiting m st" and "v = finish_rule f now look m"
  shows "visit_post f now (set visiting) memo i v (AList.update i v memo)"
  using memo_ok_insert_plain [OF assms(1-4) entry_ok_plain [OF assms(5,6)]] assms(2-4)
  by (auto simp: visit_post_def extends_def only_known_def)

text \<open>A visit that waits for the visits of its blockers.\<close>

lemma visit_waiting:
  assumes ok: "memo_ok f now (set visiting) memo" and new: "i \<notin> set visiting" "alist_get memo i = None"
    and m: "memberOf f i = Some m" "is_waiting m st" and "0 \<le> now"
    and blockers: "extends memo memo' \<and> memo_ok f now (insert i (set visiting)) memo' \<and>
      (if s = unknown then \<exists>b \<in> set (st_blocked_by st). held_by f (insert i (set visiting)) memo' b
       else only_known memo memo' \<and> (\<forall>b \<in> set (st_blocked_by st). known f memo' b) \<and>
            s = blocked_start f (look_in memo') (st_blocked_by st) now)"
    and v: "v = (if s \<noteq> unknown \<and> 0 < st_eta_at st \<and> 0 < st_eta_set_at st
                 then s + (st_eta_at st - st_eta_set_at st) else unknown)"
  shows "visit_post f now (set visiting) memo i v (AList.update i v memo')"
proof -
  have one: "is_waiting m st' \<Longrightarrow> st' = st" for st' using m(2) by (simp add: is_waiting_def)
  have rule: "s \<noteq> unknown \<Longrightarrow> v = finish_rule f now (look_in memo') m"
    using blockers m(2) v by (simp add: finish_rule_def is_waiting_def)
  have entry: "entry_ok f now (insert i (set visiting)) memo' m v"
  proof (cases "s = unknown")
    case True
    then have "v = unknown" "\<exists>b \<in> set (st_blocked_by st). held_by f (insert i (set visiting)) memo' b"
      using blockers v by simp_all
    then show ?thesis unfolding entry_ok_def using one m(2) by blast
  next
    case False
    then have "v = finish_rule f now (look_in memo') m" "\<forall>b \<in> set (st_blocked_by st). known f memo' b"
      using blockers rule by simp_all
    then show ?thesis unfolding entry_ok_def using one m(2) by blast
  qed
  have stored: "memo_ok f now (set visiting) (AList.update i v memo')"
  proof (rule memo_ok_store [OF _ new(1) m(1) entry])
    show "memo_ok f now (insert i (set visiting)) memo'" using blockers by blast
    show "v = unknown \<or> memo_ok f now (set visiting) memo' \<and> entry_ok f now (set visiting) memo' m v"
    proof (cases "s = unknown")
      case True
      then show ?thesis using v by simp
    next
      case False
      then have "memo_ok f now (set visiting) memo'"
        using memo_ok_leave [of f now i "set visiting" memo' memo] blockers ok by simp
      moreover have "entry_ok f now (set visiting) memo' m v"
      proof -
        have "v = finish_rule f now (look_in memo') m" "\<forall>b \<in> set (st_blocked_by st). known f memo' b"
          using blockers rule False by simp_all
        then show ?thesis unfolding entry_ok_def using one m(2) by blast
      qed
      ultimately show ?thesis by blast
    qed
  qed
  have "v \<noteq> unknown \<Longrightarrow> s \<noteq> unknown" using v by auto
  then have "v \<noteq> unknown \<Longrightarrow> only_known memo (AList.update i v memo')"
    using blockers by (simp add: only_known_update)
  moreover have "extends memo (AList.update i v memo')" using blockers new(2) by (simp add: extends_update)
  ultimately show ?thesis using stored m(1) new(1) by (simp add: visit_post_def)
qed

lemma finish_post:
  assumes "0 \<le> now"
  shows "finish k f now visiting memo i = Some (v, memo') \<Longrightarrow> memo_ok f now (set visiting) memo \<Longrightarrow>
    visit_post f now (set visiting) memo i v memo'"
proof (induction k arbitrary: visiting memo i v memo')
  case 0
  then show ?case by simp
next
  case (Suc k)
  show ?case
  proof (cases "alist_get memo i = None \<and> memberOf f i \<noteq> None \<and> i \<notin> set visiting")
    case False
    then show ?thesis
      using Suc.prems by (auto simp: visit_post_def split: option.splits if_splits)
  next
    case True
    then obtain m where m: "memberOf f i = Some m" and new: "alist_get memo i = None" "i \<notin> set visiting" by auto
    show ?thesis
    proof (cases "\<exists>st. is_waiting m st")
      case False
      have "v = finish_rule f now (\<lambda>_. 0) m \<and> memo' = AList.update i v memo"
        using Suc.prems(1) m new False
        by (cases "m_status m") (auto simp: finish_rule_def is_waiting_def split: if_splits)
      then show ?thesis using visit_plain [OF Suc.prems(2) new(2,1) m] False by metis
    next
      case True
      then obtain st where st: "is_waiting m st" by blast
      then obtain s memo1 where run: "finish_blockers k f now (i # visiting) memo (st_blocked_by st) now = Some (s, memo1)"
        and v: "v = (if s \<noteq> unknown \<and> 0 < st_eta_at st \<and> 0 < st_eta_set_at st
                 then s + (st_eta_at st - st_eta_set_at st) else unknown)" "memo' = AList.update i v memo1"
        using Suc.prems(1) m new by (auto simp: is_waiting_def Let_def split: option.splits)
      have enter: "memo_ok f now (insert i (set visiting)) memo"
        by (rule memo_ok_enter [OF Suc.prems(2) new(1)])
      have "extends memo memo1 \<and> memo_ok f now (insert i (set visiting)) memo1 \<and>
        (if s = unknown then \<exists>b \<in> set (st_blocked_by st). held_by f (insert i (set visiting)) memo1 b
         else only_known memo memo1 \<and> (\<forall>b \<in> set (st_blocked_by st). known f memo1 b) \<and>
              s = blocked_start f (look_in memo1) (st_blocked_by st) now)"
        using finish_blockers_post [OF _ assms run, of "insert i (set visiting)"] Suc.IH [of "i # visiting"]
          enter assms by simp
      then show ?thesis
        unfolding v(2) by (rule visit_waiting [OF Suc.prems(2) new(2,1) m st assms _ v(1)])
    qed
  qed
qed

section \<open>The assessment's estimates\<close>

fun finish_all :: "fleet \<Rightarrow> int \<Rightarrow> (string \<times> int) list \<Rightarrow> string list \<Rightarrow> (string \<times> int) list" where
  "finish_all f now memo [] = memo"
| "finish_all f now memo (i # ids) =
     (case finish (finish_fuel f) f now [] memo i of None \<Rightarrow> memo | Some (v, memo') \<Rightarrow> finish_all f now memo' ids)"

lemma finish_all_ok:
  assumes "0 \<le> now"
  shows "memo_ok f now {} memo \<Longrightarrow> \<forall>i \<in> set ids. memberOf f i \<noteq> None \<Longrightarrow>
    extends memo (finish_all f now memo ids) \<and> memo_ok f now {} (finish_all f now memo ids) \<and>
    (\<forall>i \<in> set ids. alist_get (finish_all f now memo ids) i \<noteq> None)"
proof (induction ids arbitrary: memo)
  case Nil
  then show ?case by simp
next
  case (Cons i ids)
  obtain v memo' where run: "finish (finish_fuel f) f now [] memo i = Some (v, memo')"
    using finish_fuel_enough [of f now memo i] by auto
  have "visit_post f now {} memo i v memo'" using finish_post [OF assms run] Cons.prems(1) by simp
  then have post: "extends memo memo'" "memo_ok f now {} memo'" "alist_get memo' i = Some v"
    using Cons.prems(2) by (auto simp: visit_post_def split: if_splits)
  then show ?case
    using Cons.IH [OF post(2)] Cons.prems(2) run extends_trans [OF post(1)]
    by (auto simp: extends_def)
qed

lemma memo_ok_solution:
  assumes "memo_ok f now {} memo" and "alist_get memo i = Some v" and "memberOf f i = Some m"
  shows "v = finish_rule f now (look_in memo) m"
proof -
  have entry: "entry_ok f now {} memo m v" using assms unfolding memo_ok_def by (metis option.inject)
  show ?thesis
  proof (cases "\<exists>st. is_waiting m st")
    case False
    then show ?thesis using entry by (auto simp: entry_ok_def)
  next
    case True
    then obtain st where st: "is_waiting m st" by blast
    show ?thesis
    proof (cases "\<exists>b \<in> set (st_blocked_by st). held_by f {} memo b")
      case False
      then show ?thesis using entry st by (auto simp: entry_ok_def)
    next
      case True
      then obtain b where b: "b \<in> set (st_blocked_by st)" "held_by f {} memo b" by blast
      have "blocked_start f (look_in memo) bs s = unknown" if "b \<in> set bs" for bs s
        using that b(2) by (induction bs arbitrary: s) (auto simp: held_by_def look_in_def Let_def)
      then have "finish_rule f now (look_in memo) m = unknown"
        using st b(1) by (simp add: finish_rule_def is_waiting_def)
      moreover have "\<not> known f memo b" using b(2) by (auto simp: held_by_def known_def)
      then have "v = unknown" using entry st b(1) by (auto simp: entry_ok_def)
      ultimately show ?thesis by simp
    qed
  qed
qed

lemma path_members_estimate:
  assumes "0 \<le> now" and "memo_ok f now {} memo" and "\<forall>ma \<in> set (m # mas). memberOf f (ma_pane ma) \<noteq> None"
    and "finish (finish_fuel f) f now [] memo (ma_pane m) = Some (v, memo')"
  shows "memo_ok f now {} memo'" and "look_in (finish_all f now memo' (map ma_pane mas)) (ma_pane m) = v"
proof -
  have "visit_post f now {} memo (ma_pane m) v memo'"
    using finish_post [OF assms(1,4)] assms(2) by simp
  then have post: "memo_ok f now {} memo'" "alist_get memo' (ma_pane m) = Some v"
    using assms(3) by (auto simp: visit_post_def split: if_splits)
  then have "alist_get (finish_all f now memo' (map ma_pane mas)) (ma_pane m) = Some v"
    using finish_all_ok [OF assms(1) post(1), of "map ma_pane mas"] assms(3) by (auto simp: extends_def)
  then show "look_in (finish_all f now memo' (map ma_pane mas)) (ma_pane m) = v" by (simp add: look_in_def)
  show "memo_ok f now {} memo'" by (rule post)
qed

definition shown :: "(string \<Rightarrow> int) \<Rightarrow> assessed \<Rightarrow> assessed" where
  "shown look ma = ma\<lparr>ma_finish := (if look (ma_pane ma) = unknown then 0 else look (ma_pane ma))\<rparr>"

definition not_known :: "(string \<Rightarrow> int) \<Rightarrow> assessed \<Rightarrow> bool" where
  "not_known look ma \<longleftrightarrow> look (ma_pane ma) = unknown \<and> \<not> Has ma CondMet"

lemma path_members_finishes:
  assumes "0 \<le> now"
  shows "memo_ok f now {} memo \<Longrightarrow> \<forall>ma \<in> set mas. memberOf f (ma_pane ma) \<noteq> None \<Longrightarrow>
    as_members (path_members f now memo a mas) =
      as_members a @ map (shown (look_in (finish_all f now memo (map ma_pane mas)))) mas \<and>
    as_unknown (path_members f now memo a mas) =
      as_unknown a + int (length (filter (not_known (look_in (finish_all f now memo (map ma_pane mas)))) mas))"
proof (induction mas arbitrary: memo a)
  case Nil
  then show ?case by simp
next
  case (Cons ma mas)
  obtain v memo' where run: "finish (finish_fuel f) f now [] memo (ma_pane ma) = Some (v, memo')"
    using finish_fuel_enough [of f now memo "ma_pane ma"] by auto
  note est = path_members_estimate [OF assms Cons.prems run]
  show ?case
    using Cons.IH [OF est(1)] est(2) Cons.prems(2) run by (simp add: Let_def shown_def not_known_def)
qed

text \<open>The fleet's finish is the latest of its members'.\<close>

lemma foldl_max_start: "(s::int) \<le> foldl max s xs"
  by (induction xs arbitrary: s) (auto intro: order_trans [OF max.cobounded1])

lemma path_members_latest:
  "as_finish a = foldl max 0 (map ma_finish (as_members a)) \<Longrightarrow>
   as_finish (path_members f now memo a mas) = foldl max 0 (map ma_finish (as_members (path_members f now memo a mas)))"
proof (induction mas arbitrary: memo a)
  case Nil
  then show ?case by simp
next
  case (Cons ma mas)
  have "0 \<le> as_finish a" using Cons.prems foldl_max_start [of 0] by simp
  then show ?case
    using Cons by (auto simp: Let_def split: option.split prod.split)
qed

lemma memo_ok_Nil [simp]: "memo_ok f now V []"
  by (simp add: memo_ok_def alist_get_def)

end
