(* ===== verification/GoalPlan.thy ===== *)
theory GoalPlan
  imports GoalAssess
begin

text \<open>
  The plan of the goal executor (\<open>internal/fleetgoal/plan.go\<close>): the directives a verdict calls for, the
  ladder and the budget that thin them, the actions on the fleet's own state, the adaptive cadence
  and when a report is due.

  The wording of the directives and of the report is not modelled; which directive goes to whom, with
  which fingerprint, at which level and whether it asks for an answer is. An alert is the value its
  text is made of. The maps of the memory are association lists.
\<close>

section \<open>State\<close>

abbreviation KindSequence :: string where "KindSequence \<equiv> ''SEQUENCE''"
abbreviation KindHurry :: string where "KindHurry \<equiv> ''HURRY''"
abbreviation KindWait :: string where "KindWait \<equiv> ''WAIT''"
abbreviation KindShield :: string where "KindShield \<equiv> ''SHIELD''"
abbreviation KindRealign :: string where "KindRealign \<equiv> ''REALIGN''"
abbreviation KindPull :: string where "KindPull \<equiv> ''PULL''"
abbreviation KindRisk :: string where "KindRisk \<equiv> ''RISK''"
abbreviation KindConfirm :: string where "KindConfirm \<equiv> ''CONFIRM''"

definition kindPriority :: "string \<Rightarrow> nat" where
  "kindPriority k = (if k = KindHurry then 1 else if k = KindShield then 2 else if k = KindRealign then 3
     else if k = KindWait then 4 else if k = KindPull then 5 else if k = KindRisk then 6
     else if k = KindConfirm then 7 else 0)"

abbreviation MaxPerHour :: nat where "MaxPerHour \<equiv> 4"
abbreviation MaxPerHourStressed :: nat where "MaxPerHourStressed \<equiv> 1"
abbreviation LadderTop :: int where "LadderTop \<equiv> 3"

record candidate =
  cd_kind :: string
  cd_about :: string
  cd_to :: string
  cd_fp :: string
  cd_ask :: bool
  cd_alert :: string
  cd_escalates :: string
  cd_once :: bool

record action =
  ac_kind :: string
  ac_to :: string
  ac_label :: string
  ac_about :: string
  ac_ask :: bool
  ac_level :: int
  ac_key :: string

datatype alert = Waits string | Escalated string string

record plan =
  pl_actions :: "action list"
  pl_alerts :: "alert list"
  pl_report :: bool
  pl_next_sec :: int
  pl_held :: int

definition empty_memory :: memory where
  "empty_memory = \<lparr>mem_samples = [], mem_ladder = [], mem_sent = [], mem_cycles = 0, mem_last_state = [],
     mem_last_report = [], mem_last_report_at = 0, mem_interval_sec = 0\<rparr>"

definition ladderKey :: "candidate \<Rightarrow> string" where
  "ladderKey c = cd_kind c @ ''|'' @ cd_about c @ ''|'' @ cd_to c"

definition headsOf :: "fleet \<Rightarrow> string list" where
  "headsOf f = map m_pane (filter (\<lambda>m. m_parent m = [] \<or> memberOf f (m_parent m) = None) (f_members f))"

definition workSince :: "fleet \<Rightarrow> string \<Rightarrow> int" where
  "workSince f i = (case memberOf f i of None \<Rightarrow> 0
     | Some m \<Rightarrow> (case m_status m of None \<Rightarrow> 0 | Some st \<Rightarrow> st_work_since st))"

definition signal_name :: "string \<Rightarrow> string list" where
  "signal_name w =
     (if has_prefix w ''working on'' then [''not-converging'']
      else if has_prefix w ''switched task'' then [''wandering'']
      else if has_prefix w ''working on screen'' then [''undeclared'']
      else if contains_sub w ''past its own ETA'' then [''overrun''] else [])"

definition signalNames :: "string list \<Rightarrow> string list" where
  "signalNames why = concat (map signal_name why)"

section \<open>Candidates\<close>

definition waiting_of :: "assessment \<Rightarrow> string \<Rightarrow> int" where
  "waiting_of a i = (case assessed_member a i of None \<Rightarrow> 0 | Some m \<Rightarrow> ma_waiting m)"

text \<open>The breaker of a ring: the most waited-on member, the longest in its work among equals.\<close>

definition better_breaker :: "assessment \<Rightarrow> fleet \<Rightarrow> string \<Rightarrow> string \<Rightarrow> string" where
  "better_breaker a f i breaker =
     (if assessed_member a i = None \<or> assessed_member a breaker = None then breaker
      else if waiting_of a breaker < waiting_of a i \<or>
              (waiting_of a i = waiting_of a breaker \<and> workSince f i < workSince f breaker) then i
      else breaker)"

definition breaker_of :: "assessment \<Rightarrow> fleet \<Rightarrow> string list \<Rightarrow> string" where
  "breaker_of a f ring = fold (better_breaker a f) (tl ring) (hd ring)"

definition sequence_candidates :: "assessment \<Rightarrow> fleet \<Rightarrow> string list \<Rightarrow> candidate list" where
  "sequence_candidates a f ring =
     (let breaker = breaker_of a f ring; fp = join_with '','' (sort ring)
      in map (\<lambda>i. \<lparr>cd_kind = KindSequence, cd_about = i, cd_to = i, cd_fp = fp @ ''|'' @ breaker,
                   cd_ask = (i = breaker), cd_alert = [], cd_escalates = [], cd_once = False\<rparr>) ring)"

definition hurry_candidates :: "int \<Rightarrow> assessed \<Rightarrow> candidate list" where
  "hurry_candidates now ma =
     (if 1 \<le> ma_waiting ma \<and> ma_work ma \<noteq> WorkDone \<and> ma_work ma \<noteq> WorkBlocked \<and>
         \<not> Has ma CondStressed \<and> (ma_eta_at ma = 0 \<or> ma_eta_at ma < now)
      then [\<lparr>cd_kind = KindHurry, cd_about = ma_pane ma, cd_to = ma_pane ma,
             cd_fp = (if 0 < ma_eta_at ma then ''overdue:'' @ itoa (ma_eta_at ma) else ''no-eta''),
             cd_ask = True, cd_alert = [], cd_escalates = [], cd_once = False\<rparr>]
      else [])"

definition shield_candidates :: "fleet \<Rightarrow> assessed \<Rightarrow> candidate list" where
  "shield_candidates f ma =
     (if \<not> Has ma CondStressed then []
      else [\<lparr>cd_kind = KindShield, cd_about = ma_pane ma, cd_to = ma_pane ma, cd_fp = ''stressed'',
             cd_ask = False, cd_alert = [], cd_escalates = [], cd_once = True\<rparr>] @
           (if ma_parent ma \<noteq> [] \<and> memberOf f (ma_parent ma) \<noteq> None
            then [\<lparr>cd_kind = KindShield, cd_about = ma_pane ma, cd_to = ma_parent ma, cd_fp = ''stressed-parent'',
                   cd_ask = False, cd_alert = [], cd_escalates = ''parent'', cd_once = False\<rparr>]
            else []))"

definition realign_candidates :: "assessed \<Rightarrow> candidate list" where
  "realign_candidates ma =
     (if Has ma CondStrayed
      then [\<lparr>cd_kind = KindRealign, cd_about = ma_pane ma, cd_to = ma_pane ma,
             cd_fp = join_with '','' (sort (signalNames (ma_stray_why ma))) @ ''|'' @ ma_task ma,
             cd_ask = True, cd_alert = [], cd_escalates = [], cd_once = False\<rparr>]
      else [])"

definition dash :: "string \<Rightarrow> string" where
  "dash s = (if is_blank s then ''-'' else s)"

text \<open>The part of the fingerprint a blocker adds, and whether it is still pending.\<close>

definition blocker_fp :: "assessment \<Rightarrow> string \<Rightarrow> string" where
  "blocker_fp a b =
     (case assessed_member a b of
        None \<Rightarrow> b
      | Some bm \<Rightarrow>
          b @ '':'' @ ma_work bm @ '':'' @
          (if ma_work bm = WorkDone then ''done''
           else if 0 < ma_eta_at bm then itoa (go_div (ma_eta_at bm) 300000) else ''none''))"

definition is_pending :: "assessment \<Rightarrow> string \<Rightarrow> bool" where
  "is_pending a b = (case assessed_member a b of None \<Rightarrow> False | Some bm \<Rightarrow> ma_work bm \<noteq> WorkDone)"

definition wait_candidates :: "assessment \<Rightarrow> assessed \<Rightarrow> candidate list" where
  "wait_candidates a ma =
     (if ma_work ma \<noteq> WorkBlocked then []
      else
        let outside = filter (\<lambda>b. assessed_member a b = None) (ma_blocked_by ma);
            told = (if list_ex (is_pending a) (ma_blocked_by ma) \<and> \<not> Has ma CondUnblocked
                    then [\<lparr>cd_kind = KindWait, cd_about = ma_pane ma, cd_to = ma_pane ma,
                           cd_fp = join_with '';'' (map (blocker_fp a) (ma_blocked_by ma)),
                           cd_ask = False, cd_alert = [], cd_escalates = [], cd_once = True\<rparr>]
                    else []);
            alert = ma_label ma @ '' is waiting on '' @ join_with '', '' outside @ '' (task: '' @
                    dash (ma_task ma) @ '').''
        in told @
           (if outside \<noteq> []
            then [\<lparr>cd_kind = KindWait, cd_about = ma_pane ma, cd_to = [],
                   cd_fp = ''outside:'' @ join_with '','' outside,
                   cd_ask = False, cd_alert = alert, cd_escalates = [], cd_once = False\<rparr>]
            else []))"

definition pull_candidates :: "fleet \<Rightarrow> int \<Rightarrow> int \<Rightarrow> assessed \<Rightarrow> candidate list" where
  "pull_candidates f now gap ma =
     (if \<not> (Has ma CondIdle \<and> (Goal_IsOpen (f_goal f) \<or> Goal_IsOpen (ma_goal ma)) \<and> ma_primary ma = CondIdle)
      then []
      else if (case memberOf f (ma_pane ma) of None \<Rightarrow> False
               | Some m \<Rightarrow> (case m_status m of None \<Rightarrow> False
                  | Some st \<Rightarrow> now - st_work_since st < gap \<or>
                               (0 < st_health_since st \<and> now - st_health_since st < gap))) then []
      else
        let to = (if ma_parent ma = [] \<or> memberOf f (ma_parent ma) = None
                  then (case headsOf f of [] \<Rightarrow> [] | h # _ \<Rightarrow> if h \<noteq> ma_pane ma then h else [])
                  else ma_parent ma)
        in if to = [] then []
           else [\<lparr>cd_kind = KindPull, cd_about = ma_pane ma, cd_to = to, cd_fp = ''idle'',
                  cd_ask = False, cd_alert = [], cd_escalates = ''parent'', cd_once = False\<rparr>])"

definition member_candidates :: "assessment \<Rightarrow> fleet \<Rightarrow> int \<Rightarrow> int \<Rightarrow> assessed \<Rightarrow> candidate list" where
  "member_candidates a f now gap ma =
     (if ma_pane ma \<in> set (concat (as_cycles a)) \<or> Has ma CondMet then []
      else hurry_candidates now ma @ shield_candidates f ma @ realign_candidates ma @
           wait_candidates a ma @ pull_candidates f now gap ma)"

definition candidates :: "assessment \<Rightarrow> fleet \<Rightarrow> int \<Rightarrow> goal_exec \<Rightarrow> candidate list" where
  "candidates a f now cfg =
     concat (map (sequence_candidates a f) (as_cycles a)) @
     concat (map (member_candidates a f now (ge_min_sec cfg * 1000)) (as_members a))"

definition order_candidates :: "assessment \<Rightarrow> candidate list \<Rightarrow> candidate list" where
  "order_candidates a cs =
     sort_key (\<lambda>c. kindPriority (cd_kind c)) (sort_key (\<lambda>c. - waiting_of a (cd_about c)) cs)"

section \<open>Ladder and budget\<close>

definition next_level :: "(string \<times> rung) list \<Rightarrow> int \<Rightarrow> int \<Rightarrow> candidate \<Rightarrow> int option" where
  "next_level ladder now gap c =
     (case alist_get ladder (ladderKey c) of
        None \<Rightarrow> Some 1
      | Some r \<Rightarrow>
          if rg_fingerprint r \<noteq> cd_fp c then Some 1
          else if \<not> cd_once c \<and> rg_level r < LadderTop \<and> 2 * gap \<le> now - rg_sent_at r
          then Some (rg_level r + 1) else None)"

definition deconflict :: "fleet \<Rightarrow> candidate \<Rightarrow> int \<Rightarrow> int \<Rightarrow> bool" where
  "deconflict f c now gap =
     (if cd_kind c = KindSequence \<or> cd_kind c = KindPull \<or> cd_escalates c = ''parent'' then False
      else case memberOf f (cd_to c) of
             None \<Rightarrow> False
           | Some m \<Rightarrow> (case m_status m of None \<Rightarrow> False
               | Some st \<Rightarrow> 0 < st_checkin_at st \<and> now - st_checkin_at st < gap))"

definition recipients :: "assessment \<Rightarrow> fleet \<Rightarrow> candidate \<Rightarrow> int \<Rightarrow> string list" where
  "recipients a f c level =
     (let ab = assessed_member a (cd_about c);
          parent = (case ab of None \<Rightarrow> [] | Some m \<Rightarrow> ma_parent m);
          base = (if cd_to c \<noteq> [] then [cd_to c] else []);
          up = (if 2 \<le> level \<and> parent \<noteq> [] \<and> memberOf f parent \<noteq> None \<and> parent \<noteq> cd_to c \<and>
                   cd_escalates c \<noteq> ''parent'' then [parent] else []);
          top = (if 3 \<le> level
                 then filter (\<lambda>h. h \<noteq> cd_to c \<and> (ab = None \<or> h \<noteq> parent \<or> cd_escalates c = ''parent'')) (headsOf f)
                 else [])
      in fold (\<lambda>h rs. append_unique rs h) top (base @ up))"

definition sent_to :: "memory \<Rightarrow> string \<Rightarrow> int list" where
  "sent_to mem to = (case alist_get (mem_sent mem) to of None \<Rightarrow> [] | Some ts \<Rightarrow> ts)"

definition prune_sent :: "string \<Rightarrow> int \<Rightarrow> memory \<Rightarrow> memory" where
  "prune_sent to now mem =
     mem\<lparr>mem_sent := AList.update to (filter (\<lambda>t. now - 3600000 \<le> t) (sent_to mem to)) (mem_sent mem)\<rparr>"

definition sentInHour :: "memory \<Rightarrow> string \<Rightarrow> int \<Rightarrow> nat" where
  "sentInHour mem to now = length (filter (\<lambda>t. now - 3600000 \<le> t) (sent_to mem to))"

definition budget_limit :: "assessment \<Rightarrow> candidate \<Rightarrow> string \<Rightarrow> nat" where
  "budget_limit a c to =
     (case assessed_member a to of
        None \<Rightarrow> MaxPerHour
      | Some m \<Rightarrow> if Has m CondStressed \<and> \<not> (cd_kind c = KindShield \<and> to = cd_about c)
                  then MaxPerHourStressed else MaxPerHour)"

text \<open>The memory after the check, which forgets the sends older than an hour, and its answer.\<close>

definition budgetOK ::
  "memory \<Rightarrow> assessment \<Rightarrow> candidate \<Rightarrow> string \<Rightarrow> int \<Rightarrow> string list \<Rightarrow> memory \<times> bool" where
  "budgetOK mem a c to now perCycle =
     (if to \<in> set perCycle then (mem, False)
      else (prune_sent to now mem, sentInHour mem to now < budget_limit a c to))"

definition spend :: "string \<Rightarrow> int \<Rightarrow> memory \<Rightarrow> memory" where
  "spend to now mem = mem\<lparr>mem_sent := AList.update to (sent_to mem to @ [now]) (mem_sent mem)\<rparr>"

definition set_rung :: "string \<Rightarrow> rung \<Rightarrow> memory \<Rightarrow> memory" where
  "set_rung key r mem = mem\<lparr>mem_ladder := AList.update key r (mem_ladder mem)\<rparr>"

section \<open>One candidate\<close>

record cycle =
  cy_mem :: memory
  cy_per :: "string list"
  cy_plan :: plan

definition add_action :: "fleet \<Rightarrow> candidate \<Rightarrow> int \<Rightarrow> int \<Rightarrow> string \<Rightarrow> cycle \<Rightarrow> cycle" where
  "add_action f c level now to cy =
     cy\<lparr>cy_mem := spend to now (cy_mem cy), cy_per := to # cy_per cy,
        cy_plan := (cy_plan cy)\<lparr>pl_actions := pl_actions (cy_plan cy) @
          [\<lparr>ac_kind = cd_kind c, ac_to = to, ac_label = MemberLabel f to, ac_about = cd_about c,
            ac_ask = (cd_ask c \<and> to = cd_to c), ac_level = level, ac_key = ladderKey c\<rparr>]\<rparr>\<rparr>"

definition copy_action :: "assessment \<Rightarrow> fleet \<Rightarrow> candidate \<Rightarrow> int \<Rightarrow> int \<Rightarrow> string \<Rightarrow> cycle \<Rightarrow> cycle" where
  "copy_action a f c level now to cy =
     (let (mem, ok) = budgetOK (cy_mem cy) a c to now (cy_per cy)
      in if ok then add_action f c level now to (cy\<lparr>cy_mem := mem\<rparr>) else cy\<lparr>cy_mem := mem\<rparr>)"

text \<open>The first recipient's budget has been checked before the loop; copies are best effort.\<close>

definition send_all :: "assessment \<Rightarrow> fleet \<Rightarrow> candidate \<Rightarrow> int \<Rightarrow> int \<Rightarrow> string list \<Rightarrow> cycle \<Rightarrow> cycle" where
  "send_all a f c level now rs cy =
     (case rs of [] \<Rightarrow> cy
      | r # rest \<Rightarrow> fold (copy_action a f c level now) rest (add_action f c level now r cy))"

definition add_alert :: "alert \<Rightarrow> cycle \<Rightarrow> cycle" where
  "add_alert x cy = cy\<lparr>cy_plan := (cy_plan cy)\<lparr>pl_alerts := pl_alerts (cy_plan cy) @ [x]\<rparr>\<rparr>"

definition climb :: "candidate \<Rightarrow> int \<Rightarrow> int \<Rightarrow> cycle \<Rightarrow> cycle" where
  "climb c level now cy =
     cy\<lparr>cy_mem := set_rung (ladderKey c) \<lparr>rg_fingerprint = cd_fp c, rg_level = level, rg_sent_at = now\<rparr> (cy_mem cy)\<rparr>"

definition send_candidate :: "assessment \<Rightarrow> fleet \<Rightarrow> int \<Rightarrow> int \<Rightarrow> candidate \<Rightarrow> cycle \<Rightarrow> cycle" where
  "send_candidate a f now level c cy =
     (let rs = recipients a f c level;
          (mem, ok) = (if cd_to c \<noteq> [] then budgetOK (cy_mem cy) a c (cd_to c) now (cy_per cy)
                       else (cy_mem cy, True));
          cy1 = cy\<lparr>cy_mem := mem\<rparr>
      in if \<not> ok then cy1\<lparr>cy_plan := (cy_plan cy1)\<lparr>pl_held := pl_held (cy_plan cy1) + 1\<rparr>\<rparr>
         else
           let cy2 = send_all a f c level now rs cy1;
               cy3 = (if cd_alert c \<noteq> [] \<and> level = 1 then add_alert (Waits (cd_alert c)) cy2 else cy2);
               cy4 = (if 3 \<le> level then add_alert (Escalated (cd_kind c) (cd_about c)) cy3 else cy3)
           in if rs \<noteq> [] \<or> (cd_alert c \<noteq> [] \<and> level = 1) \<or> 3 \<le> level then climb c level now cy4 else cy4)"

definition plan_candidate ::
  "assessment \<Rightarrow> fleet \<Rightarrow> int \<Rightarrow> int \<Rightarrow> bool \<Rightarrow> candidate \<Rightarrow> cycle \<Rightarrow> cycle" where
  "plan_candidate a f now gap warm c cy =
     (case next_level (mem_ladder (cy_mem cy)) now gap c of
        None \<Rightarrow> cy
      | Some level \<Rightarrow>
          if warm then cy
          else if cd_to c \<noteq> [] \<and> deconflict f c now gap then cy
          else if 1 < level \<and> cd_to c \<noteq> [] \<and> recipients a f c level = [cd_to c] then
            (let cy1 = climb c level now cy
             in if 3 \<le> level then add_alert (Escalated (cd_kind c) (cd_about c)) cy1 else cy1)
          else send_candidate a f now level c cy)"

section \<open>The fleet's own state\<close>

definition fleet_action :: "string \<Rightarrow> fleet \<Rightarrow> string \<Rightarrow> action" where
  "fleet_action kind f h = \<lparr>ac_kind = kind, ac_to = h, ac_label = MemberLabel f h, ac_about = [],
     ac_ask = False, ac_level = 1, ac_key = kind @ ''|'' @ f_name f\<rparr>"

definition risk_head :: "fleet \<Rightarrow> int \<Rightarrow> string \<Rightarrow> memory \<times> action list \<Rightarrow> memory \<times> action list" where
  "risk_head f now h ma =
     (let mem = prune_sent h now (fst ma)
      in if sentInHour (fst ma) h now < MaxPerHour + 1
         then (spend h now mem, snd ma @ [fleet_action KindRisk f h]) else (mem, snd ma))"

definition fleetActions :: "assessment \<Rightarrow> fleet \<Rightarrow> memory \<Rightarrow> string list \<Rightarrow> int \<Rightarrow> memory \<times> action list" where
  "fleetActions a f mem heads now =
     (let worse = (stateRank (mem_last_state mem) < stateRank (as_state a) \<and> mem_last_state mem \<noteq> []);
          (mem1, acts1) = (if worse \<and> as_state a \<noteq> StateNoGoal then fold (risk_head f now) heads (mem, [])
                           else (mem, []));
          allMet = (as_members a \<noteq> [] \<and> list_all (\<lambda>ma. Goal_IsMet (ma_goal ma)) (as_members a));
          key = ''CONFIRM|'' @ f_name f
      in if allMet \<and> Goal_IsOpen (f_goal f) then
           (if alist_get (mem_ladder mem1) key = None then
              (set_rung key \<lparr>rg_fingerprint = ''all-met'', rg_level = 1, rg_sent_at = now\<rparr>
                 (fold (\<lambda>h m. spend h now m) heads mem1),
               acts1 @ map (fleet_action KindConfirm f) heads)
            else (mem1, acts1))
         else (mem1\<lparr>mem_ladder := AList.delete key (mem_ladder mem1)\<rparr>, acts1))"

section \<open>Cadence and report\<close>

definition is_calm :: "assessment \<Rightarrow> plan \<Rightarrow> bool" where
  "is_calm a p \<longleftrightarrow> pl_actions p = [] \<and> pl_alerts p = [] \<and> pl_held p = 0 \<and>
     as_state a \<in> {StateOnTrack, StateMet, StateNoGoal, StateStarting} \<and>
     list_all (\<lambda>m. ma_primary m \<notin> {CondStressed, CondStrayed, CondStalled, CondDeadlock}) (as_members a)"

definition cadence :: "assessment \<Rightarrow> memory \<Rightarrow> plan \<Rightarrow> goal_exec \<Rightarrow> int" where
  "cadence a mem p cfg =
     (if ge_mode cfg = GoalExecFixed then ge_min_sec cfg
      else if \<not> is_calm a p \<or> mem_interval_sec mem = 0 then ge_min_sec cfg
      else min (mem_interval_sec mem * 2) (ge_max_sec cfg))"

definition condition_counts :: "assessment \<Rightarrow> string list" where
  "condition_counts a =
     concat (map (\<lambda>c. let n = length (filter (\<lambda>m. ma_primary m = c) (as_members a))
                      in if 0 < n then [itoa (int n) @ '' '' @ c] else []) ConditionOrder)"

definition report_fp :: "assessment \<Rightarrow> string" where
  "report_fp a = as_state a @ ''|'' @ itoa (go_div (as_pct a) 10) @ ''|'' @ as_bottleneck a @ ''|'' @
                 join_with '','' (condition_counts a)"

definition report :: "assessment \<Rightarrow> memory \<Rightarrow> plan \<Rightarrow> int \<Rightarrow> goal_exec \<Rightarrow> memory \<times> bool" where
  "report a mem p now cfg =
     (if report_fp a = mem_last_report mem \<and> now - mem_last_report_at mem < ge_max_sec cfg * 1000 \<and>
         pl_actions p = [] \<and> pl_alerts p = []
      then (mem, False)
      else (mem\<lparr>mem_last_report := report_fp a, mem_last_report_at := now\<rparr>, True))"

section \<open>The plan\<close>

definition live_ladder :: "candidate list \<Rightarrow> (string \<times> rung) list \<Rightarrow> (string \<times> rung) list" where
  "live_ladder cs ladder =
     filter (\<lambda>kr. fst kr \<in> set (map ladderKey cs) \<or> has_prefix (fst kr) ''CONFIRM|'') ladder"

definition empty_plan :: plan where
  "empty_plan = \<lparr>pl_actions = [], pl_alerts = [], pl_report = False, pl_next_sec = 0, pl_held = 0\<rparr>"

definition plan_cycle :: "assessment \<Rightarrow> input \<Rightarrow> memory \<Rightarrow> cycle" where
  "plan_cycle a i mem =
     (let f = in_fleet i; now = in_now i; cfg = in_config i;
          cs = order_candidates a (candidates a f now cfg);
          mem1 = mem\<lparr>mem_cycles := mem_cycles mem + 1, mem_ladder := live_ladder cs (mem_ladder mem)\<rparr>
      in fold (plan_candidate a f now (ge_min_sec cfg * 1000) (mem_cycles mem = 0)) cs
           \<lparr>cy_mem = mem1, cy_per = [], cy_plan = empty_plan\<rparr>)"

definition MakePlan :: "assessment \<Rightarrow> input \<Rightarrow> memory \<Rightarrow> memory \<times> plan" where
  "MakePlan a i mem =
     (let f = in_fleet i; now = in_now i; cfg = in_config i;
          cy = plan_cycle a i mem;
          (mem2, acts) = (if mem_cycles mem = 0 then (cy_mem cy, []) else fleetActions a f (cy_mem cy) (headsOf f) now);
          p = (cy_plan cy)\<lparr>pl_actions := pl_actions (cy_plan cy) @ acts\<rparr>;
          (mem3, posted) = report a (mem2\<lparr>mem_last_state := as_state a\<rparr>) p now cfg;
          sec = cadence a mem3 p cfg
      in (mem3\<lparr>mem_interval_sec := sec\<rparr>, p\<lparr>pl_report := posted, pl_next_sec := sec\<rparr>))"

end
