(* ===== verification/GoalProperties.thy ===== *)
theory GoalProperties
  imports CriticalPath GoalPlan FleetProperties
begin

text \<open>
  What the goal executor and the command inbox promise: the wait graph and its rings, the critical
  path, the verdict, the ladder and the budgets of a plan, the cadence, and the inbox.
\<close>

section \<open>Who waits on whom\<close>

text \<open>The declared wait: an edge from a blocker to each member that waits on it.\<close>

definition waits :: "fleet \<Rightarrow> (string \<times> string) set" where
  "waits f = {(b, p). p \<in> waiting_on f b}"

lemma nexts_alist_map_sort: "nexts (alist_map sort g) i = sort (nexts g i)"
  by (simp add: nexts_def split: option.split)

lemma waitGraph_edge: "edge (fst (waitGraph f)) = waits f"
  by (auto simp: waitGraph_def Let_def edge_def waits_def waiting_on_def nexts_alist_map_sort blocker_index_set)

lemma waiters_on_eq: "waiters_on f i = sort (nexts (blocker_index (f_members f)) i)"
  by (simp add: waiters_on_def waitGraph_def Let_def nexts_alist_map_sort)

lemma alist_get_keyed: "alist_get (map (\<lambda>i. (i, h i)) ks) i = (if i \<in> set ks then Some (h i) else None)"
  by (induction ks) (auto simp: alist_get_def)

lemma no_key_no_edge: "i \<notin> set (keys g) \<Longrightarrow> (edge g)\<^sup>+ `` {i} = {}"
  using nexts_key by (metis Image_singleton_iff edge_iff equals0I tranclD)

lemma waiting_count_eq: "waiting_count f i = int (card ((waits f)\<^sup>+ `` {i} - {i}))"
proof -
  let ?g = "fst (waitGraph f)"
  have same: "(edge ?g)\<^sup>* `` set [i] - set [i] = (edge ?g)\<^sup>+ `` {i} - {i}"
    by (auto simp: rtrancl_eq_or_trancl)
  show ?thesis
  proof (cases "i \<in> set (keys ?g)")
    case True
    then have "waiting_count f i = int (reach_count ?g [i])"
      by (simp add: waiting_count_def waitGraph_def Let_def alist_get_keyed del: map_map)
    then show ?thesis using same by (simp only: reach_count_card waitGraph_edge)
  next
    case False
    then have "waiting_count f i = 0"
      by (simp add: waiting_count_def waitGraph_def Let_def alist_get_keyed del: map_map)
    moreover have "(waits f)\<^sup>+ `` {i} = {}"
      using no_key_no_edge [OF False] by (simp only: waitGraph_edge)
    ultimately show ?thesis by simp
  qed
qed

text \<open>
  C9: the number shown as waiting on a member is the number of other members that wait on it
  directly or through others, each counted once however many ways lead to it and whatever rings
  there are; the waiters listed are those that name it, in order.
\<close>

theorem waiting_count_transitive:
  "waiting_count f i = int (card ((waits f)\<^sup>+ `` {i} - {i})) \<and>
   set (waiters_on f i) = waiting_on f i \<and> sorted (waiters_on f i)"
  by (simp add: waiting_count_eq waiters_on_eq blocker_index_set waiting_on_def)

section \<open>Deadlocks\<close>

definition disjoint_rings :: "string graph \<Rightarrow> string list \<times> string list list \<Rightarrow> bool" where
  "disjoint_rings g r \<longleftrightarrow> (\<forall>c \<in> set (snd r). is_ring g c) \<and> distinct (concat (snd r)) \<and>
     set (fst r) = set (concat (snd r))"

lemma fresh_ring_disjoint: "is_ring g c \<Longrightarrow> disjoint_rings g r \<Longrightarrow> disjoint_rings g (fresh_ring c r)"
  by (auto simp: fresh_ring_def disjoint_rings_def list_ex_iff is_ring_def)

lemma fresh_ring_reports:
  "is_ring g c \<Longrightarrow> disjoint_rings g r \<Longrightarrow> snd (fresh_ring c r) \<noteq> []"
  by (auto simp: fresh_ring_def disjoint_rings_def list_ex_iff)

interpretation deadlock_search:
  ring_search g "\<lambda>n. alist_get g n \<noteq> None" fresh_ring "disjoint_rings g" "\<lambda>r. snd r \<noteq> []"
  for g :: "string graph"
  by unfold_locales (auto simp: nexts_def fresh_ring_disjoint dest: fresh_ring_reports)

lemma blocked_edges_keys:
  "alist_get (blocked_edges f) i \<noteq> None \<longleftrightarrow> i \<in> m_pane ` set (filter is_blocked (f_members f))"
proof -
  have "alist_get (fold (\<lambda>m es. if is_blocked m then AList.update (m_pane m) (blockers_of m) es else es) ms es) i \<noteq> None
      \<longleftrightarrow> alist_get es i \<noteq> None \<or> i \<in> m_pane ` set (filter is_blocked ms)" for ms es
    by (induction ms arbitrary: es) auto
  from this [of "f_members f" "[]"] show ?thesis by (simp add: blocked_edges_def alist_get_def)
qed

abbreviation blocked_panes :: "fleet \<Rightarrow> string list" where
  "blocked_panes f \<equiv> map m_pane (filter is_blocked (f_members f))"

lemma blocked_panes_keys: "set (blocked_panes f) = set (keys (blocked_edges f))"
  using blocked_edges_keys [of f] by (auto simp: alist_get_None_iff set_eq_iff image_iff)

lemma deadlockCycles_run:
  "\<exists>r. deadlockCycles_opt f = Some r \<and> deadlockCycles f = snd r \<and> disjoint_rings (blocked_edges f) r \<and>
       (snd r = [] \<longrightarrow> \<not> (\<exists>c. is_ring (blocked_edges f) c))"
proof -
  let ?g = "blocked_edges f"
  have sub: "set (blocked_panes f) \<subseteq> set (graph_nodes ?g)"
    unfolding blocked_panes_keys by (intro subsetI keys_in_nodes)
  obtain r where run: "dfs_run ?g (\<lambda>n. alist_get ?g n \<noteq> None) fresh_ring (blocked_panes f) ([], []) = Some r"
    using dfs_run_total [OF sub, of "\<lambda>n. alist_get ?g n \<noteq> None" fresh_ring "([], [])"] by (elim exE)
  have ok: "\<forall>n \<in> set (blocked_panes f). alist_get ?g n \<noteq> None"
    using blocked_edges_keys [of f] by (intro ballI) auto
  have start: "disjoint_rings ?g ([], [])" by (simp add: disjoint_rings_def)
  have all: "n \<in> set (blocked_panes f)" if n: "nexts ?g n \<noteq> []" for n
  proof -
    obtain v where "v \<in> set (nexts ?g n)" using n by (cases "nexts ?g n") auto
    then show ?thesis unfolding blocked_panes_keys by (rule nexts_key)
  qed
  have "disjoint_rings ?g r" by (rule deadlock_search.run_good [OF run start ok])
  moreover have "snd r = [] \<Longrightarrow> \<not> is_ring ?g c" for c
    using deadlock_search.run_complete [OF run start ok all] by blast
  ultimately show ?thesis
    using run by (auto simp: deadlockCycles_opt_def deadlockCycles_def Let_def)
qed

text \<open>
  C11: The searches over what the members wait for always return, however the declared waits loop: neither
  depth-first search of the rings runs out of the depth it is given, and the recursion of the estimates
  ends for every member from any memo.
\<close>

theorem searches_return:
  "(\<exists>out. blockedCycles_opt f = Some out) \<and> (\<exists>r. deadlockCycles_opt f = Some r) \<and>
   (\<exists>r. finish (finish_fuel f) f now [] memo i = Some r)"
  using blockedCycles_run deadlockCycles_run finish_fuel_enough by metis

lemma deadlock_none_iff: "deadlockCycles f = [] \<longleftrightarrow> \<not> (\<exists>c. is_ring (blocked_edges f) c)"
proof -
  obtain r where r: "deadlockCycles f = snd r" "disjoint_rings (blocked_edges f) r"
    "snd r = [] \<longrightarrow> \<not> (\<exists>c. is_ring (blocked_edges f) c)"
    using deadlockCycles_run [of f] by blast
  then show ?thesis by (cases "snd r") (auto simp: disjoint_rings_def)
qed

text \<open>
  C10: every deadlock reported to a fleet is a ring of distinct members each blocked by the next, no
  member is in two of them, so a member is told of one breaker only, and none is reported exactly
  when nobody is on a ring.
\<close>

theorem deadlockCycles_exact:
  "(\<forall>c \<in> set (deadlockCycles f). is_ring (blocked_edges f) c) \<and> distinct (concat (deadlockCycles f)) \<and>
   (deadlockCycles f = [] \<longleftrightarrow> \<not> (\<exists>c. is_ring (blocked_edges f) c))"
proof -
  have "\<exists>r. deadlockCycles f = snd r \<and> disjoint_rings (blocked_edges f) r" using deadlockCycles_run [of f] by blast
  then show ?thesis using deadlock_none_iff [of f] by (auto simp: disjoint_rings_def)
qed

theorem deadlockCycles_exact_witness: "deadlockCycles diamond \<noteq> [] \<and> distinct (concat (deadlockCycles diamond))"
proof -
  have "is_ring (blocked_edges diamond) [''aa'', ''bb'', ''dd'']" by code_simp
  then show ?thesis using deadlockCycles_exact [of diamond] by blast
qed

section \<open>The members of an assessment\<close>

lemma memberOf_fleet: "m \<in> set (f_members f) \<Longrightarrow> memberOf f (m_pane m) \<noteq> None"
  by (auto simp: memberOf_def find_None_iff)

lemma assess_order_set: "set (assess_order f rows) = set (map m_pane (f_members f))"
  by (auto simp: assess_order_def dest: memberOf_Some memberOf_fleet)

lemma assess_member_pane:
  "memberOf (in_fleet i) pane \<noteq> None \<Longrightarrow> map ma_pane (assess_member i mem pane) = [pane]"
proof -
  assume "memberOf (in_fleet i) pane \<noteq> None"
  then obtain m where m: "memberOf (in_fleet i) pane = Some m" by auto
  then show ?thesis
    using memberOf_Some [OF m] by (simp add: assess_member_def Let_def split: prod.split)
qed

lemma assess_members_panes:
  "set ps \<subseteq> set (map m_pane (f_members (in_fleet i))) \<Longrightarrow>
   map ma_pane (concat (map (assess_member i mem) ps)) = ps"
proof (induction ps)
  case Nil
  show ?case by simp
next
  case (Cons p ps)
  then have "memberOf (in_fleet i) p \<noteq> None" using memberOf_fleet by fastforce
  then show ?case using Cons by (simp add: assess_member_pane)
qed

definition before_path :: "string list \<Rightarrow> (string \<times> int) option \<Rightarrow> input \<Rightarrow> memory \<Rightarrow> assessment" where
  "before_path rows bottleneck i mem =
     (let f = in_fleet i;
          bn = (case bottleneck of None \<Rightarrow> ([], 0)
                | Some b \<Rightarrow> if memberOf f (fst b) \<noteq> None then b else ([], 0))
      in \<lparr>as_fleet = f_name f, as_board = f_board f, as_state = [], as_why = [], as_pct = -1,
          as_finish = 0, as_unknown = 0,
          as_due_at = (case f_goal f of None \<Rightarrow> 0 | Some g \<Rightarrow> g_due_at g),
          as_bottleneck = fst bn, as_bottleneck_waiting = snd bn,
          as_members = concat (map (assess_member i mem) (assess_order f rows)),
          as_cycles = deadlockCycles f, as_board_ok = in_board_ok i\<rparr>)"

lemma Assess_before:
  "Assess clock rows bottleneck i mem =
     fleetState clock (criticalPath (before_path rows bottleneck i mem) (in_fleet i) (in_now i)) (in_fleet i) (in_now i)"
  by (simp add: Assess_def before_path_def Let_def)

lemma before_path_simps [simp]:
  "as_cycles (before_path rows bottleneck i mem) = deadlockCycles (in_fleet i)"
  "as_members (before_path rows bottleneck i mem) = concat (map (assess_member i mem) (assess_order (in_fleet i) rows))"
  "as_finish (before_path rows bottleneck i mem) = 0" "as_unknown (before_path rows bottleneck i mem) = 0"
  by (simp_all add: before_path_def Let_def)

lemma fleetState_keeps [simp]:
  "as_members (fleetState clock a f now) = as_members a" "as_finish (fleetState clock a f now) = as_finish a"
  "as_unknown (fleetState clock a f now) = as_unknown a" "as_cycles (fleetState clock a f now) = as_cycles a"
  "as_bottleneck (fleetState clock a f now) = as_bottleneck a"
  "as_bottleneck_waiting (fleetState clock a f now) = as_bottleneck_waiting a"
  by (auto simp: fleetState_def Let_def add_why_def split: option.splits prod.splits)

lemma path_members_keeps:
  "as_cycles (path_members f now memo a mas) = as_cycles a"
  by (induction mas arbitrary: memo a) (auto simp: Let_def split: option.splits prod.splits)

lemma criticalPath_keeps [simp]: "as_cycles (criticalPath a f now) = as_cycles a"
  by (simp add: criticalPath_def Let_def path_members_keeps)

section \<open>The critical path\<close>

lemma members_in_fleet:
  "\<forall>ma \<in> set (as_members (before_path rows bottleneck i mem)). memberOf (in_fleet i) (ma_pane ma) \<noteq> None"
proof
  fix ma assume "ma \<in> set (as_members (before_path rows bottleneck i mem))"
  then have "ma_pane ma \<in> set (map ma_pane (concat (map (assess_member i mem) (assess_order (in_fleet i) rows))))"
    by (simp only: before_path_simps set_map imageI)
  then have "ma_pane ma \<in> set (assess_order (in_fleet i) rows)"
    by (subst (asm) assess_members_panes) (simp_all only: assess_order_set)
  then show "memberOf (in_fleet i) (ma_pane ma) \<noteq> None"
    unfolding assess_order_set using memberOf_fleet by fastforce
qed

lemma criticalPath_members:
  "as_members (criticalPath a f now) = as_members (path_members f now [] (a\<lparr>as_members := []\<rparr>) (as_members a))"
  "as_finish (criticalPath a f now) = as_finish (path_members f now [] (a\<lparr>as_members := []\<rparr>) (as_members a))"
  "as_unknown (criticalPath a f now) = as_unknown (path_members f now [] (a\<lparr>as_members := []\<rparr>) (as_members a))"
  by (simp_all add: criticalPath_def Let_def)

text \<open>
  C12: the finish estimates are a solution of their equations on every graph of waits, rings
  included: each member of the fleet is assessed once, and its estimate follows from its own row and
  from the estimates of its blockers; what is shown is that estimate (0 when it is unknown), the
  fleet's finish is the latest of them, and the unknown ones are the unmet members without one.
\<close>

theorem finish_estimates:
  assumes "0 \<le> in_now i"
  shows "\<exists>look. let a = Assess clock rows bottleneck i mem in
    set (map ma_pane (as_members a)) = set (map m_pane (f_members (in_fleet i))) \<and>
    distinct (map ma_pane (as_members a)) \<and>
    (\<forall>ma \<in> set (as_members a). \<exists>m. memberOf (in_fleet i) (ma_pane ma) = Some m \<and>
       look (ma_pane ma) = finish_rule (in_fleet i) (in_now i) look m \<and>
       ma_finish ma = (if look (ma_pane ma) = unknown then 0 else look (ma_pane ma))) \<and>
    as_finish a = foldl max 0 (map ma_finish (as_members a)) \<and>
    as_unknown a = int (length (filter (\<lambda>ma. look (ma_pane ma) = unknown \<and> \<not> Has ma CondMet) (as_members a)))"
proof -
  let ?f = "in_fleet i" and ?now = "in_now i" and ?b = "before_path rows bottleneck i mem"
  let ?mas = "as_members ?b"
  define memo where "memo = finish_all ?f ?now [] (map ma_pane ?mas)"
  have panes: "map ma_pane ?mas = assess_order ?f rows"
    by (simp add: assess_members_panes assess_order_set)
  have ok: "memo_ok ?f ?now {} memo" "\<forall>p \<in> set (map ma_pane ?mas). alist_get memo p \<noteq> None"
    using finish_all_ok [OF assms, of ?f "[]" "map ma_pane ?mas"] members_in_fleet [of rows bottleneck i mem]
    unfolding memo_def by (simp_all del: before_path_simps)
  note path = path_members_finishes [OF assms memo_ok_Nil members_in_fleet [of rows bottleneck i mem],
      of "?b\<lparr>as_members := []\<rparr>", folded memo_def]
  have members: "as_members (Assess clock rows bottleneck i mem) = map (shown (look_in memo)) ?mas"
    "as_unknown (Assess clock rows bottleneck i mem) = int (length (filter (not_known (look_in memo)) ?mas))"
    using path by (simp_all add: Assess_before criticalPath_members del: before_path_simps(2))
  have solved: "\<exists>m. memberOf ?f p = Some m \<and> look_in memo p = finish_rule ?f ?now (look_in memo) m"
    if p: "p \<in> set (map ma_pane ?mas)" for p
  proof -
    obtain v where v: "alist_get memo p = Some v" using ok(2) p by auto
    obtain m where m: "memberOf ?f p = Some m" using members_in_fleet [of rows bottleneck i mem] p by auto
    show ?thesis using memo_ok_solution [OF ok(1) v m] m v by (simp add: look_in_def)
  qed
  have "as_finish (Assess clock rows bottleneck i mem) =
      foldl max 0 (map ma_finish (as_members (Assess clock rows bottleneck i mem)))"
    using path_members_latest [of "?b\<lparr>as_members := []\<rparr>"]
    by (simp add: Assess_before criticalPath_members del: before_path_simps(2))
  moreover have "map ma_pane (as_members (Assess clock rows bottleneck i mem)) = assess_order ?f rows"
    using panes by (simp add: members shown_def o_def del: before_path_simps(2))
  moreover have "length (filter (\<lambda>ma. look_in memo (ma_pane ma) = unknown \<and> \<not> Has ma CondMet)
      (map (shown (look_in memo)) ?mas)) = length (filter (not_known (look_in memo)) ?mas)"
    by (simp add: filter_map o_def shown_def not_known_def [abs_def] Has_def del: before_path_simps(2))
  moreover have "\<forall>ma \<in> set (as_members (Assess clock rows bottleneck i mem)).
      \<exists>m. memberOf ?f (ma_pane ma) = Some m \<and> look_in memo (ma_pane ma) = finish_rule ?f ?now (look_in memo) m \<and>
      ma_finish ma = (if look_in memo (ma_pane ma) = unknown then 0 else look_in memo (ma_pane ma))"
  proof
    fix ma assume ma: "ma \<in> set (as_members (Assess clock rows bottleneck i mem))"
    obtain m0 where m0: "m0 \<in> set ?mas" "ma = shown (look_in memo) m0"
      using ma unfolding members by (metis (no_types) imageE set_map)
    then obtain m where "memberOf ?f (ma_pane m0) = Some m"
      "look_in memo (ma_pane m0) = finish_rule ?f ?now (look_in memo) m"
      using solved [of "ma_pane m0"] by auto
    then show "\<exists>m. memberOf ?f (ma_pane ma) = Some m \<and> look_in memo (ma_pane ma) =
        finish_rule ?f ?now (look_in memo) m \<and>
        ma_finish ma = (if look_in memo (ma_pane ma) = unknown then 0 else look_in memo (ma_pane ma))"
      unfolding m0(2) by (intro exI [of _ m]) (simp add: shown_def)
  qed
  moreover have "distinct (assess_order ?f rows)" by (simp add: assess_order_def)
  ultimately show ?thesis
    unfolding Let_def members(2) by (intro exI [of _ "look_in memo"]) (simp only: assess_order_set members(1) if_True simp_thms)
qed

theorem finish_estimates_witness:
  "\<exists>ma \<in> set (as_members (Assess (\<lambda>_. []) [] None
      \<lparr>in_fleet = diamond, in_threads = [], in_board_ok = True, in_now = 7, in_config = GoalExec_Resolved None\<rparr>
      empty_memory)). ma_pane ma = ''cc''"
proof -
  let ?i = "\<lparr>in_fleet = diamond, in_threads = [], in_board_ok = True, in_now = 7, in_config = GoalExec_Resolved None\<rparr>"
  have "set (map ma_pane (as_members (Assess (\<lambda>_. []) [] None ?i empty_memory))) = set (map m_pane (f_members (in_fleet ?i)))"
    using finish_estimates [of ?i "\<lambda>_. []" "[]" None empty_memory] unfolding Let_def by force
  moreover have "''cc'' \<in> set (map m_pane (f_members (in_fleet ?i)))"
    by (simp add: diamond_def fleet_of_def blocked_row_def member_row_def)
  ultimately have "''cc'' \<in> set (map ma_pane (as_members (Assess (\<lambda>_. []) [] None ?i empty_memory)))" by (simp only:)
  then show ?thesis by auto
qed

section \<open>The verdict\<close>

lemma count_members_zero: "count_members P a = 0 \<longleftrightarrow> (\<forall>ma \<in> set (as_members a). \<not> P ma)"
  by (auto simp: count_members_def filter_empty_conv)

lemma count_members_all: "count_members P a < int (length (as_members a)) \<longleftrightarrow> (\<exists>ma \<in> set (as_members a). \<not> P ma)"
proof -
  have "length (filter P xs) < length xs \<longleftrightarrow> (\<exists>x \<in> set xs. \<not> P x)" for xs
    by (metis filter_True length_filter_less less_irrefl)
  then show ?thesis by (simp add: count_members_def)
qed

definition past_due :: "goal \<Rightarrow> int \<Rightarrow> bool" where
  "past_due g t \<longleftrightarrow> 0 < g_due_at g \<and> g_due_at g < t"

lemma due_verdict_fine:
  "due_verdict clock g now a = (off, risk, why) \<Longrightarrow>
   (\<not> off \<and> \<not> risk) \<longleftrightarrow> \<not> past_due g now \<and> \<not> past_due g (as_finish a)"
  by (auto simp: due_verdict_def Let_def past_due_def)

lemma trouble_verdict_fine:
  "trouble_verdict a = (off, risk, why) \<Longrightarrow>
   (\<not> off \<and> \<not> risk) \<longleftrightarrow> (\<forall>ma \<in> set (as_members a). \<not> is_troubled ma)"
  unfolding count_members_zero [symmetric]
  by (auto simp: trouble_verdict_def Let_def count_members_def split: if_splits)

definition stuck_bottleneck :: "int \<Rightarrow> assessment \<Rightarrow> bool" where
  "stuck_bottleneck now a \<longleftrightarrow> as_bottleneck a \<noteq> [] \<and> 2 \<le> as_bottleneck_waiting a \<and>
     (\<exists>b. assessed_member a (as_bottleneck a) = Some b \<and> (ma_eta_at b = 0 \<or> ma_eta_at b < now))"

lemma bottleneck_verdict_risk: "bottleneck_verdict now a = (risk, why) \<Longrightarrow> risk \<longleftrightarrow> stuck_bottleneck now a"
  by (auto simp: bottleneck_verdict_def stuck_bottleneck_def split: if_splits option.splits)

text \<open>
  A fleet is called on track exactly when its goal is open and neither the clock nor the expected
  finish is past its due time, somebody has declared work, there is no ring of blocked members,
  somebody progresses or everybody is finished, no member is stressed, strayed or stalled, and no
  bottleneck with two waiting lacks a current ETA.
\<close>

lemma on_track_iff:
  "as_state (Assess clock rows bottleneck i mem) = StateOnTrack \<longleftrightarrow>
   (let a = Assess clock rows bottleneck i mem; f = in_fleet i; ms = set (as_members a)
    in (\<exists>g. f_goal f = Some g \<and> Goal_IsOpen (Some g) \<and> \<not> past_due g (in_now i) \<and> \<not> past_due g (as_finish a)) \<and>
       (\<exists>ma \<in> ms. ma_work ma \<noteq> []) \<and> \<not> (\<exists>c. is_ring (blocked_edges f) c) \<and>
       ((\<exists>ma \<in> ms. is_progressing ma) \<or> (\<forall>ma \<in> ms. is_finished ma)) \<and>
       (\<forall>ma \<in> ms. \<not> is_troubled ma) \<and> \<not> stuck_bottleneck (in_now i) a)"
proof -
  let ?f = "in_fleet i" and ?now = "in_now i"
  define p where "p = criticalPath (before_path rows bottleneck i mem) ?f ?now"
  have a: "Assess clock rows bottleneck i mem = fleetState clock p ?f ?now" by (simp add: Assess_before p_def)
  have cyc: "as_cycles p = [] \<longleftrightarrow> \<not> (\<exists>c. is_ring (blocked_edges ?f) c)"
    by (simp add: p_def deadlock_none_iff)
  have bn: "stuck_bottleneck ?now (fleetState clock p ?f ?now) = stuck_bottleneck ?now p"
    by (simp add: stuck_bottleneck_def assessed_member_def)
  show ?thesis
  proof (cases "f_goal ?f")
    case None
    then show ?thesis by (simp add: a fleetState_def add_why_def)
  next
    case (Some g)
    obtain off1 risk1 why1 where v1: "due_verdict clock g ?now p = (off1, risk1, why1)" by (cases "due_verdict clock g ?now p") auto
    obtain off2 risk2 why2 where v2: "trouble_verdict p = (off2, risk2, why2)" by (cases "trouble_verdict p") auto
    obtain risk3 why3 where v3: "bottleneck_verdict ?now p = (risk3, why3)" by (cases "bottleneck_verdict ?now p") auto
    have met: "Goal_IsOpen (Some g) \<Longrightarrow> \<not> Goal_IsMet (Some g)" by (auto simp: Goal_IsOpen_def Goal_IsMet_def)
    show ?thesis
      unfolding Let_def a bn fleetState_keeps cyc [symmetric]
      using due_verdict_fine [OF v1] trouble_verdict_fine [OF v2] bottleneck_verdict_risk [OF v3] Some v1 v2 v3 met
      by (auto simp: fleetState_def add_why_def count_members_zero count_members_all)
  qed
qed

definition steady_fleet :: fleet where
  "steady_fleet = (fleet_of ''alpha'' [(member_row ''aa'' ''aa'')\<lparr>m_status :=
     Some (empty_status\<lparr>st_work := WorkProgress, st_task := ''build'', st_eta_at := 90000, st_eta_set_at := 1\<rparr>)\<rparr>])
     \<lparr>f_goal := Some \<lparr>g_text = ''ship'', g_done_when = [], g_due_at = 100000, g_state = GoalOpen, g_set_by = [],
       g_set_at = 1, g_met_at = 0, g_note = []\<rparr>\<rparr>"

definition input_of :: "fleet \<Rightarrow> int \<Rightarrow> input" where
  "input_of f now = \<lparr>in_fleet = f, in_threads = [], in_board_ok = True, in_now = now, in_config = GoalExec_Resolved None\<rparr>"

theorem on_track_iff_witness:
  "\<not> (\<exists>c. is_ring (blocked_edges steady_fleet) c) \<and>
   as_finish (Assess (\<lambda>_. []) [] None (input_of steady_fleet 7) empty_memory) \<le> 100000"
proof -
  have fl: "in_fleet (input_of steady_fleet 7) = steady_fleet" by (simp add: input_of_def)
  have "as_state (Assess (\<lambda>_. []) [] None (input_of steady_fleet 7) empty_memory) = StateOnTrack" by code_simp
  then have "\<exists>g. f_goal steady_fleet = Some g \<and>
      \<not> past_due g (as_finish (Assess (\<lambda>_. []) [] None (input_of steady_fleet 7) empty_memory))"
    and "\<not> (\<exists>c. is_ring (blocked_edges steady_fleet) c)"
    unfolding on_track_iff Let_def fl by blast+
  then show ?thesis by (simp add: steady_fleet_def past_due_def)
qed

end
