(* ===== verification/PlanProperties.thy ===== *)
theory PlanProperties
  imports GoalProperties
begin

text \<open>
  What a plan of the goal executor promises: the messages one agent gets, the ladder that keeps a
  directive from being repeated, the warm-up after a restart and the cadence; and what the
  observation and the command inbox keep.
\<close>

section \<open>The budget of one agent\<close>

lemma prune_sent_hour [simp]: "sentInHour (prune_sent to now mem) x now = sentInHour mem x now"
  by (auto simp: sentInHour_def prune_sent_def sent_to_def filter_filter)

lemma spend_hour: "sentInHour (spend to now mem) x now = sentInHour mem x now + (if x = to then 1 else 0)"
  by (auto simp: sentInHour_def spend_def sent_to_def)

lemma set_rung_hour [simp]: "sentInHour (set_rung k r mem) x now = sentInHour mem x now"
  by (simp add: sentInHour_def set_rung_def sent_to_def)

text \<open>An agent within its budget for a directive, as the memory stood before the cycle.\<close>

definition had_room :: "assessment \<Rightarrow> memory \<Rightarrow> int \<Rightarrow> action \<Rightarrow> bool" where
  "had_room a mem now ac \<longleftrightarrow> sentInHour mem (ac_to ac) now <
     (case assessed_member a (ac_to ac) of
        None \<Rightarrow> MaxPerHour
      | Some m \<Rightarrow> if Has m CondStressed \<and> \<not> (ac_kind ac = KindShield \<and> ac_to ac = ac_about ac)
                  then MaxPerHourStressed else MaxPerHour)"

definition budgeted :: "assessment \<Rightarrow> memory \<Rightarrow> int \<Rightarrow> cycle \<Rightarrow> bool" where
  "budgeted a mem now cy \<longleftrightarrow>
     distinct (map ac_to (pl_actions (cy_plan cy))) \<and>
     set (map ac_to (pl_actions (cy_plan cy))) = set (cy_per cy) \<and>
     (\<forall>x. sentInHour (cy_mem cy) x now = sentInHour mem x now + (if x \<in> set (cy_per cy) then 1 else 0)) \<and>
     (\<forall>ac \<in> set (pl_actions (cy_plan cy)). had_room a mem now ac)"

lemma budgeted_add:
  assumes "budgeted a mem now cy" and "to \<notin> set (cy_per cy)" and "sentInHour (cy_mem cy) to now < budget_limit a c to"
  shows "budgeted a mem now (add_action f c level now to cy)"
  using assms by (auto simp: budgeted_def add_action_def spend_hour had_room_def budget_limit_def split: option.splits)

lemma budgeted_prune: "budgeted a mem now cy \<Longrightarrow> budgeted a mem now (cy\<lparr>cy_mem := prune_sent to now (cy_mem cy)\<rparr>)"
  by (simp add: budgeted_def)

lemma budgeted_copy: "budgeted a mem now cy \<Longrightarrow> budgeted a mem now (copy_action a f c level now to cy)"
  unfolding copy_action_def budgetOK_def
  by (auto intro!: budgeted_add budgeted_prune)

lemma budgeted_copies: "budgeted a mem now cy \<Longrightarrow> budgeted a mem now (fold (copy_action a f c level now) rs cy)"
  by (induction rs arbitrary: cy) (auto intro: budgeted_copy)

lemma budgeted_alert [simp]: "budgeted a mem now (add_alert x cy) = budgeted a mem now cy"
  by (simp add: budgeted_def add_alert_def)

lemma budgeted_climb [simp]: "budgeted a mem now (climb c level now' cy) = budgeted a mem now cy"
  by (simp add: budgeted_def climb_def)

lemma budgeted_held [simp]: "budgeted a mem now (cy\<lparr>cy_plan := (cy_plan cy)\<lparr>pl_held := n\<rparr>\<rparr>) = budgeted a mem now cy"
  by (simp add: budgeted_def)

lemma recipients_hd:
  assumes "cd_to c \<noteq> []"
  shows "\<exists>rest. recipients a f c level = cd_to c # rest"
proof -
  have "\<exists>rest. fold (\<lambda>h rs. append_unique rs h) hs (x # xs) = x # rest" for hs :: "string list" and x xs
  proof (induction hs arbitrary: xs)
    case Nil
    show ?case by simp
  next
    case (Cons h hs)
    then show ?case by (auto simp: append_unique_def)
  qed
  then show ?thesis using assms by (simp add: recipients_def Let_def)
qed

text \<open>\<open>send_candidate\<close> with its steps named.\<close>

definition raise_alerts :: "candidate \<Rightarrow> int \<Rightarrow> cycle \<Rightarrow> cycle" where
  "raise_alerts c level cy =
     (let cy3 = (if cd_alert c \<noteq> [] \<and> level = 1 then add_alert (Waits (cd_alert c)) cy else cy)
      in if 3 \<le> level then add_alert (Escalated (cd_kind c) (cd_about c)) cy3 else cy3)"

definition check_first :: "assessment \<Rightarrow> candidate \<Rightarrow> int \<Rightarrow> cycle \<Rightarrow> memory \<times> bool" where
  "check_first a c now cy =
     (if cd_to c \<noteq> [] then budgetOK (cy_mem cy) a c (cd_to c) now (cy_per cy) else (cy_mem cy, True))"

lemma send_candidate_run:
  assumes "check_first a c now cy = (m, ok)"
  shows "send_candidate a f now level c cy =
    (if \<not> ok then cy\<lparr>cy_mem := m, cy_plan := (cy_plan cy)\<lparr>pl_held := pl_held (cy_plan cy) + 1\<rparr>\<rparr>
     else let cy4 = raise_alerts c level (send_all a f c level now (recipients a f c level) (cy\<lparr>cy_mem := m\<rparr>))
          in if recipients a f c level \<noteq> [] \<or> (cd_alert c \<noteq> [] \<and> level = 1) \<or> 3 \<le> level
             then climb c level now cy4 else cy4)"
  using assms unfolding send_candidate_def raise_alerts_def check_first_def Let_def by simp

lemma budgeted_raise [simp]: "budgeted a mem now (raise_alerts c level cy) = budgeted a mem now cy"
  by (simp add: raise_alerts_def Let_def)

lemma budgeted_send:
  assumes b: "budgeted a mem now cy" and to: "cd_to c \<noteq> []"
  shows "budgeted a mem now (send_candidate a f now level c cy)"
proof -
  obtain rest where rs: "recipients a f c level = cd_to c # rest" using recipients_hd [OF to] by blast
  obtain m ok where bo: "check_first a c now cy = (m, ok)" by (cases "check_first a c now cy") auto
  have b1: "budgeted a mem now (cy\<lparr>cy_mem := m\<rparr>)"
    using b bo to budgeted_prune by (auto simp: check_first_def budgetOK_def split: if_splits)
  show ?thesis
  proof (cases ok)
    case False
    then show ?thesis using b1 unfolding send_candidate_run [OF bo] by (simp add: budgeted_def)
  next
    case True
    then have "budgeted a mem now (add_action f c level now (cd_to c) (cy\<lparr>cy_mem := m\<rparr>))"
      using bo to by (intro budgeted_add [OF b1]) (auto simp: check_first_def budgetOK_def split: if_splits)
    then have "budgeted a mem now (send_all a f c level now (recipients a f c level) (cy\<lparr>cy_mem := m\<rparr>))"
      unfolding send_all_def rs by (simp add: budgeted_copies)
    then show ?thesis using True unfolding send_candidate_run [OF bo] by (simp add: Let_def rs)
  qed
qed

lemma budgeted_candidate:
  "budgeted a mem now cy \<Longrightarrow> cd_to c \<noteq> [] \<Longrightarrow> budgeted a mem now (plan_candidate a f now gap warm c cy)"
  by (auto simp: plan_candidate_def Let_def budgeted_send split: option.split)

lemma budgeted_fold:
  "budgeted a mem now cy \<Longrightarrow> \<forall>c \<in> set cs. cd_to c \<noteq> [] \<Longrightarrow>
   budgeted a mem now (fold (plan_candidate a f now gap warm) cs cy)"
  by (induction cs arbitrary: cy) (auto intro: budgeted_candidate)

lemma order_candidates_set [simp]: "set (order_candidates a cs) = set cs"
  by (simp add: order_candidates_def)

text \<open>
  C13: in one cycle no agent gets two of the ladder's directives, and each one sent found its recipient
  within the hourly budget (one an hour for a stressed agent, except for its own relief), whenever
  every directive has a recipient; the sends are counted, one for each recipient.
\<close>

theorem cycle_within_budget:
  assumes "\<forall>c \<in> set (candidates a (in_fleet i) (in_now i) (in_config i)). cd_to c \<noteq> []"
  shows "let cy = plan_cycle a i mem; acts = pl_actions (cy_plan cy)
    in distinct (map ac_to acts) \<and> (\<forall>ac \<in> set acts. had_room a mem (in_now i) ac) \<and>
       (\<forall>x. sentInHour (cy_mem cy) x (in_now i) =
          sentInHour mem x (in_now i) + (if x \<in> set (map ac_to acts) then 1 else 0))"
proof -
  have "budgeted a mem (in_now i) (plan_cycle a i mem)"
    unfolding plan_cycle_def Let_def
    by (rule budgeted_fold)
      (use assms in \<open>auto simp: budgeted_def empty_plan_def sentInHour_def sent_to_def\<close>)
  then show ?thesis by (simp add: budgeted_def Let_def)
qed

definition lead_row :: "string \<Rightarrow> member" where
  "lead_row pane = (member_row pane pane)\<lparr>m_status := Some (empty_status\<lparr>st_work := WorkProgress\<rparr>)\<rparr>"

definition under :: "string \<Rightarrow> member \<Rightarrow> member" where
  "under p m = m\<lparr>m_parent := p\<rparr>"

theorem cycle_within_budget_witness:
  "distinct (map ac_to (pl_actions (cy_plan (plan_cycle
     (Assess (\<lambda>_. []) [] None (input_of diamond 7) empty_memory) (input_of diamond 7) (empty_memory\<lparr>mem_cycles := 1\<rparr>)))))"
proof -
  let ?a = "Assess (\<lambda>_. []) [] None (input_of diamond 7) empty_memory"
  have "list_all (\<lambda>c. cd_to c \<noteq> []) (candidates ?a (in_fleet (input_of diamond 7)) (in_now (input_of diamond 7)) (in_config (input_of diamond 7)))"
    by code_simp
  from cycle_within_budget [OF this [unfolded list_all_iff], of "empty_memory\<lparr>mem_cycles := 1\<rparr>"]
  show ?thesis by (simp add: Let_def)
qed

text \<open>
  The budget does not cover a wait on somebody outside the fleet. Its directive has no recipient,
  so when it climbs the first copy goes to the parent unchecked: six members blocked on the human
  give their parent six messages in one cycle, past the four an hour that bound an agent's.
\<close>

definition six_waiting :: fleet where
  "six_waiting = fleet_of ''alpha'' (lead_row ''pp'' # map (\<lambda>n. under ''pp'' (blocked_row n [''human'']))
     [''w1'', ''w2'', ''w3'', ''w4'', ''w5'', ''w6''])"

definition two_cycles :: "fleet \<Rightarrow> int \<Rightarrow> plan" where
  "two_cycles f t =
     (let i1 = input_of f 1; i2 = input_of f t;
          mem = fst (MakePlan (Assess (\<lambda>_. []) [] None i1 empty_memory) i1 (empty_memory\<lparr>mem_cycles := 1\<rparr>))
      in snd (MakePlan (Assess (\<lambda>_. []) [] None i2 mem) i2 mem))"

lemma unaddressed_over_budget:
  "MaxPerHour < length (filter (\<lambda>ac. ac_to ac = ''pp'') (pl_actions (two_cycles six_waiting 1000000)))"
  by code_simp

section \<open>The ladder\<close>

lemma hour_memory_ladder [simp]:
  "mem_ladder (prune_sent to now mem) = mem_ladder mem" "mem_ladder (spend to now mem) = mem_ladder mem"
  "mem_cycles (prune_sent to now mem) = mem_cycles mem" "mem_cycles (spend to now mem) = mem_cycles mem"
  "mem_interval_sec (prune_sent to now mem) = mem_interval_sec mem" "mem_interval_sec (spend to now mem) = mem_interval_sec mem"
  "mem_interval_sec (set_rung k r mem) = mem_interval_sec mem"
  "mem_ladder (set_rung k r mem) = AList.update k r (mem_ladder mem)"
  by (simp_all add: prune_sent_def spend_def set_rung_def)

text \<open>Sending appends actions under the candidate's key and leaves the ladder and the interval.\<close>

definition sends :: "candidate \<Rightarrow> cycle \<Rightarrow> cycle \<Rightarrow> bool" where
  "sends c cy cy' \<longleftrightarrow> mem_ladder (cy_mem cy') = mem_ladder (cy_mem cy) \<and>
     mem_interval_sec (cy_mem cy') = mem_interval_sec (cy_mem cy) \<and>
     (\<exists>acts. pl_actions (cy_plan cy') = pl_actions (cy_plan cy) @ acts \<and> (\<forall>ac \<in> set acts. ac_key ac = ladderKey c))"

lemma sends_refl [simp]: "sends c cy cy"
  by (simp add: sends_def)

lemma sends_trans: "sends c x y \<Longrightarrow> sends c y z \<Longrightarrow> sends c x z"
  unfolding sends_def by (metis Un_iff append.assoc set_append)

lemma sends_mem: "mem_ladder m = mem_ladder (cy_mem cy) \<Longrightarrow> mem_interval_sec m = mem_interval_sec (cy_mem cy) \<Longrightarrow>
    sends c cy (cy\<lparr>cy_mem := m\<rparr>)"
  by (simp add: sends_def)

lemma sends_add: "sends c cy (add_action f c level now to cy)"
  by (simp add: sends_def add_action_def)

lemma sends_alert: "sends c cy (add_alert x cy)"
  by (simp add: sends_def add_alert_def)

lemma sends_copy: "sends c cy (copy_action a f c level now to cy)"
proof (cases "budgetOK (cy_mem cy) a c to now (cy_per cy)")
  case (Pair m ok)
  then have "sends c cy (cy\<lparr>cy_mem := m\<rparr>)"
    by (intro sends_mem) (auto simp: budgetOK_def split: if_splits)
  then show ?thesis using Pair sends_add sends_trans by (simp add: copy_action_def)
qed

lemma sends_copies: "sends c cy (fold (copy_action a f c level now) rs cy)"
proof (induction rs arbitrary: cy)
  case Nil
  show ?case by simp
next
  case (Cons r rs)
  show ?case unfolding fold_simps(2) by (rule sends_trans [OF sends_copy Cons.IH])
qed

lemma sends_all: "sends c cy (send_all a f c level now rs cy)"
  unfolding send_all_def
  by (cases rs) (auto intro: sends_trans [OF sends_add sends_copies])

lemma sends_raise: "sends c cy (raise_alerts d level cy)"
  by (simp add: sends_def raise_alerts_def add_alert_def)

text \<open>What one candidate does to the cycle: nothing said, or said with its rung written.\<close>

definition climbed :: "candidate \<Rightarrow> int \<Rightarrow> cycle \<Rightarrow> bool" where
  "climbed c now cy \<longleftrightarrow> (\<exists>r. alist_get (mem_ladder (cy_mem cy)) (ladderKey c) = Some r \<and>
     rg_fingerprint r = cd_fp c \<and> rg_sent_at r = now)"

definition others_kept :: "candidate \<Rightarrow> cycle \<Rightarrow> cycle \<Rightarrow> bool" where
  "others_kept c cy cy' \<longleftrightarrow> (\<forall>k. k \<noteq> ladderKey c \<longrightarrow>
     alist_get (mem_ladder (cy_mem cy')) k = alist_get (mem_ladder (cy_mem cy)) k)"

definition candidate_step :: "candidate \<Rightarrow> int \<Rightarrow> cycle \<Rightarrow> cycle \<Rightarrow> bool" where
  "candidate_step c now cy cy' \<longleftrightarrow>
     mem_interval_sec (cy_mem cy') = mem_interval_sec (cy_mem cy) \<and>
     (\<exists>acts. pl_actions (cy_plan cy') = pl_actions (cy_plan cy) @ acts \<and> (\<forall>ac \<in> set acts. ac_key ac = ladderKey c) \<and>
        (climbed c now cy' \<and> others_kept c cy cy' \<or>
         acts = [] \<and> mem_ladder (cy_mem cy') = mem_ladder (cy_mem cy)))"

lemma climb_step: "sends c cy cy' \<Longrightarrow> candidate_step c now cy (climb c level now cy')"
  by (auto simp: sends_def candidate_step_def climb_def climbed_def others_kept_def)

lemma alert_step: "candidate_step c now cy cy' \<Longrightarrow> candidate_step c now cy (add_alert x cy')"
  by (simp add: candidate_step_def add_alert_def climbed_def others_kept_def)

lemma quiet_step: "sends c cy cy' \<Longrightarrow> pl_actions (cy_plan cy') = pl_actions (cy_plan cy) \<Longrightarrow> candidate_step c now cy cy'"
  by (simp add: sends_def candidate_step_def)

lemma send_candidate_step: "candidate_step c now cy (send_candidate a f now level c cy)"
proof -
  let ?rs = "recipients a f c level"
  obtain m ok where bo: "check_first a c now cy = (m, ok)" by (cases "check_first a c now cy") auto
  have s1: "sends c cy (cy\<lparr>cy_mem := m\<rparr>)"
    using bo by (intro sends_mem) (auto simp: check_first_def budgetOK_def split: if_splits)
  define cy4 where "cy4 = raise_alerts c level (send_all a f c level now ?rs (cy\<lparr>cy_mem := m\<rparr>))"
  have s4: "sends c cy cy4"
    unfolding cy4_def by (rule sends_trans [OF s1 sends_trans [OF sends_all sends_raise]])
  consider (held) "\<not> ok" | (said) "ok" "?rs \<noteq> [] \<or> (cd_alert c \<noteq> [] \<and> level = 1) \<or> 3 \<le> level"
    | (nobody) "ok" "?rs = []" "\<not> (cd_alert c \<noteq> [] \<and> level = 1)" "\<not> 3 \<le> level" by blast
  then show ?thesis
  proof cases
    case held
    then have "send_candidate a f now level c cy =
        cy\<lparr>cy_mem := m, cy_plan := (cy_plan cy)\<lparr>pl_held := pl_held (cy_plan cy) + 1\<rparr>\<rparr>"
      unfolding send_candidate_run [OF bo] by simp
    then show ?thesis using s1 by (simp add: sends_def candidate_step_def)
  next
    case said
    then have "send_candidate a f now level c cy = climb c level now cy4"
      unfolding send_candidate_run [OF bo] cy4_def Let_def by (simp only: not_True_eq_False if_False if_True)
    then show ?thesis using climb_step [OF s4] by simp
  next
    case nobody
    then have "send_candidate a f now level c cy = cy4"
      unfolding send_candidate_run [OF bo] cy4_def Let_def by (simp only: not_True_eq_False if_False simp_thms)
    moreover have "pl_actions (cy_plan cy4) = pl_actions (cy_plan cy)"
      using nobody unfolding cy4_def raise_alerts_def by (auto simp: send_all_def)
    ultimately show ?thesis using quiet_step [OF s4] by simp
  qed
qed

lemma plan_candidate_step:
  "candidate_step c now cy (plan_candidate a f now gap warm c cy)"
  using quiet_step [OF sends_refl refl] climb_step [OF sends_refl] alert_step send_candidate_step
  unfolding plan_candidate_def Let_def by (simp split: option.split)









text \<open>Only the keys of the fleet's confirmation change between the ladder of a cycle and the next.\<close>

lemma risk_head_ladder:
  "mem_ladder (fst (fold (risk_head f now) hs (m, acts))) = mem_ladder m \<and>
   mem_interval_sec (fst (fold (risk_head f now) hs (m, acts))) = mem_interval_sec m"
  by (induction hs arbitrary: m acts) (auto simp: risk_head_def Let_def)

lemma spend_all_keeps:
  "mem_ladder (fold (\<lambda>h m. spend h now m) hs m) = mem_ladder m \<and>
   mem_interval_sec (fold (\<lambda>h m. spend h now m) hs m) = mem_interval_sec m"
  by (induction hs arbitrary: m) auto

definition warn_heads :: "assessment \<Rightarrow> fleet \<Rightarrow> memory \<Rightarrow> string list \<Rightarrow> int \<Rightarrow> memory \<times> action list" where
  "warn_heads a f mem heads now =
     (if (stateRank (mem_last_state mem) < stateRank (as_state a) \<and> mem_last_state mem \<noteq> []) \<and> as_state a \<noteq> StateNoGoal
      then fold (risk_head f now) heads (mem, []) else (mem, []))"

lemma warn_heads_keeps:
  "mem_ladder (fst (warn_heads a f mem heads now)) = mem_ladder mem \<and>
   mem_interval_sec (fst (warn_heads a f mem heads now)) = mem_interval_sec mem"
  using risk_head_ladder [of f now heads mem "[]"] by (simp add: warn_heads_def)

lemma fleetActions_memory:
  "\<exists>l. fst (fleetActions a f mem heads now) = l \<and> mem_interval_sec l = mem_interval_sec mem \<and>
     (\<forall>k. k \<noteq> ''CONFIRM|'' @ f_name f \<longrightarrow> alist_get (mem_ladder l) k = alist_get (mem_ladder mem) k)"
proof -
  obtain m1 acts1 where r: "warn_heads a f mem heads now = (m1, acts1)" by (cases "warn_heads a f mem heads now") auto
  have m1: "mem_ladder m1 = mem_ladder mem" "mem_interval_sec m1 = mem_interval_sec mem"
    using warn_heads_keeps [of a f mem heads now] r by simp_all
  show ?thesis
    unfolding fleetActions_def warn_heads_def [symmetric] Let_def r prod.case
    using m1 spend_all_keeps [of now heads m1] by simp
qed



lemma report_keeps:
  "mem_ladder (fst (report a mem p now cfg)) = mem_ladder mem \<and>
   mem_interval_sec (fst (report a mem p now cfg)) = mem_interval_sec mem"
  by (simp add: report_def)






section \<open>After a restart\<close>

lemma warm_step: "plan_candidate a f now gap True c cy = cy"
  by (simp add: plan_candidate_def split: option.split)

lemma warm_fold: "fold (plan_candidate a f now gap True) cs cy = cy"
  by (induction cs) (simp_all add: warm_step)

lemma warm_plan:
  "mem_cycles mem = 0 \<Longrightarrow>
   plan_cycle a i mem = \<lparr>cy_mem = mem\<lparr>mem_cycles := mem_cycles mem + 1,
     mem_ladder := live_ladder (order_candidates a (candidates a (in_fleet i) (in_now i) (in_config i))) (mem_ladder mem)\<rparr>,
     cy_per = [], cy_plan = empty_plan\<rparr>"
  by (simp add: plan_cycle_def Let_def warm_fold)

text \<open>
  The first cycle of a memory sends and alerts nothing, as the guard against a restarted daemon
  sending everything again asks; but it leaves no rung, so in the cycle after it every directive
  is at its first level again, whatever had been said before the restart.
\<close>

lemma restart_forgets:
  "pl_actions (snd (MakePlan a i empty_memory)) = [] \<and> pl_alerts (snd (MakePlan a i empty_memory)) = [] \<and>
   next_level (mem_ladder (fst (MakePlan a i empty_memory))) t gap c = Some 1"
proof -
  have "live_ladder cs (mem_ladder empty_memory) = []" for cs by (simp add: live_ladder_def empty_memory_def)
  moreover have "mem_cycles empty_memory = 0" by (simp add: empty_memory_def)
  ultimately show ?thesis
    by (auto simp: MakePlan_def Let_def warm_plan report_def empty_plan_def next_level_def alist_get_def split: prod.split)
qed

section \<open>The cadence\<close>

lemma fold_interval:
  "mem_interval_sec (cy_mem (fold (plan_candidate a f now gap warm) cs cy)) = mem_interval_sec (cy_mem cy)"
proof (induction cs arbitrary: cy)
  case Nil
  show ?case by simp
next
  case (Cons c cs)
  have "mem_interval_sec (cy_mem (plan_candidate a f now gap warm c cy)) = mem_interval_sec (cy_mem cy)"
    using plan_candidate_step by (auto simp: candidate_step_def)
  then show ?case unfolding fold_simps(2) using Cons.IH by simp
qed

lemma plan_cycle_interval: "mem_interval_sec (cy_mem (plan_cycle a i mem)) = mem_interval_sec mem"
  by (simp add: plan_cycle_def Let_def fold_interval)

lemma MakePlan_cadence:
  "\<exists>mem3 p. mem_interval_sec mem3 = mem_interval_sec mem \<and> pl_actions p = pl_actions (snd (MakePlan a i mem)) \<and>
     pl_alerts p = pl_alerts (snd (MakePlan a i mem)) \<and> pl_held p = pl_held (snd (MakePlan a i mem)) \<and>
     pl_next_sec (snd (MakePlan a i mem)) = cadence a mem3 p (in_config i) \<and>
     mem_interval_sec (fst (MakePlan a i mem)) = cadence a mem3 p (in_config i)"
proof -
  obtain mem2 acts where r: "(if mem_cycles mem = 0 then (cy_mem (plan_cycle a i mem), [])
      else fleetActions a (in_fleet i) (cy_mem (plan_cycle a i mem)) (headsOf (in_fleet i)) (in_now i)) = (mem2, acts)"
    by (cases "if mem_cycles mem = 0 then (cy_mem (plan_cycle a i mem), [])
      else fleetActions a (in_fleet i) (cy_mem (plan_cycle a i mem)) (headsOf (in_fleet i)) (in_now i)") auto
  then have "mem_interval_sec mem2 = mem_interval_sec mem"
    using fleetActions_memory [of a "in_fleet i" "cy_mem (plan_cycle a i mem)" "headsOf (in_fleet i)" "in_now i"]
    by (auto simp: plan_cycle_interval split: if_splits)
  moreover define p where "p = (cy_plan (plan_cycle a i mem))\<lparr>pl_actions := pl_actions (cy_plan (plan_cycle a i mem)) @ acts\<rparr>"
  moreover define mem3 where "mem3 = fst (report a (mem2\<lparr>mem_last_state := as_state a\<rparr>) p (in_now i) (in_config i))"
  ultimately have "mem_interval_sec mem3 = mem_interval_sec mem" using report_keeps by simp
  then show ?thesis
    unfolding MakePlan_def Let_def r prod.case p_def [symmetric]
    by (intro exI [of _ mem3] exI [of _ p]) (simp add: mem3_def case_prod_beta)
qed

text \<open>
  with a validated configuration the next look is due within its bounds, at the shortest interval
  whenever something was sent, raised or held back or the mode is fixed, and otherwise after at most
  twice the last interval; the memory keeps it. The last interval is assumed to be one of this
  configuration.
\<close>

theorem cadence_bounds:
  assumes "GoalExec_Validate g = None" and "in_config i = GoalExec_Resolved (Some g)"
    and "mem_interval_sec mem = 0 \<or> ge_min_sec (in_config i) \<le> mem_interval_sec mem"
  shows "let (mem', p) = MakePlan a i mem; cfg = in_config i
    in ge_min_sec cfg \<le> pl_next_sec p \<and> pl_next_sec p \<le> ge_max_sec cfg \<and> mem_interval_sec mem' = pl_next_sec p \<and>
       (pl_next_sec p = ge_min_sec cfg \<or>
        ge_mode cfg \<noteq> GoalExecFixed \<and> pl_actions p = [] \<and> pl_alerts p = [] \<and> pl_held p = 0 \<and>
        pl_next_sec p \<le> 2 * mem_interval_sec mem)"
proof -
  have cfg: "60 \<le> ge_min_sec (in_config i)" "ge_min_sec (in_config i) \<le> ge_max_sec (in_config i)"
    using assms(1) unfolding assms(2)
    by (auto simp: GoalExec_Validate_def GoalExec_Resolved_def Let_def split: if_splits)
  obtain mem' p where mp: "MakePlan a i mem = (mem', p)" by (cases "MakePlan a i mem")
  then obtain mem3 p3 where c: "mem_interval_sec mem3 = mem_interval_sec mem" "pl_actions p3 = pl_actions p"
    "pl_alerts p3 = pl_alerts p" "pl_held p3 = pl_held p" "pl_next_sec p = cadence a mem3 p3 (in_config i)"
    "mem_interval_sec mem' = cadence a mem3 p3 (in_config i)"
    using MakePlan_cadence [of mem a i] by auto
  show ?thesis
    unfolding mp Let_def prod.case using c cfg assms(3) by (auto simp: cadence_def is_calm_def min_def)
qed

theorem cadence_bounds_witness:
  "60 \<le> pl_next_sec (snd (MakePlan (Assess (\<lambda>_. []) [] None (input_of diamond 7) empty_memory)
     (input_of diamond 7) empty_memory))"
proof -
  have g: "GoalExec_Validate \<lparr>ge_mode = [], ge_min_sec = 0, ge_max_sec = 0\<rparr> = None" by code_simp
  have c: "in_config (input_of diamond 7) = GoalExec_Resolved (Some \<lparr>ge_mode = [], ge_min_sec = 0, ge_max_sec = 0\<rparr>)"
    by code_simp
  have m: "mem_interval_sec empty_memory = 0 \<or> ge_min_sec (in_config (input_of diamond 7)) \<le> mem_interval_sec empty_memory"
    by (simp add: empty_memory_def)
  have "60 \<le> ge_min_sec (in_config (input_of diamond 7))" by code_simp
  then show ?thesis
    using cadence_bounds [OF g c m, of "Assess (\<lambda>_. []) [] None (input_of diamond 7) empty_memory"]
    unfolding Let_def by (auto simp: case_prod_beta)
qed

end
