(* ===== verification/WatchProperties.thy ===== *)
theory WatchProperties
  imports PlanProperties
begin

text \<open>
  What the goal executor's observation keeps, two places where its signals and its cadence differ from
  what their comments say, and the command inbox it reads.
\<close>

section \<open>Cadence after a change of configuration\<close>

definition with_config :: "input \<Rightarrow> int \<Rightarrow> int \<Rightarrow> input" where
  "with_config i lo hi = i\<lparr>in_config := GoalExec_Resolved (Some \<lparr>ge_mode = [], ge_min_sec = lo, ge_max_sec = hi\<rparr>)\<rparr>"

definition next_after_change :: "int \<Rightarrow> int \<Rightarrow> int \<Rightarrow> int \<Rightarrow> int" where
  "next_after_change lo hi lo' hi' =
     (let i = input_of steady_fleet 7;
          a = Assess (\<lambda>_. []) [] None i empty_memory;
          mem = fst (MakePlan a (with_config i lo hi) empty_memory)
      in pl_next_sec (snd (MakePlan a (with_config i lo' hi') mem)))"

text \<open>
  The last interval is kept when the configuration changes, and only its double is bounded, from
  above: a fleet looked at every minute whose minimum is raised to an hour is looked at again after two
  minutes, below the minimum that was just set.
\<close>

lemma cadence_below_minimum:
  "GoalExec_Validate \<lparr>ge_mode = [], ge_min_sec = 60, ge_max_sec = 3600\<rparr> = None \<and>
   GoalExec_Validate \<lparr>ge_mode = [], ge_min_sec = 3600, ge_max_sec = 7200\<rparr> = None \<and>
   next_after_change 60 3600 3600 7200 = 120"
  by (intro conjI; code_simp)

section \<open>Signals\<close>

text \<open>
  The signal of a member that works on screen while it has declared itself idle or done is named
  \<open>not-converging\<close>, the name of another signal: the prefix \<open>working on\<close> is tested before \<open>working on
  screen\<close>, so \<open>undeclared\<close> is never a part of a fingerprint.
\<close>

lemma undeclared_named_not_converging:
  "signalNames (stray_undeclared samples) = map (\<lambda>_. ''not-converging'') (stray_undeclared samples)"
  by (simp add: stray_undeclared_def signalNames_def Let_def signal_name_def)

section \<open>Observation\<close>

lemma samples_of_update [simp]:
  "samples_of (AList.update k v ss) i = (if i = k then v else samples_of ss i)"
  by (simp add: samples_of_def)

lemma observe_fold:
  "distinct (map m_pane ms) \<Longrightarrow>
   samples_of (fold (add_sample now) ms ss) i =
     (case List.find (\<lambda>m. m_pane m = i) ms of
        None \<Rightarrow> samples_of ss i
      | Some m \<Rightarrow> last_n sampleCap (samples_of ss i @ [sample_of now m]))"
proof (induction ms arbitrary: ss)
  case Nil
  show ?case by simp
next
  case (Cons m ms)
  have "List.find (\<lambda>x. m_pane x = m_pane m) ms = None" 
    unfolding find_None_all using Cons.prems by (simp add: image_iff) metis
  then show ?case using Cons by (auto simp: add_sample_def split: option.split)
qed

lemma samples_of_filter: "samples_of (filter (\<lambda>ks. fst ks \<in> A) ss) i = (if i \<in> A then samples_of ss i else [])"
proof -
  have "alist_get (filter (\<lambda>ks. fst ks \<in> A) ss) i = (if i \<in> A then alist_get ss i else None)"
    by (induction ss) (auto simp: alist_get_def)
  then show ?thesis by (simp add: samples_of_def)
qed

lemma length_last_n [simp]: "length (last_n n xs) = min n (length xs)"
  by (simp add: last_n_def)

text \<open>
  an observation adds one sample to each member, keeps the twelve newest, and keeps nothing of a
  pane that is no member; the rest of the memory is untouched.
\<close>

theorem observe_bounded:
  assumes "distinct (map m_pane (f_members (in_fleet i)))"
  shows "(\<forall>m \<in> set (f_members (in_fleet i)).
       samples_of (mem_samples (GoalObserve mem i)) (m_pane m) =
         last_n sampleCap (samples_of (mem_samples mem) (m_pane m) @ [sample_of (in_now i) m])) \<and>
    (\<forall>p. p \<notin> set (map m_pane (f_members (in_fleet i))) \<longrightarrow> samples_of (mem_samples (GoalObserve mem i)) p = []) \<and>
    (\<forall>p. length (samples_of (mem_samples (GoalObserve mem i)) p) \<le> sampleCap) \<and>
    (GoalObserve mem i)\<lparr>mem_samples := mem_samples mem\<rparr> = mem"
proof -
  let ?ms = "f_members (in_fleet i)"
  have out: "samples_of (mem_samples (GoalObserve mem i)) p =
      (case List.find (\<lambda>m. m_pane m = p) ?ms of None \<Rightarrow> []
       | Some m \<Rightarrow> last_n sampleCap (samples_of (mem_samples mem) p @ [sample_of (in_now i) m]))" for p
    unfolding GoalObserve_def Let_def
    by (auto simp: samples_of_filter observe_fold [OF assms] find_None_iff split: option.split dest!: find_Some_iff2)
  have kept: "(GoalObserve mem i)\<lparr>mem_samples := mem_samples mem\<rparr> = mem" by (simp add: GoalObserve_def Let_def)
  have "List.find (\<lambda>m. m_pane m = p) ?ms = None" if "p \<notin> set (map m_pane ?ms)" for p
    using that by (auto simp: find_None_iff)
  then show ?thesis
    using kept find_map_unique [OF assms] by (simp add: out split: option.split)
qed

theorem observe_bounded_witness:
  "length (samples_of (mem_samples (GoalObserve empty_memory (input_of diamond 7))) ''cc'') \<le> sampleCap"
proof -
  have "distinct (map m_pane (f_members (in_fleet (input_of diamond 7))))"
    by (simp add: input_of_def diamond_def fleet_of_def blocked_row_def member_row_def)
  from observe_bounded [OF this] show ?thesis by blast
qed

section \<open>The command inbox\<close>

lemma answers_folded: "answers pane p (fold (answer_item pane) posts it) = answers pane p it"
  by (simp add: answers_def)

lemma item_fold_exact:
  fixes pane posts q
  defines "it \<equiv> fold (answer_item pane) posts (item_of q)"
  shows "(i_answered it \<longleftrightarrow> (\<exists>p \<in> set posts. answers pane p it)) \<and>
    (i_answered it \<longrightarrow> i_ack_ts it = Min (p_ts ` {p \<in> set posts. answers pane p it}))"
proof (intro conjI impI)
  have a: "answers pane p it = answers pane p (item_of q)" for p by (simp add: it_def answers_folded)
  show "i_answered it \<longleftrightarrow> (\<exists>p \<in> set posts. answers pane p it)"
    unfolding a unfolding it_def answer_fold_answered by (simp add: item_of_def)
  assume ans: "i_answered it"
  have "(\<exists>p \<in> set posts. answers pane p (item_of q) \<and> i_ack_ts it = p_ts p) \<and>
      (\<forall>p \<in> set posts. answers pane p (item_of q) \<longrightarrow> i_ack_ts it \<le> p_ts p)"
    using answer_fold_ack [OF ans [unfolded it_def]] by (simp add: it_def) (simp add: item_of_def)
  then show "i_ack_ts it = Min (p_ts ` {p \<in> set posts. answers pane p it})"
    unfolding a by (intro Min_eqI [symmetric]) auto
qed

text \<open>
  C15: the inbox of a pane holds each command addressed to it once, by its sender and id and newest
  first; a command is answered exactly when the pane has posted an acknowledgement of it or anything
  but a command in its thread, and its answer has the time of the first of these posts.
\<close>

theorem inbox_exact:
  assumes "pane \<noteq> []"
  shows "distinct (map (\<lambda>it. (i_from_pane it, i_cmd_id it)) (Inbox ts pane)) \<and>
    sorted_wrt (\<lambda>a b. i_ts b \<le> i_ts a) (Inbox ts pane) \<and>
    (\<lambda>it. (i_from_pane it, i_cmd_id it)) ` set (Inbox ts pane) =
      (\<lambda>p. (p_pane p, p_cmd_id p)) ` {p \<in> set (thread_posts ts). is_command_to pane p} \<and>
    (\<forall>it \<in> set (Inbox ts pane).
       (i_answered it \<longleftrightarrow> (\<exists>p \<in> set (thread_posts ts). answers pane p it)) \<and>
       (i_answered it \<longrightarrow> i_ack_ts it = Min (p_ts ` {p \<in> set (thread_posts ts). answers pane p it})))"
proof (intro conjI ballI)
  let ?posts = "thread_posts ts" and ?key = "\<lambda>it. (i_from_pane it, i_cmd_id it)"
  have box: "Inbox ts pane = newest_first (inbox_items ts pane)" using assms by (simp add: Inbox_def)
  have "mset (map ?key (Inbox ts pane)) = mset (map ?key (inbox_items ts pane))" by (simp add: box)
  then show "distinct (map ?key (Inbox ts pane))"
    using inbox_items_distinct [of ts pane] mset_eq_imp_distinct_iff by blast
  show "sorted_wrt (\<lambda>a b. i_ts b \<le> i_ts a) (Inbox ts pane)" unfolding box by (rule newest_first_sorted)
  have "?key ` set (Inbox ts pane) = set (keys (fold (collect_item pane) ?posts []))"
    unfolding box newest_first_set set_map [symmetric] inbox_items_keys ..
  also have "\<dots> = (\<lambda>p. (p_pane p, p_cmd_id p)) ` {p \<in> set ?posts. is_command_to pane p}"
  proof (rule set_eqI)
    fix k
    have "k \<in> set (keys (fold (collect_item pane) ?posts [])) \<longleftrightarrow>
        List.find (\<lambda>p. is_command_to pane p \<and> (p_pane p, p_cmd_id p) = k) ?posts \<noteq> None"
      using alist_get_None_iff [of "fold (collect_item pane) ?posts []" k] collect_items_get [of pane ?posts "[]" k]
      by (auto simp: alist_get_def)
    then show "k \<in> set (keys (fold (collect_item pane) ?posts [])) \<longleftrightarrow>
        k \<in> (\<lambda>p. (p_pane p, p_cmd_id p)) ` {p \<in> set ?posts. is_command_to pane p}"
      unfolding find_None_all by blast
  qed
  finally show "?key ` set (Inbox ts pane) = (\<lambda>p. (p_pane p, p_cmd_id p)) ` {p \<in> set ?posts. is_command_to pane p}" .
  fix it assume "it \<in> set (Inbox ts pane)"
  then obtain ki where ki: "ki \<in> set (fold (collect_item pane) ?posts [])" "it = fold (answer_item pane) ?posts (snd ki)"
    unfolding box newest_first_set inbox_items_eq by auto
  obtain q where "snd ki = item_of q" using collected_items [OF ki(1)] by blast
  then have it: "it = fold (answer_item pane) ?posts (item_of q)" using ki(2) by simp
  show "i_answered it \<longleftrightarrow> (\<exists>p \<in> set ?posts. answers pane p it)"
    and "i_answered it \<longrightarrow> i_ack_ts it = Min (p_ts ` {p \<in> set ?posts. answers pane p it})"
    unfolding it using item_fold_exact [of pane ?posts q] by blast+
qed

definition post_of :: "string \<Rightarrow> string \<Rightarrow> string \<Rightarrow> string \<Rightarrow> int \<Rightarrow> board_post" where
  "post_of pane kind to cmd ts = \<lparr>p_pane = pane, p_persona = pane, p_kind = kind, p_text = [], p_thread = ''t'',
     p_ts = ts, p_to_pane = to, p_cmd_id = cmd, p_file = [], p_version = 1\<rparr>"

theorem inbox_exact_witness:
  "distinct (map (\<lambda>it. (i_from_pane it, i_cmd_id it)) (Inbox
     [\<lparr>t_key = ''t'', t_root = Some (post_of ''bb'' BoardKindCmd ''aa'' ''c1'' 5),
       t_replies = [post_of ''aa'' ''post'' [] [] 9, post_of ''aa'' BoardKindAck [] ''c1'' 7]\<rparr>] ''aa''))"
proof -
  have "''aa'' \<noteq> ([]::string)" by simp
  from inbox_exact [OF this] show ?thesis by blast
qed

end
