(* ===== verification/ShellScan.thy ===== *)
theory ShellScan
  imports GoStrings
begin

text \<open>
  The reader of shell command lines (\<open>internal/shellscan/shellscan.go\<close>): the segments of a line between
  control operators outside quotes, what hides in it, and the words of a segment.

  The code walks over runes and the model over bytes: every character either looks at is ASCII, and no
  byte of a longer rune is. A zero rune stands for the end of the line in the code, so a zero byte
  does here.
\<close>

section \<open>Scanning a line\<close>

datatype quote = NoQuote | SingleQuote | DoubleQuote

record scan_result =
  sr_segments :: "string list"
  sr_redirect :: bool
  sr_subst :: bool
  sr_unbalanced :: bool
  sr_opaque :: bool

abbreviation tab_char :: char where "tab_char \<equiv> CHR 0x09"
abbreviation newline_char :: char where "newline_char \<equiv> CHR 0x0A"
abbreviation dquote_char :: char where "dquote_char \<equiv> CHR 0x22"
abbreviation squote_char :: char where "squote_char \<equiv> CHR 0x27"
abbreviation backslash_char :: char where "backslash_char \<equiv> CHR 0x5C"
abbreviation backtick_char :: char where "backtick_char \<equiv> CHR 0x60"

definition Unsafe :: "scan_result \<Rightarrow> bool" where
  "Unsafe r \<longleftrightarrow> sr_redirect r \<or> sr_subst r \<or> sr_unbalanced r \<or> sr_opaque r"

definition Chained :: "scan_result \<Rightarrow> bool" where
  "Chained r \<longleftrightarrow> 1 < length (sr_segments r)"

definition empty_scan :: scan_result where
  "empty_scan = \<lparr>sr_segments = [], sr_redirect = False, sr_subst = False, sr_unbalanced = False, sr_opaque = False\<rparr>"

definition flush_segment :: "string \<Rightarrow> scan_result \<Rightarrow> scan_result" where
  "flush_segment cur r = (if trim_space cur = [] then r else r\<lparr>sr_segments := sr_segments r @ [trim_space cur]\<rparr>)"

definition next_char :: "string \<Rightarrow> char" where
  "next_char s = (case s of [] \<Rightarrow> CHR 0x00 | c # _ \<Rightarrow> c)"

definition is_operator :: "char \<Rightarrow> bool" where
  "is_operator c \<longleftrightarrow> c = CHR '';'' \<or> c = newline_char \<or> c = CHR ''|'' \<or> c = CHR ''&''"

definition starts_word :: "char \<Rightarrow> bool" where
  "starts_word c \<longleftrightarrow> c = CHR '' '' \<or> c = tab_char \<or> c = CHR ''<'' \<or> c = CHR ''('' \<or> c = CHR '')''"

text \<open>The two \<open>switch\<close> statements: what a character means outside quotes and inside double quotes.\<close>

datatype reading = Hides | Unfinished | Escapes | OpensSingle | OpensDouble | Substitutes | Redirects | Separates
  | Closes | Stays

definition read_outside :: "bool \<Rightarrow> char \<Rightarrow> char \<Rightarrow> reading" where
  "read_outside word c nx =
     (if c = CHR ''#'' \<and> word then Hides
      else if c = CHR ''$'' \<and> nx = squote_char then Hides
      else if c = CHR ''<'' \<and> nx = CHR ''<'' then Hides
      else if c = backslash_char then (if nx = CHR 0x00 then Unfinished else Escapes)
      else if c = squote_char then OpensSingle
      else if c = dquote_char then OpensDouble
      else if c = backtick_char \<or> (c = CHR ''$'' \<and> nx = CHR ''('') then Substitutes
      else if (c = CHR ''<'' \<or> c = CHR ''>'') \<and> nx = CHR ''('' then Substitutes
      else if c = CHR ''>'' then Redirects
      else if is_operator c then Separates
      else Stays)"

definition read_double :: "char \<Rightarrow> char \<Rightarrow> reading" where
  "read_double c nx =
     (if c = backslash_char \<and> nx \<noteq> CHR 0x00 then Escapes
      else if c = dquote_char then Closes
      else if c = backtick_char \<or> (c = CHR ''$'' \<and> nx = CHR ''('') then Substitutes
      else Stays)"

text \<open>A doubled \<open>&\<close> or \<open>|\<close> is consumed whole.\<close>

definition after_operator :: "char \<Rightarrow> string \<Rightarrow> string" where
  "after_operator c s = (if (c = CHR ''&'' \<or> c = CHR ''|'') \<and> next_char s = c then tl s else s)"

lemma length_after_operator [simp]: "length (after_operator c s) < Suc (length s)"
  by (cases s) (simp_all add: after_operator_def)

fun scan_loop :: "quote \<Rightarrow> bool \<Rightarrow> string \<Rightarrow> scan_result \<Rightarrow> string \<Rightarrow> scan_result" where
  "scan_loop q word cur r [] =
     flush_segment cur (if q \<noteq> NoQuote then r\<lparr>sr_unbalanced := True\<rparr> else r)"
| "scan_loop SingleQuote word cur r (c # s) =
     scan_loop (if c = squote_char then NoQuote else SingleQuote) word (cur @ [c]) r s"
| "scan_loop DoubleQuote word cur r (c # s) =
     (case read_double c (next_char s) of
        Escapes \<Rightarrow> scan_loop DoubleQuote word (cur @ [c, next_char s]) r (tl s)
      | Closes \<Rightarrow> scan_loop NoQuote word (cur @ [c]) r s
      | Substitutes \<Rightarrow> scan_loop DoubleQuote word (cur @ [c]) (r\<lparr>sr_subst := True\<rparr>) s
      | _ \<Rightarrow> scan_loop DoubleQuote word (cur @ [c]) r s)"
| "scan_loop NoQuote word cur r (c # s) =
     (case read_outside word c (next_char s) of
        Hides \<Rightarrow> scan_loop NoQuote (starts_word c) (cur @ [c]) (r\<lparr>sr_opaque := True\<rparr>) s
      | Unfinished \<Rightarrow> scan_loop NoQuote (starts_word c) cur (r\<lparr>sr_unbalanced := True\<rparr>) s
      | Escapes \<Rightarrow> scan_loop NoQuote (starts_word c) (cur @ [c, next_char s]) r (tl s)
      | OpensSingle \<Rightarrow> scan_loop SingleQuote (starts_word c) (cur @ [c]) r s
      | OpensDouble \<Rightarrow> scan_loop DoubleQuote (starts_word c) (cur @ [c]) r s
      | Substitutes \<Rightarrow> scan_loop NoQuote (starts_word c) (cur @ [c]) (r\<lparr>sr_subst := True\<rparr>) s
      | Redirects \<Rightarrow> scan_loop NoQuote (starts_word c) (cur @ [c]) (r\<lparr>sr_redirect := True\<rparr>) s
      | Separates \<Rightarrow> scan_loop NoQuote True [] (flush_segment cur r) (after_operator c s)
      | _ \<Rightarrow> scan_loop NoQuote (starts_word c) (cur @ [c]) r s)"

definition Scan :: "string \<Rightarrow> scan_result" where
  "Scan cmd = scan_loop NoQuote True [] empty_scan cmd"

section \<open>The words of a segment\<close>

text \<open>\<open>cur\<close> is the word so far, with whether one has begun.\<close>

definition end_word :: "string \<Rightarrow> bool \<Rightarrow> string list" where
  "end_word cur inWord = (if inWord then [cur] else [])"

fun fields_loop :: "quote \<Rightarrow> bool \<Rightarrow> string \<Rightarrow> string \<Rightarrow> string list" where
  "fields_loop q inWord cur [] = end_word cur inWord"
| "fields_loop SingleQuote inWord cur (c # s) =
     (if c = squote_char then fields_loop NoQuote inWord cur s else fields_loop SingleQuote inWord (cur @ [c]) s)"
| "fields_loop DoubleQuote inWord cur (c # s) =
     (if c = backslash_char \<and> s \<noteq> [] then fields_loop DoubleQuote inWord (cur @ [hd s]) (tl s)
      else if c = dquote_char then fields_loop NoQuote inWord cur s
      else fields_loop DoubleQuote inWord (cur @ [c]) s)"
| "fields_loop NoQuote inWord cur (c # s) =
     (if c = CHR '' '' \<or> c = tab_char then
        (if inWord then cur # fields_loop NoQuote False [] s else fields_loop NoQuote False cur s)
      else if c = squote_char then fields_loop SingleQuote True cur s
      else if c = dquote_char then fields_loop DoubleQuote True cur s
      else if c = backslash_char \<and> s \<noteq> [] then fields_loop NoQuote True (cur @ [hd s]) (tl s)
      else fields_loop NoQuote True (cur @ [c]) s)"

definition Fields :: "string \<Rightarrow> string list" where
  "Fields seg = fields_loop NoQuote False [] seg"

section \<open>Quoting a word\<close>

text \<open>
  The quoting the program writes command lines with (\<open>shellQuote\<close>): single quotes, with an embedded one
  put outside of them.
\<close>

definition shellQuote :: "string \<Rightarrow> string" where
  "shellQuote s = [squote_char] @
     concat (map (\<lambda>c. if c = squote_char then [squote_char, backslash_char, squote_char, squote_char] else [c]) s) @
     [squote_char]"

text \<open>\<open>shellQuoteArg\<close> quotes only when it needs to, and puts an embedded quote in double quotes.\<close>

definition plain_arg_char :: "char \<Rightarrow> bool" where
  "plain_arg_char c \<longleftrightarrow> c = CHR ''/'' \<or> c = CHR ''-'' \<or> c = CHR ''_'' \<or> c = CHR ''.'' \<or>
     (let n = (of_char c :: nat) in (48 \<le> n \<and> n \<le> 57) \<or> (97 \<le> n \<and> n \<le> 122) \<or> (65 \<le> n \<and> n \<le> 90))"

definition shellQuoteArg :: "string \<Rightarrow> string" where
  "shellQuoteArg s =
     (if s \<noteq> [] \<and> list_all plain_arg_char s then s
      else [squote_char] @
        concat (map (\<lambda>c. if c = squote_char then [squote_char, dquote_char, squote_char, dquote_char, squote_char] else [c]) s) @
        [squote_char])"

section \<open>A reference reading of the quotes\<close>

text \<open>
  The characters of a line, each with the quoting the shell reads it under: none for a quote character
  itself and for a backslash and what it escapes. An unescaped backslash at the end stands for itself.
\<close>

fun marks :: "quote \<Rightarrow> string \<Rightarrow> (quote option \<times> char) list" where
  "marks q [] = []"
| "marks SingleQuote (c # s) =
     (if c = squote_char then (None, c) # marks NoQuote s else (Some SingleQuote, c) # marks SingleQuote s)"
| "marks DoubleQuote (c # s) =
     (if c = backslash_char \<and> s \<noteq> [] then (None, c) # (None, hd s) # marks DoubleQuote (tl s)
      else if c = dquote_char then (None, c) # marks NoQuote s
      else (Some DoubleQuote, c) # marks DoubleQuote s)"
| "marks NoQuote (c # s) =
     (if c = backslash_char \<and> s \<noteq> [] then (None, c) # (None, hd s) # marks NoQuote (tl s)
      else if c = squote_char then (None, c) # marks SingleQuote s
      else if c = dquote_char then (None, c) # marks DoubleQuote s
      else (Some NoQuote, c) # marks NoQuote s)"

text \<open>The pieces of a marked line between its operators.\<close>

fun pieces :: "string \<Rightarrow> (quote option \<times> char) list \<Rightarrow> string list" where
  "pieces cur [] = [cur]"
| "pieces cur ((q, c) # ms) =
     (if q = Some NoQuote \<and> is_operator c then cur # pieces [] ms else pieces (cur @ [c]) ms)"

definition commands :: "string list \<Rightarrow> string list" where
  "commands ps = filter (\<lambda>p. p \<noteq> []) (map trim_space ps)"

lemma commands_simps [simp]:
  "commands [] = []" "commands (p # ps) = (if trim_space p = [] then [] else [trim_space p]) @ commands ps"
  by (simp_all add: commands_def)

lemma flush_segment_simps [simp]:
  "sr_segments (flush_segment cur r) = sr_segments r @ commands [cur]"
  "sr_redirect (flush_segment cur r) = sr_redirect r" "sr_subst (flush_segment cur r) = sr_subst r"
  "sr_unbalanced (flush_segment cur r) = sr_unbalanced r" "sr_opaque (flush_segment cur r) = sr_opaque r"
  by (simp_all add: flush_segment_def)

lemma next_char_Cons [simp]: "next_char (c # s) = c" and next_char_Nil [simp]: "next_char [] = CHR 0x00"
  by (simp_all add: next_char_def)

text \<open>What each reading says of the character read.\<close>

definition syntax_char :: "char \<Rightarrow> bool" where
  "syntax_char c \<longleftrightarrow> c = backslash_char \<or> c = squote_char \<or> c = dquote_char"

lemma operator_not_syntax: "is_operator c \<Longrightarrow> \<not> syntax_char c"
  by (auto simp: is_operator_def syntax_char_def)

lemma read_outside_char:
  "read_outside word c nx = Unfinished \<longleftrightarrow> c = backslash_char \<and> nx = CHR 0x00"
  "read_outside word c nx = Escapes \<longleftrightarrow> c = backslash_char \<and> nx \<noteq> CHR 0x00"
  "read_outside word c nx = OpensSingle \<longleftrightarrow> c = squote_char"
  "read_outside word c nx = OpensDouble \<longleftrightarrow> c = dquote_char"
  "read_outside word c nx = Separates \<longleftrightarrow> is_operator c"
  "read_outside word c nx \<noteq> Closes"
  by (auto simp: read_outside_def is_operator_def)

lemma syntax_reading:
  "syntax_char c \<Longrightarrow> read_outside word c nx \<in> {Unfinished, Escapes, OpensSingle, OpensDouble}"
  by (auto simp: syntax_char_def read_outside_def)

lemma read_double_char:
  "read_double c nx = Escapes \<longleftrightarrow> c = backslash_char \<and> nx \<noteq> CHR 0x00"
  "read_double c nx = Closes \<longleftrightarrow> c = dquote_char"
  by (auto simp: read_double_def)

text \<open>Findings accumulate: a flag once raised stays.\<close>

lemma scan_keeps:
  "(sr_unbalanced r \<longrightarrow> sr_unbalanced (scan_loop q word cur r s)) \<and>
   (sr_redirect r \<longrightarrow> sr_redirect (scan_loop q word cur r s)) \<and>
   (sr_subst r \<longrightarrow> sr_subst (scan_loop q word cur r s)) \<and>
   (sr_opaque r \<longrightarrow> sr_opaque (scan_loop q word cur r s))"
proof (induction q word cur r s rule: scan_loop.induct)
  case (3 word cur r c s)
  then show ?case by (cases "read_double c (next_char s)") simp_all
next
  case (4 word cur r c s)
  then show ?case by (cases "read_outside word c (next_char s)") simp_all
qed simp_all

text \<open>The scanner's segments are the commands between the operators of the reference reading.\<close>

lemma marks_outside: "\<not> syntax_char c \<Longrightarrow> marks NoQuote (c # s) = (Some NoQuote, c) # marks NoQuote s"
  by (simp add: syntax_char_def)

lemma pieces_outside:
  "\<not> syntax_char c \<Longrightarrow> \<not> is_operator c \<Longrightarrow> pieces cur (marks NoQuote (c # s)) = pieces (cur @ [c]) (marks NoQuote s)"
  by (simp only: marks_outside pieces.simps simp_thms if_False)

lemma commands_blank [simp]: "commands ([] # ps) = commands ps"
  by simp

lemma pieces_operator:
  assumes "is_operator c"
  shows "commands (pieces cur (marks NoQuote (c # s))) = commands [cur] @ commands (pieces [] (marks NoQuote (after_operator c s)))"
proof (cases "after_operator c s = s")
  case True
  then show ?thesis
    using assms by (simp only: marks_outside operator_not_syntax not_False_eq_True pieces.simps if_True simp_thms) simp
next
  case False
  then obtain s' where s: "s = c # s'" "after_operator c s = s'"
    by (cases s) (auto simp: after_operator_def next_char_def split: if_splits)
  then show ?thesis
    using assms by (simp only: marks_outside operator_not_syntax not_False_eq_True pieces.simps if_True simp_thms) simp
qed

lemma scan_segments:
  "\<not> sr_unbalanced (scan_loop q word cur r s) \<Longrightarrow> CHR 0x00 \<notin> set s \<Longrightarrow>
   sr_segments (scan_loop q word cur r s) = sr_segments r @ commands (pieces cur (marks q s))"
proof (induction q word cur r s rule: scan_loop.induct)
  case (1 q word cur r)
  then show ?case by simp
next
  case (2 word cur r c s)
  then show ?case by simp
next
  case (3 word cur r c s)
  note ih = "3.IH" and prem = "3.prems"
  show ?case
  proof (cases "read_double c (next_char s) = Escapes")
    case True
    then have c: "c = backslash_char" "next_char s \<noteq> CHR 0x00" by (simp_all add: read_double_char)
    then obtain d s' where "s = d # s'" by (cases s) auto
    then show ?thesis using ih(3) [OF True] prem True c(1) by simp
  next
    case False
    have nul: "s = [] \<or> next_char s \<noteq> CHR 0x00" using prem(2) by (cases s) auto
    then have m: "marks DoubleQuote (c # s) =
        (if c = dquote_char then (None, c) # marks NoQuote s else (Some DoubleQuote, c) # marks DoubleQuote s)"
      using False by (auto simp: read_double_char)
    show ?thesis
    proof (cases "c = dquote_char")
      case True
      then have "read_double c (next_char s) = Closes" by (simp only: read_double_char)
      then show ?thesis using ih(9) prem True unfolding m by simp
    next
      case other: False
      then have "read_double c (next_char s) \<noteq> Closes" by (simp add: read_double_char)
      then show ?thesis
        using ih prem False other unfolding m by (cases "read_double c (next_char s)") simp_all
    qed
  qed
next
  case (4 word cur r c s)
  note ih = "4.IH" and prem = "4.prems"
  have nul: "next_char s = CHR 0x00 \<longleftrightarrow> s = []" using prem(2) by (cases s) auto
  consider "read_outside word c (next_char s) = Unfinished" | "read_outside word c (next_char s) = Escapes"
    | "read_outside word c (next_char s) = OpensSingle" | "read_outside word c (next_char s) = OpensDouble"
    | (op) "read_outside word c (next_char s) = Separates"
    | (other) "read_outside word c (next_char s) \<in> {Hides, Substitutes, Redirects, Stays}"
    using read_outside_char(6) by (cases "read_outside word c (next_char s)") auto
  then show ?case
  proof cases
    case 1
    then show ?thesis using prem(1) scan_keeps [of "r\<lparr>sr_unbalanced := True\<rparr>"] by simp
  next
    case 2
    then have "c = backslash_char" by (simp add: read_outside_char)
    moreover obtain d s' where "s = d # s'" using 2 nul by (cases s) (auto simp: read_outside_char)
    ultimately show ?thesis using ih(3) [OF 2] prem 2 by simp
  next
    case 3
    then have c: "c = squote_char" by (simp add: read_outside_char)
    have "scan_loop NoQuote word cur r (c # s) = scan_loop SingleQuote (starts_word c) (cur @ [c]) r s"
      using 3 by simp
    then show ?thesis using ih(4) [OF 3] prem by (simp add: c)
  next
    case 4
    then have c: "c = dquote_char" by (simp add: read_outside_char)
    have "scan_loop NoQuote word cur r (c # s) = scan_loop DoubleQuote (starts_word c) (cur @ [c]) r s"
      using 4 by simp
    then show ?thesis using ih(5) [OF 4] prem by (simp add: c)
  next
    case op
    then have "is_operator c" by (simp add: read_outside_char)
    have "set (after_operator c s) \<subseteq> set s"
      by (cases s) (auto simp: after_operator_def)
    then have "CHR 0x00 \<notin> set (after_operator c s)" using prem(2) by auto
    with \<open>is_operator c\<close> show ?thesis
      using ih(8) [OF op] prem op by (simp add: pieces_operator del: marks.simps)
  next
    case other
    then have "\<not> syntax_char c" "\<not> is_operator c"
      using syntax_reading [of c word "next_char s"] read_outside_char(5) [of word c "next_char s"] by fastforce+
    note step = pieces_outside [OF this]
    have nul': "CHR 0x00 \<notin> set s" using prem(2) by simp
    from other consider "read_outside word c (next_char s) = Hides" | "read_outside word c (next_char s) = Substitutes"
      | "read_outside word c (next_char s) = Redirects" | "read_outside word c (next_char s) = Stays" by auto
    then show ?thesis
    proof cases
      case 1
      then show ?thesis using ih(1) [OF 1 _ nul'] prem(1) by (simp add: step del: marks.simps)
    next
      case 2
      then show ?thesis using ih(6) [OF 2 _ nul'] prem(1) by (simp add: step del: marks.simps)
    next
      case 3
      then show ?thesis using ih(7) [OF 3 _ nul'] prem(1) by (simp add: step del: marks.simps)
    next
      case 4
      then show ?thesis using ih(10) [OF 4 _ nul'] prem(1) by (simp add: step del: marks.simps)
    qed
  qed
qed

section \<open>What an unflagged line cannot hide\<close>

text \<open>A substitution is read outside single quotes, a redirection outside all of them.\<close>

fun substitutes :: "(quote option \<times> char) list \<Rightarrow> bool" where
  "substitutes [] = False"
| "substitutes ((q, c) # ms) =
     ((q = Some NoQuote \<or> q = Some DoubleQuote) \<and>
        (c = backtick_char \<or> (c = CHR ''$'' \<and> ms \<noteq> [] \<and> snd (hd ms) = CHR ''('')) \<or>
      q = Some NoQuote \<and> c = CHR ''<'' \<and> ms \<noteq> [] \<and> snd (hd ms) = CHR ''('' \<or> substitutes ms)"

definition redirects :: "(quote option \<times> char) list \<Rightarrow> bool" where
  "redirects ms \<longleftrightarrow> (Some NoQuote, CHR ''>'') \<in> set ms"

lemma redirects_simps [simp]: "redirects [] = False"
  "redirects ((q, c) # ms) = (q = Some NoQuote \<and> c = CHR ''>'' \<or> redirects ms)"
  by (auto simp: redirects_def)

lemma marks_next: "snd (hd (marks q (c # s))) = c" "marks q (c # s) \<noteq> []"
  by (cases q; simp)+

lemma marks_next_char: "marks q s \<noteq> [] \<and> snd (hd (marks q s)) = c \<longleftrightarrow> s \<noteq> [] \<and> next_char s = c"
  by (cases s) (simp_all add: marks_next del: marks.simps(2-))

definition reads_plainly :: "quote \<Rightarrow> string \<Rightarrow> bool" where
  "reads_plainly q s \<longleftrightarrow> \<not> substitutes (marks q s) \<and> \<not> redirects (marks q s)"

lemma read_outside_plain:
  assumes "read_outside word c (next_char s) = Stays"
  shows "reads_plainly NoQuote (c # s) = reads_plainly NoQuote s"
proof -
  have "\<not> syntax_char c" using assms syntax_reading [of c word "next_char s"] by auto
  moreover have "c \<noteq> backtick_char" "\<not> (c = CHR ''$'' \<and> next_char s = CHR ''('')" "c \<noteq> CHR ''>''"
    "\<not> (c = CHR ''<'' \<and> next_char s = CHR ''('')"
    using assms by (auto simp: read_outside_def split: if_splits)
  ultimately show ?thesis
    using marks_next_char [of NoQuote s] by (auto simp: reads_plainly_def marks_outside simp del: marks.simps)
qed

lemma operator_plain:
  assumes "is_operator c"
  shows "reads_plainly NoQuote (c # s) = reads_plainly NoQuote (after_operator c s)"
proof -
  have plain: "reads_plainly NoQuote (c # u) = reads_plainly NoQuote u" for u
    using assms by (simp only: reads_plainly_def marks_outside operator_not_syntax not_False_eq_True)
      (auto simp: is_operator_def)
  show ?thesis
  proof (cases "after_operator c s = s")
    case True
    then show ?thesis using plain by simp
  next
    case False
    then obtain s' where "s = c # s'" "after_operator c s = s'"
      by (cases s) (auto simp: after_operator_def next_char_def split: if_splits)
    then show ?thesis using plain by simp
  qed
qed

lemma scan_plain:
  "\<not> Unsafe (scan_loop q word cur r s) \<Longrightarrow> CHR 0x00 \<notin> set s \<Longrightarrow> reads_plainly q s"
proof (induction q word cur r s rule: scan_loop.induct)
  case (1 q word cur r)
  show ?case by (simp add: reads_plainly_def)
next
  case (2 word cur r c s)
  then show ?case by (auto simp: reads_plainly_def)
next
  case (3 word cur r c s)
  note ih = "3.IH" and prem = "3.prems"
  have nul: "next_char s = CHR 0x00 \<longleftrightarrow> s = []" using prem(2) by (cases s) auto
  consider (esc) "read_double c (next_char s) = Escapes" | (close) "read_double c (next_char s) = Closes"
    | (subst) "read_double c (next_char s) = Substitutes" | (stay) "read_double c (next_char s) = Stays"
    by (cases "read_double c (next_char s)") (auto simp: read_double_def split: if_splits)
  then show ?case
  proof cases
    case esc
    then have "c = backslash_char" by (simp add: read_double_char)
    moreover obtain d s' where "s = d # s'" using esc nul by (cases s) (auto simp: read_double_char)
    ultimately show ?thesis using ih(3) [OF esc] prem esc by (auto simp: reads_plainly_def)
  next
    case close
    then have "c = dquote_char" by (simp only: read_double_char)
    then show ?thesis using ih(9) [OF close] prem close by (auto simp: reads_plainly_def)
  next
    case subst
    then show ?thesis using prem scan_keeps [of "r\<lparr>sr_subst := True\<rparr>"] by (simp add: Unsafe_def)
  next
    case stay
    then have "c \<noteq> backtick_char" "\<not> (c = CHR ''$'' \<and> next_char s = CHR ''('')" "c \<noteq> dquote_char"
      "\<not> (c = backslash_char \<and> s \<noteq> [])"
      using nul by (auto simp: read_double_def split: if_splits)
    then show ?thesis
      using ih(10) [OF stay] prem stay marks_next_char [of DoubleQuote s] by (auto simp: reads_plainly_def)
  qed
next
  case (4 word cur r c s)
  note ih = "4.IH" and prem = "4.prems"
  have nul: "next_char s = CHR 0x00 \<longleftrightarrow> s = []" using prem(2) by (cases s) auto
  show ?case
  proof (cases "read_outside word c (next_char s)")
    case Escapes
    then have "c = backslash_char" by (simp add: read_outside_char)
    moreover obtain d s' where "s = d # s'" using Escapes nul by (cases s) (auto simp: read_outside_char)
    ultimately show ?thesis using ih(3) [OF Escapes] prem Escapes by (auto simp: reads_plainly_def)
  next
    case OpensSingle
    then have "c = squote_char" by (simp only: read_outside_char)
    then show ?thesis using ih(4) [OF OpensSingle] prem OpensSingle by (auto simp: reads_plainly_def)
  next
    case OpensDouble
    then have "c = dquote_char" by (simp only: read_outside_char)
    then show ?thesis using ih(5) [OF OpensDouble] prem OpensDouble by (auto simp: reads_plainly_def)
  next
    case Separates
    then have op: "is_operator c" by (simp only: read_outside_char)
    have "set (after_operator c s) \<subseteq> set s" by (cases s) (auto simp: after_operator_def)
    then have "CHR 0x00 \<notin> set (after_operator c s)" using prem(2) by auto
    then show ?thesis
      using ih(8) [OF Separates] prem Separates by (auto simp: operator_plain [OF op])
  next
    case Stays
    then show ?thesis using ih(10) [OF Stays] prem by (simp add: read_outside_plain)
  next
    case Closes
    then show ?thesis using read_outside_char(6) by simp
  next
    case Hides
    then show ?thesis using prem scan_keeps [of "r\<lparr>sr_opaque := True\<rparr>"] by (simp add: Unsafe_def)
  next
    case Unfinished
    then show ?thesis using prem scan_keeps [of "r\<lparr>sr_unbalanced := True\<rparr>"] by (simp add: Unsafe_def)
  next
    case Substitutes
    then show ?thesis using prem scan_keeps [of "r\<lparr>sr_subst := True\<rparr>"] by (simp add: Unsafe_def)
  next
    case Redirects
    then show ?thesis using prem scan_keeps [of "r\<lparr>sr_redirect := True\<rparr>"] by (simp add: Unsafe_def)
  qed
qed

end
