(* ===== verification/ShellQuote.thy ===== *)
theory ShellQuote
  imports ShellScan
begin

text \<open>
  Quoted words read back: a word quoted by \<open>shellQuote\<close> (\<open>internal/actors/workspace_ansa_kill.go\<close>) or
  \<open>shellQuoteArg\<close> (\<open>internal/actors/fleet_watch.go\<close>) is one word for the field splitter and hides nothing
  from the scanner.
\<close>

section \<open>The quoted form\<close>

text \<open>
  What the two share: an opening quote, the characters with an embedded quote spelled outside the
  quotes, a closing quote. \<open>esc\<close> is the spelling, which reads as one quote from inside single quotes.
\<close>

definition spell :: "string \<Rightarrow> char \<Rightarrow> string" where
  "spell esc c = (if c = squote_char then esc else [c])"

abbreviation backslash_spelling :: string where
  "backslash_spelling \<equiv> [squote_char, backslash_char, squote_char, squote_char]"

abbreviation dquote_spelling :: string where
  "dquote_spelling \<equiv> [squote_char, dquote_char, squote_char, dquote_char, squote_char]"

definition quote_with :: "string \<Rightarrow> string \<Rightarrow> string" where
  "quote_with esc w = squote_char # concat (map (spell esc) w) @ [squote_char]"

lemma shellQuote_with: "shellQuote w = quote_with backslash_spelling w"
  by (simp add: shellQuote_def quote_with_def spell_def [abs_def])

lemma shellQuoteArg_with:
  "shellQuoteArg w = (if w \<noteq> [] \<and> list_all plain_arg_char w then w else quote_with dquote_spelling w)"
  by (simp add: shellQuoteArg_def quote_with_def spell_def [abs_def])

section \<open>Fields\<close>

lemma fields_spelled:
  assumes "esc = backslash_spelling \<or> esc = dquote_spelling"
  shows "fields_loop SingleQuote True cur (concat (map (spell esc) w) @ squote_char # rest) =
    fields_loop NoQuote True (cur @ w) rest"
proof (induction w arbitrary: cur)
  case Nil
  show ?case by simp
next
  case (Cons c w)
  then show ?case using assms by (auto simp: spell_def)
qed

lemma fields_quoted:
  "esc = backslash_spelling \<or> esc = dquote_spelling \<Longrightarrow>
   fields_loop NoQuote inWord cur (quote_with esc w @ rest) = fields_loop NoQuote True (cur @ w) rest"
  by (simp add: quote_with_def fields_spelled)

lemma plain_arg_chars:
  assumes "plain_arg_char c"
  shows "c \<noteq> CHR '' ''" "c \<noteq> tab_char" "c \<noteq> squote_char" "c \<noteq> dquote_char" "c \<noteq> backslash_char"
    "c \<noteq> CHR ''#''" "c \<noteq> CHR ''$''" "c \<noteq> CHR ''<''" "c \<noteq> CHR ''>''" "c \<noteq> backtick_char" "\<not> is_operator c"
    "c \<noteq> CHR ''(''" "c \<noteq> CHR '')''"
  using assms by (auto simp: plain_arg_char_def Let_def is_operator_def)

lemma fields_plain:
  "list_all plain_arg_char w \<Longrightarrow> fields_loop NoQuote True cur (w @ rest) = fields_loop NoQuote True (cur @ w) rest"
proof (induction w arbitrary: cur)
  case Nil
  show ?case by simp
next
  case (Cons c w)
  then have "plain_arg_char c" by simp
  note plain_arg_chars [OF this]
  then show ?case using Cons by simp
qed

text \<open>A quoted word, by either function, is read as that word.\<close>

definition reads_as :: "string \<Rightarrow> string \<Rightarrow> bool" where
  "reads_as q w \<longleftrightarrow> (\<forall>rest. fields_loop NoQuote False [] (q @ rest) = fields_loop NoQuote True w rest)"

lemma shellQuote_reads: "reads_as (shellQuote w) w"
  by (simp add: reads_as_def shellQuote_with fields_quoted)

lemma shellQuoteArg_reads: "reads_as (shellQuoteArg w) w"
proof (cases "w \<noteq> [] \<and> list_all plain_arg_char w")
  case True
  then obtain c v where w: "w = c # v" "plain_arg_char c" by (cases w) auto
  note plain_arg_chars [OF w(2)]
  then show ?thesis
    using True w(1) fields_plain [of v "[c]"] by (simp add: reads_as_def shellQuoteArg_with)
next
  case False
  then show ?thesis by (auto simp: reads_as_def shellQuoteArg_with fields_quoted)
qed

lemma fields_join:
  "(\<And>w. w \<in> set ws \<Longrightarrow> reads_as (q w) w) \<Longrightarrow> Fields (join_with '' '' (map q ws)) = ws"
proof (induction ws)
  case Nil
  show ?case by (simp add: Fields_def end_word_def)
next
  case (Cons w ws)
  have w: "fields_loop NoQuote False [] (q w @ rest) = fields_loop NoQuote True w rest" for rest
    using Cons.prems by (simp add: reads_as_def)
  show ?case
  proof (cases ws)
    case Nil
    then show ?thesis using w [of "[]"] by (simp add: Fields_def end_word_def)
  next
    case (Cons v vs)
    then have "Fields (join_with '' '' (map q (w # ws))) = w # Fields (join_with '' '' (map q ws))"
      using w by (simp add: Fields_def)
    then show ?thesis using Cons.IH Cons.prems by simp
  qed
qed

section \<open>The scanner\<close>

lemma scan_spelled:
  assumes "esc = backslash_spelling \<or> esc = dquote_spelling"
  shows "scan_loop SingleQuote False cur r (concat (map (spell esc) w) @ squote_char # rest) =
    scan_loop NoQuote False (cur @ concat (map (spell esc) w) @ [squote_char]) r rest"
proof (induction w arbitrary: cur)
  case Nil
  show ?case by simp
next
  case (Cons c w)
  show ?case
  proof (cases "c = squote_char")
    case True
    then show ?thesis
      using assms Cons by (elim disjE) (simp_all add: spell_def read_outside_def read_double_def starts_word_def)
  next
    case False
    then show ?thesis using Cons by (simp add: spell_def)
  qed
qed

lemma scan_quoted:
  "esc = backslash_spelling \<or> esc = dquote_spelling \<Longrightarrow>
   scan_loop NoQuote word cur r (quote_with esc w @ rest) = scan_loop NoQuote False (cur @ quote_with esc w) r rest"
  by (simp add: quote_with_def read_outside_def starts_word_def scan_spelled)

lemma read_plain_arg: "plain_arg_char c \<Longrightarrow> read_outside word c nx = Stays"
  using plain_arg_chars [of c] by (simp add: read_outside_def)

lemma scan_plain_word:
  "list_all plain_arg_char w \<Longrightarrow> w \<noteq> [] \<Longrightarrow>
   scan_loop NoQuote word cur r (w @ rest) = scan_loop NoQuote False (cur @ w) r rest"
proof (induction w arbitrary: cur word)
  case Nil
  then show ?case by simp
next
  case (Cons c w)
  then have c: "plain_arg_char c" by simp
  then have "\<not> starts_word c" using plain_arg_chars [OF c] by (simp add: starts_word_def)
  then show ?case using Cons c by (cases "w = []") (simp_all add: read_plain_arg)
qed

definition inert :: "string \<Rightarrow> bool" where
  "inert q \<longleftrightarrow> q \<noteq> [] \<and> (\<forall>word cur r rest. scan_loop NoQuote word cur r (q @ rest) = scan_loop NoQuote False (cur @ q) r rest)"

lemma shellQuote_inert: "inert (shellQuote w)"
  by (simp add: inert_def shellQuote_with scan_quoted) (simp add: quote_with_def)

lemma shellQuoteArg_inert: "inert (shellQuoteArg w)"
proof (cases "w \<noteq> [] \<and> list_all plain_arg_char w")
  case True
  then show ?thesis by (simp add: inert_def shellQuoteArg_with scan_plain_word)
next
  case False
  then have "shellQuoteArg w = quote_with dquote_spelling w" by (simp only: shellQuoteArg_with if_False)
  then show ?thesis by (simp add: inert_def scan_quoted) (simp add: quote_with_def)
qed

lemma scan_join:
  "(\<And>q. q \<in> set qs \<Longrightarrow> inert q) \<Longrightarrow> qs \<noteq> [] \<Longrightarrow>
   scan_loop NoQuote word cur r (join_with '' '' qs) = flush_segment (cur @ join_with '' '' qs) r"
proof (induction qs arbitrary: word cur)
  case Nil
  then show ?case by simp
next
  case (Cons q qs)
  have q: "scan_loop NoQuote word cur r (q @ rest) = scan_loop NoQuote False (cur @ q) r rest" for word cur rest
    using Cons.prems(1) by (simp add: inert_def)
  show ?case
  proof (cases "qs = []")
    case True
    then show ?thesis using q [of word cur "[]"] by simp
  next
    case False
    then have j: "join_with '' '' (q # qs) = q @ '' '' @ join_with '' '' qs" by (rule join_with_Cons)
    have "scan_loop NoQuote word cur r (join_with '' '' (q # qs)) =
        scan_loop NoQuote True (cur @ q @ '' '') r (join_with '' '' qs)"
      unfolding j using q by (simp add: read_outside_def starts_word_def is_operator_def)
    also have "\<dots> = flush_segment (cur @ q @ '' '' @ join_with '' '' qs) r"
      using Cons.IH [of True "cur @ q @ '' ''"] Cons.prems(1) False by simp
    finally show ?thesis unfolding j .
  qed
qed

section \<open>Ends that are not blank\<close>

definition visible :: "char \<Rightarrow> bool" where
  "visible c \<longleftrightarrow> 32 < (of_char c :: nat) \<and> (of_char c :: nat) < 128"

lemma trim_space_visible:
  assumes "s \<noteq> []" and "visible (hd s)" and "visible (last s)"
  shows "trim_space s = s"
proof -
  have no: "drop_encodings es (c # t) = c # t" if "\<And>e. e \<in> set es \<Longrightarrow> e \<noteq> [] \<Longrightarrow> hd e \<noteq> c" for es c t
  proof -
    have "\<not> (e \<noteq> [] \<and> has_prefix (c # t) e)" if "e \<in> set es" for e
      using \<open>\<And>e. e \<in> set es \<Longrightarrow> e \<noteq> [] \<Longrightarrow> hd e \<noteq> c\<close> [OF that] by (cases e) auto
    then have "List.find (\<lambda>e. e \<noteq> [] \<and> has_prefix (c # t) e) es = None" by (auto simp: find_None_iff)
    then show ?thesis by (simp add: drop_encodings.simps [of es "c # t"])
  qed
  have starts: "hd e \<noteq> c" if "e \<in> set space_encodings" "visible c" for e c
    using that by (auto simp: space_encodings_def visible_def)
  have ends: "hd e \<noteq> c" if "e \<in> set (map rev space_encodings)" "visible c" for e c
    using that by (auto simp: space_encodings_def visible_def)
  obtain c t where s: "s = c # t" "visible c" using assms by (cases s) auto
  obtain d u where r: "rev s = d # u" "visible d"
    using assms by (cases "rev s") (auto simp: last_rev hd_rev [symmetric])
  have "trim_left_space s = s" unfolding trim_left_space_def s(1) by (rule no) (use starts s(2) in blast)
  moreover have "drop_encodings (map rev space_encodings) (rev s) = rev s"
    unfolding r(1) by (rule no) (use ends r(2) in blast)
  ultimately show ?thesis by (simp add: trim_space_def trim_right_space_def)
qed

lemma join_ends:
  "qs \<noteq> [] \<Longrightarrow> (\<And>q. q \<in> set qs \<Longrightarrow> q \<noteq> []) \<Longrightarrow>
   join_with sep qs \<noteq> [] \<and> hd (join_with sep qs) = hd (hd qs) \<and> last (join_with sep qs) = last (last qs)"
proof (induction qs)
  case Nil
  then show ?case by simp
next
  case (Cons q qs)
  then show ?case by (cases qs) auto
qed

text \<open>A quoted word begins and ends with a visible character.\<close>

definition visible_ends :: "string \<Rightarrow> bool" where
  "visible_ends q \<longleftrightarrow> q \<noteq> [] \<and> visible (hd q) \<and> visible (last q)"

lemma quote_with_ends: "visible_ends (quote_with esc w)"
  by (simp add: visible_ends_def quote_with_def visible_def)

lemma plain_arg_visible: "plain_arg_char c \<Longrightarrow> visible c"
  by (auto simp: plain_arg_char_def visible_def Let_def)

lemma shellQuote_ends: "visible_ends (shellQuote w)"
  by (simp add: shellQuote_with quote_with_ends)

lemma shellQuoteArg_ends: "visible_ends (shellQuoteArg w)"
proof (cases "w \<noteq> [] \<and> list_all plain_arg_char w")
  case True
  then have "plain_arg_char (hd w)" "plain_arg_char (last w)" by (simp_all add: list_all_iff)
  then show ?thesis using True by (simp add: visible_ends_def shellQuoteArg_with plain_arg_visible)
next
  case False
  then have "shellQuoteArg w = quote_with dquote_spelling w" by (simp only: shellQuoteArg_with if_False)
  then show ?thesis by (simp add: quote_with_ends)
qed

lemma join_visible:
  "qs \<noteq> [] \<Longrightarrow> (\<And>q. q \<in> set qs \<Longrightarrow> visible_ends q) \<Longrightarrow> visible_ends (join_with sep qs)"
  using join_ends [of qs sep] by (simp add: visible_ends_def)

lemma quote_reads: "q = shellQuote \<or> q = shellQuoteArg \<Longrightarrow> reads_as (q w) w"
  by (auto simp: shellQuote_reads shellQuoteArg_reads)

text \<open>A line of quoted words is one segment, with nothing raised.\<close>

lemma quoted_line_scan:
  assumes "ws \<noteq> []" and "q = shellQuote \<or> q = shellQuoteArg"
  shows "Scan (join_with '' '' (map q ws)) = empty_scan\<lparr>sr_segments := [join_with '' '' (map q ws)]\<rparr>"
proof -
  have quoted: "inert w" "visible_ends w" if "w \<in> set (map q ws)" for w
    using that assms(2) by (auto simp: shellQuote_inert shellQuoteArg_inert shellQuote_ends shellQuoteArg_ends)
  have "visible_ends (join_with '' '' (map q ws))"
    using assms(1) quoted(2) by (intro join_visible) auto
  then have "trim_space (join_with '' '' (map q ws)) = join_with '' '' (map q ws)" "join_with '' '' (map q ws) \<noteq> []"
    by (auto simp: visible_ends_def trim_space_visible)
  moreover have "Scan (join_with '' '' (map q ws)) = flush_segment (join_with '' '' (map q ws)) empty_scan"
    using assms(1) scan_join [OF quoted(1), of "map q ws"] by (simp add: Scan_def)
  ultimately show ?thesis by (simp add: flush_segment_def empty_scan_def)
qed

end
