(* ===== verification/ShellProperties.thy ===== *)
theory ShellProperties
  imports ShellQuote
begin

text \<open>
  What the readers of command lines promise: the scanner against the reference reading of quotes, and
  quoted words through the scanner and the field splitter.
\<close>

text \<open>
  C16: A line the scanner does not flag is read exactly: its segments are the commands between the
  operators of the reference reading of its quotes, and that reading has no substitution and no output
  redirection anywhere in it.
\<close>

theorem scan_reads:
  assumes "\<not> Unsafe (Scan cmd)" and "CHR 0x00 \<notin> set cmd"
  shows "sr_segments (Scan cmd) = commands (pieces [] (marks NoQuote cmd)) \<and>
    \<not> substitutes (marks NoQuote cmd) \<and> \<not> redirects (marks NoQuote cmd)"
proof -
  have "\<not> sr_unbalanced (scan_loop NoQuote True [] empty_scan cmd)"
    using assms(1) by (simp add: Unsafe_def Scan_def)
  from scan_segments [OF this assms(2)] scan_plain [of NoQuote True "[]" empty_scan cmd] show ?thesis
    using assms by (simp add: Scan_def empty_scan_def reads_plainly_def)
qed

theorem scan_reads_witness:
  "sr_segments (Scan ''git log | wc -l'') = commands (pieces [] (marks NoQuote ''git log | wc -l''))"
proof -
  have "\<not> Unsafe (Scan ''git log | wc -l'')" by code_simp
  moreover have "CHR 0x00 \<notin> set ''git log | wc -l''" by simp
  ultimately show ?thesis by (rule scan_reads [THEN conjunct1])
qed



end
