(* ===== verification/PolicyFile.thy ===== *)
theory PolicyFile
  imports GoStrings
begin

text \<open>
  The policy file (\<open>internal/policy/policy.go\<close>, and the checks of its sections in \<open>fs.go\<close> and
  \<open>memory.go\<close>): the resolved rule set, loading it from the project and the organisation, and the merge
  of the two.

  The YAML decoder is third-party code: \<open>decode\<close> stands for it, giving the document's fields or the
  decoder's message. The file system is \<open>read\<close>, what \<open>os.ReadFile\<close> answers for a path. A \<open>nil\<close> policy is
  \<open>None\<close>.
\<close>

section \<open>The rule set\<close>

record fs_spec =
  fs_read_only :: "string list"
  fs_read_write :: "string list"
  fs_deny :: "string list"

record semantic_spec =
  ss_enabled :: "bool option"
  ss_embedder_url :: string
  ss_model :: string
  ss_dim :: int
  ss_allow_remote :: "bool option"
  ss_auto_recall :: "bool option"
  ss_auto_recall_bytes :: int

record memory_spec =
  ms_enabled :: "bool option"
  ms_inject :: "bool option"
  ms_max_inject_bytes :: int
  ms_semantic :: "semantic_spec option"
  ms_set :: bool

text \<open>Why a file was refused.\<close>

datatype glob_error = EmptyGlob | UnsupportedCharacter | UserHome | InnerDollar | ParentSegment

datatype parse_error =
  BadYaml string
| BadFSGlob string nat string glob_error
| BadMaxInjectBytes
| BadAutoRecallBytes
| BadDim
| SemanticIncomplete

datatype policy_error =
  ReadFailed string
| ParseFailed string parse_error
| OrgMissing string
| OrgReadFailed string string
| OrgParseFailed string parse_error
| Joined policy_error policy_error

record policy =
  p_bash_allow :: "string list"
  p_bash_deny :: "string list"
  p_auto_approve :: "string list"
  p_always_gate :: "string list"
  p_budget_ceilings :: "(string \<times> int) list"
  p_proxy_required :: bool
  p_proxy_strict :: bool
  p_snat_required :: "string list"
  p_fs :: fs_spec
  p_org_fs :: fs_spec
  p_memory :: memory_spec
  p_org_memory :: memory_spec
  p_org_bash_allow :: "string list"
  p_org_bash_deny :: "string list"
  p_org_auto_approve :: "string list"
  p_org_always_gate :: "string list"
  p_path :: string
  p_loaded :: bool
  p_err :: "policy_error option"
  p_org_path :: string
  p_org_active :: bool
  p_project_loaded :: bool

definition no_fs :: fs_spec where
  "no_fs = \<lparr>fs_read_only = [], fs_read_write = [], fs_deny = []\<rparr>"

definition no_memory :: memory_spec where
  "no_memory = \<lparr>ms_enabled = None, ms_inject = None, ms_max_inject_bytes = 0, ms_semantic = None, ms_set = False\<rparr>"

text \<open>\<open>Empty\<close>.\<close>

definition Empty_policy :: policy where
  "Empty_policy = \<lparr>p_bash_allow = [], p_bash_deny = [], p_auto_approve = [], p_always_gate = [],
     p_budget_ceilings = [], p_proxy_required = False, p_proxy_strict = False, p_snat_required = [],
     p_fs = no_fs, p_org_fs = no_fs, p_memory = no_memory, p_org_memory = no_memory,
     p_org_bash_allow = [], p_org_bash_deny = [], p_org_auto_approve = [], p_org_always_gate = [],
     p_path = [], p_loaded = False, p_err = None, p_org_path = [], p_org_active = False,
     p_project_loaded = False\<rparr>"

section \<open>Parsing\<close>

text \<open>The decoded document. The memory section comes with the keys it names.\<close>

record yaml_policy =
  y_bash_allow :: "string list"
  y_bash_deny :: "string list"
  y_auto_approve :: "string list"
  y_always_gate :: "string list"
  y_ceilings :: "(string \<times> int) list"
  y_proxy_required :: bool
  y_proxy_strict :: bool
  y_snat_required :: "string list"
  y_fs :: fs_spec
  y_memory :: "memory_spec option"
  y_memory_keys :: "string list"

definition strip_home :: "string \<Rightarrow> string" where
  "strip_home g =
     (let whole = (\<lambda>pfx. g = pfx \<or> has_prefix g (pfx @ ''/''))
      in if whole ''${HOME}'' then trim_prefix g ''${HOME}''
         else if whole ''$HOME'' then trim_prefix g ''$HOME'' else g)"

definition unsupported_chars :: string where
  "unsupported_chars = [CHR 0x00, CHR 0x5C, CHR ''['', CHR '']'', CHR ''{'', CHR ''}'']"

definition validateFSGlob :: "string \<Rightarrow> glob_error option" where
  "validateFSGlob g0 =
     (let g = trim_space g0; rest = strip_home g
      in if g = [] then Some EmptyGlob
         else if contains_any g unsupported_chars then Some UnsupportedCharacter
         else if has_prefix g ''~'' \<and> g \<noteq> ''~'' \<and> \<not> has_prefix g ''~/'' then Some UserHome
         else if CHR ''$'' \<in> set rest then Some InnerDollar
         else if ''..'' \<in> set (split_on CHR ''/'' rest) then Some ParentSegment
         else None)"

fun check_globs :: "string \<Rightarrow> nat \<Rightarrow> string list \<Rightarrow> parse_error option" where
  "check_globs class i [] = None"
| "check_globs class i (g # gs) =
     (case validateFSGlob g of Some e \<Rightarrow> Some (BadFSGlob class i g e) | None \<Rightarrow> check_globs class (Suc i) gs)"

text \<open>
  \<open>parseFS\<close> after the decoder: the classes are visited in the order of a Go map, which is unspecified, so
  of several bad globs the one reported is one of them.
\<close>

definition parseFS :: "fs_spec \<Rightarrow> (parse_error, fs_spec) result" where
  "parseFS spec =
     (case check_globs ''read_only'' 0 (fs_read_only spec) of
        Some e \<Rightarrow> Inl e
      | None \<Rightarrow> (case check_globs ''read_write'' 0 (fs_read_write spec) of
          Some e \<Rightarrow> Inl e
        | None \<Rightarrow> (case check_globs ''deny'' 0 (fs_deny spec) of Some e \<Rightarrow> Inl e | None \<Rightarrow> Inr spec)))"

abbreviation DefaultMemoryInjectBytes :: int where "DefaultMemoryInjectBytes \<equiv> 4096"
abbreviation maxMemoryInjectBytes :: int where "maxMemoryInjectBytes \<equiv> 16384"
abbreviation maxSemanticDim :: int where "maxSemanticDim \<equiv> 8192"
abbreviation DefaultAutoRecallBytes :: int where "DefaultAutoRecallBytes \<equiv> 1500"
abbreviation maxAutoRecallBytes :: int where "maxAutoRecallBytes \<equiv> 8192"

definition check_semantic :: "semantic_spec \<Rightarrow> parse_error option" where
  "check_semantic s =
     (if ss_auto_recall_bytes s < 0 \<or> maxAutoRecallBytes < ss_auto_recall_bytes s then Some BadAutoRecallBytes
      else if ss_dim s < 0 \<or> maxSemanticDim < ss_dim s then Some BadDim
      else if ss_enabled s = Some True \<and> (trim_space (ss_model s) = [] \<or> ss_dim s = 0) then Some SemanticIncomplete
      else None)"

definition parseMemory :: "memory_spec option \<Rightarrow> string list \<Rightarrow> (parse_error, memory_spec) result" where
  "parseMemory node ks =
     (case node of
        None \<Rightarrow> Inr no_memory
      | Some spec \<Rightarrow>
          if ''max_inject_bytes'' \<in> set ks \<and>
             (ms_max_inject_bytes spec \<le> 0 \<or> maxMemoryInjectBytes < ms_max_inject_bytes spec)
          then Inl BadMaxInjectBytes
          else (case Option.bind (ms_semantic spec) check_semantic of
              Some e \<Rightarrow> Inl e
            | None \<Rightarrow> Inr (spec\<lparr>ms_set := True\<rparr>)))"

definition parse :: "(string \<Rightarrow> (string, yaml_policy) result) \<Rightarrow> string \<Rightarrow> string \<Rightarrow> (parse_error, policy) result" where
  "parse decode data path =
     (case decode data of
        Inl e \<Rightarrow> Inl (BadYaml e)
      | Inr yp \<Rightarrow>
          (case parseFS (y_fs yp) of
             Inl e \<Rightarrow> Inl e
           | Inr fs \<Rightarrow>
               (case parseMemory (y_memory yp) (y_memory_keys yp) of
                  Inl e \<Rightarrow> Inl e
                | Inr mem \<Rightarrow> Inr (Empty_policy\<lparr>
                    p_fs := fs, p_memory := mem,
                    p_bash_allow := y_bash_allow yp, p_bash_deny := y_bash_deny yp,
                    p_auto_approve := y_auto_approve yp, p_always_gate := y_always_gate yp,
                    p_budget_ceilings := y_ceilings yp,
                    p_proxy_required := y_proxy_required yp, p_proxy_strict := y_proxy_strict yp,
                    p_snat_required := y_snat_required yp, p_path := path, p_loaded := True\<rparr>))))"

section \<open>Loading\<close>

datatype file_read = NotExist | Unreadable string | Contents string

abbreviation FileName :: string where "FileName \<equiv> ''policy.yaml''"

text \<open>\<open>path\<close> is the file's name under the project's \<open>.rysh\<close> directory.\<close>

definition Load :: "(string \<Rightarrow> (string, yaml_policy) result) \<Rightarrow> (string \<Rightarrow> file_read) \<Rightarrow> string \<Rightarrow> policy" where
  "Load decode read path =
     (case read path of
        NotExist \<Rightarrow> Empty_policy
      | Unreadable e \<Rightarrow> Empty_policy\<lparr>p_path := path, p_err := Some (ReadFailed e)\<rparr>
      | Contents data \<Rightarrow>
          (case parse decode data path of
             Inl e \<Rightarrow> Empty_policy\<lparr>p_path := path, p_err := Some (ParseFailed FileName e)\<rparr>
           | Inr p \<Rightarrow> p))"

definition LoadOrg :: "(string \<Rightarrow> (string, yaml_policy) result) \<Rightarrow> (string \<Rightarrow> file_read) \<Rightarrow> string \<Rightarrow> policy option" where
  "LoadOrg decode read path0 =
     (let path = trim_space path0
      in if path = [] then None
         else Some (case read path of
             NotExist \<Rightarrow> Empty_policy\<lparr>p_path := path, p_err := Some (OrgMissing path)\<rparr>
           | Unreadable e \<Rightarrow> Empty_policy\<lparr>p_path := path, p_err := Some (OrgReadFailed path e)\<rparr>
           | Contents data \<Rightarrow>
               (case parse decode data path of
                  Inl e \<Rightarrow> Empty_policy\<lparr>p_path := path, p_err := Some (OrgParseFailed path e)\<rparr>
                | Inr p \<Rightarrow> p)))"

section \<open>Merging\<close>

definition unionStrings :: "string list \<Rightarrow> string list \<Rightarrow> string list" where
  "unionStrings a b = (if a = [] then b else fold (\<lambda>s out. append_unique out s) b a)"

text \<open>\<open>errors.Join\<close>.\<close>

definition join_errors :: "policy_error option \<Rightarrow> policy_error option \<Rightarrow> policy_error option" where
  "join_errors a b =
     (case (a, b) of (Some x, Some y) \<Rightarrow> Some (Joined x y) | (Some x, None) \<Rightarrow> Some x | (None, _) \<Rightarrow> b)"

text \<open>One ceiling of the project's, laid over the org's.\<close>

definition lower_ceiling :: "string \<times> int \<Rightarrow> (string \<times> int) list \<Rightarrow> (string \<times> int) list" where
  "lower_ceiling = (\<lambda>(i, c) m. (case alist_get m i of
     None \<Rightarrow> AList.update i c m
   | Some cur \<Rightarrow> if c < cur then AList.update i c m else m))"

definition merge_ceilings :: "(string \<times> int) list \<Rightarrow> (string \<times> int) list \<Rightarrow> (string \<times> int) list" where
  "merge_ceilings org project = fold lower_ceiling project (fold (\<lambda>(i, c) m. AList.update i c m) org [])"

definition merge_parsed :: "policy \<Rightarrow> policy \<Rightarrow> policy" where
  "merge_parsed org project =
     (if p_err org \<noteq> None \<or> p_err project \<noteq> None then
        Empty_policy\<lparr>p_err := join_errors (p_err org) (p_err project), p_org_path := p_path org,
          p_path := (if p_err org \<noteq> None then p_path org else p_path project)\<rparr>
      else \<lparr>p_bash_allow = p_bash_allow project, p_bash_deny = p_bash_deny project,
        p_auto_approve = p_auto_approve project, p_always_gate = p_always_gate project,
        p_budget_ceilings = merge_ceilings (p_budget_ceilings org) (p_budget_ceilings project),
        p_proxy_required = (p_proxy_required org \<or> p_proxy_required project),
        p_proxy_strict = (p_proxy_strict org \<or> p_proxy_strict project),
        p_snat_required = unionStrings (p_snat_required org) (p_snat_required project),
        p_fs = p_fs project, p_org_fs = p_fs org, p_memory = p_memory project, p_org_memory = p_memory org,
        p_org_bash_allow = p_bash_allow org, p_org_bash_deny = p_bash_deny org,
        p_org_auto_approve = p_auto_approve org, p_org_always_gate = p_always_gate org,
        p_path = p_path project, p_loaded = True, p_err = None, p_org_path = p_path org,
        p_org_active = True, p_project_loaded = p_loaded project\<rparr>)"

definition Merge :: "policy option \<Rightarrow> policy option \<Rightarrow> policy option" where
  "Merge org project =
     (case org of
        None \<Rightarrow> project
      | Some og \<Rightarrow> Some (merge_parsed og (case project of None \<Rightarrow> Empty_policy | Some pr \<Rightarrow> pr)))"

section \<open>What the operations give\<close>

lemma set_unionStrings [simp]: "set (unionStrings a b) = set a \<union> set b"
  by (auto simp: unionStrings_def fold_append_unique_set)

lemma join_errors_None [simp]: "join_errors a b = None \<longleftrightarrow> a = None \<and> b = None"
  by (auto simp: join_errors_def split: option.splits)

text \<open>Of two ceilings the lower, where both are set.\<close>

fun lower_of :: "int option \<Rightarrow> int option \<Rightarrow> int option" where
  "lower_of None b = b"
| "lower_of a None = a"
| "lower_of (Some x) (Some y) = Some (min x y)"

lemma lower_of_None [simp]: "lower_of a None = a"
  by (cases a) simp_all

lemma alist_get_simps:
  "alist_get [] k = None" "alist_get ((a, v) # m) k = (if k = a then Some v else alist_get m k)"
  by (simp_all add: alist_get_def)

lemma alist_get_lower_ceiling:
  "alist_get (lower_ceiling (i, c) m) j = (if j = i then lower_of (alist_get m i) (Some c) else alist_get m j)"
  by (auto simp: lower_ceiling_def split: option.splits)

lemma fold_update_get:
  "distinct (keys m) \<Longrightarrow>
   alist_get (fold (\<lambda>(i, c) m. AList.update i c m) m acc) j =
     (case alist_get m j of None \<Rightarrow> alist_get acc j | Some c \<Rightarrow> Some c)"
proof (induction m arbitrary: acc)
  case Nil
  show ?case by (simp add: alist_get_simps)
next
  case (Cons kv m)
  obtain k v where "kv = (k, v)" by (cases kv)
  moreover have "k \<notin> set (keys m) \<Longrightarrow> alist_get m k = None" by (simp add: alist_get_None_iff)
  ultimately show ?case using Cons by (auto simp: alist_get_simps split: option.splits)
qed

lemma fold_lower_get:
  "distinct (keys m) \<Longrightarrow> alist_get (fold lower_ceiling m acc) j = lower_of (alist_get acc j) (alist_get m j)"
proof (induction m arbitrary: acc)
  case Nil
  show ?case by (simp add: alist_get_simps)
next
  case (Cons kv m)
  obtain k v where kv: "kv = (k, v)" by (cases kv)
  then have "alist_get m k = None" using Cons.prems by (simp add: alist_get_None_iff)
  then show ?case using Cons kv by (auto simp: alist_get_simps alist_get_lower_ceiling)
qed

lemma merge_ceilings_get:
  "alist_wf org \<Longrightarrow> alist_wf project \<Longrightarrow>
   alist_get (merge_ceilings org project) i = lower_of (alist_get org i) (alist_get project i)"
  unfolding merge_ceilings_def alist_wf_def
  by (simp add: fold_lower_get fold_update_get) (simp add: alist_get_simps split: option.splits)

text \<open>A policy that carries an error carries no rules.\<close>

definition bare :: "policy \<Rightarrow> bool" where
  "bare p \<longleftrightarrow> p = Empty_policy\<lparr>p_err := p_err p, p_path := p_path p, p_org_path := p_org_path p\<rparr>"

lemma parse_ok:
  "parse decode data path = Inr p \<Longrightarrow> p_err p = None \<and> p_loaded p \<and> p_path p = path \<and> \<not> p_org_active p"
  by (auto simp: parse_def Empty_policy_def split: sum.splits)

lemma Load_err: "p_err (Load decode read path) \<noteq> None \<Longrightarrow> bare (Load decode read path)"
  by (auto simp: Load_def bare_def Empty_policy_def dest: parse_ok split: file_read.splits sum.splits)

lemma LoadOrg_err: "LoadOrg decode read path = Some p \<Longrightarrow> p_err p \<noteq> None \<Longrightarrow> bare p"
  by (auto simp: LoadOrg_def bare_def Empty_policy_def Let_def dest: parse_ok
      split: file_read.splits sum.splits if_splits)

lemma merge_parsed_err: "p_err (merge_parsed org project) \<noteq> None \<Longrightarrow> bare (merge_parsed org project)"
  by (cases "p_err org = None \<and> p_err project = None") (auto simp: merge_parsed_def bare_def Empty_policy_def)

lemma Merge_err: "Merge (Some org) project = Some p \<Longrightarrow> p_err p \<noteq> None \<Longrightarrow> bare p"
  using merge_parsed_err by (auto simp: Merge_def)

end
