(* ===== verification/Approval.thy ===== *)
theory Approval
  imports PolicyFile ShellQuote
begin

text \<open>
  The approval verdict of a policy (\<open>internal/policy/approval.go\<close>): globs, rule lists, the verdict on a
  tool call.

  A tool call's input is JSON. \<open>command\<close> is the text its \<open>command\<close> field decodes to, empty when there is
  none. Globs and commands are UTF-8 text, as YAML and JSON decoders give, so a match of characters is a
  match of bytes.
\<close>

section \<open>Globs\<close>

text \<open>
  \<open>globMatch\<close> builds a regular expression: the literal parts with \<open>.*\<close> between them, anchored at both
  ends. Go's \<open>.\<close> does not match a newline. \<open>match_parts\<close> is that expression's language.
\<close>

fun match_parts :: "string list \<Rightarrow> string \<Rightarrow> bool"
  and match_later :: "string list \<Rightarrow> string \<Rightarrow> bool" where
  "match_parts [] s = (s = [])"
| "match_parts [p] s = (s = p)"
| "match_parts (p # ps) s = (has_prefix s p \<and> match_later ps (drop (length p) s))"
| "match_later ps s =
     (match_parts ps s \<or> (case s of [] \<Rightarrow> False | c # t \<Rightarrow> c \<noteq> newline_char \<and> match_later ps t))"

definition globMatch :: "string \<Rightarrow> string \<Rightarrow> bool" where
  "globMatch pattern0 s =
     (let pattern = trim_space pattern0
      in if pattern = [] then False
         else if CHR ''*'' \<notin> set pattern then pattern = s
         else match_parts (split_on CHR ''*'' pattern) s)"

declare match_later.simps [simp del]

section \<open>Rules\<close>

datatype approval_action = ApprovalDefault | ApprovalAuto | ApprovalGate

fun match_rule_from :: "string \<Rightarrow> nat \<Rightarrow> string list \<Rightarrow> string \<Rightarrow> string option" where
  "match_rule_from class i [] s = None"
| "match_rule_from class i (pat # pats) s =
     (if globMatch pat s then Some (class @ ''['' @ itoa (int i) @ '']'') else match_rule_from class (Suc i) pats s)"

definition matchRule :: "string \<Rightarrow> string list \<Rightarrow> string \<Rightarrow> string option" where
  "matchRule class patterns s = match_rule_from class 0 patterns s"

definition matchPermissive :: "policy \<Rightarrow> string \<Rightarrow> string list \<Rightarrow> string list \<Rightarrow> string \<Rightarrow> string option" where
  "matchPermissive p class orgList projList s =
     (if \<not> p_org_active p then matchRule class projList s
      else let org = matchRule (''org.'' @ class) orgList s
           in if \<not> p_project_loaded p then org
              else case (matchRule class projList s, org) of
                (Some projID, Some orgID) \<Rightarrow> Some (projID @ ''+'' @ orgID)
              | _ \<Rightarrow> None)"

definition plainCommand :: "string \<Rightarrow> bool" where
  "plainCommand cmd = (let r = Scan cmd in \<not> Unsafe r \<and> \<not> Chained r)"

definition isBashTool :: "string \<Rightarrow> bool" where
  "isBashTool name \<longleftrightarrow> name = ''bash'' \<or> name = ''bash_background''"

definition extractCommand :: "string \<Rightarrow> string" where
  "extractCommand command = trim_space command"

definition command_of :: "string \<Rightarrow> string \<Rightarrow> string" where
  "command_of toolName command = (if isBashTool toolName then extractCommand command else [])"

text \<open>The four restrictive classes, org rules first; then the permissive ones.\<close>

definition org_restrictive :: "policy \<Rightarrow> string \<Rightarrow> string \<Rightarrow> string option" where
  "org_restrictive p toolName cmd =
     (if \<not> p_org_active p then None
      else case matchRule ''org.approval.always_gate'' (p_org_always_gate p) toolName of
        Some i \<Rightarrow> Some i
      | None \<Rightarrow> if cmd \<noteq> [] then matchRule ''org.bash.deny'' (p_org_bash_deny p) cmd else None)"

definition project_restrictive :: "policy \<Rightarrow> string \<Rightarrow> string \<Rightarrow> string option" where
  "project_restrictive p toolName cmd =
     (case matchRule ''approval.always_gate'' (p_always_gate p) toolName of
        Some i \<Rightarrow> Some i
      | None \<Rightarrow> if cmd \<noteq> [] then matchRule ''bash.deny'' (p_bash_deny p) cmd else None)"

definition permissive :: "policy \<Rightarrow> string \<Rightarrow> string \<Rightarrow> string option" where
  "permissive p toolName cmd =
     (case matchPermissive p ''approval.auto_approve'' (p_org_auto_approve p) (p_auto_approve p) toolName of
        Some i \<Rightarrow> Some i
      | None \<Rightarrow>
          if cmd \<noteq> [] \<and> plainCommand cmd
          then matchPermissive p ''bash.allow'' (p_org_bash_allow p) (p_bash_allow p) cmd
          else None)"

definition EvaluateToolApproval :: "policy option \<Rightarrow> string \<Rightarrow> string \<Rightarrow> approval_action \<times> string" where
  "EvaluateToolApproval po toolName command =
     (case po of
        None \<Rightarrow> (ApprovalDefault, [])
      | Some p \<Rightarrow>
          let cmd = command_of toolName command
          in case org_restrictive p toolName cmd of
               Some i \<Rightarrow> (ApprovalGate, i)
             | None \<Rightarrow> (case project_restrictive p toolName cmd of
                 Some i \<Rightarrow> (ApprovalGate, i)
               | None \<Rightarrow> (case permissive p toolName cmd of
                   Some i \<Rightarrow> (ApprovalAuto, i)
                 | None \<Rightarrow> (ApprovalDefault, []))))"

section \<open>What a glob means\<close>

text \<open>The literal parts of a pattern with fills between them.\<close>

fun weave :: "string list \<Rightarrow> string list \<Rightarrow> string" where
  "weave [] fills = []"
| "weave [p] fills = p"
| "weave (p # ps) [] = p @ weave ps []"
| "weave (p # ps) (f # fs) = p @ f @ weave ps fs"

definition no_newline :: "string \<Rightarrow> bool" where
  "no_newline f \<longleftrightarrow> newline_char \<notin> set f"

definition woven :: "string list \<Rightarrow> string \<Rightarrow> bool" where
  "woven ps s \<longleftrightarrow> (\<exists>fills. Suc (length fills) = length ps \<and> (\<forall>f \<in> set fills. no_newline f) \<and> s = weave ps fills)"

lemma woven_single [simp]: "woven [p] s \<longleftrightarrow> s = p"
  by (auto simp: woven_def)

lemma woven_Cons: "ps \<noteq> [] \<Longrightarrow> woven (p # ps) s \<longleftrightarrow> (\<exists>f t. no_newline f \<and> s = p @ f @ t \<and> woven ps t)"
proof
  assume ps: "ps \<noteq> []" and "woven (p # ps) s"
  then obtain fills where f: "length fills = length ps" "\<forall>f \<in> set fills. no_newline f" "s = weave (p # ps) fills"
    by (auto simp: woven_def)
  then obtain g gs where g: "fills = g # gs" using ps by (cases fills) auto
  obtain q qs where q: "ps = q # qs" using ps by (cases ps) auto
  have "s = p @ g @ weave ps gs" using f(3) by (simp add: g q)
  moreover have "woven ps (weave ps gs)" using f(1,2) by (auto simp: woven_def g)
  ultimately show "\<exists>f t. no_newline f \<and> s = p @ f @ t \<and> woven ps t" using f(2) g by auto
next
  assume ps: "ps \<noteq> []" and "\<exists>f t. no_newline f \<and> s = p @ f @ t \<and> woven ps t"
  then obtain f fs where f: "no_newline f" "s = p @ f @ weave ps fs" "Suc (length fs) = length ps" "\<forall>f \<in> set fs. no_newline f"
    by (auto simp: woven_def)
  obtain q qs where q: "ps = q # qs" using ps by (cases ps) auto
  have "s = weave (p # ps) (f # fs)" using f(2) by (simp add: q)
  then show "woven (p # ps) s" using f by (auto simp: woven_def intro!: exI [of _ "f # fs"])
qed

lemma no_newline_simps [simp]:
  "no_newline []" "no_newline (c # f) \<longleftrightarrow> c \<noteq> newline_char \<and> no_newline f"
  by (auto simp: no_newline_def)

lemma ex_list: "(\<exists>f. P f) \<longleftrightarrow> P [] \<or> (\<exists>d g. P (d # g))"
  by (metis list.exhaust)

lemma match_later_skip: "match_later ps s \<longleftrightarrow> (\<exists>f t. no_newline f \<and> s = f @ t \<and> match_parts ps t)"
proof (induction s)
  case Nil
  show ?case by (simp add: match_later.simps no_newline_def)
next
  case (Cons c s)
  have "(\<exists>f t. no_newline f \<and> c # s = f @ t \<and> match_parts ps t) \<longleftrightarrow>
      match_parts ps (c # s) \<or> c \<noteq> newline_char \<and> (\<exists>f t. no_newline f \<and> s = f @ t \<and> match_parts ps t)"
    (is "?l \<longleftrightarrow> _ \<or> ?r")
  proof -
    have "?l \<longleftrightarrow> (\<exists>t. no_newline [] \<and> c # s = [] @ t \<and> match_parts ps t) \<or>
        (\<exists>d g. \<exists>t. no_newline (d # g) \<and> c # s = (d # g) @ t \<and> match_parts ps t)"
      by (rule ex_list)
    also have "\<dots> \<longleftrightarrow> match_parts ps (c # s) \<or> ?r"
      by (simp only: no_newline_simps append.simps list.inject) metis
    finally show ?thesis .
  qed
  then show ?case using Cons by (simp add: match_later.simps [of ps "c # s"])
qed

lemma match_parts_woven: "ps \<noteq> [] \<Longrightarrow> match_parts ps s \<longleftrightarrow> woven ps s"
proof (induction ps arbitrary: s)
  case Nil
  then show ?case by simp
next
  case (Cons p ps)
  show ?case
  proof (cases ps)
    case Nil
    then show ?thesis by simp
  next
    case (Cons q qs)
    then have "match_parts (p # ps) s \<longleftrightarrow> has_prefix s p \<and> match_later ps (drop (length p) s)" by simp
    also have "\<dots> \<longleftrightarrow> (\<exists>f t. no_newline f \<and> s = p @ f @ t \<and> match_parts ps t)"
      by (auto simp: match_later_skip has_prefix_iff prefix_def)
    also have "\<dots> \<longleftrightarrow> woven (p # ps) s" using Cons.IH Cons by (simp add: woven_Cons)
    finally show ?thesis .
  qed
qed

section \<open>What the rules give\<close>

text \<open>Some pattern of the list matches.\<close>

definition hits :: "string list \<Rightarrow> string \<Rightarrow> bool" where
  "hits patterns s \<longleftrightarrow> (\<exists>pat \<in> set patterns. globMatch pat s)"

lemma hits_Nil [simp]: "\<not> hits [] s"
  by (simp add: hits_def)

lemma match_rule_from_None: "match_rule_from class i pats s = None \<longleftrightarrow> \<not> hits pats s"
  by (induction pats arbitrary: i) (auto simp: hits_def)

lemma matchRule_None [simp]: "matchRule class pats s = None \<longleftrightarrow> \<not> hits pats s"
  by (simp add: matchRule_def match_rule_from_None)

lemma matchRule_Some [simp]: "(\<exists>i. matchRule class pats s = Some i) \<longleftrightarrow> hits pats s"
  using matchRule_None [of "class" pats s] by (cases "matchRule class pats s") simp_all

definition restricted :: "string list \<Rightarrow> string list \<Rightarrow> string \<Rightarrow> string \<Rightarrow> bool" where
  "restricted gates denies toolName cmd \<longleftrightarrow> hits gates toolName \<or> cmd \<noteq> [] \<and> hits denies cmd"

definition both_allow :: "policy \<Rightarrow> string list \<Rightarrow> string list \<Rightarrow> string \<Rightarrow> bool" where
  "both_allow p orgList projList s \<longleftrightarrow>
     (p_org_active p \<longrightarrow> hits orgList s) \<and> (\<not> p_org_active p \<or> p_project_loaded p \<longrightarrow> hits projList s)"

lemma org_restrictive_None:
  "org_restrictive p toolName cmd = None \<longleftrightarrow>
     \<not> (p_org_active p \<and> restricted (p_org_always_gate p) (p_org_bash_deny p) toolName cmd)"
  by (auto simp: org_restrictive_def restricted_def split: option.splits)

lemma project_restrictive_None:
  "project_restrictive p toolName cmd = None \<longleftrightarrow> \<not> restricted (p_always_gate p) (p_bash_deny p) toolName cmd"
  by (auto simp: project_restrictive_def restricted_def split: option.splits)

lemma both_case_None:
  "(case (a, b) of (Some x, Some y) \<Rightarrow> Some (f x y) | _ \<Rightarrow> None) = None \<longleftrightarrow> a = None \<or> b = None"
  by (cases a; cases b) simp_all

lemma matchPermissive_None: "matchPermissive p class orgList projList s = None \<longleftrightarrow> \<not> both_allow p orgList projList s"
  by (simp only: matchPermissive_def Let_def both_case_None matchRule_None if_distrib [of "\<lambda>x. x = None"])
    (auto simp: both_allow_def)

definition permitted :: "policy \<Rightarrow> string \<Rightarrow> string \<Rightarrow> bool" where
  "permitted p toolName cmd \<longleftrightarrow>
     both_allow p (p_org_auto_approve p) (p_auto_approve p) toolName \<or>
     cmd \<noteq> [] \<and> plainCommand cmd \<and> both_allow p (p_org_bash_allow p) (p_bash_allow p) cmd"

lemma permissive_None: "permissive p toolName cmd = None \<longleftrightarrow> \<not> permitted p toolName cmd"
  by (auto simp: permissive_def permitted_def matchPermissive_None split: option.splits)
    (metis matchPermissive_None option.distinct(1))+

text \<open>The verdict, over the rules that match.\<close>

definition gated :: "policy \<Rightarrow> string \<Rightarrow> string \<Rightarrow> bool" where
  "gated p toolName cmd \<longleftrightarrow>
     p_org_active p \<and> restricted (p_org_always_gate p) (p_org_bash_deny p) toolName cmd \<or>
     restricted (p_always_gate p) (p_bash_deny p) toolName cmd"

lemma verdict_cases:
  "fst (EvaluateToolApproval (Some p) toolName command) =
     (if gated p toolName (command_of toolName command) then ApprovalGate
      else if permitted p toolName (command_of toolName command) then ApprovalAuto
      else ApprovalDefault)"
proof -
  let ?c = "command_of toolName command"
  have "gated p toolName ?c \<longleftrightarrow> org_restrictive p toolName ?c \<noteq> None \<or> project_restrictive p toolName ?c \<noteq> None"
    by (simp add: gated_def org_restrictive_None project_restrictive_None del: not_None_eq)
  then show ?thesis
    by (auto simp: EvaluateToolApproval_def Let_def permissive_None [symmetric] split: option.splits)
qed

text \<open>A plain command is one segment.\<close>

lemma plainCommand_single:
  "plainCommand cmd \<Longrightarrow> CHR 0x00 \<notin> set cmd \<Longrightarrow> length (sr_segments (Scan cmd)) \<le> 1 \<and> \<not> Unsafe (Scan cmd)"
  by (simp add: plainCommand_def Let_def Chained_def)

end
