(* ===== verification/GoPath.thy ===== *)
theory GoPath
  imports GoStrings
begin

text \<open>
  The functions of Go's \<open>path\<close>, \<open>path/filepath\<close> (on a system whose separator is \<open>/\<close>) and \<open>unicode/utf8\<close>
  packages that the policy code uses. \<open>path_match\<close> is \<open>path.Match\<close> with its two failures, no match
  and a malformed pattern, taken together, as its callers take them.
\<close>

abbreviation slash :: char where "slash \<equiv> CHR ''/''"

section \<open>Cleaning and joining\<close>

definition is_abs :: "string \<Rightarrow> bool" where
  "is_abs p = has_prefix p ''/''"

definition clean_step :: "bool \<Rightarrow> string list \<Rightarrow> string \<Rightarrow> string list" where
  "clean_step rooted out seg =
     (if seg = [] \<or> seg = ''.'' then out
      else if seg = ''..'' then
        (if out \<noteq> [] \<and> last out \<noteq> ''..'' then butlast out else if rooted then out else out @ [seg])
      else out @ [seg])"

definition clean_segs :: "bool \<Rightarrow> string list \<Rightarrow> string list" where
  "clean_segs rooted segs = foldl (clean_step rooted) [] segs"

definition path_clean :: "string \<Rightarrow> string" where
  "path_clean p =
     (let segs = clean_segs (is_abs p) (split_on slash p)
      in if is_abs p then slash # join_with ''/'' segs
         else if segs = [] then ''.'' else join_with ''/'' segs)"

definition path_join :: "string list \<Rightarrow> string" where
  "path_join es = (case dropWhile (\<lambda>e. e = []) es of [] \<Rightarrow> [] | xs \<Rightarrow> path_clean (join_with ''/'' xs))"

definition after_slash :: "string \<Rightarrow> string" where
  "after_slash p = rev (takeWhile (\<lambda>c. c \<noteq> slash) (rev p))"

definition upto_slash :: "string \<Rightarrow> string" where
  "upto_slash p = rev (dropWhile (\<lambda>c. c \<noteq> slash) (rev p))"

definition path_dir :: "string \<Rightarrow> string" where
  "path_dir p = path_clean (upto_slash p)"

definition path_base :: "string \<Rightarrow> string" where
  "path_base p =
     (if p = [] then ''.''
      else let b = after_slash (rev (dropWhile (\<lambda>c. c = slash) (rev p))) in if b = [] then ''/'' else b)"

section \<open>Runes\<close>

abbreviation RuneError :: int where "RuneError \<equiv> 65533"

definition byte_in :: "int \<Rightarrow> int \<Rightarrow> char \<Rightarrow> bool" where
  "byte_in lo hi c \<longleftrightarrow> lo \<le> (of_char c :: int) \<and> (of_char c :: int) \<le> hi"

definition low6 :: "char \<Rightarrow> int" where
  "low6 c = (of_char c :: int) mod 64"

text \<open>\<open>utf8.DecodeRuneInString\<close>: the rune and its width, with the ranges the second byte is held to.\<close>

definition second_range :: "int \<Rightarrow> int \<times> int" where
  "second_range b =
     (if b = 0xE0 then (0xA0, 0xBF) else if b = 0xED then (0x80, 0x9F)
      else if b = 0xF0 then (0x90, 0xBF) else if b = 0xF4 then (0x80, 0x8F) else (0x80, 0xBF))"

definition decode_rune :: "string \<Rightarrow> int \<times> nat" where
  "decode_rune s =
     (case s of
        [] \<Rightarrow> (RuneError, 0)
      | c # t \<Rightarrow>
          let b = of_char c; (lo, hi) = second_range b
          in if b < 128 then (b, 1)
             else if 0xC2 \<le> b \<and> b \<le> 0xDF \<and> 1 \<le> length t \<and> byte_in lo hi (t ! 0)
             then ((b mod 32) * 64 + low6 (t ! 0), 2)
             else if 0xE0 \<le> b \<and> b \<le> 0xEF \<and> 2 \<le> length t \<and> byte_in lo hi (t ! 0) \<and> byte_in 0x80 0xBF (t ! 1)
             then ((b mod 16) * 4096 + low6 (t ! 0) * 64 + low6 (t ! 1), 3)
             else if 0xF0 \<le> b \<and> b \<le> 0xF4 \<and> 3 \<le> length t \<and> byte_in lo hi (t ! 0) \<and>
                 byte_in 0x80 0xBF (t ! 1) \<and> byte_in 0x80 0xBF (t ! 2)
             then ((b mod 8) * 262144 + low6 (t ! 0) * 4096 + low6 (t ! 1) * 64 + low6 (t ! 2), 4)
             else (RuneError, 1))"

lemma decode_width: "s \<noteq> [] \<Longrightarrow> 0 < snd (decode_rune s)"
  by (cases s) (simp_all add: decode_rune_def Let_def split: prod.split)

definition ascii_char :: "char \<Rightarrow> bool" where
  "ascii_char c \<longleftrightarrow> (of_char c :: int) < 128"

lemma decode_ascii: "ascii_char c \<Longrightarrow> decode_rune (c # t) = (of_char c, 1)"
  by (simp add: decode_rune_def ascii_char_def Let_def split: prod.split)

section \<open>Matching one segment\<close>

text \<open>\<open>getEsc\<close>: a character of a class, perhaps escaped. It must not be the last of the chunk.\<close>

definition decode_class_char :: "string \<Rightarrow> (int \<times> string) option" where
  "decode_class_char chunk =
     (let (r, n) = decode_rune chunk
      in if (r = RuneError \<and> n = 1) \<or> drop n chunk = [] then None else Some (r, drop n chunk))"

definition getEsc :: "string \<Rightarrow> (int \<times> string) option" where
  "getEsc chunk =
     (case chunk of
        [] \<Rightarrow> None
      | c # rest \<Rightarrow>
          if c = CHR ''-'' \<or> c = CHR '']'' then None
          else if c = CHR 0x5C then (if rest = [] then None else decode_class_char rest)
          else decode_class_char chunk)"

lemma decode_class_char_shorter:
  "decode_class_char chunk = Some (r, rest) \<Longrightarrow> chunk \<noteq> [] \<Longrightarrow> length rest < length chunk"
  using decode_width [of chunk] by (auto simp: decode_class_char_def split: prod.splits if_splits)

lemma getEsc_shorter: "getEsc chunk = Some (r, rest) \<Longrightarrow> length rest < length chunk"
  using decode_class_char_shorter [of chunk r rest] decode_class_char_shorter [of "tl chunk" r rest]
  by (cases chunk) (auto simp: getEsc_def split: if_splits)

text \<open>The ranges of a class up to its bracket: whether \<open>r\<close> is in one, and the chunk after it.\<close>

definition class_high :: "int \<Rightarrow> string \<Rightarrow> (int \<times> string) option" where
  "class_high lo rest = (if rest \<noteq> [] \<and> hd rest = CHR ''-'' then getEsc (tl rest) else Some (lo, rest))"

lemma class_high_shorter: "class_high lo rest = Some (hi, rest') \<Longrightarrow> length rest' \<le> length rest"
  by (cases rest) (auto simp: class_high_def dest: getEsc_shorter split: if_splits)

function class_ranges :: "int \<Rightarrow> bool \<Rightarrow> bool \<Rightarrow> string \<Rightarrow> (bool \<times> string) option" where
  "class_ranges r some_range matched chunk =
     (if chunk \<noteq> [] \<and> hd chunk = CHR '']'' \<and> some_range then Some (matched, tl chunk)
      else case getEsc chunk of
        None \<Rightarrow> None
      | Some (lo, rest) \<Rightarrow>
          (case class_high lo rest of
             None \<Rightarrow> None
           | Some (hi, rest') \<Rightarrow> class_ranges r True (matched \<or> (lo \<le> r \<and> r \<le> hi)) rest'))"
  by pat_completeness auto
termination
  by (relation "measure (\<lambda>(r, s, m, chunk). length chunk)") (auto dest!: getEsc_shorter class_high_shorter)

declare class_ranges.simps [simp del]

lemma class_ranges_shorter: "class_ranges r s m chunk = Some (b, rest) \<Longrightarrow> length rest < length chunk"
proof (induction r s m chunk rule: class_ranges.induct)
  case (1 r s m chunk)
  show ?case
  proof (cases "chunk \<noteq> [] \<and> hd chunk = CHR '']'' \<and> s")
    case True
    then have "class_ranges r s m chunk = Some (m, tl chunk)" by (subst class_ranges.simps) simp
    then show ?thesis using "1.prems" True by (cases chunk) auto
  next
    case False
    with "1.prems" obtain lo rest1 hi rest2 where
      e: "getEsc chunk = Some (lo, rest1)" "class_high lo rest1 = Some (hi, rest2)"
      "class_ranges r True (m \<or> (lo \<le> r \<and> r \<le> hi)) rest2 = Some (b, rest)"
      by (auto simp: class_ranges.simps [of r s m chunk] split: option.splits if_splits)
    then have "length rest < length rest2" using "1.IH" False by blast
    then show ?thesis using getEsc_shorter [OF e(1)] class_high_shorter [OF e(2)] by simp
  qed
qed

text \<open>
  \<open>matchChunk\<close>: a chunk holds no star outside a class. The name is \<open>None\<close> once the match has failed, when
  the code goes on only to see whether the chunk is well formed.
\<close>

datatype chunk_result = BadPattern | NoMatch | Rest string

definition after_rune :: "string \<Rightarrow> string" where
  "after_rune s = drop (snd (decode_rune s)) s"

definition matching_rest :: "string option \<Rightarrow> string option" where
  "matching_rest so = (case so of Some (c # s) \<Rightarrow> Some (c # s) | _ \<Rightarrow> None)"

definition class_body :: "string \<Rightarrow> bool \<times> string" where
  "class_body chunk = (if chunk \<noteq> [] \<and> hd chunk = CHR ''^'' then (True, tl chunk) else (False, chunk))"

lemma class_body_shorter: "length (snd (class_body chunk)) \<le> length chunk"
  by (simp add: class_body_def)

function matchChunk :: "string \<Rightarrow> string option \<Rightarrow> chunk_result" where
  "matchChunk [] so = (case so of None \<Rightarrow> NoMatch | Some s \<Rightarrow> Rest s)"
| "matchChunk (c # chunk) so =
     (if c = CHR ''['' then
        (case class_ranges (case matching_rest so of None \<Rightarrow> 0 | Some s \<Rightarrow> fst (decode_rune s)) False False (snd (class_body chunk)) of
           None \<Rightarrow> BadPattern
         | Some (matched, rest) \<Rightarrow>
             matchChunk rest (if matched = fst (class_body chunk) then None else map_option after_rune (matching_rest so)))
      else if c = CHR ''?'' then
        matchChunk chunk (case matching_rest so of None \<Rightarrow> None | Some s \<Rightarrow> if hd s = slash then None else Some (after_rune s))
      else if c = CHR 0x5C then
        (case chunk of
           [] \<Rightarrow> BadPattern
         | d # rest \<Rightarrow> matchChunk rest (case matching_rest so of None \<Rightarrow> None | Some s \<Rightarrow> if d = hd s then Some (tl s) else None))
      else
        matchChunk chunk (case matching_rest so of None \<Rightarrow> None | Some s \<Rightarrow> if c = hd s then Some (tl s) else None))"
  by pat_completeness auto
termination
proof (relation "measure (\<lambda>(chunk, so). length chunk)", goal_cases)
  case (2 c chunk so p matched rest)
  then have "length rest < length (snd (class_body chunk))" by (auto intro: class_ranges_shorter)
  then show ?case using class_body_shorter [of chunk] by simp
qed auto

declare matchChunk.simps [simp del]

text \<open>\<open>scanChunk\<close> after its stars: the text up to the next star outside a class, and what follows.\<close>

fun scan_body :: "bool \<Rightarrow> string \<Rightarrow> string \<times> string" where
  "scan_body inrange [] = ([], [])"
| "scan_body inrange (c # p) =
     (if c = CHR ''*'' \<and> \<not> inrange then ([], c # p)
      else if c = CHR 0x5C \<and> p \<noteq> [] then
        (let (chunk, rest) = scan_body inrange (tl p) in (c # hd p # chunk, rest))
      else
        (let (chunk, rest) = scan_body (if c = CHR ''['' then True else if c = CHR '']'' then False else inrange) p
         in (c # chunk, rest)))"

definition drop_stars :: "string \<Rightarrow> string" where
  "drop_stars p = dropWhile (\<lambda>c. c = CHR ''*'') p"

definition scanChunk :: "string \<Rightarrow> bool \<times> string \<times> string" where
  "scanChunk p = (p \<noteq> [] \<and> hd p = CHR ''*'', scan_body False (drop_stars p))"

lemma scan_body_append: "fst (scan_body b p) @ snd (scan_body b p) = p"
proof (induction b p rule: scan_body.induct)
  case (2 b c p)
  consider (star) "c = CHR ''*'' \<and> \<not> b" | (esc) "\<not> (c = CHR ''*'' \<and> \<not> b)" "c = CHR 0x5C \<and> p \<noteq> []"
    | (char) "\<not> (c = CHR ''*'' \<and> \<not> b)" "\<not> (c = CHR 0x5C \<and> p \<noteq> [])" by blast
  then show ?case
  proof cases
    case star
    then show ?thesis by simp
  next
    case esc
    then show ?thesis using "2.IH"(1) by (cases p) (simp_all add: case_prod_beta Let_def)
  next
    case char
    then show ?thesis using "2.IH"(2) by (simp only: scan_body.simps if_False Let_def case_prod_beta fst_conv snd_conv append_Cons simp_thms)
  qed
qed simp

lemma length_drop_stars: "length (drop_stars p) \<le> length p"
  by (simp add: drop_stars_def length_dropWhile_le)

lemma scan_body_shorter:
  assumes "p \<noteq> []" and "hd p \<noteq> CHR ''*''"
  shows "length (snd (scan_body False p)) < length p"
proof -
  obtain c q where p: "p = c # q" "c \<noteq> CHR ''*''" using assms by (cases p) auto
  have "fst (scan_body False p) \<noteq> []" using p by (auto simp: Let_def split: prod.splits)
  then have "0 < length (fst (scan_body False p))" by simp
  moreover have "length (fst (scan_body False p)) + length (snd (scan_body False p)) = length p"
    by (metis length_append scan_body_append)
  ultimately show ?thesis by linarith
qed

lemma scanChunk_shorter:
  assumes "p \<noteq> []"
  shows "length (snd (snd (scanChunk p))) < length p"
proof (cases "hd p = CHR ''*''")
  case True
  then have "length (drop_stars p) < length p"
    using assms by (cases p) (auto simp: drop_stars_def le_imp_less_Suc length_dropWhile_le)
  moreover have "length (snd (scan_body False (drop_stars p))) \<le> length (drop_stars p)"
    using arg_cong [OF scan_body_append [of False "drop_stars p"], of length] by simp
  ultimately show ?thesis by (simp add: scanChunk_def)
next
  case False
  then have "drop_stars p = p" using assms by (cases p) (auto simp: drop_stars_def)
  then show ?thesis using scan_body_shorter [OF assms False] by (simp add: scanChunk_def)
qed

lemma scanChunk_rest: "scanChunk p = (star, chunk, rest) \<Longrightarrow> p \<noteq> [] \<Longrightarrow> length rest < length p"
  using scanChunk_shorter [of p] by simp

text \<open>The search after a star: the first later place where the chunk matches, at the end of the name for the last chunk.\<close>

fun star_search :: "string \<Rightarrow> bool \<Rightarrow> string \<Rightarrow> string option" where
  "star_search chunk final [] = None"
| "star_search chunk final (c # s) =
     (if c = slash then None
      else case matchChunk chunk (Some s) of
        Rest t \<Rightarrow> if final \<and> t \<noteq> [] then star_search chunk final s else Some t
      | NoMatch \<Rightarrow> star_search chunk final s
      | BadPattern \<Rightarrow> None)"

definition place_chunk :: "bool \<Rightarrow> string \<Rightarrow> bool \<Rightarrow> string \<Rightarrow> string option" where
  "place_chunk star chunk final name =
     (let later = (if star then star_search chunk final name else None)
      in case matchChunk chunk (Some name) of
        Rest t \<Rightarrow> if t = [] \<or> \<not> final then Some t else later
      | NoMatch \<Rightarrow> later
      | BadPattern \<Rightarrow> None)"

function path_match :: "string \<Rightarrow> string \<Rightarrow> bool" where
  "path_match pattern name =
     (if pattern = [] then name = []
      else let (star, chunk, rest) = scanChunk pattern
           in if star \<and> chunk = [] then slash \<notin> set name
              else case place_chunk star chunk (rest = []) name of
                None \<Rightarrow> False
              | Some t \<Rightarrow> path_match rest t)"
  by pat_completeness auto
termination
  by (relation "measure (\<lambda>(pattern, name). length pattern)") (auto dest!: scanChunk_rest sym [of _ "scanChunk _"])

declare path_match.simps [simp del]

end
