(* ===== verification/FsPaths.thy ===== *)
theory FsPaths
  imports PolicyFile GoPath
begin

text \<open>
  The paths the filesystem rules speak of (\<open>internal/policy/fs.go\<close>): anchoring a glob, the forms a path
  is checked under, and matching a list of segments.

  The operating system is the record \<open>fs_os\<close>: the working directory and the home directory when they are
  known, and \<open>filepath.EvalSymlinks\<close>, which fails for a path that does not exist.
\<close>

record fs_os =
  os_wd :: "string option"
  os_home :: "string option"
  os_eval :: "string \<Rightarrow> string option"

section \<open>Cleaning shortens\<close>

definition weight :: "string list \<Rightarrow> nat" where
  "weight segs = (\<Sum>s\<leftarrow>segs. Suc (length s))"

lemma weight_simps [simp]: "weight [] = 0" "weight (s # ss) = Suc (length s) + weight ss"
  "weight (xs @ ys) = weight xs + weight ys"
  by (simp_all add: weight_def)

lemma weight_butlast: "weight (butlast out) \<le> weight out"
  by (cases out rule: rev_cases) simp_all

lemma weight_clean_step: "weight (clean_step rooted out seg) \<le> weight out + Suc (length seg)"
  using weight_butlast [of out] by (simp add: clean_step_def)

lemma weight_clean_fold: "weight (foldl (clean_step rooted) out segs) \<le> weight out + weight segs"
proof (induction segs arbitrary: out)
  case (Cons s segs)
  from Cons [of "clean_step rooted out s"] weight_clean_step [of rooted out s] show ?case by simp
qed simp

lemma weight_join: "ws \<noteq> [] \<Longrightarrow> Suc (length (join_with [c] ws)) = weight ws"
proof (induction ws)
  case (Cons w ws)
  then show ?case by (cases "ws = []") (simp_all add: join_with_Cons)
qed simp

lemma weight_split: "weight (split_on c s) = Suc (length s)"
  by (metis join_split split_on_nonempty weight_join)

lemma path_clean_nonempty [simp]: "path_clean p \<noteq> []"
proof -
  have "join_with ''/'' segs \<noteq> []" if "segs \<noteq> []" "\<forall>s \<in> set segs. s \<noteq> []" for segs
    using that by (cases segs rule: remdups_adj.cases) simp_all
  moreover have "\<forall>s \<in> set (foldl (clean_step r) out segs). s \<noteq> []" if "\<forall>s \<in> set out. s \<noteq> []" for r out segs
    using that
  proof (induction segs arbitrary: out)
    case (Cons s segs)
    have "\<forall>s \<in> set (clean_step r out s). s \<noteq> []"
      using Cons.prems by (auto simp: clean_step_def dest: in_set_butlastD)
    then show ?case using Cons.IH by simp
  qed simp
  ultimately have "clean_segs r segs = [] \<or> join_with ''/'' (clean_segs r segs) \<noteq> []" for r segs
    unfolding clean_segs_def by (metis empty_iff list.set(1))
  from this [of False "split_on slash p"] show ?thesis by (auto simp: path_clean_def Let_def)
qed

lemma length_path_clean:
  assumes "p \<noteq> []"
  shows "length (path_clean p) \<le> length p"
proof (cases "is_abs p")
  case True
  then obtain t where p: "p = slash # t" by (cases p) (auto simp: is_abs_def)
  define out where "out = clean_segs True (split_on slash p)"
  have "clean_segs True (split_on slash p) = foldl (clean_step True) [] (split_on slash t)"
    by (simp add: p clean_segs_def clean_step_def)
  then have "weight out \<le> Suc (length t)"
    using weight_clean_fold [of True "[]" "split_on slash t"] by (simp add: out_def weight_split)
  moreover have "length (join_with ''/'' out) = weight out - 1"
    using weight_join [of out slash] by (cases "out = []") simp_all
  moreover have "path_clean p = slash # join_with ''/'' out"
    using True by (simp add: path_clean_def out_def Let_def)
  ultimately show ?thesis by (simp add: p)
next
  case False
  define out where "out = clean_segs False (split_on slash p)"
  have "weight out \<le> Suc (length p)"
    using weight_clean_fold [of False "[]" "split_on slash p"] by (simp add: out_def clean_segs_def weight_split)
  moreover have "out \<noteq> [] \<Longrightarrow> Suc (length (join_with ''/'' out)) = weight out" by (rule weight_join)
  moreover have "path_clean p = (if out = [] then ''.'' else join_with ''/'' out)"
    using False by (simp add: path_clean_def out_def Let_def)
  moreover have "1 \<le> length p" using assms by (cases p) simp_all
  ultimately show ?thesis by auto
qed

lemma split_on_snoc_sep: "split_on c (v @ [c]) = split_on c v @ [[]]"
proof (induction v)
  case (Cons d v)
  obtain w ws where "split_on c v = w # ws" by (meson list.exhaust split_on_nonempty)
  then show ?case using Cons by auto
qed simp

lemma path_clean_snoc_slash: "v \<noteq> [] \<Longrightarrow> path_clean (v @ ''/'') = path_clean v"
proof -
  assume "v \<noteq> []"
  then have "is_abs (v @ ''/'') = is_abs v" by (cases v) (simp_all add: is_abs_def)
  moreover have "clean_segs r (split_on slash (v @ ''/'')) = clean_segs r (split_on slash v)" for r
    by (simp add: split_on_snoc_sep clean_segs_def clean_step_def)
  ultimately show ?thesis by (simp only: path_clean_def Let_def)
qed

lemma upto_slash_cases: "upto_slash p = [] \<or> (\<exists>v. upto_slash p = v @ ''/'' \<and> length v < length p)"
proof (cases "dropWhile (\<lambda>c. c \<noteq> slash) (rev p)")
  case Nil
  then show ?thesis by (simp add: upto_slash_def)
next
  case (Cons c r)
  have "c = slash" using hd_dropWhile [of "\<lambda>c. c \<noteq> slash" "rev p"] unfolding Cons by simp
  moreover have "length (c # r) \<le> length p"
    using length_dropWhile_le [of "\<lambda>c. c \<noteq> slash" "rev p"] Cons by simp
  ultimately show ?thesis using Cons by (intro disjI2 exI [of _ "rev r"]) (simp add: upto_slash_def)
qed

text \<open>Going to the parent ends: a path is its own parent, or the parent is smaller.\<close>

definition path_height :: "string \<Rightarrow> nat" where
  "path_height p = (if p = ''.'' then 0 else if p = [] then 1 else length p)"

lemma path_height_dir:
  assumes "path_dir p \<noteq> p"
  shows "path_height (path_dir p) < path_height p"
proof (cases "upto_slash p = []")
  case True
  then have "path_dir p = ''.''" by (simp add: path_dir_def path_clean_def clean_segs_def clean_step_def is_abs_def)
  then show ?thesis using assms by (auto simp: path_height_def)
next
  case False
  then obtain v where v: "upto_slash p = v @ ''/''" "length v < length p" using upto_slash_cases by blast
  have p: "p \<noteq> ''.''" using v(1) by (auto simp: upto_slash_def)
  have "path_height (path_dir p) \<le> length (path_dir p)" by (simp add: path_height_def path_dir_def)
  also have "\<dots> < length p"
  proof (cases "v = []")
    case True
    then have d: "path_dir p = ''/''" using v(1) by (simp add: path_dir_def path_clean_def clean_segs_def clean_step_def is_abs_def)
    have "p \<noteq> []" using v(2) by auto
    moreover have "length p \<noteq> 1"
    proof
      assume "length p = 1"
      then obtain c where "p = [c]" by (cases p) auto
      then have "p = ''/''" using v(1) True by (auto simp: upto_slash_def split: if_splits)
      then show False using assms d by simp
    qed
    ultimately have "1 < length p" by (cases p) auto
    then show ?thesis by (simp add: d)
  next
    case False
    then have "path_dir p = path_clean v" using v(1) by (simp add: path_dir_def path_clean_snoc_slash)
    then show ?thesis using length_path_clean [OF False] v(2) by simp
  qed
  also have "length p \<le> path_height p" using p v(2) by (auto simp: path_height_def)
  finally show ?thesis .
qed

section \<open>The forms of a path\<close>

definition path_abs :: "fs_os \<Rightarrow> string \<Rightarrow> string option" where
  "path_abs os p = (if is_abs p then Some (path_clean p) else map_option (\<lambda>wd. path_join [wd, p]) (os_wd os))"

text \<open>\<open>resolveExisting\<close>: the longest prefix that resolves, with the rest put back.\<close>

function resolve_from :: "fs_os \<Rightarrow> string \<Rightarrow> string \<Rightarrow> string \<Rightarrow> string" where
  "resolve_from os p cur rest =
     (case os_eval os cur of
        Some r \<Rightarrow> (if rest = [] then r else path_join [r, rest])
      | None \<Rightarrow>
          let parent = path_dir cur
          in if parent = cur then p
             else resolve_from os p parent (if rest = [] then path_base cur else path_join [path_base cur, rest]))"
  by pat_completeness auto
termination
  by (relation "measure (\<lambda>(os, p, cur, rest). path_height cur)") (auto intro: path_height_dir)

declare resolve_from.simps [simp del]

definition resolveExisting :: "fs_os \<Rightarrow> string \<Rightarrow> string" where
  "resolveExisting os p = resolve_from os p p []"

definition pathVariants :: "fs_os \<Rightarrow> string \<Rightarrow> string list" where
  "pathVariants os p0 =
     (let p = path_clean (case path_abs os p0 of Some a \<Rightarrow> a | None \<Rightarrow> p0)
      in append_unique [p] (resolveExisting os p))"

definition fsCandidates :: "fs_os \<Rightarrow> string \<Rightarrow> string list" where
  "fsCandidates os p =
     (let raw = (if is_abs p then p else case os_wd os of Some wd \<Rightarrow> wd @ ''/'' @ p | None \<Rightarrow> p);
          out = pathVariants os raw
      in case os_eval os raw of Some r \<Rightarrow> append_unique out r | None \<Rightarrow> out)"

section \<open>Anchoring a glob\<close>

text \<open>An unknown home is \<open>[]\<close>, and anchors where nothing is.\<close>

definition anchor :: "string \<Rightarrow> string \<Rightarrow> string" where
  "anchor rest b = path_clean ((if b = [] then ''/nonexistent-home'' else b) @ ''/'' @ trim_prefix rest ''/'')"

definition expandGlob :: "string \<Rightarrow> string list \<Rightarrow> string list \<Rightarrow> string list" where
  "expandGlob g roots homes =
     (let whole = (\<lambda>pfx. g = pfx \<or> has_prefix g (pfx @ ''/''));
          under = (\<lambda>bases rest. dedup (map (anchor rest) bases))
      in if whole ''~'' then under homes (trim_prefix g ''~'')
         else if whole ''$HOME'' then under homes (trim_prefix g ''$HOME'')
         else if whole ''${HOME}'' then under homes (trim_prefix g ''${HOME}'')
         else if is_abs g then [path_clean g]
         else under roots g)"

definition splitSegs :: "string \<Rightarrow> string list" where
  "splitSegs p = filter (\<lambda>s. s \<noteq> []) (split_on slash p)"

function runes :: "string \<Rightarrow> int list" where
  "runes s = (if s = [] then [] else fst (decode_rune s) # runes (drop (snd (decode_rune s)) s))"
  by pat_completeness auto
termination
  by (relation "measure length") (auto simp: decode_width)

declare runes.simps [simp del]

text \<open>\<open>'*'\<close> is rune 42 and \<open>'?'\<close> rune 63.\<close>

definition literalCount :: "string \<Rightarrow> nat" where
  "literalCount g = length (filter (\<lambda>r. r \<noteq> 42 \<and> r \<noteq> 63) (runes g))"

section \<open>Matching segments\<close>

text \<open>
  \<open>**\<close> tries every split of what is left. Written over the pattern: the code's loop over \<open>pat\<close> with a
  recursive call is one recursion here.
\<close>

fun matchSegs :: "string list \<Rightarrow> string list \<Rightarrow> bool" where
  "matchSegs [] p = (p = [])"
| "matchSegs (g # pat) p =
     (if g = ''**'' then list_ex (\<lambda>i. matchSegs pat (drop i p)) [0..<Suc (length p)]
      else case p of [] \<Rightarrow> False | s # p' \<Rightarrow> path_match g s \<and> matchSegs pat p')"

definition coversSegs :: "string list \<Rightarrow> string list \<Rightarrow> bool" where
  "coversSegs pat p = list_ex (\<lambda>k. matchSegs pat (take k p)) (rev [0..<Suc (length p)])"

text \<open>The meaning of a list of segment globs: one piece of the path for each.\<close>

definition piece_fits :: "string \<Rightarrow> string list \<Rightarrow> bool" where
  "piece_fits g piece \<longleftrightarrow> g = ''**'' \<or> (\<exists>s. piece = [s] \<and> path_match g s)"

lemma list_ex_upto: "list_ex P [0..<Suc n] \<longleftrightarrow> (\<exists>i \<le> n. P i)"
  by (auto simp: list_ex_iff less_Suc_eq_le simp del: upt_Suc)

lemma matchSegs_pieces:
  "matchSegs pat p \<longleftrightarrow> (\<exists>ps. concat ps = p \<and> list_all2 piece_fits pat ps)"
proof (induction pat arbitrary: p)
  case Nil
  show ?case by auto
next
  case (Cons g pat)
  have split: "(\<exists>ps. concat ps = p \<and> list_all2 piece_fits (g # pat) ps) \<longleftrightarrow>
      (\<exists>u v. p = u @ v \<and> piece_fits g u \<and> matchSegs pat v)"
  proof
    assume "\<exists>ps. concat ps = p \<and> list_all2 piece_fits (g # pat) ps"
    then show "\<exists>u v. p = u @ v \<and> piece_fits g u \<and> matchSegs pat v"
      unfolding list_all2_Cons1 Cons.IH by (metis concat.simps(2))
  next
    assume "\<exists>u v. p = u @ v \<and> piece_fits g u \<and> matchSegs pat v"
    then obtain u ps where "p = u @ concat ps" "piece_fits g u" "list_all2 piece_fits pat ps"
      by (auto simp: Cons.IH)
    then show "\<exists>ps. concat ps = p \<and> list_all2 piece_fits (g # pat) ps"
      by (intro exI [of _ "u # ps"]) simp
  qed
  show ?case
  proof (cases "g = ''**''")
    case True
    then have "matchSegs (g # pat) p \<longleftrightarrow> (\<exists>i \<le> length p. matchSegs pat (drop i p))"
      by (simp add: list_ex_upto del: upt_Suc)
    also have "\<dots> \<longleftrightarrow> (\<exists>u v. p = u @ v \<and> matchSegs pat v)"
      by (metis append_eq_conv_conj append_take_drop_id le_add1 length_append)
    finally show ?thesis using True unfolding split by (simp add: piece_fits_def)
  next
    case False
    then have "matchSegs (g # pat) p \<longleftrightarrow> (\<exists>s v. p = s # v \<and> path_match g s \<and> matchSegs pat v)"
      by (cases p) auto
    also have "\<dots> \<longleftrightarrow> (\<exists>u v. p = u @ v \<and> piece_fits g u \<and> matchSegs pat v)"
      using False unfolding piece_fits_def by (metis append_Cons append_Nil)
    finally show ?thesis unfolding split .
  qed
qed

lemma coversSegs_iff: "coversSegs pat p \<longleftrightarrow> (\<exists>q. prefix q p \<and> matchSegs pat q)"
proof
  assume "coversSegs pat p"
  then show "\<exists>q. prefix q p \<and> matchSegs pat q" by (auto simp: coversSegs_def list_ex_iff intro: take_is_prefix)
next
  assume "\<exists>q. prefix q p \<and> matchSegs pat q"
  then obtain q where q: "prefix q p" "matchSegs pat q" by blast
  then have "take (length q) p = q" "length q \<le> length p" by (auto simp: prefix_def)
  then show "coversSegs pat p" using q(2) unfolding coversSegs_def list_ex_iff
    by (intro bexI [of _ "length q"]) auto
qed

text \<open>A rule that covers a path covers what is beneath it.\<close>

lemma coversSegs_beneath: "coversSegs pat p \<Longrightarrow> prefix p q \<Longrightarrow> coversSegs pat q"
  by (auto simp: coversSegs_iff intro: prefix_order.trans)



lemma splitSegs_no_slash: "s \<in> set (splitSegs p) \<Longrightarrow> slash \<notin> set s"
  by (auto simp: splitSegs_def dest: split_on_no_sep)

end
