(* ===== verification/SegmentGlob.thy ===== *)
theory SegmentGlob
  imports GoPath
begin

text \<open>
  What a glob of one path segment means, and that the matcher's search (\<open>path.Match\<close>: chunks between the
  stars, each placed at the first spot that fits, never moved again) decides it, for the globs the
  policy code lets through: no class and no escape.
\<close>

section \<open>The meaning of a segment glob\<close>

inductive seg_matches :: "string \<Rightarrow> string \<Rightarrow> bool" where
  seg_nil: "seg_matches [] []"
| seg_star_end: "seg_matches p n \<Longrightarrow> seg_matches (CHR ''*'' # p) n"
| seg_star_more: "c \<noteq> slash \<Longrightarrow> seg_matches (CHR ''*'' # p) n \<Longrightarrow> seg_matches (CHR ''*'' # p) (c # n)"
| seg_any: "c \<noteq> slash \<Longrightarrow> seg_matches p n \<Longrightarrow> seg_matches (CHR ''?'' # p) (c # n)"
| seg_char: "c \<noteq> CHR ''*'' \<Longrightarrow> c \<noteq> CHR ''?'' \<Longrightarrow> seg_matches p n \<Longrightarrow> seg_matches (c # p) (c # n)"

inductive_simps seg_matches_Nil [simp]: "seg_matches [] n"
inductive_simps seg_matches_star_Nil [simp]: "seg_matches (CHR ''*'' # p) []"
inductive_simps seg_matches_star_Cons: "seg_matches (CHR ''*'' # p) (c # n)"
inductive_cases seg_matches_charE: "seg_matches (c # p) n"

fun fits_char :: "char \<Rightarrow> char \<Rightarrow> bool" where
  "fits_char c d = (if c = CHR ''?'' then d \<noteq> slash else c = d)"

fun chunk_fits :: "string \<Rightarrow> string \<Rightarrow> bool" where
  "chunk_fits [] s = True"
| "chunk_fits (c # p) [] = False"
| "chunk_fits (c # p) (d # s) = (fits_char c d \<and> chunk_fits p s)"

lemma seg_matches_char:
  "c \<noteq> CHR ''*'' \<Longrightarrow> seg_matches (c # p) n \<longleftrightarrow> (\<exists>d m. n = d # m \<and> fits_char c d \<and> seg_matches p m)"
  by (auto elim: seg_matches_charE intro: seg_any seg_char)

lemma seg_matches_chunk:
  "CHR ''*'' \<notin> set chunk \<Longrightarrow>
   seg_matches (chunk @ rest) s \<longleftrightarrow> chunk_fits chunk s \<and> seg_matches rest (drop (length chunk) s)"
proof (induction chunk s rule: chunk_fits.induct)
  case (2 c p)
  then have "c \<noteq> CHR ''*''" by auto
  then show ?case by (simp add: seg_matches_char)
next
  case (3 c p d s)
  then have "c \<noteq> CHR ''*''" by auto
  then show ?case using 3 by (auto simp: seg_matches_char)
qed simp

text \<open>A star may take more.\<close>

lemma star_absorbs: "slash \<notin> set u \<Longrightarrow> seg_matches (CHR ''*'' # p) n \<Longrightarrow> seg_matches (CHR ''*'' # p) (u @ n)"
  by (induction u) (auto intro: seg_star_more)

lemma star_absorbs_drop:
  assumes "slash \<notin> set u" and "i \<le> j" and "seg_matches (CHR ''*'' # p) (drop j u)"
  shows "seg_matches (CHR ''*'' # p) (drop i u)"
proof -
  have "drop i u = take (j - i) (drop i u) @ drop j u"
    using append_take_drop_id [of "j - i" "drop i u"] assms(2) by simp
  moreover have "slash \<notin> set (take (j - i) (drop i u))"
    using assms(1) by (meson in_set_dropD in_set_takeD)
  ultimately show ?thesis using star_absorbs [OF _ assms(3)] by metis
qed

lemma star_skips: "seg_matches (CHR ''*'' # p) s \<Longrightarrow> \<exists>k. seg_matches p (drop k s)"
proof (induction s)
  case Nil
  then show ?case by auto
next
  case (Cons c s)
  from Cons.prems consider "seg_matches p (c # s)" | "seg_matches (CHR ''*'' # p) s"
    by (auto simp: seg_matches_star_Cons)
  then show ?case
  proof cases
    case 1
    then show ?thesis by (intro exI [of _ 0]) simp
  next
    case 2
    then obtain k where "seg_matches p (drop k s)" using Cons.IH by blast
    then show ?thesis by (intro exI [of _ "Suc k"]) simp
  qed
qed

lemma stars_collapse: "seg_matches (CHR ''*'' # CHR ''*'' # p) s \<longleftrightarrow> seg_matches (CHR ''*'' # p) s"
proof (induction s)
  case Nil
  show ?case by simp
next
  case (Cons c s)
  then show ?case by (auto simp: seg_matches_star_Cons)
qed

lemma drop_stars_matches: "seg_matches (CHR ''*'' # drop_stars p) s \<longleftrightarrow> seg_matches (CHR ''*'' # p) s"
  by (induction p) (auto simp: drop_stars_def stars_collapse)

lemma star_all: "slash \<notin> set s \<Longrightarrow> seg_matches ''*'' s"
  by (induction s) (auto intro: seg_star_more)

section \<open>The search\<close>

definition plain_glob :: "string \<Rightarrow> bool" where
  "plain_glob p \<longleftrightarrow> CHR ''['' \<notin> set p \<and> CHR 0x5C \<notin> set p"

text \<open>A question mark takes a rune, so it is one byte only in an ASCII name.\<close>

definition bytewise :: "string \<Rightarrow> string \<Rightarrow> bool" where
  "bytewise p s \<longleftrightarrow> CHR ''?'' \<notin> set p \<or> (\<forall>c \<in> set s. ascii_char c)"

lemma bytewise_Cons: "bytewise (c # p) (d # s) \<Longrightarrow> bytewise p s"
  by (auto simp: bytewise_def)

lemma bytewise_tl: "bytewise p (d # s) \<Longrightarrow> bytewise p s"
  by (auto simp: bytewise_def)

lemma bytewise_drop: "bytewise p s \<Longrightarrow> bytewise p (drop k s)"
  by (auto simp: bytewise_def dest: in_set_dropD)

lemma bytewise_part: "bytewise p s \<Longrightarrow> set q \<subseteq> set p \<Longrightarrow> bytewise q s"
  by (auto simp: bytewise_def)

lemma after_rune_ascii: "ascii_char d \<Longrightarrow> after_rune (d # s) = s"
  by (simp add: after_rune_def decode_ascii)

lemma matchChunk_step:
  assumes "c \<noteq> CHR ''[''" and "c \<noteq> CHR 0x5C" and "c = CHR ''?'' \<Longrightarrow> ascii_char d"
  shows "matchChunk (c # p) (Some (d # s)) = matchChunk p (if fits_char c d then Some s else None)"
  using assms by (cases "c = CHR ''?''") (simp_all add: matchChunk.simps(2) matching_rest_def after_rune_ascii)

lemma matchChunk_empty:
  assumes "c \<noteq> CHR ''[''" and "c \<noteq> CHR 0x5C" and "so = None \<or> so = Some []"
  shows "matchChunk (c # p) so = matchChunk p None"
  using assms by (auto simp: matchChunk.simps(2) matching_rest_def)

lemma matchChunk_failed: "plain_glob chunk \<Longrightarrow> matchChunk chunk None = NoMatch"
proof (induction chunk)
  case Nil
  show ?case by (simp add: matchChunk.simps)
next
  case (Cons c chunk)
  then have "c \<noteq> CHR ''[''" "c \<noteq> CHR 0x5C" "plain_glob chunk" by (auto simp: plain_glob_def)
  then show ?case using Cons.IH by (simp add: matchChunk_empty)
qed

lemma matchChunk_plain:
  "plain_glob chunk \<Longrightarrow> bytewise chunk s \<Longrightarrow>
   matchChunk chunk (Some s) = (if chunk_fits chunk s then Rest (drop (length chunk) s) else NoMatch)"
proof (induction chunk s rule: chunk_fits.induct)
  case (1 s)
  show ?case by (simp add: matchChunk.simps)
next
  case (2 c p)
  then have "c \<noteq> CHR ''[''" "c \<noteq> CHR 0x5C" "plain_glob p" by (auto simp: plain_glob_def)
  then show ?case by (simp add: matchChunk_empty matchChunk_failed)
next
  case (3 c p d s)
  then have c: "c \<noteq> CHR ''[''" "c \<noteq> CHR 0x5C" "plain_glob p" by (auto simp: plain_glob_def)
  have "c = CHR ''?'' \<Longrightarrow> ascii_char d" using "3.prems"(2) by (auto simp: bytewise_def)
  then have step: "matchChunk (c # p) (Some (d # s)) = matchChunk p (if fits_char c d then Some s else None)"
    by (rule matchChunk_step [OF c(1,2)])
  show ?case
  proof (cases "fits_char c d")
    case True
    then show ?thesis using "3.IH" c(3) bytewise_Cons [OF "3.prems"(2)] by (simp add: step del: fits_char.simps)
  next
    case False
    then show ?thesis using c(3) by (simp add: step matchChunk_failed del: fits_char.simps)
  qed
qed

lemma scan_body_plain:
  "plain_glob p \<Longrightarrow> scan_body False p = (takeWhile (\<lambda>c. c \<noteq> CHR ''*'') p, dropWhile (\<lambda>c. c \<noteq> CHR ''*'') p)"
proof (induction p)
  case Nil
  show ?case by simp
next
  case (Cons c p)
  then have "c \<noteq> CHR ''[''" "c \<noteq> CHR 0x5C" "plain_glob p" by (auto simp: plain_glob_def)
  then show ?case using Cons.IH by (cases "c = CHR ''*''") simp_all
qed

text \<open>
  The search after a star finds a place exactly when some place works: a later chunk can only be behind
  a further star, which takes what an earlier place leaves over.
\<close>

lemma star_search_place:
  "c \<noteq> slash \<Longrightarrow> star_search chunk final (c # s) = place_chunk True chunk final s"
  by (auto simp: place_chunk_def Let_def split: chunk_result.split)

lemma place_chunk_plain:
  "plain_glob chunk \<Longrightarrow> bytewise chunk s \<Longrightarrow>
   place_chunk star chunk final s =
     (if chunk_fits chunk s \<and> (drop (length chunk) s = [] \<or> \<not> final) then Some (drop (length chunk) s)
      else if star then star_search chunk final s else None)"
  by (simp add: place_chunk_def Let_def matchChunk_plain)

lemma place_star:
  assumes "plain_glob chunk" and "CHR ''*'' \<notin> set chunk" and "rest = [] \<or> hd rest = CHR ''*''"
    and "bytewise chunk s" and "slash \<notin> set s"
  shows "(case place_chunk True chunk (rest = []) s of None \<Rightarrow> False | Some t \<Rightarrow> seg_matches rest t) \<longleftrightarrow>
    seg_matches (CHR ''*'' # chunk @ rest) s"
  using assms(4,5)
proof (induction s)
  case Nil
  then show ?case
    using assms(1,2) by (simp add: place_chunk_plain seg_matches_chunk)
next
  case (Cons c s)
  have c: "c \<noteq> slash" "slash \<notin> set s" "bytewise chunk s" using Cons.prems by (auto intro: bytewise_tl)
  have rhs: "seg_matches (CHR ''*'' # chunk @ rest) (c # s) \<longleftrightarrow>
      chunk_fits chunk (c # s) \<and> seg_matches rest (drop (length chunk) (c # s)) \<or>
      seg_matches (CHR ''*'' # chunk @ rest) s"
    using c(1) by (simp add: seg_matches_star_Cons seg_matches_chunk [OF assms(2)])
  note ih = Cons.IH [OF c(3,2)]
  show ?case
  proof (cases "chunk_fits chunk (c # s) \<and> (drop (length chunk) (c # s) = [] \<or> rest \<noteq> [])")
    case True
    then have lhs: "place_chunk True chunk (rest = []) (c # s) = Some (drop (length chunk) (c # s))"
      using Cons.prems assms(1) by (simp add: place_chunk_plain)
    have "seg_matches rest (drop (length chunk) (c # s))" if m: "seg_matches (CHR ''*'' # chunk @ rest) s"
    proof (cases rest)
      case Nil
      then show ?thesis using True by simp
    next
      case (Cons r q)
      then have r: "rest = CHR ''*'' # q" using assms(3) by simp
      obtain k where "seg_matches (chunk @ rest) (drop k s)" using star_skips [OF m] ..
      then have "seg_matches rest (drop (length chunk + Suc k) (c # s))"
        by (simp add: seg_matches_chunk [OF assms(2)])
      then have "seg_matches (CHR ''*'' # q) (drop (length chunk) (c # s))"
        unfolding r by (rule star_absorbs_drop [OF Cons.prems(2), rotated]) simp
      then show ?thesis unfolding r .
    qed
    then show ?thesis using True lhs rhs by auto
  next
    case False
    then have "\<not> (chunk_fits chunk (c # s) \<and> (drop (length chunk) (c # s) = [] \<or> \<not> rest = []))" by blast
    then have "place_chunk True chunk (rest = []) (c # s) = star_search chunk (rest = []) (c # s)"
      by (simp only: place_chunk_plain [OF assms(1) Cons.prems(1)] if_True if_False)
    then have "place_chunk True chunk (rest = []) (c # s) = place_chunk True chunk (rest = []) s"
      using star_search_place [OF c(1)] by simp
    moreover have "\<not> (chunk_fits chunk (c # s) \<and> seg_matches rest (drop (length chunk) (c # s)))"
      using False by auto
    ultimately show ?thesis using ih unfolding rhs by metis
  qed
qed

lemma place_no_star:
  assumes "plain_glob chunk" and "CHR ''*'' \<notin> set chunk" and "bytewise chunk s"
  shows "(case place_chunk False chunk (rest = []) s of None \<Rightarrow> False | Some t \<Rightarrow> seg_matches rest t) \<longleftrightarrow>
    seg_matches (chunk @ rest) s"
  using assms by (auto simp: place_chunk_plain seg_matches_chunk)

lemma place_chunk_drop:
  "plain_glob chunk \<Longrightarrow> bytewise chunk s \<Longrightarrow> place_chunk star chunk final s = Some t \<Longrightarrow> \<exists>k. t = drop k s"
proof (induction s)
  case Nil
  then show ?case by (auto simp: place_chunk_plain split: if_splits)
next
  case (Cons c s)
  from Cons.prems consider "t = drop (length chunk) (c # s)" | "star" "star_search chunk final (c # s) = Some t"
    by (auto simp: place_chunk_plain simp del: star_search.simps split: if_splits)
  then show ?case
  proof cases
    case 1
    then show ?thesis by blast
  next
    case 2
    then have "c \<noteq> slash" by (auto split: if_splits)
    then have "place_chunk star chunk final s = Some t" using 2 star_search_place [of c chunk final s] by simp
    then obtain k where "t = drop k s" using Cons.IH Cons.prems(1,2) bytewise_tl by blast
    then show ?thesis by (intro exI [of _ "Suc k"]) simp
  qed
qed

lemma path_match_meaning:
  "plain_glob p \<Longrightarrow> bytewise p s \<Longrightarrow> slash \<notin> set s \<Longrightarrow> path_match p s \<longleftrightarrow> seg_matches p s"
proof (induction p s rule: path_match.induct)
  case (1 p s)
  show ?case
  proof (cases "p = []")
    case True
    then show ?thesis by (subst path_match.simps) simp
  next
    case False
    define star where "star = (hd p = CHR ''*'')"
    define q where "q = drop_stars p"
    define chunk where "chunk = takeWhile (\<lambda>c. c \<noteq> CHR ''*'') q"
    define rest where "rest = dropWhile (\<lambda>c. c \<noteq> CHR ''*'') q"
    have sub: "set q \<subseteq> set p" by (auto simp: q_def drop_stars_def dest: set_dropWhileD)
    have q: "q = chunk @ rest" by (simp add: chunk_def rest_def)
    have plain: "plain_glob q" "plain_glob chunk" "plain_glob rest"
      using "1.prems"(1) sub unfolding q by (auto simp: plain_glob_def)
    have scan: "scanChunk p = (star, chunk, rest)"
      using False scan_body_plain [OF plain(1)] by (simp add: scanChunk_def star_def q_def chunk_def rest_def)
    have no_star: "CHR ''*'' \<notin> set chunk" by (auto simp: chunk_def dest: set_takeWhileD)
    have rest_star: "rest = [] \<or> hd rest = CHR ''*''"
      using hd_dropWhile [of "\<lambda>c. c \<noteq> CHR ''*''" q] by (auto simp: rest_def)
    have bytes: "bytewise chunk s" "bytewise rest s"
      using "1.prems"(2) sub unfolding q by (auto intro: bytewise_part)
    have meaning: "seg_matches p s \<longleftrightarrow> (if star then seg_matches (CHR ''*'' # chunk @ rest) s else seg_matches (chunk @ rest) s)"
    proof (cases star)
      case True
      then have p: "p = CHR ''*'' # tl p" "q = drop_stars (tl p)" using False by (cases p; auto simp: star_def q_def drop_stars_def)+
      have "seg_matches p s \<longleftrightarrow> seg_matches (CHR ''*'' # q) s"
        using drop_stars_matches [of "tl p" s] p by metis
      then show ?thesis using True q by simp
    next
      case no: False
      then have "q = p" using False by (cases p) (auto simp: star_def q_def drop_stars_def)
      then show ?thesis using no q by simp
    qed
    show ?thesis
    proof (cases "star \<and> chunk = []")
      case True
      have "q = []"
      proof (rule ccontr)
        assume ne: "q \<noteq> []"
        then have "hd q \<noteq> CHR ''*''" using hd_dropWhile [of "\<lambda>c. c = CHR ''*''" p] unfolding q_def drop_stars_def by blast
        then have "chunk \<noteq> []" using ne unfolding chunk_def by (cases q) simp_all
        then show False using True by blast
      qed
      then have "seg_matches p s" using meaning True q star_all "1.prems"(3) by simp
      then show ?thesis using True False scan "1.prems"(3) by (simp add: path_match.simps [of p s])
    next
      case go: False
      have "path_match p s \<longleftrightarrow> (case place_chunk star chunk (rest = []) s of None \<Rightarrow> False | Some t \<Rightarrow> path_match rest t)"
        unfolding path_match.simps [of p s] scan Let_def prod.case if_not_P [OF False] if_not_P [OF go] ..
      also have "\<dots> \<longleftrightarrow> (case place_chunk star chunk (rest = []) s of None \<Rightarrow> False | Some t \<Rightarrow> seg_matches rest t)"
      proof (cases "place_chunk star chunk (rest = []) s")
        case (Some t)
        then obtain k where "t = drop k s" using place_chunk_drop [OF plain(2) bytes(1)] by blast
        then have "bytewise rest t" "slash \<notin> set t"
          using bytes(2) "1.prems"(3) by (auto intro: bytewise_drop dest: in_set_dropD)
        then show ?thesis using "1.IH" [OF False refl scan [symmetric] refl go Some] plain(3) Some by simp
      qed simp
      also have "\<dots> \<longleftrightarrow> seg_matches p s"
        using place_star [OF plain(2) no_star rest_star bytes(1) "1.prems"(3)]
          place_no_star [OF plain(2) no_star bytes(1)] meaning by (cases star) simp_all
      finally show ?thesis .
    qed
  qed
qed

end
