(* ===== verification/FsRules.thy ===== *)
theory FsRules
  imports FsPaths SegmentGlob
begin

text \<open>
  The filesystem rules (\<open>internal/policy/fs.go\<close>): compiling the globs of a policy, the verdict of a layer,
  the check of a path against both layers, and the hand-off to the sandbox.
\<close>

section \<open>Kinds, ordered by strictness\<close>

datatype fs_access = FSRead | FSWrite

datatype fs_kind = FsNone | FsReadWrite | FsReadOnly | FsDeny

fun fs_rank :: "fs_kind \<Rightarrow> nat" where
  "fs_rank FsNone = 0" | "fs_rank FsReadWrite = 1" | "fs_rank FsReadOnly = 2" | "fs_rank FsDeny = 3"

lemma fs_rank_inj [simp]: "fs_rank a = fs_rank b \<longleftrightarrow> a = b"
  by (cases a; cases b) simp_all

instantiation fs_kind :: linorder
begin

definition less_eq_fs_kind :: "fs_kind \<Rightarrow> fs_kind \<Rightarrow> bool" where
  "less_eq_fs_kind a b \<longleftrightarrow> fs_rank a \<le> fs_rank b"

definition less_fs_kind :: "fs_kind \<Rightarrow> fs_kind \<Rightarrow> bool" where
  "less_fs_kind a b \<longleftrightarrow> fs_rank a < fs_rank b"

instance
  by standard (auto simp: less_eq_fs_kind_def less_fs_kind_def)

end

lemma fs_kind_simps [simp]:
  "FsNone \<le> k" "k \<le> FsDeny" "\<not> k < FsNone" "\<not> FsDeny < k"
  "FsReadWrite < FsReadOnly" "FsReadOnly < FsDeny" "FsNone < FsReadWrite" "\<not> FsReadOnly < FsReadWrite"
  by (cases k; simp add: less_eq_fs_kind_def less_fs_kind_def)+

text \<open>What a kind refuses.\<close>

fun refuses :: "fs_kind \<Rightarrow> fs_access \<Rightarrow> bool" where
  "refuses k access = (k = FsDeny \<or> (k = FsReadOnly \<and> access = FSWrite))"

lemma refuses_mono: "k \<le> k' \<Longrightarrow> refuses k access \<Longrightarrow> refuses k' access"
  by (cases k; cases k'; cases access) (simp_all add: less_eq_fs_kind_def)

lemma refuses_FsNone [simp]: "\<not> refuses FsNone access"
  by simp

declare refuses.simps [simp del]

section \<open>Compiled rules\<close>

record fs_pattern =
  fp_id :: string
  fp_glob :: string
  fp_abs :: string
  fp_segs :: "string list"
  fp_literal :: nat
  fp_kind :: fs_kind

type_synonym fs_layer = "fs_pattern list"

record fs_mounts =
  mt_ReadOnly :: "string list"
  mt_ReadWrite :: "string list"
  mt_Deny :: "string list"
  mt_FailClosed :: bool

record fs_rules =
  fr_Root :: string
  fr_layers :: "fs_layer list"
  fr_failReason :: string
  fr_mounts :: fs_mounts

record fs_denied =
  fd_Rule :: string
  fd_Glob :: string
  fd_Path :: string
  fd_Access :: fs_access

definition no_mounts :: fs_mounts where
  "no_mounts = \<lparr>mt_ReadOnly = [], mt_ReadWrite = [], mt_Deny = [], mt_FailClosed = False\<rparr>"

definition no_pattern :: fs_pattern where
  "no_pattern = \<lparr>fp_id = [], fp_glob = [], fp_abs = [], fp_segs = [], fp_literal = 0, fp_kind = FsNone\<rparr>"

definition fs_empty :: "fs_spec \<Rightarrow> bool" where
  "fs_empty s \<longleftrightarrow> fs_read_only s = [] \<and> fs_read_write s = [] \<and> fs_deny s = []"

text \<open>One glob of a class, in every form of its anchor.\<close>

definition compile :: "string \<Rightarrow> string \<Rightarrow> fs_kind \<Rightarrow> string \<Rightarrow> fs_pattern" where
  "compile rule glob kind a =
     \<lparr>fp_id = rule, fp_glob = glob, fp_abs = a, fp_segs = splitSegs a, fp_literal = literalCount a, fp_kind = kind\<rparr>"

definition rule_id :: "string \<Rightarrow> string \<Rightarrow> nat \<Rightarrow> string" where
  "rule_id pre name i = pre @ ''fs.'' @ name @ ''['' @ itoa (int i) @ '']''"

definition expansions :: "string list \<Rightarrow> string list \<Rightarrow> string \<Rightarrow> string list" where
  "expansions roots homes g = expandGlob (trim_space g) roots homes"

definition class_patterns :: "string list \<Rightarrow> string list \<Rightarrow> string \<Rightarrow> string \<Rightarrow> fs_kind \<Rightarrow> string list \<Rightarrow> fs_pattern list" where
  "class_patterns roots homes pre name kind globs =
     concat (map (\<lambda>(i, g). map (compile (rule_id pre name i) g kind) (expansions roots homes g)) (enumerate 0 globs))"

definition class_mounts :: "string list \<Rightarrow> string list \<Rightarrow> string list \<Rightarrow> string list \<Rightarrow> string list" where
  "class_mounts roots homes globs mount =
     fold (\<lambda>g m. case expansions roots homes g of [] \<Rightarrow> m | a # _ \<Rightarrow> append_unique m a) globs mount"

definition compile_layer :: "string list \<Rightarrow> string list \<Rightarrow> string \<Rightarrow> fs_spec \<Rightarrow> fs_layer" where
  "compile_layer roots homes pre spec =
     class_patterns roots homes pre ''deny'' FsDeny (fs_deny spec) @
     class_patterns roots homes pre ''read_only'' FsReadOnly (fs_read_only spec) @
     class_patterns roots homes pre ''read_write'' FsReadWrite (fs_read_write spec)"

definition add_mounts :: "string list \<Rightarrow> string list \<Rightarrow> fs_spec \<Rightarrow> fs_mounts \<Rightarrow> fs_mounts" where
  "add_mounts roots homes spec m =
     m\<lparr>mt_Deny := class_mounts roots homes (fs_deny spec) (mt_Deny m),
       mt_ReadOnly := class_mounts roots homes (fs_read_only spec) (mt_ReadOnly m),
       mt_ReadWrite := class_mounts roots homes (fs_read_write spec) (mt_ReadWrite m)\<rparr>"

definition fs_sources :: "policy \<Rightarrow> (string \<times> fs_spec) list" where
  "fs_sources p =
     (if p_org_active p \<and> \<not> fs_empty (p_org_fs p) then [(''org.'', p_org_fs p)] else []) @
     (if fs_empty (p_fs p) then [] else [([], p_fs p)])"

definition home_variants :: "fs_os \<Rightarrow> string list" where
  "home_variants os = (case os_home os of None \<Rightarrow> [[]] | Some h \<Rightarrow> if h = [] then [[]] else pathVariants os h)"

definition ResolveFS :: "fs_os \<Rightarrow> policy option \<Rightarrow> string \<Rightarrow> fs_rules option" where
  "ResolveFS os po root =
     (case po of
        None \<Rightarrow> None
      | Some p \<Rightarrow>
          if p_err p \<noteq> None then None
          else let srcs = fs_sources p; roots = pathVariants os root; homes = home_variants os
            in if srcs = [] then None
               else Some \<lparr>fr_Root = hd roots,
                 fr_layers = map (\<lambda>(pre, spec). compile_layer roots homes pre spec) srcs,
                 fr_failReason = [],
                 fr_mounts = fold (\<lambda>(pre, spec) m. add_mounts roots homes spec m) srcs no_mounts\<rparr>)"

definition FailClosedFS :: "string \<Rightarrow> fs_rules" where
  "FailClosedFS reason =
     \<lparr>fr_Root = [], fr_layers = [],
       fr_failReason = (if reason = [] then ''policy failed to load'' else reason),
       fr_mounts = no_mounts\<lparr>mt_FailClosed := True\<rparr>\<rparr>"

definition Mounts :: "fs_rules option \<Rightarrow> fs_mounts" where
  "Mounts ro = (case ro of None \<Rightarrow> no_mounts | Some r \<Rightarrow> fr_mounts r)"

section \<open>The verdict\<close>

definition covers :: "string list \<Rightarrow> fs_pattern \<Rightarrow> bool" where
  "covers segs pat = coversSegs (fp_segs pat) segs"

definition better :: "fs_kind \<Rightarrow> fs_pattern \<Rightarrow> fs_pattern \<Rightarrow> bool" where
  "better best bestPat pat \<longleftrightarrow>
     best = FsNone \<or> fp_literal bestPat < fp_literal pat \<or> (fp_literal pat = fp_literal bestPat \<and> best < fp_kind pat)"

fun verdict_loop :: "string list \<Rightarrow> fs_kind \<Rightarrow> fs_pattern \<Rightarrow> fs_layer \<Rightarrow> fs_kind \<times> fs_pattern" where
  "verdict_loop segs best bestPat [] = (best, bestPat)"
| "verdict_loop segs best bestPat (pat # pats) =
     (if \<not> covers segs pat then verdict_loop segs best bestPat pats
      else if fp_kind pat = FsDeny then (FsDeny, pat)
      else if better best bestPat pat then verdict_loop segs (fp_kind pat) pat pats
      else verdict_loop segs best bestPat pats)"

definition verdict :: "fs_layer \<Rightarrow> string list \<Rightarrow> fs_kind \<times> fs_pattern" where
  "verdict l segs = verdict_loop segs FsNone no_pattern l"

definition stricter :: "string list \<Rightarrow> fs_layer \<Rightarrow> fs_kind \<times> fs_pattern \<Rightarrow> fs_kind \<times> fs_pattern" where
  "stricter segs l w = (if fst w < fst (verdict l segs) then verdict l segs else w)"

definition worst_verdict :: "string list \<Rightarrow> fs_layer list \<Rightarrow> fs_kind \<times> fs_pattern" where
  "worst_verdict candidates ls =
     fold (\<lambda>c w. fold (stricter (splitSegs c)) ls w) candidates (FsNone, no_pattern)"

definition Check :: "fs_os \<Rightarrow> fs_rules option \<Rightarrow> string \<Rightarrow> fs_access \<Rightarrow> fs_denied option" where
  "Check os ro p access =
     (case ro of
        None \<Rightarrow> None
      | Some r \<Rightarrow>
          if fr_failReason r \<noteq> [] then
            Some \<lparr>fd_Rule = [], fd_Glob = fr_failReason r, fd_Path = p, fd_Access = access\<rparr>
          else let (worst, pat) = worst_verdict (fsCandidates os p) (fr_layers r)
            in if worst = FsDeny \<or> (worst = FsReadOnly \<and> access = FSWrite)
               then Some \<lparr>fd_Rule = fp_id pat, fd_Glob = fp_glob pat, fd_Path = p, fd_Access = access\<rparr>
               else None)"

section \<open>The verdict of a layer, from its covering rules\<close>

definition covering :: "string list \<Rightarrow> fs_layer \<Rightarrow> fs_pattern list" where
  "covering segs l = filter (covers segs) l"

text \<open>A rule is at most another when it is less literal, or as literal and not stricter.\<close>

definition outranked :: "fs_pattern \<Rightarrow> fs_pattern \<Rightarrow> bool" where
  "outranked q pat \<longleftrightarrow> fp_literal q < fp_literal pat \<or> fp_literal q = fp_literal pat \<and> fp_kind q \<le> fp_kind pat"

lemma outranked_trans: "outranked a b \<Longrightarrow> outranked b c \<Longrightarrow> outranked a c"
  by (auto simp: outranked_def)

lemma outranked_refl [simp]: "outranked a a"
  by (simp add: outranked_def)

lemma better_outranks:
  "best = fp_kind bestPat \<Longrightarrow> best \<noteq> FsNone \<Longrightarrow> (if better best bestPat pat then outranked bestPat pat else outranked pat bestPat)"
  by (auto simp: better_def outranked_def)

lemma verdict_loop_deny:
  "best \<noteq> FsDeny \<Longrightarrow>
   fst (verdict_loop segs best bestPat l) = FsDeny \<longleftrightarrow> (\<exists>pat \<in> set l. covers segs pat \<and> fp_kind pat = FsDeny)"
  by (induction segs best bestPat l rule: verdict_loop.induct) auto

lemma verdict_loop_best:
  assumes "\<forall>pat \<in> set l. covers segs pat \<longrightarrow> fp_kind pat \<noteq> FsDeny \<and> fp_kind pat \<noteq> FsNone"
    and "best = fp_kind bestPat" and "verdict_loop segs best bestPat l = (k, pat)"
  shows "k = fp_kind pat \<and> (best \<noteq> FsNone \<longrightarrow> outranked bestPat pat \<and> k \<noteq> FsNone) \<and>
    (\<forall>q \<in> set (covering segs l). outranked q pat) \<and>
    (pat = bestPat \<or> pat \<in> set (covering segs l)) \<and> (covering segs l \<noteq> [] \<longrightarrow> k \<noteq> FsNone)"
  using assms
proof (induction l arbitrary: best bestPat)
  case Nil
  then show ?case by (auto simp: covering_def)
next
  case (Cons q l)
  show ?case
  proof (cases "covers segs q")
    case False
    then show ?thesis using Cons.IH [of best bestPat] Cons.prems by (auto simp: covering_def)
  next
    case True
    then have q: "fp_kind q \<noteq> FsDeny" "fp_kind q \<noteq> FsNone" using Cons.prems(1) by auto
    have l: "\<forall>pat \<in> set l. covers segs pat \<longrightarrow> fp_kind pat \<noteq> FsDeny \<and> fp_kind pat \<noteq> FsNone"
      using Cons.prems(1) by simp
    show ?thesis
    proof (cases "better best bestPat q")
      case b: True
      then have "verdict_loop segs (fp_kind q) q l = (k, pat)" using Cons.prems(3) True q(1) by simp
      note ih = Cons.IH [OF l refl this]
      have "best \<noteq> FsNone \<Longrightarrow> outranked bestPat q" using better_outranks [of best bestPat q] Cons.prems(2) b by simp
      then show ?thesis using ih q(2) True outranked_trans [of bestPat q pat] by (auto simp: covering_def)
    next
      case b: False
      then have "verdict_loop segs best bestPat l = (k, pat)" using Cons.prems(3) True q(1) by simp
      note ih = Cons.IH [OF l Cons.prems(2) this]
      have none: "best \<noteq> FsNone" using b by (auto simp: better_def)
      then have "outranked q bestPat" using better_outranks [of best bestPat q] Cons.prems(2) b by simp
      then show ?thesis using ih none True outranked_trans [of q bestPat pat] by (auto simp: covering_def)
    qed
  qed
qed

text \<open>A layer's rules are of the three classes.\<close>

definition classed :: "fs_layer \<Rightarrow> bool" where
  "classed l \<longleftrightarrow> (\<forall>pat \<in> set l. fp_kind pat \<noteq> FsNone)"

lemma class_patterns_kind: "pat \<in> set (class_patterns roots homes pre name kind globs) \<Longrightarrow> fp_kind pat = kind"
  by (auto simp: class_patterns_def compile_def)

lemma classed_compile [simp]: "classed (compile_layer roots homes pre spec)"
  by (auto simp: classed_def compile_layer_def dest!: class_patterns_kind)

lemma verdict_deny:
  "fst (verdict l segs) = FsDeny \<longleftrightarrow> (\<exists>pat \<in> set l. covers segs pat \<and> fp_kind pat = FsDeny)"
  by (simp add: verdict_def verdict_loop_deny)

lemma verdict_best:
  assumes "classed l" and "fst (verdict l segs) \<noteq> FsDeny" and "covering segs l \<noteq> []"
  shows "fst (verdict l segs) = fp_kind (snd (verdict l segs)) \<and> snd (verdict l segs) \<in> set (covering segs l) \<and>
    (\<forall>q \<in> set (covering segs l). outranked q (snd (verdict l segs)))"
proof -
  obtain k pat where v: "verdict_loop segs FsNone no_pattern l = (k, pat)" by (cases "verdict_loop segs FsNone no_pattern l")
  have "\<forall>pat \<in> set l. covers segs pat \<longrightarrow> fp_kind pat \<noteq> FsDeny \<and> fp_kind pat \<noteq> FsNone"
    using assms(1,2) by (auto simp: verdict_deny classed_def)
  note b = verdict_loop_best [OF this _ v]
  have "FsNone = fp_kind no_pattern" by (simp add: no_pattern_def)
  note b = b [OF this]
  have "pat \<noteq> no_pattern" using b assms(3) by (auto simp: no_pattern_def)
  then show ?thesis using b v by (simp add: verdict_def)
qed

lemma verdict_none: "classed l \<Longrightarrow> covering segs l = [] \<Longrightarrow> fst (verdict l segs) = FsNone"
proof -
  assume "covering segs l = []"
  then have "\<forall>pat \<in> set l. \<not> covers segs pat" by (auto simp: covering_def filter_empty_conv)
  then have "verdict_loop segs b p l = (b, p)" for b p by (induction l) auto
  then show ?thesis by (simp add: verdict_def)
qed

section \<open>The check\<close>

text \<open>The strictest verdict is refused when some verdict is.\<close>

lemma stricter_fst: "fst (stricter segs l w) = max (fst w) (fst (verdict l segs))"
  by (auto simp: stricter_def max_def not_le)

lemma refuses_max: "refuses (max a b) access \<longleftrightarrow> refuses a access \<or> refuses b access"
  using refuses_mono [of a b access] refuses_mono [of b a access] by (auto simp: max_def not_le)

lemma fold_stricter:
  "refuses (fst (fold (stricter segs) ls w)) access \<longleftrightarrow>
     refuses (fst w) access \<or> (\<exists>l \<in> set ls. refuses (fst (verdict l segs)) access)"
  by (induction ls arbitrary: w) (auto simp: stricter_fst refuses_max)

lemma worst_verdict_refuses:
  "refuses (fst (worst_verdict cs ls)) access \<longleftrightarrow>
     (\<exists>c \<in> set cs. \<exists>l \<in> set ls. refuses (fst (verdict l (splitSegs c))) access)"
proof -
  have "refuses (fst (fold (\<lambda>c w. fold (stricter (splitSegs c)) ls w) cs w)) access \<longleftrightarrow>
      refuses (fst w) access \<or> (\<exists>c \<in> set cs. \<exists>l \<in> set ls. refuses (fst (verdict l (splitSegs c))) access)" for w
    by (induction cs arbitrary: w) (auto simp: fold_stricter)
  then show ?thesis by (simp add: worst_verdict_def)
qed

definition allowed :: "fs_os \<Rightarrow> fs_rules option \<Rightarrow> string \<Rightarrow> fs_access \<Rightarrow> bool" where
  "allowed os ro p access \<longleftrightarrow> Check os ro p access = None"

lemma allowed_None [simp]: "allowed os None p access"
  by (simp add: allowed_def Check_def)

lemma allowed_Some:
  "allowed os (Some r) p access \<longleftrightarrow>
     fr_failReason r = [] \<and>
     (\<forall>c \<in> set (fsCandidates os p). \<forall>l \<in> set (fr_layers r). \<not> refuses (fst (verdict l (splitSegs c))) access)"
proof -
  obtain w pat where w: "worst_verdict (fsCandidates os p) (fr_layers r) = (w, pat)"
    by (cases "worst_verdict (fsCandidates os p) (fr_layers r)")
  have "Check os (Some r) p access = None \<longleftrightarrow> fr_failReason r = [] \<and> \<not> refuses w access"
    by (auto simp: Check_def w refuses.simps)
  then show ?thesis
    using worst_verdict_refuses [of "fsCandidates os p" "fr_layers r" access] by (simp add: allowed_def w)
qed

text \<open>A refusal names the rule that made it.\<close>

lemma refuses_write: "refuses k FSRead \<Longrightarrow> refuses k FSWrite"
  by (auto simp: refuses.simps)

text \<open>The verdict's kind does not depend on how its rules are named.\<close>

definition same_rule :: "fs_pattern \<Rightarrow> fs_pattern \<Rightarrow> bool" where
  "same_rule a b \<longleftrightarrow> fp_segs a = fp_segs b \<and> fp_literal a = fp_literal b \<and> fp_kind a = fp_kind b"

lemma verdict_loop_same:
  "list_all2 same_rule l m \<Longrightarrow> same_rule a b \<Longrightarrow>
   fst (verdict_loop segs best a l) = fst (verdict_loop segs best b m)"
proof (induction l m arbitrary: best a b rule: list_all2_induct)
  case Nil
  then show ?case by simp
next
  case (Cons p l q m)
  then have "covers segs p = covers segs q" "better best a p = better best b q" "fp_kind p = fp_kind q"
    by (auto simp: same_rule_def covers_def better_def)
  then show ?case using Cons by simp
qed

lemma list_all2_concat: "list_all2 (list_all2 P) xs ys \<Longrightarrow> list_all2 P (concat xs) (concat ys)"
  by (induction rule: list_all2_induct) (auto intro: list_all2_appendI)

lemma class_patterns_same:
  "list_all2 same_rule (class_patterns roots homes a name kind globs) (class_patterns roots homes b name kind globs)"
proof -
  have "list_all2 same_rule (map (compile i g kind) xs) (map (compile j g kind) xs)" for i j g xs
    by (simp add: list_all2_conv_all_nth same_rule_def compile_def)
  then have "list_all2 (list_all2 same_rule)
      (map (\<lambda>(i, g). map (compile (rule_id a name i) g kind) (expansions roots homes g)) igs)
      (map (\<lambda>(i, g). map (compile (rule_id b name i) g kind) (expansions roots homes g)) igs)" for igs
    by (induction igs) auto
  then show ?thesis unfolding class_patterns_def by (rule list_all2_concat)
qed

lemma compile_layer_same:
  "fst (verdict (compile_layer roots homes a spec) segs) = fst (verdict (compile_layer roots homes b spec) segs)"
  unfolding verdict_def compile_layer_def
  by (intro verdict_loop_same list_all2_appendI class_patterns_same) (simp add: same_rule_def)

end
