(* ===== verification/MemoryPolicy.thy ===== *)
theory MemoryPolicy
  imports PolicyFile
begin

text \<open>
  The memory rules of a policy (\<open>internal/policy/memory.go\<close>): the two sections, the project's and the
  org's, resolved strictest-wins.

  \<open>loopback\<close> stands for \<open>loopbackURL\<close>, which asks Go's URL and address parsers whether a URL names this
  machine.
\<close>

record semantic_rules =
  sm_Enabled :: bool
  sm_EmbedderURL :: string
  sm_Model :: string
  sm_Dim :: int
  sm_AllowRemote :: bool
  sm_AutoRecall :: bool
  sm_AutoRecallBytes :: int

record memory_rules =
  mr_Enabled :: bool
  mr_Inject :: bool
  mr_MaxInjectBytes :: int
  mr_Reason :: string
  mr_Semantic :: semantic_rules

definition no_semantic :: semantic_rules where
  "no_semantic = \<lparr>sm_Enabled = False, sm_EmbedderURL = [], sm_Model = [], sm_Dim = 0, sm_AllowRemote = False,
     sm_AutoRecall = False, sm_AutoRecallBytes = 0\<rparr>"

section \<open>Semantic recall\<close>

text \<open>What the loop over the two sections collects.\<close>

record semantic_acc =
  sa_on :: bool
  sa_off :: bool
  sa_remoteOff :: bool
  sa_autoOn :: bool
  sa_autoOff :: bool
  sa_autoBytes :: int
  sa_model :: string
  sa_dim :: int

definition semantic_start :: semantic_acc where
  "semantic_start = \<lparr>sa_on = False, sa_off = False, sa_remoteOff = False, sa_autoOn = False, sa_autoOff = False,
     sa_autoBytes = DefaultAutoRecallBytes, sa_model = [], sa_dim = 0\<rparr>"

definition semantic_step :: "semantic_spec \<Rightarrow> semantic_acc \<Rightarrow> semantic_acc" where
  "semantic_step s a =
     a\<lparr>sa_on := (sa_on a \<or> ss_enabled s = Some True),
       sa_off := (sa_off a \<or> ss_enabled s = Some False),
       sa_remoteOff := (sa_remoteOff a \<or> ss_allow_remote s = Some False),
       sa_autoOn := (sa_autoOn a \<or> ss_auto_recall s = Some True),
       sa_autoOff := (sa_autoOff a \<or> ss_auto_recall s = Some False),
       sa_autoBytes := (if 0 < ss_auto_recall_bytes s \<and> ss_auto_recall_bytes s < sa_autoBytes a
         then ss_auto_recall_bytes s else sa_autoBytes a),
       sa_model := (if ss_model s \<noteq> [] then ss_model s else sa_model a),
       sa_dim := (if 0 < ss_dim s then ss_dim s else sa_dim a)\<rparr>"

definition option_list :: "'a option \<Rightarrow> 'a list" where
  "option_list x = (case x of None \<Rightarrow> [] | Some y \<Rightarrow> [y])"

lemma set_option_list [simp]: "set (option_list x) = set_option x"
  by (cases x) (simp_all add: option_list_def)

definition embedder_url :: "(string \<Rightarrow> bool) \<Rightarrow> semantic_spec option \<Rightarrow> semantic_spec option \<Rightarrow> string" where
  "embedder_url loopback project org =
     (let own = (case project of
            Some s \<Rightarrow> if loopback (ss_embedder_url s) then ss_embedder_url s else []
          | None \<Rightarrow> [])
      in case org of Some s \<Rightarrow> if ss_embedder_url s \<noteq> [] then ss_embedder_url s else own | None \<Rightarrow> own)"

definition resolveSemantic ::
  "(string \<Rightarrow> bool) \<Rightarrow> semantic_spec option \<Rightarrow> semantic_spec option \<Rightarrow> bool \<Rightarrow> semantic_rules" where
  "resolveSemantic loopback project org memoryOn =
     (let a = fold semantic_step (option_list project @ option_list org) semantic_start;
          orgRemote = (case org of Some s \<Rightarrow> ss_allow_remote s = Some True | None \<Rightarrow> False)
      in if \<not> memoryOn \<or> \<not> sa_on a \<or> sa_off a \<or> sa_model a = [] \<or> sa_dim a = 0 then no_semantic
         else \<lparr>sm_Enabled = True, sm_EmbedderURL = embedder_url loopback project org, sm_Model = sa_model a,
           sm_Dim = sa_dim a, sm_AllowRemote = (orgRemote \<and> \<not> sa_remoteOff a),
           sm_AutoRecall = (sa_autoOn a \<and> \<not> sa_autoOff a),
           sm_AutoRecallBytes = (if sa_autoOn a \<and> \<not> sa_autoOff a then sa_autoBytes a else 0)\<rparr>)"

section \<open>The rules\<close>

definition default_memory :: memory_rules where
  "default_memory = \<lparr>mr_Enabled = True, mr_Inject = True, mr_MaxInjectBytes = DefaultMemoryInjectBytes,
     mr_Reason = [], mr_Semantic = no_semantic\<rparr>"

definition failed_memory :: memory_rules where
  "failed_memory = \<lparr>mr_Enabled = False, mr_Inject = False, mr_MaxInjectBytes = 0,
     mr_Reason = ''the policy failed to load (fail-closed); fix it and run ##policy reload'',
     mr_Semantic = no_semantic\<rparr>"

definition memory_step :: "memory_spec \<Rightarrow> memory_rules \<Rightarrow> memory_rules" where
  "memory_step s r =
     r\<lparr>mr_Enabled := (mr_Enabled r \<and> ms_enabled s \<noteq> Some False),
       mr_Inject := (mr_Inject r \<and> ms_inject s \<noteq> Some False),
       mr_MaxInjectBytes := (if 0 < ms_max_inject_bytes s \<and> ms_max_inject_bytes s < mr_MaxInjectBytes r
         then ms_max_inject_bytes s else mr_MaxInjectBytes r)\<rparr>"

definition MemoryRules :: "(string \<Rightarrow> bool) \<Rightarrow> policy option \<Rightarrow> memory_rules" where
  "MemoryRules loopback po =
     (case po of
        None \<Rightarrow> default_memory
      | Some p \<Rightarrow>
          if p_err p \<noteq> None then failed_memory
          else let r = memory_step (p_org_memory p) (memory_step (p_memory p) default_memory)
            in r\<lparr>mr_Inject := (mr_Inject r \<and> mr_Enabled r),
                 mr_Semantic := resolveSemantic loopback (ms_semantic (p_memory p)) (ms_semantic (p_org_memory p)) (mr_Enabled r)\<rparr>)"

section \<open>What the resolution gives\<close>

definition says :: "(semantic_spec \<Rightarrow> bool) \<Rightarrow> semantic_spec option \<Rightarrow> bool" where
  "says P so \<longleftrightarrow> (\<exists>s. so = Some s \<and> P s)"

lemma says_simps [simp]: "\<not> says P None" "says P (Some s) = P s"
  by (simp_all add: says_def)

lemma resolveSemantic_enabled:
  "sm_Enabled (resolveSemantic loopback project org memoryOn) \<Longrightarrow>
     memoryOn \<and>
     (says (\<lambda>s. ss_enabled s = Some True) project \<or> says (\<lambda>s. ss_enabled s = Some True) org) \<and>
     \<not> says (\<lambda>s. ss_enabled s = Some False) project \<and> \<not> says (\<lambda>s. ss_enabled s = Some False) org"
  by (cases project; cases org)
    (auto simp: resolveSemantic_def Let_def option_list_def semantic_step_def semantic_start_def no_semantic_def
      split: if_splits)

lemma resolveSemantic_remote:
  "sm_AllowRemote (resolveSemantic loopback project org memoryOn) \<Longrightarrow>
     says (\<lambda>s. ss_allow_remote s = Some True) org \<and> \<not> says (\<lambda>s. ss_allow_remote s = Some False) project"
  by (cases project; cases org)
    (auto simp: resolveSemantic_def Let_def option_list_def semantic_step_def semantic_start_def no_semantic_def
      split: if_splits)

lemma resolveSemantic_url:
  assumes "sm_EmbedderURL (resolveSemantic loopback project org memoryOn) \<noteq> []"
  shows "loopback (sm_EmbedderURL (resolveSemantic loopback project org memoryOn)) \<or>
    says (\<lambda>s. ss_embedder_url s = sm_EmbedderURL (resolveSemantic loopback project org memoryOn)) org"
proof -
  let ?r = "resolveSemantic loopback project org memoryOn"
  have "sm_EmbedderURL ?r = embedder_url loopback project org"
    using assms by (auto simp: resolveSemantic_def Let_def no_semantic_def split: if_splits)
  moreover have "embedder_url loopback project org = [] \<or> loopback (embedder_url loopback project org) \<or>
      says (\<lambda>s. ss_embedder_url s = embedder_url loopback project org) org"
    by (cases project; cases org) (simp_all add: embedder_url_def Let_def)
  ultimately show ?thesis using assms by simp
qed

lemma MemoryRules_bytes:
  "p_err p = None \<Longrightarrow>
   mr_MaxInjectBytes (MemoryRules loopback (Some p)) \<le> DefaultMemoryInjectBytes \<and>
   (\<forall>s \<in> {p_memory p, p_org_memory p}. 0 < ms_max_inject_bytes s \<longrightarrow>
      mr_MaxInjectBytes (MemoryRules loopback (Some p)) \<le> ms_max_inject_bytes s)"
  by (auto simp: MemoryRules_def Let_def memory_step_def default_memory_def)

end
