(* ===== verification/PolicyGate.thy ===== *)
theory PolicyGate
  imports Approval FsRules MemoryPolicy
begin

text \<open>
  What the workspace publishes of its policy (\<open>internal/policy/gate.go\<close>, \<open>internal/actors/workspace_policy.go\<close>,
  \<open>secretnat_cmd.go\<close>) and the gate of a write that arrives over MCP (\<open>workspace_mcp_gate.go\<close>).

  The globals of the process are the record \<open>posture\<close>. The pre-tool hook, which runs programs, is the
  parameter \<open>hook\<close>; \<open>err_text\<close> renders a load error.
\<close>

section \<open>The published posture\<close>

datatype policy_decision = PolicyDefault | PolicyAutoApprove | PolicyDecisionGate

type_synonym approval_func = "string \<Rightarrow> string \<Rightarrow> policy_decision \<times> string"

record posture =
  ps_blocked :: "string option"
  ps_fs :: "fs_rules option"
  ps_approval :: "approval_func option"
  ps_memory :: memory_rules

definition SetBlocked :: "string \<Rightarrow> posture \<Rightarrow> posture" where
  "SetBlocked reason ps =
     ps\<lparr>ps_blocked := Some (if reason = [] then ''policy file failed to parse'' else reason)\<rparr>"

definition ClearBlocked :: "posture \<Rightarrow> posture" where
  "ClearBlocked ps = ps\<lparr>ps_blocked := None\<rparr>"

definition Blocked :: "posture \<Rightarrow> string option" where
  "Blocked ps = (case ps_blocked ps of None \<Rightarrow> None | Some r \<Rightarrow> if r = [] then None else Some r)"

definition SetActiveFS :: "fs_rules option \<Rightarrow> posture \<Rightarrow> posture" where
  "SetActiveFS r ps = ps\<lparr>ps_fs := r\<rparr>"

section \<open>Loading\<close>

text \<open>The org file: the configured one, else the central document when it is there.\<close>

definition orgPolicyFile :: "string \<Rightarrow> string \<Rightarrow> (string \<Rightarrow> bool) \<Rightarrow> string" where
  "orgPolicyFile configured central stat_ok =
     (if trim_space configured \<noteq> [] then trim_space configured
      else if central = [] then [] else if stat_ok central then central else [])"

definition loadPolicy ::
  "(string \<Rightarrow> (string, yaml_policy) result) \<Rightarrow> (string \<Rightarrow> file_read) \<Rightarrow> string \<Rightarrow> string \<Rightarrow> policy option" where
  "loadPolicy decode read orgFile projectFile = Merge (LoadOrg decode read orgFile) (Some (Load decode read projectFile))"

section \<open>Publishing\<close>

definition missingRequiredSecrets :: "string list \<Rightarrow> policy option \<Rightarrow> string list" where
  "missingRequiredSecrets present po =
     (case po of None \<Rightarrow> [] | Some p \<Rightarrow> sort (filter (\<lambda>name. name \<notin> set present) (p_snat_required p)))"

fun decision_of :: "approval_action \<times> string \<Rightarrow> policy_decision \<times> string" where
  "decision_of (ApprovalAuto, i) = (PolicyAutoApprove, i)"
| "decision_of (ApprovalGate, i) = (PolicyDecisionGate, i)"
| "decision_of (ApprovalDefault, i) = (PolicyDefault, [])"

text \<open>The hook first: what it blocks is gated, whatever the policy says.\<close>

definition approvalPolicyFunc :: "policy option \<Rightarrow> (string \<Rightarrow> string \<Rightarrow> bool) option \<Rightarrow> approval_func option" where
  "approvalPolicyFunc po hook =
     (let base = (case po of
            Some p \<Rightarrow> if p_loaded p then Some (\<lambda>tool cmd. decision_of (EvaluateToolApproval (Some p) tool cmd)) else None
          | None \<Rightarrow> None)
      in case hook of
           None \<Rightarrow> base
         | Some gate \<Rightarrow>
             let rest = (case base of None \<Rightarrow> (\<lambda>_ _. (PolicyDefault, [])) | Some f \<Rightarrow> f)
             in Some (\<lambda>tool cmd. if gate tool cmd then (PolicyDecisionGate, ''hooks.pre-tool'') else rest tool cmd))"

definition load_failure :: "(policy_error \<Rightarrow> string) \<Rightarrow> policy \<Rightarrow> policy_error \<Rightarrow> string \<times> string" where
  "load_failure err_text p e =
     (let path = (if p_path p = [] then ''.rysh/policy.yaml'' else p_path p)
      in (path @ '' failed to load: '' @ err_text e, path @ '' failed to load''))"

definition missing_text :: "string list \<Rightarrow> string" where
  "missing_text missing = ''required secret(s) not registered for redaction: '' @ join_with '', '' missing @
     [CHR '' '', CHR 0xE2, CHR 0x80, CHR 0x94] @ '' add with `##secret new <NAME> <VALUE>` (clears automatically)''"

definition syncPolicyGate ::
  "(string \<Rightarrow> bool) \<Rightarrow> (policy_error \<Rightarrow> string) \<Rightarrow> fs_os \<Rightarrow> string \<Rightarrow> string list \<Rightarrow> (string \<Rightarrow> string \<Rightarrow> bool) option \<Rightarrow>
   policy option \<Rightarrow> posture \<Rightarrow> posture" where
  "syncPolicyGate loopback err_text os root present hook po ps0 =
     (let ps = ps0\<lparr>ps_memory := MemoryRules loopback po\<rparr>
      in case Option.bind po p_err of
           Some e \<Rightarrow>
             (let (reason, fs_reason) = load_failure err_text (the po) e
              in (SetActiveFS (Some (FailClosedFS fs_reason)) (SetBlocked reason ps))\<lparr>ps_approval := None\<rparr>)
         | None \<Rightarrow>
             (let ps1 = SetActiveFS (ResolveFS os po root) ps; missing = missingRequiredSecrets present po
              in if missing \<noteq> [] then (SetBlocked (missing_text missing) ps1)\<lparr>ps_approval := None\<rparr>
                 else (ClearBlocked ps1)\<lparr>ps_approval := approvalPolicyFunc po hook\<rparr>))"

section \<open>The gate of an MCP write\<close>

abbreviation MCPToolPrefix :: string where "MCPToolPrefix \<equiv> ''mcp_''"

datatype mcp_refusal = PolicyNotLoaded | GovernanceBlocked string | NoTool | RuleGate string | ShellRuleGate string

text \<open>\<open>args\<close> is the \<open>command\<close> field of the call's arguments, which no MCP tool's rules look at.\<close>

definition evaluateMCPGate :: "policy option \<Rightarrow> posture \<Rightarrow> string \<Rightarrow> string \<Rightarrow> string \<Rightarrow> mcp_refusal option" where
  "evaluateMCPGate po ps tool0 args shell =
     (let tool = trim_space tool0; cmd = trim_space shell
      in if Option.bind po p_err \<noteq> None then Some PolicyNotLoaded
         else case Blocked ps of
           Some why \<Rightarrow> Some (GovernanceBlocked why)
         | None \<Rightarrow>
             if tool = [] then Some NoTool
             else (case EvaluateToolApproval po (MCPToolPrefix @ tool) args of
                 (ApprovalGate, i) \<Rightarrow> Some (RuleGate i)
               | _ \<Rightarrow>
                   if cmd = [] then None
                   else (case EvaluateToolApproval po ''bash'' cmd of
                       (ApprovalGate, i) \<Rightarrow> Some (ShellRuleGate i)
                     | _ \<Rightarrow> None)))"

section \<open>What is published\<close>

lemma Blocked_SetBlocked [simp]: "\<exists>r. Blocked (SetBlocked reason ps) = Some r"
  by (simp add: Blocked_def SetBlocked_def)

lemma Blocked_ClearBlocked [simp]: "Blocked (ClearBlocked ps) = None"
  by (simp add: Blocked_def ClearBlocked_def)

lemma posture_fields [simp]:
  "ps_fs (SetBlocked r ps) = ps_fs ps" "ps_memory (SetBlocked r ps) = ps_memory ps"
  "ps_blocked (SetActiveFS f ps) = ps_blocked ps" "ps_fs (SetActiveFS f ps) = f"
  "ps_memory (SetActiveFS f ps) = ps_memory ps" "ps_fs (ClearBlocked ps) = ps_fs ps"
  "ps_memory (ClearBlocked ps) = ps_memory ps"
  by (simp_all add: SetBlocked_def SetActiveFS_def ClearBlocked_def)

lemma Blocked_update [simp]: "Blocked (ps\<lparr>ps_approval := f\<rparr>) = Blocked ps" "Blocked (SetActiveFS r ps) = Blocked ps"
  by (simp_all add: Blocked_def SetActiveFS_def)

lemma FailClosedFS_refuses: "\<not> allowed os (Some (FailClosedFS reason)) p access"
  by (simp add: allowed_Some FailClosedFS_def)

lemma sync_failed:
  assumes "p_err p \<noteq> None"
  shows "let ps' = syncPolicyGate loopback err_text os root present hook (Some p) ps in
    Blocked ps' \<noteq> None \<and> \<not> allowed os' (ps_fs ps') q access \<and> ps_approval ps' = None \<and>
    mr_Enabled (ps_memory ps') = False"
  using assms
  by (auto simp: syncPolicyGate_def Let_def load_failure_def FailClosedFS_refuses MemoryRules_def failed_memory_def)

lemma sync_clear:
  "Option.bind po p_err = None \<Longrightarrow>
   Blocked (syncPolicyGate loopback err_text os root present hook po ps) = None \<longleftrightarrow>
     missingRequiredSecrets present po = []"
  by (simp add: syncPolicyGate_def Let_def)

text \<open>A load that went wrong on either side.\<close>

definition unusable :: "(string \<Rightarrow> (string, yaml_policy) result) \<Rightarrow> (string \<Rightarrow> file_read) \<Rightarrow> string \<Rightarrow> bool" where
  "unusable decode read path \<longleftrightarrow>
     (case read path of NotExist \<Rightarrow> False | Unreadable _ \<Rightarrow> True
      | Contents data \<Rightarrow> (case parse decode data path of Inl _ \<Rightarrow> True | Inr _ \<Rightarrow> False))"

definition org_unusable :: "(string \<Rightarrow> (string, yaml_policy) result) \<Rightarrow> (string \<Rightarrow> file_read) \<Rightarrow> string \<Rightarrow> bool" where
  "org_unusable decode read orgFile \<longleftrightarrow>
     trim_space orgFile \<noteq> [] \<and> (read (trim_space orgFile) = NotExist \<or> unusable decode read (trim_space orgFile))"

lemma Load_err_iff: "p_err (Load decode read path) \<noteq> None \<longleftrightarrow> unusable decode read path"
  by (auto simp: Load_def unusable_def Empty_policy_def dest: parse_ok split: file_read.split sum.split)

lemma LoadOrg_err_iff: "Option.bind (LoadOrg decode read f) p_err \<noteq> None \<longleftrightarrow> org_unusable decode read f"
  by (auto simp: LoadOrg_def org_unusable_def unusable_def Empty_policy_def Let_def dest: parse_ok
      split: file_read.split sum.split)

lemma loadPolicy_err_iff:
  "Option.bind (loadPolicy decode read orgFile projectFile) p_err \<noteq> None \<longleftrightarrow>
     org_unusable decode read orgFile \<or> unusable decode read projectFile"
proof -
  have merged: "p_err (merge_parsed a b) = None \<longleftrightarrow> p_err a = None \<and> p_err b = None" for a b
    by (auto simp: merge_parsed_def)
  show ?thesis
    unfolding LoadOrg_err_iff [symmetric] Load_err_iff [symmetric]
    by (cases "LoadOrg decode read orgFile") (auto simp: loadPolicy_def Merge_def merged simp del: not_None_eq)
qed

lemma loadPolicy_Some: "\<exists>p. loadPolicy decode read orgFile projectFile = Some p"
  by (auto simp: loadPolicy_def Merge_def split: option.split)

end
