(* ===== verification/BashGate.thy ===== *)
theory BashGate
  imports ShellQuote GoPath
begin

text \<open>
  Whether a command line needs the user's approval (\<open>internal/tools/bash.go\<close>): the safe prefixes, the
  program's own coordination commands, the patterns that always ask.

  The parameters of the call are JSON: \<open>None\<close> is a decoding error, otherwise the command's text.
\<close>

section \<open>The allowlist\<close>

definition safeBashPrefixes :: "string list" where
  "safeBashPrefixes =
     [''git status'', ''git diff'', ''git log'', ''git show'', ''git branch'',
      ''git remote'', ''git rev-parse'', ''git ls-files'', ''git describe'',
      ''git blame'', ''git config --get'', ''git stash list'',
      ''ls'', ''tree'', ''pwd'', ''cat'', ''head'', ''tail'', ''wc'', ''stat'', ''file'',
      ''find'', ''grep'', ''rg'', ''which'', ''echo'', ''df'', ''du'', ''ps'', ''lsof'',
      ''go build'', ''go test'', ''go vet'', ''go list'', ''go doc'', ''go env'',
      ''gofmt'', ''golangci-lint'',
      ''sleep'']"

definition ryshCoordination :: "(string \<times> string list) list" where
  "ryshCoordination =
     [(''board'', [''post'', ''reply'', ''send'', ''ack'', ''tail'', ''inbox'']),
      (''fleet'', [''status'', ''show'', ''ls''])]"

text \<open>\<open>exe\<close> is the base name of the running executable, when the system tells it.\<close>

definition ryshBinaries :: "string option \<Rightarrow> string list" where
  "ryshBinaries exe =
     [''rysh'', ''rysh_local'', ''ry''] @
     (case exe of None \<Rightarrow> [] | Some b \<Rightarrow> if has_prefix b ''rysh'' \<or> has_prefix b ''ry'' then [b] else [])"

definition coordinates :: "string option \<Rightarrow> string list \<Rightarrow> bool" where
  "coordinates exe f =
     (case f of
        bin # grp # sub # _ \<Rightarrow>
          \<not> (slash \<in> set bin \<and> \<not> is_abs bin) \<and> path_base bin \<in> set (ryshBinaries exe) \<and>
          (case alist_get ryshCoordination grp of None \<Rightarrow> False | Some subs \<Rightarrow> sub \<in> set subs)
      | _ \<Rightarrow> False)"

definition isRyshCoordination :: "string option \<Rightarrow> string \<Rightarrow> bool" where
  "isRyshCoordination exe seg = coordinates exe (Fields seg)"

definition hasSafeBashPrefix :: "string \<Rightarrow> bool" where
  "hasSafeBashPrefix seg =
     (if has_prefix seg ''find'' \<and>
         (contains_sub seg '' -delete'' \<or> contains_sub seg '' -exec'' \<or> contains_sub seg '' -ok'')
      then False
      else list_ex (\<lambda>pre. seg = pre \<or> has_prefix seg (pre @ '' '')) safeBashPrefixes)"

definition dangerousBashPatterns :: "string list" where
  "dangerousBashPatterns =
     [''rm -rf /'', ''git push --force'', ''git push -f'', ''git reset --hard'', ''git clean -f'', ''> /dev/'', ''sudo '']"

section \<open>The decision\<close>

text \<open>Durations are in milliseconds.\<close>

record bash_tool =
  bt_workDir :: string
  bt_timeout :: int
  bt_blockedPatterns :: "string list"

definition always_gated :: "bash_tool \<Rightarrow> string \<Rightarrow> bool" where
  "always_gated t cmd =
     (list_ex (\<lambda>pattern. pattern \<noteq> [] \<and> contains_sub cmd pattern) (bt_blockedPatterns t) \<or>
      list_ex (contains_sub cmd) dangerousBashPatterns)"

definition known_safe :: "string option \<Rightarrow> string \<Rightarrow> bool" where
  "known_safe exe seg \<longleftrightarrow> hasSafeBashPrefix seg \<or> isRyshCoordination exe seg"

definition RequiresApproval :: "string option \<Rightarrow> bash_tool \<Rightarrow> string option \<Rightarrow> bool" where
  "RequiresApproval exe t params =
     (case params of
        None \<Rightarrow> True
      | Some command \<Rightarrow>
          let cmd = trim_space command; scan = Scan cmd
          in if cmd = [] then True
             else if always_gated t cmd then True
             else if Unsafe scan then True
             else \<not> list_all (known_safe exe) (sr_segments scan))"

text \<open>When a line runs unasked.\<close>

lemma ungated_iff:
  "\<not> RequiresApproval exe t params \<longleftrightarrow>
     (\<exists>command. params = Some command \<and> trim_space command \<noteq> [] \<and> \<not> always_gated t (trim_space command) \<and>
        \<not> Unsafe (Scan (trim_space command)) \<and> list_all (known_safe exe) (sr_segments (Scan (trim_space command))))"
  by (cases params) (simp_all add: RequiresApproval_def Let_def)

text \<open>A line of quoted words is its own trimming.\<close>

lemma quoted_line_trimmed:
  assumes "ws \<noteq> []" and "q = shellQuote \<or> q = shellQuoteArg"
  shows "trim_space (join_with '' '' (map q ws)) = join_with '' '' (map q ws) \<and> join_with '' '' (map q ws) \<noteq> []"
proof -
  have "visible_ends w" if "w \<in> set (map q ws)" for w
    using that assms(2) by (auto simp: shellQuote_ends shellQuoteArg_ends)
  then have "visible_ends (join_with '' '' (map q ws))" using assms(1) by (intro join_visible) auto
  then show ?thesis by (auto simp: visible_ends_def trim_space_visible)
qed

end
