(* ===== verification/PolicyProperties.thy ===== *)
theory PolicyProperties
  imports PolicyGate BashGate
begin

text \<open>
  What the policy promises of tool calls: globs mean what they say, the merge of the two files only
  restricts, what runs unasked is one readable command, a policy that did not load closes everything,
  memory stays on the machine.
\<close>


text \<open>
  A deny glob with a star at both ends, which the code's comment recommends for finding a text anywhere
  in a command, does not find it behind a newline.
\<close>

lemma deny_misses_second_line: "\<not> globMatch ''*rm -rf*'' (''echo a'' @ [newline_char] @ ''rm -rf x'')"
  by code_simp

text \<open>How strict a verdict is.\<close>

fun approval_rank :: "approval_action \<Rightarrow> nat" where
  "approval_rank ApprovalAuto = 0" | "approval_rank ApprovalDefault = 1" | "approval_rank ApprovalGate = 2"

definition alone :: "policy \<Rightarrow> bool" where
  "alone p \<longleftrightarrow> p_err p = None \<and> \<not> p_org_active p"

lemma merged_fields:
  assumes "alone org" and "alone project"
  shows "gated (merge_parsed org project) tool cmd \<longleftrightarrow> gated org tool cmd \<or> gated project tool cmd"
    and "permitted (merge_parsed org project) tool cmd \<Longrightarrow>
      permitted org tool cmd \<and> (p_loaded project \<longrightarrow> permitted project tool cmd)"
  using assms by (auto simp: alone_def merge_parsed_def gated_def permitted_def both_allow_def)

text \<open>
  C19: Laying an org policy over a project's only restricts. The merged verdict is at least as strict as
  the org file's own, and as the project's own when there is a project file; and a call is gated exactly
  when one of the two gates it.
\<close>

theorem merge_only_restricts:
  assumes "alone org" and "alone project"
  shows "approval_rank (fst (EvaluateToolApproval (Some org) tool cmd)) \<le>
      approval_rank (fst (EvaluateToolApproval (Merge (Some org) (Some project)) tool cmd)) \<and>
    (p_loaded project \<longrightarrow>
      approval_rank (fst (EvaluateToolApproval (Some project) tool cmd)) \<le>
      approval_rank (fst (EvaluateToolApproval (Merge (Some org) (Some project)) tool cmd))) \<and>
    (fst (EvaluateToolApproval (Merge (Some org) (Some project)) tool cmd) = ApprovalGate \<longleftrightarrow>
      fst (EvaluateToolApproval (Some org) tool cmd) = ApprovalGate \<or>
      fst (EvaluateToolApproval (Some project) tool cmd) = ApprovalGate)"
  using merged_fields [OF assms, of tool "command_of tool cmd"] by (auto simp: Merge_def verdict_cases)

definition lenient_project :: policy where
  "lenient_project = Empty_policy\<lparr>p_loaded := True, p_bash_allow := [''*'']\<rparr>"

definition narrow_org :: policy where
  "narrow_org = Empty_policy\<lparr>p_loaded := True, p_bash_deny := [''*sudo*''], p_bash_allow := [''git *'']\<rparr>"

theorem merge_only_restricts_witness:
  "approval_rank (fst (EvaluateToolApproval (Some narrow_org) ''bash'' ''sudo ls'')) \<le>
    approval_rank (fst (EvaluateToolApproval (Merge (Some narrow_org) (Some lenient_project)) ''bash'' ''sudo ls''))"
  by (rule merge_only_restricts [THEN conjunct1])
    (simp_all add: alone_def narrow_org_def lenient_project_def Empty_policy_def)

text \<open>
  C20: A shell call that a policy approves by its \<open>bash.allow\<close> rules, no rule naming the tool, is one
  command: the reference reading of its quotes has at most one command between operators, no
  substitution and no output redirection; and no deny rule matches it.
\<close>

theorem auto_approved_is_one_command:
  assumes "fst (EvaluateToolApproval (Some p) tool command) = ApprovalAuto" and "isBashTool tool"
    and "\<not> hits (p_auto_approve p) tool \<and> \<not> hits (p_org_auto_approve p) tool"
    and "CHR 0x00 \<notin> set (trim_space command)"
  shows "length (commands (pieces [] (marks NoQuote (trim_space command)))) \<le> 1 \<and>
    \<not> substitutes (marks NoQuote (trim_space command)) \<and> \<not> redirects (marks NoQuote (trim_space command)) \<and>
    \<not> hits (p_bash_deny p) (trim_space command)"
proof -
  let ?c = "trim_space command"
  have cmd: "command_of tool command = ?c" using assms(2) by (simp add: command_of_def extractCommand_def)
  have v: "\<not> gated p tool ?c" "permitted p tool ?c"
    using assms(1) by (simp_all add: verdict_cases cmd split: if_splits)
  then have plain: "?c \<noteq> []" "plainCommand ?c" using assms(3) by (auto simp: permitted_def both_allow_def)
  then have safe: "\<not> Unsafe (Scan ?c)" "length (sr_segments (Scan ?c)) \<le> 1"
    using plainCommand_single [OF plain(2) assms(4)] by auto
  then have "\<not> sr_unbalanced (scan_loop NoQuote True [] empty_scan ?c)" by (simp add: Unsafe_def Scan_def)
  from scan_segments [OF this assms(4)] have "sr_segments (Scan ?c) = commands (pieces [] (marks NoQuote ?c))"
    by (simp add: Scan_def empty_scan_def)
  moreover have "reads_plainly NoQuote ?c" using scan_plain [OF _ assms(4)] safe(1) by (simp add: Scan_def)
  ultimately show ?thesis using safe(2) v(1) plain(1) by (simp add: reads_plainly_def gated_def restricted_def)
qed

theorem auto_approved_is_one_command_witness:
  "\<not> substitutes (marks NoQuote (trim_space ''git log''))"
proof -
  have "fst (EvaluateToolApproval (Some narrow_org) ''bash'' ''git log'') = ApprovalAuto" by code_simp
  moreover have "\<not> hits (p_auto_approve narrow_org) ''bash'' \<and> \<not> hits (p_org_auto_approve narrow_org) ''bash''"
    by (simp add: narrow_org_def Empty_policy_def)
  moreover have "CHR 0x00 \<notin> set (trim_space ''git log'')" by code_simp
  ultimately show ?thesis
    using auto_approved_is_one_command [of narrow_org "''bash''" "''git log''"] unfolding isBashTool_def by blast
qed

definition plain_tool :: bash_tool where
  "plain_tool = \<lparr>bt_workDir = ''/ws'', bt_timeout = 30000, bt_blockedPatterns = []\<rparr>"

text \<open>
  C21: A command line runs unasked only when every command the reference reading finds in it is a known
  safe one or the program's own coordination, it has no substitution and no output redirection, and it
  holds none of the dangerous patterns, the user's or the built-in ones.
\<close>

theorem ungated_line_is_safe:
  assumes "\<not> RequiresApproval exe t (Some command)" and "CHR 0x00 \<notin> set (trim_space command)"
  shows "(\<forall>c \<in> set (commands (pieces [] (marks NoQuote (trim_space command)))).
      hasSafeBashPrefix c \<or> isRyshCoordination exe c) \<and>
    \<not> substitutes (marks NoQuote (trim_space command)) \<and> \<not> redirects (marks NoQuote (trim_space command)) \<and>
    (\<forall>pattern \<in> set (dangerousBashPatterns @ bt_blockedPatterns t).
      pattern \<noteq> [] \<longrightarrow> \<not> contains_sub (trim_space command) pattern)"
proof -
  let ?c = "trim_space command"
  have u: "\<not> always_gated t ?c" "\<not> Unsafe (Scan ?c)" "list_all (known_safe exe) (sr_segments (Scan ?c))"
    using assms(1) by (auto simp: ungated_iff)
  then have "\<not> sr_unbalanced (scan_loop NoQuote True [] empty_scan ?c)" by (simp add: Unsafe_def Scan_def)
  from scan_segments [OF this assms(2)] have segs: "sr_segments (Scan ?c) = commands (pieces [] (marks NoQuote ?c))"
    by (simp add: Scan_def empty_scan_def)
  have "\<forall>c \<in> set (commands (pieces [] (marks NoQuote ?c))). hasSafeBashPrefix c \<or> isRyshCoordination exe c"
    using u(3) unfolding segs list_all_iff known_safe_def by blast
  moreover have "reads_plainly NoQuote ?c" using scan_plain [OF _ assms(2)] u(2) by (simp add: Scan_def)
  moreover have "\<forall>pattern \<in> set (dangerousBashPatterns @ bt_blockedPatterns t). pattern \<noteq> [] \<longrightarrow> \<not> contains_sub ?c pattern"
    using u(1) by (simp only: always_gated_def list_ex_iff set_append) blast
  ultimately show ?thesis unfolding reads_plainly_def by blast
qed

theorem ungated_line_is_safe_witness: "\<not> redirects (marks NoQuote (trim_space ''git status && ls''))"
proof -
  have "\<not> RequiresApproval None plain_tool (Some ''git status && ls'')" by code_simp
  moreover have "CHR 0x00 \<notin> set (trim_space ''git status && ls'')" by code_simp
  ultimately show ?thesis by (rule ungated_line_is_safe [THEN conjunct2, THEN conjunct2, THEN conjunct1])
qed

text \<open>
  Among the lines that run unasked are some that change things: the safe prefixes are compared as text,
  and what follows them is not looked at.
\<close>

lemma branch_deletion_ungated: "\<not> RequiresApproval None plain_tool (Some ''git branch -D main'')"
  by code_simp

lemma find_delete_ungated:
  "\<not> RequiresApproval None plain_tool (Some (''find . '' @ [dquote_char] @ ''-delete'' @ [dquote_char]))"
  by code_simp

text \<open>A function definition runs nothing, and the command that calls it is a safe one.\<close>

lemma redefined_command_ungated: "\<not> RequiresApproval None plain_tool (Some ''echo () (rm -rf x); echo hi'')"
  by code_simp

text \<open>
  The program's own coordination never waits for the user: a line of quoted words whose first three
  name a board or fleet command is gated only if it contains one of the dangerous patterns.
\<close>

lemma coordination_runs_unasked:
  assumes "q = shellQuote \<or> q = shellQuoteArg" and "coordinates exe ws"
  shows "RequiresApproval exe t (Some (join_with '' '' (map q ws))) \<longleftrightarrow> always_gated t (join_with '' '' (map q ws))"
proof -
  let ?line = "join_with '' '' (map q ws)"
  have ws: "ws \<noteq> []" using assms(2) by (auto simp: coordinates_def)
  have "Fields ?line = ws" by (rule fields_join) (rule quote_reads [OF assms(1)])
  then have "known_safe exe ?line" using assms(2) by (simp add: known_safe_def isRyshCoordination_def)
  then show ?thesis
    using quoted_line_scan [OF ws assms(1)] quoted_line_trimmed [OF ws assms(1)]
    by (simp add: RequiresApproval_def Let_def Unsafe_def empty_scan_def)
qed

theorem coordination_runs_unasked_witness:
  "\<not> RequiresApproval None plain_tool
     (Some (join_with '' '' (map shellQuote [''/usr/bin/rysh'', ''board'', ''post'', ''done; next > plan''])))"
proof -
  have "coordinates None [''/usr/bin/rysh'', ''board'', ''post'', ''done; next > plan'']" by code_simp
  from coordination_runs_unasked [OF disjI1 [OF refl] this] show ?thesis by (simp only:) code_simp
qed

text \<open>
  C22: A policy that could not be used closes everything. When the org file is configured but missing,
  or either file cannot be read or parsed, publishing the loaded policy blocks agent execution, refuses
  every path, installs no approval rules, turns memory off, and the MCP gate refuses; and otherwise
  execution is blocked only for a required secret that is not registered.
\<close>

theorem unusable_policy_closes:
  shows "let po = loadPolicy decode read orgFile projectFile;
      ps' = syncPolicyGate loopback err_text os root present hook po ps
    in (org_unusable decode read orgFile \<or> unusable decode read projectFile \<longrightarrow>
          Blocked ps' \<noteq> None \<and> \<not> allowed os' (ps_fs ps') q access \<and> ps_approval ps' = None \<and>
          mr_Enabled (ps_memory ps') = False \<and> evaluateMCPGate po ps' tool args shell = Some PolicyNotLoaded) \<and>
       (\<not> (org_unusable decode read orgFile \<or> unusable decode read projectFile) \<longrightarrow>
          (Blocked ps' = None \<longleftrightarrow> missingRequiredSecrets present po = []))"
proof -
  obtain p where p: "loadPolicy decode read orgFile projectFile = Some p" using loadPolicy_Some by blast
  have err: "p_err p \<noteq> None \<longleftrightarrow> org_unusable decode read orgFile \<or> unusable decode read projectFile"
    using loadPolicy_err_iff [of decode read orgFile projectFile] by (simp add: p)
  show ?thesis
  proof (cases "p_err p = None")
    case True
    then show ?thesis using err sync_clear [of "Some p"] by (simp add: p Let_def)
  next
    case False
    then have "evaluateMCPGate (Some p) ps' tool args shell = Some PolicyNotLoaded" for ps'
      by (auto simp: evaluateMCPGate_def Let_def)
    then show ?thesis
      using False err sync_failed [OF False, of loopback err_text os root present hook ps os' q access] unfolding p Let_def by blast
  qed
qed

theorem unusable_policy_closes_witness:
  "Blocked (syncPolicyGate (\<lambda>_. False) (\<lambda>_. ''missing'') \<lparr>os_wd = None, os_home = None, os_eval = (\<lambda>_. None)\<rparr> ''/ws'' [] None
     (loadPolicy (\<lambda>_. Inl ''bad'') (\<lambda>_. NotExist) ''/etc/org.yaml'' ''/ws/.rysh/policy.yaml'')
     \<lparr>ps_blocked = None, ps_fs = None, ps_approval = None, ps_memory = default_memory\<rparr>) \<noteq> None"
proof -
  have "org_unusable (\<lambda>_. Inl ''bad'') (\<lambda>_. NotExist) ''/etc/org.yaml''" by code_simp
  then show ?thesis
    using unusable_policy_closes [of "\<lambda>_. Inl ''bad''" "\<lambda>_. NotExist" "''/etc/org.yaml''" "''/ws/.rysh/policy.yaml''"
        "\<lambda>_. False" "\<lambda>_. ''missing''" "\<lparr>os_wd = None, os_home = None, os_eval = (\<lambda>_. None)\<rparr>" "''/ws''" "[]" None
        "\<lparr>ps_blocked = None, ps_fs = None, ps_approval = None, ps_memory = default_memory\<rparr>"]
    unfolding Let_def by blast
qed

text \<open>
  A central document that was pulled and then removed leaves no org policy at all: the path is dropped
  before \<open>LoadOrg\<close> could see that the file is missing.
\<close>

lemma removed_central_document_is_no_policy:
  "LoadOrg decode read (orgPolicyFile [] central (\<lambda>_. False)) = None"
  by (simp add: orgPolicyFile_def LoadOrg_def)

text \<open>
  Memory is resolved strictest-wins and stays on the machine. Of a policy that loaded, memory is on
  only if neither section turns it off, is injected only when it is on and neither turns that off, with
  no more bytes than the default and than either section allows; recall is on only if memory is and some
  section says so and none says otherwise; text may go to a remote embedder only if the org's section
  allows it and the project's does not forbid it, and the embedder named is the org's or on the loopback.
\<close>

lemma memory_strictest_wins:
  assumes "p_err p = None"
  shows "let r = MemoryRules loopback (Some p); sem = mr_Semantic r;
      project = ms_semantic (p_memory p); org = ms_semantic (p_org_memory p)
    in (mr_Enabled r \<longleftrightarrow> ms_enabled (p_memory p) \<noteq> Some False \<and> ms_enabled (p_org_memory p) \<noteq> Some False) \<and>
       (mr_Inject r \<longleftrightarrow> mr_Enabled r \<and> ms_inject (p_memory p) \<noteq> Some False \<and> ms_inject (p_org_memory p) \<noteq> Some False) \<and>
       mr_MaxInjectBytes r \<le> DefaultMemoryInjectBytes \<and>
       (\<forall>s \<in> {p_memory p, p_org_memory p}. 0 < ms_max_inject_bytes s \<longrightarrow> mr_MaxInjectBytes r \<le> ms_max_inject_bytes s) \<and>
       (sm_Enabled sem \<longrightarrow> mr_Enabled r \<and>
          (says (\<lambda>s. ss_enabled s = Some True) project \<or> says (\<lambda>s. ss_enabled s = Some True) org) \<and>
          \<not> says (\<lambda>s. ss_enabled s = Some False) project \<and> \<not> says (\<lambda>s. ss_enabled s = Some False) org) \<and>
       (sm_AllowRemote sem \<longrightarrow>
          says (\<lambda>s. ss_allow_remote s = Some True) org \<and> \<not> says (\<lambda>s. ss_allow_remote s = Some False) project) \<and>
       (sm_EmbedderURL sem \<noteq> [] \<longrightarrow>
          loopback (sm_EmbedderURL sem) \<or> says (\<lambda>s. ss_embedder_url s = sm_EmbedderURL sem) org)"
proof -
  let ?r = "MemoryRules loopback (Some p)"
  have on: "mr_Enabled ?r \<longleftrightarrow> ms_enabled (p_memory p) \<noteq> Some False \<and> ms_enabled (p_org_memory p) \<noteq> Some False"
    and inject: "mr_Inject ?r \<longleftrightarrow> mr_Enabled ?r \<and> ms_inject (p_memory p) \<noteq> Some False \<and> ms_inject (p_org_memory p) \<noteq> Some False"
    using assms by (auto simp: MemoryRules_def Let_def memory_step_def default_memory_def)
  have sem: "mr_Semantic ?r = resolveSemantic loopback (ms_semantic (p_memory p)) (ms_semantic (p_org_memory p)) (mr_Enabled ?r)"
    using assms by (simp add: MemoryRules_def Let_def)
  show ?thesis
    unfolding Let_def
    using on inject MemoryRules_bytes [OF assms] resolveSemantic_enabled resolveSemantic_remote resolveSemantic_url
    unfolding sem by blast
qed

definition remote_project :: policy where
  "remote_project = Empty_policy\<lparr>p_memory := no_memory\<lparr>ms_semantic := Some \<lparr>ss_enabled = Some True,
     ss_embedder_url = ''https://example.org'', ss_model = ''m'', ss_dim = 8, ss_allow_remote = Some True,
     ss_auto_recall = None, ss_auto_recall_bytes = 0\<rparr>\<rparr>\<rparr>"

theorem memory_strictest_wins_witness:
  "\<not> sm_AllowRemote (mr_Semantic (MemoryRules (\<lambda>_. False) (Some remote_project)))"
proof -
  have "p_err remote_project = None" "ms_semantic (p_org_memory remote_project) = None"
    by (simp_all add: remote_project_def Empty_policy_def no_memory_def)
  then show ?thesis
    using memory_strictest_wins [of remote_project "\<lambda>_. False"] unfolding Let_def by auto
qed

section \<open>What a loaded policy holds\<close>















end
