(* ===== verification/FsBash.thy ===== *)
theory FsBash
  imports FsRules ShellQuote
begin

text \<open>
  The check of the paths a shell command names (\<open>internal/policy/fs_bash.go\<close>): splitting the line into
  words and operators, the accesses of a simple command, the walk over the line.

  As in the scanner, the code walks over runes and the model over bytes; every character it looks at is
  ASCII.
\<close>

section \<open>Words and operators\<close>

record sh_word =
  sw_text :: string
  sw_op :: bool
  sw_unresolved :: bool

definition sh_operator :: "string \<Rightarrow> sh_word" where
  "sh_operator s = \<lparr>sw_text = s, sw_op = True, sw_unresolved = False\<rparr>"

definition sh_plain :: "string \<Rightarrow> bool \<Rightarrow> sh_word" where
  "sh_plain s unresolved = \<lparr>sw_text = s, sw_op = False, sw_unresolved = unresolved\<rparr>"

definition isDigits :: "string \<Rightarrow> bool" where
  "isDigits s \<longleftrightarrow> s \<noteq> [] \<and> list_all is_digit s"

definition flush_word :: "string \<Rightarrow> bool \<Rightarrow> bool \<Rightarrow> sh_word list" where
  "flush_word cur inWord unresolved = (if inWord then [sh_plain cur unresolved] else [])"

definition is_control :: "char \<Rightarrow> bool" where
  "is_control c \<longleftrightarrow> c = newline_char \<or> c = CHR '';'' \<or> c = CHR ''|'' \<or> c = CHR ''&'' \<or> c = CHR ''('' \<or> c = CHR '')''"

definition is_redirect :: "char \<Rightarrow> bool" where
  "is_redirect c \<longleftrightarrow> c = CHR ''>'' \<or> c = CHR ''<''"

definition expands :: "char \<Rightarrow> bool" where
  "expands c \<longleftrightarrow> c = CHR ''$'' \<or> c = backtick_char \<or> c = CHR ''*'' \<or> c = CHR ''?'' \<or> c = CHR ''[''"

definition redirect_tail :: "char \<Rightarrow> bool" where
  "redirect_tail c \<longleftrightarrow> c = CHR ''>'' \<or> c = CHR ''<'' \<or> c = CHR ''|''"

text \<open>A here-document or here-string becomes \<open><<\<close>: its word is not a path.\<close>

definition redirect_op :: "char \<Rightarrow> string \<Rightarrow> string" where
  "redirect_op c s =
     (let oper = c # takeWhile redirect_tail s in if oper = ''<<'' \<or> oper = ''<<<'' then ''<<'' else oper)"

text \<open>\<open>&>\<close> and \<open>&>>\<close> redirect, when no word is pending.\<close>

definition redirects_both :: "char \<Rightarrow> bool \<Rightarrow> string \<Rightarrow> bool" where
  "redirects_both c inWord s \<longleftrightarrow> c = CHR ''&'' \<and> s \<noteq> [] \<and> hd s = CHR ''>'' \<and> \<not> inWord"

definition doubled :: "char \<Rightarrow> string \<Rightarrow> bool" where
  "doubled c s \<longleftrightarrow> (c = CHR ''|'' \<or> c = CHR ''&'') \<and> s \<noteq> [] \<and> hd s = c"

function sh_loop :: "quote \<Rightarrow> string \<Rightarrow> bool \<Rightarrow> bool \<Rightarrow> string \<Rightarrow> sh_word list" where
  "sh_loop q cur inWord unresolved [] = flush_word cur inWord unresolved"
| "sh_loop SingleQuote cur inWord unresolved (c # s) =
     (if c = squote_char then sh_loop NoQuote cur inWord unresolved s
      else sh_loop SingleQuote (cur @ [c]) inWord unresolved s)"
| "sh_loop DoubleQuote cur inWord unresolved (c # s) =
     (if c = dquote_char then sh_loop NoQuote cur inWord unresolved s
      else if c = backslash_char \<and> s \<noteq> [] then sh_loop DoubleQuote (cur @ [hd s]) inWord unresolved (tl s)
      else sh_loop DoubleQuote (cur @ [c]) inWord (unresolved \<or> c = CHR ''$'' \<or> c = backtick_char) s)"
| "sh_loop NoQuote cur inWord unresolved (c # s) =
     (if c = backslash_char \<and> s \<noteq> [] then sh_loop NoQuote (cur @ [hd s]) True unresolved (tl s)
      else if c = squote_char then sh_loop SingleQuote cur True unresolved s
      else if c = dquote_char then sh_loop DoubleQuote cur True unresolved s
      else if c = CHR '' '' \<or> c = tab_char then flush_word cur inWord unresolved @ sh_loop NoQuote [] False False s
      else if is_control c then
        (if redirects_both c inWord s then
           sh_operator ''>'' # sh_loop NoQuote cur inWord unresolved (dropWhile (\<lambda>d. d = CHR ''>'') s)
         else if doubled c s then
           flush_word cur inWord unresolved @ sh_operator [c, c] # sh_loop NoQuote [] False False (tl s)
         else flush_word cur inWord unresolved @ sh_operator [c] # sh_loop NoQuote [] False False s)
      else if is_redirect c then
        (if inWord \<and> \<not> unresolved \<and> isDigits cur then [] else flush_word cur inWord unresolved) @
        sh_operator (redirect_op c s) # sh_loop NoQuote [] False False (dropWhile redirect_tail s)
      else sh_loop NoQuote (cur @ [c]) True (unresolved \<or> expands c) s)"
  by pat_completeness auto
termination
  by (relation "measure (\<lambda>(q, cur, w, u, s). length s)") (auto simp: le_imp_less_Suc length_dropWhile_le)

declare sh_loop.simps [simp del]

definition shSplit :: "string \<Rightarrow> sh_word list" where
  "shSplit cmd = sh_loop NoQuote [] False False cmd"

section \<open>Simple commands\<close>

definition shWritesAll :: "string list" where
  "shWritesAll = [''rm'', ''mv'', ''tee'', ''touch'', ''mkdir'', ''rmdir'', ''chmod'', ''chown'', ''chgrp'',
     ''truncate'', ''shred'', ''unlink'']"

definition shWritesLast :: "string list" where
  "shWritesLast = [''cp'', ''ln'', ''install'', ''rsync'']"

definition shPrefixes :: "string list" where
  "shPrefixes = [''sudo'', ''env'', ''nohup'', ''time'', ''command'', ''exec'', ''nice'', ''doas'', ''xargs'']"

type_synonym sh_access = "string \<times> fs_access"

text \<open>The redirections of a simple command, and its other words.\<close>

definition redirect_access :: "sh_word \<Rightarrow> sh_word \<Rightarrow> sh_access list" where
  "redirect_access w t =
     (if sw_text w = ''<<'' \<or> sw_unresolved t \<or> has_prefix (sw_text t) ''&'' then []
      else [(sw_text t, if has_prefix (sw_text w) ''>'' then FSWrite else FSRead)])"

fun take_redirects :: "sh_word list \<Rightarrow> sh_access list \<times> sh_word list" where
  "take_redirects [] = ([], [])"
| "take_redirects [w] = ([], if sw_op w then [] else [w])"
| "take_redirects (w # t # ws) =
     (if sw_op w then
        (if \<not> sw_op t then (let (acc, args) = take_redirects ws in (redirect_access w t @ acc, args))
         else take_redirects (t # ws))
      else (let (acc, args) = take_redirects (t # ws) in (acc, w # args)))"

text \<open>An assignment in front of a command: a name, \<open>=\<close>, and no path character in the name.\<close>

definition is_assignment :: "string \<Rightarrow> bool" where
  "is_assignment a \<longleftrightarrow>
     (let name = takeWhile (\<lambda>c. c \<noteq> CHR ''='') a in CHR ''='' \<in> set a \<and> name \<noteq> [] \<and> \<not> contains_any name ''/.-'')"

definition is_flag :: "sh_word \<Rightarrow> bool" where
  "is_flag w = has_prefix (sw_text w) ''-''"

function drop_prefixes :: "sh_word list \<Rightarrow> sh_word list" where
  "drop_prefixes args =
     (case args of
        [] \<Rightarrow> []
      | a # rest \<Rightarrow>
          if is_assignment (sw_text a) then drop_prefixes rest
          else if sw_text a \<in> set shPrefixes then drop_prefixes (dropWhile is_flag rest)
          else args)"
  by pat_completeness auto
termination
  by (relation "measure length") (auto simp: le_imp_less_Suc length_dropWhile_le)

declare drop_prefixes.simps [simp del]

text \<open>The operands of a command, with the accesses \<open>dd\<close> names.\<close>

fun operands_of :: "string \<Rightarrow> sh_word list \<Rightarrow> sh_access list \<times> string list" where
  "operands_of name [] = ([], [])"
| "operands_of name (a # as) =
     (let (acc, ops) = operands_of name as
      in if sw_unresolved a \<or> is_flag a then (acc, ops)
         else if name = ''dd'' \<and> has_prefix (sw_text a) ''of='' then ((trim_prefix (sw_text a) ''of='', FSWrite) # acc, ops)
         else if name = ''dd'' \<and> has_prefix (sw_text a) ''if='' then ((trim_prefix (sw_text a) ''if='', FSRead) # acc, ops)
         else (acc, sw_text a # ops))"

definition sed_in_place :: "string \<Rightarrow> sh_word list \<Rightarrow> bool" where
  "sed_in_place name as \<longleftrightarrow> name = ''sed'' \<and> list_ex (\<lambda>a. \<not> sw_unresolved a \<and> has_prefix (sw_text a) ''-i'') as"

definition operand_access :: "string \<Rightarrow> bool \<Rightarrow> nat \<Rightarrow> nat \<Rightarrow> fs_access" where
  "operand_access name inPlace n i =
     (if name \<in> set shWritesAll then FSWrite
      else if name \<in> set shWritesLast \<and> i = n - 1 \<and> 1 < n then FSWrite
      else if name = ''sed'' \<and> inPlace \<and> 0 < i then FSWrite
      else FSRead)"

definition command_path :: "sh_word \<Rightarrow> sh_access list" where
  "command_path w = (if slash \<in> set (sw_text w) \<and> \<not> sw_unresolved w then [(sw_text w, FSRead)] else [])"

text \<open>The accesses of a command, and its name with its operands when it has one.\<close>

definition command_accesses :: "sh_word list \<Rightarrow> sh_access list \<times> (string \<times> string list) option" where
  "command_accesses simple =
     (let (redirs, words) = take_redirects simple
      in case drop_prefixes words of
           [] \<Rightarrow> (redirs, None)
         | w # as \<Rightarrow>
             let name = path_base (sw_text w);
                 (named, ops) = operands_of name as;
                 n = length ops
             in (redirs @ command_path w @ named @
                   map (\<lambda>(i, x). (x, operand_access name (sed_in_place name as) n i)) (enumerate 0 ops),
                 Some (name, ops)))"

section \<open>The check\<close>

definition shResolve :: "fs_os \<Rightarrow> string \<Rightarrow> string \<Rightarrow> string" where
  "shResolve os word cwd =
     (let rest = (if is_abs word then word else cwd @ ''/'' @ word)
      in if word = ''~'' \<or> has_prefix word ''~/''
         then (case os_home os of Some h \<Rightarrow> h @ trim_prefix word ''~'' | None \<Rightarrow> rest)
         else rest)"

fun checkAccesses :: "fs_os \<Rightarrow> fs_rules option \<Rightarrow> string \<Rightarrow> sh_access list \<Rightarrow> fs_denied option" where
  "checkAccesses os ro cwd [] = None"
| "checkAccesses os ro cwd ((word, access) # as) =
     (if word = [] then checkAccesses os ro cwd as
      else case Check os ro (shResolve os word cwd) access of
        Some e \<Rightarrow> Some e
      | None \<Rightarrow> checkAccesses os ro cwd as)"

text \<open>\<open>run\<close>: the refusal, or the directory after the command.\<close>

definition run_simple :: "fs_os \<Rightarrow> fs_rules option \<Rightarrow> string \<Rightarrow> sh_word list \<Rightarrow> (fs_denied, string) result" where
  "run_simple os ro cwd simple =
     (let (accesses, cmd) = command_accesses simple
      in case checkAccesses os ro cwd accesses of
           Some e \<Rightarrow> Inl e
         | None \<Rightarrow> Inr (case cmd of
             Some (name, [target]) \<Rightarrow> if name = ''cd'' then shResolve os target cwd else cwd
           | _ \<Rightarrow> cwd))"

definition separates :: "sh_word \<Rightarrow> bool" where
  "separates w \<longleftrightarrow> sw_op w \<and> \<not> has_prefix (sw_text w) ''>'' \<and> \<not> has_prefix (sw_text w) ''<''"

fun check_words :: "fs_os \<Rightarrow> fs_rules option \<Rightarrow> string \<Rightarrow> sh_word list \<Rightarrow> sh_word list \<Rightarrow> fs_denied option" where
  "check_words os ro cwd simple [] = (case run_simple os ro cwd simple of Inl e \<Rightarrow> Some e | Inr _ \<Rightarrow> None)"
| "check_words os ro cwd simple (w # ws) =
     (if separates w then
        (case run_simple os ro cwd simple of Inl e \<Rightarrow> Some e | Inr cwd' \<Rightarrow> check_words os ro cwd' [] ws)
      else check_words os ro cwd (simple @ [w]) ws)"

definition CheckBash :: "fs_os \<Rightarrow> fs_rules option \<Rightarrow> string \<Rightarrow> string \<Rightarrow> fs_denied option" where
  "CheckBash os ro cmd cwd = (if ro = None then None else check_words os ro cwd [] (shSplit cmd))"

section \<open>Quoted words through the splitter\<close>

lemma sh_spelled:
  "sh_loop SingleQuote cur True False (concat (map (spell backslash_spelling) w) @ squote_char # rest) =
   sh_loop NoQuote (cur @ w) True False rest"
proof (induction w arbitrary: cur)
  case Nil
  show ?case by (simp add: sh_loop.simps)
next
  case (Cons c w)
  show ?case
  proof (cases "c = squote_char")
    case True
    then show ?thesis using Cons [of "cur @ [c]"] by (simp add: spell_def sh_loop.simps)
  next
    case False
    then show ?thesis using Cons [of "cur @ [c]"] by (simp add: spell_def sh_loop.simps)
  qed
qed

lemma sh_quoted: "sh_loop NoQuote [] False False (shellQuote w @ rest) = sh_loop NoQuote w True False rest"
  using sh_spelled [of "[]" w rest] by (simp add: shellQuote_with quote_with_def sh_loop.simps(4))

lemma shSplit_quoted: "shSplit (join_with '' '' (map shellQuote ws)) = map (\<lambda>w. sh_plain w False) ws"
  unfolding shSplit_def
proof (induction ws)
  case Nil
  show ?case by (simp add: sh_loop.simps flush_word_def)
next
  case (Cons w ws)
  show ?case
  proof (cases "ws = []")
    case True
    then show ?thesis using sh_quoted [of w "[]"] by (simp add: sh_loop.simps flush_word_def)
  next
    case False
    then have "sh_loop NoQuote [] False False (join_with '' '' (map shellQuote (w # ws))) =
        sh_loop NoQuote w True False (CHR '' '' # join_with '' '' (map shellQuote ws))"
      using sh_quoted by (simp add: join_with_Cons)
    also have "\<dots> = sh_plain w False # sh_loop NoQuote [] False False (join_with '' '' (map shellQuote ws))"
      by (simp add: sh_loop.simps(4) flush_word_def)
    finally show ?thesis using Cons.IH by simp
  qed
qed

text \<open>A line without operators is one simple command.\<close>

lemma check_words_simple:
  "list_all (\<lambda>w. \<not> sw_op w) ws \<Longrightarrow>
   check_words os ro cwd simple ws = (case run_simple os ro cwd (simple @ ws) of Inl e \<Rightarrow> Some e | Inr _ \<Rightarrow> None)"
  by (induction ws arbitrary: simple) (simp_all add: separates_def)

lemma CheckBash_quoted:
  "CheckBash os (Some r) (join_with '' '' (map shellQuote ws)) cwd =
     checkAccesses os (Some r) cwd (fst (command_accesses (map (\<lambda>w. sh_plain w False) ws)))"
  by (simp add: CheckBash_def shSplit_quoted check_words_simple list_all_iff sh_plain_def run_simple_def
      case_prod_beta split: option.split)

lemma take_redirects_plain: "list_all (\<lambda>w. \<not> sw_op w) ws \<Longrightarrow> take_redirects ws = ([], ws)"
  by (induction ws rule: take_redirects.induct) simp_all

lemma checkAccesses_refused:
  "checkAccesses os ro cwd as \<noteq> None \<longleftrightarrow>
     (\<exists>(word, access) \<in> set as. word \<noteq> [] \<and> \<not> allowed os ro (shResolve os word cwd) access)"
  by (induction os ro cwd as rule: checkAccesses.induct) (auto simp: allowed_def split: option.splits)

text \<open>The operands of a command other than \<open>dd\<close>.\<close>

lemma operands_plain:
  "name \<noteq> ''dd'' \<Longrightarrow>
   operands_of name (map (\<lambda>w. sh_plain w False) ws) = ([], filter (\<lambda>w. \<not> has_prefix w ''-'') ws)"
  by (induction ws) (simp_all add: sh_plain_def is_flag_def)

definition plain_command_name :: "string \<Rightarrow> bool" where
  "plain_command_name name \<longleftrightarrow> \<not> is_assignment name \<and> name \<notin> set shPrefixes"

lemma named_accesses:
  assumes "plain_command_name name" and "path_base name = base" and "base \<noteq> ''dd''"
  shows "fst (command_accesses (map (\<lambda>w. sh_plain w False) (name # args))) =
    command_path (sh_plain name False) @
    (let ops = filter (\<lambda>w. \<not> has_prefix w ''-'') args
     in map (\<lambda>(i, x). (x, operand_access base (sed_in_place base (map (\<lambda>w. sh_plain w False) args)) (length ops) i))
          (enumerate 0 ops))"
proof -
  let ?ws = "map (\<lambda>w. sh_plain w False) (name # args)"
  have "take_redirects ?ws = ([], ?ws)" by (rule take_redirects_plain) (simp add: list_all_iff sh_plain_def)
  moreover have "drop_prefixes ?ws = ?ws"
    using assms(1) by (subst drop_prefixes.simps) (simp add: plain_command_name_def sh_plain_def)
  moreover have "sw_text (sh_plain name False) = name" by (simp add: sh_plain_def)
  ultimately show ?thesis
    using assms(2) operands_plain [OF assms(3)] by (simp add: command_accesses_def Let_def)
qed

end
