(* ===== verification/FsProperties.thy ===== *)
theory FsProperties
  imports FsBash
begin

text \<open>
  What the filesystem rules promise: what a glob covers, which rule of a layer wins, that the org's layer
  cannot be carved out of, that a denied directory is closed with everything beneath it, and that the
  shell check sees the paths a mutating command names.
\<close>

section \<open>Covering\<close>

definition ordinary_glob :: "string \<Rightarrow> bool" where
  "ordinary_glob g \<longleftrightarrow> g = ''**'' \<or> plain_glob g"

definition segment_of :: "string list \<Rightarrow> string \<Rightarrow> bool" where
  "segment_of pat s \<longleftrightarrow> slash \<notin> set s \<and> (\<forall>g \<in> set pat. bytewise g s)"

text \<open>
  A rule covers a path exactly when the path begins with one piece for each of the rule's segments:
  any number of segments for a double star, and for another glob one segment it matches, a star standing
  for any text and a question mark for any character. (Globs without classes and escapes, which is what
  validation lets through; a question mark against ASCII names.)
\<close>

theorem covering_meaning:
  assumes "\<forall>g \<in> set pat. ordinary_glob g" and "\<forall>s \<in> set p. segment_of pat s"
  shows "coversSegs pat p \<longleftrightarrow>
    (\<exists>ps rest. concat ps @ rest = p \<and>
       list_all2 (\<lambda>g piece. g = ''**'' \<or> (\<exists>s. piece = [s] \<and> seg_matches g s)) pat ps)"
proof -
  have fits: "piece_fits g piece \<longleftrightarrow> g = ''**'' \<or> (\<exists>s. piece = [s] \<and> seg_matches g s)"
    if "g \<in> set pat" "set piece \<subseteq> set p" for g piece
    using that assms path_match_meaning [of g] by (auto simp: piece_fits_def ordinary_glob_def segment_of_def)
  have pieces: "list_all2 piece_fits pat ps \<longleftrightarrow>
      list_all2 (\<lambda>g piece. g = ''**'' \<or> (\<exists>s. piece = [s] \<and> seg_matches g s)) pat ps" if "set (concat ps) \<subseteq> set p" for ps
  proof -
    have "set piece \<subseteq> set p" if "piece \<in> set ps" for piece using \<open>set (concat ps) \<subseteq> set p\<close> that by auto
    then show ?thesis by (intro list.rel_cong refl fits)
  qed
  have "coversSegs pat p \<longleftrightarrow> (\<exists>ps rest. concat ps @ rest = p \<and> list_all2 piece_fits pat ps)"
    by (auto simp: coversSegs_iff matchSegs_pieces prefix_def)
  also have "\<dots> \<longleftrightarrow> (\<exists>ps rest. concat ps @ rest = p \<and>
      list_all2 (\<lambda>g piece. g = ''**'' \<or> (\<exists>s. piece = [s] \<and> seg_matches g s)) pat ps)"
    by (intro iff_exI conj_cong refl pieces) auto
  finally show ?thesis .
qed

theorem covering_meaning_witness:
  "\<exists>ps rest. concat ps @ rest = [''ws'', ''src'', ''a.go''] \<and>
     list_all2 (\<lambda>g piece. g = ''**'' \<or> (\<exists>s. piece = [s] \<and> seg_matches g s)) [''**'', ''*.go''] ps"
proof -
  have "\<forall>g \<in> set [''**'', ''*.go'']. ordinary_glob g" by (simp add: ordinary_glob_def plain_glob_def)
  moreover have "\<forall>s \<in> set [''ws'', ''src'', ''a.go'']. segment_of [''**'', ''*.go''] s"
    by (simp add: segment_of_def bytewise_def)
  moreover have "coversSegs [''**'', ''*.go''] [''ws'', ''src'', ''a.go'']" by code_simp
  ultimately show ?thesis using covering_meaning by blast
qed

section \<open>The verdict\<close>

lemma classed_verdict:
  assumes classed: "classed layer"
  shows "(fst (verdict layer segs) = FsDeny \<longleftrightarrow> (\<exists>d \<in> set layer. covers segs d \<and> fp_kind d = FsDeny)) \<and>
    (fst (verdict layer segs) = FsNone \<longleftrightarrow> (\<forall>pat \<in> set layer. \<not> covers segs pat)) \<and>
    (fst (verdict layer segs) = FsReadWrite \<longleftrightarrow>
       (\<forall>d \<in> set layer. covers segs d \<longrightarrow> fp_kind d \<noteq> FsDeny) \<and>
       (\<exists>w \<in> set layer. covers segs w \<and> fp_kind w = FsReadWrite \<and>
          (\<forall>r \<in> set layer. covers segs r \<and> fp_kind r = FsReadOnly \<longrightarrow> fp_literal r < fp_literal w)))"
proof -
  have cov: "pat \<in> set (covering segs layer) \<longleftrightarrow> pat \<in> set layer \<and> covers segs pat" for pat by (auto simp: covering_def)
  show ?thesis
  proof (cases "fst (verdict layer segs) = FsDeny")
    case True
    then have "\<exists>d \<in> set layer. covers segs d \<and> fp_kind d = FsDeny" by (simp add: verdict_deny)
    then show ?thesis using True by auto
  next
    case no_deny: False
    then have nd: "\<forall>d \<in> set layer. covers segs d \<longrightarrow> fp_kind d \<noteq> FsDeny" by (simp add: verdict_deny)
    show ?thesis
    proof (cases "covering segs layer = []")
      case True
      then have "\<forall>pat \<in> set layer. \<not> covers segs pat" using cov by auto
      then show ?thesis using verdict_none [OF classed True] by auto
    next
      case False
      define best where "best = snd (verdict layer segs)"
      from verdict_best [OF classed no_deny False] have b: "fst (verdict layer segs) = fp_kind best"
        "best \<in> set layer" "covers segs best" "\<forall>q \<in> set layer. covers segs q \<longrightarrow> outranked q best"
        by (auto simp: best_def cov)
      have kind: "fp_kind best = FsReadWrite \<or> fp_kind best = FsReadOnly"
        using b nd classed by (cases "fp_kind best") (auto simp: classed_def)
      have beats: "fp_literal r < fp_literal best" if "fp_kind best = FsReadWrite" "r \<in> set layer" "covers segs r" "fp_kind r = FsReadOnly" for r
        using b(4) that by (force simp: outranked_def not_less less_eq_fs_kind_def)
      have no_ro: "fp_kind best \<noteq> FsReadOnly"
        if w: "w \<in> set layer" "covers segs w" "\<forall>r \<in> set layer. covers segs r \<and> fp_kind r = FsReadOnly \<longrightarrow> fp_literal r < fp_literal w" for w
      proof
        assume "fp_kind best = FsReadOnly"
        then have "fp_literal best < fp_literal w" using w(3) b(2,3) by blast
        then show False using b(4) w(1,2) by (auto simp: outranked_def)
      qed
      from kind show ?thesis
      proof
        assume rw: "fp_kind best = FsReadWrite"
        then have "\<exists>w \<in> set layer. covers segs w \<and> fp_kind w = FsReadWrite \<and>
            (\<forall>r \<in> set layer. covers segs r \<and> fp_kind r = FsReadOnly \<longrightarrow> fp_literal r < fp_literal w)"
          using beats b(2,3) by blast
        then show ?thesis using rw nd b(1,2,3) by auto
      next
        assume ro: "fp_kind best = FsReadOnly"
        then have "\<not> (\<exists>w \<in> set layer. covers segs w \<and> fp_kind w = FsReadWrite \<and>
            (\<forall>r \<in> set layer. covers segs r \<and> fp_kind r = FsReadOnly \<longrightarrow> fp_literal r < fp_literal w))"
          using no_ro by blast
        then show ?thesis using ro nd b(1,2,3) by auto
      qed
    qed
  qed
qed

text \<open>
  The verdict of a layer: a path is denied exactly when a deny rule covers it, unruled exactly when
  no rule covers it, and writable against a read-only rule exactly when some read-write rule that covers
  it is more literal than every read-only one that does; a tie goes to read-only.
\<close>

theorem layer_verdict:
  "let layer = compile_layer roots homes pre spec in
    (fst (verdict layer segs) = FsDeny \<longleftrightarrow> (\<exists>d \<in> set layer. covers segs d \<and> fp_kind d = FsDeny)) \<and>
    (fst (verdict layer segs) = FsNone \<longleftrightarrow> (\<forall>pat \<in> set layer. \<not> covers segs pat)) \<and>
    (fst (verdict layer segs) = FsReadWrite \<longleftrightarrow>
       (\<forall>d \<in> set layer. covers segs d \<longrightarrow> fp_kind d \<noteq> FsDeny) \<and>
       (\<exists>w \<in> set layer. covers segs w \<and> fp_kind w = FsReadWrite \<and>
          (\<forall>r \<in> set layer. covers segs r \<and> fp_kind r = FsReadOnly \<longrightarrow> fp_literal r < fp_literal w)))"
  unfolding Let_def by (rule classed_verdict [OF classed_compile])

definition carved_spec :: fs_spec where
  "carved_spec = no_fs\<lparr>fs_read_only := [''**''], fs_read_write := [''src'']\<rparr>"

theorem layer_verdict_witness:
  "fst (verdict (compile_layer [''/ws''] [] [] carved_spec) [''ws'', ''src'', ''a'']) = FsReadWrite"
proof -
  let ?l = "compile_layer [''/ws''] [] [] carved_spec"
  have "(\<forall>d \<in> set ?l. covers [''ws'', ''src'', ''a''] d \<longrightarrow> fp_kind d \<noteq> FsDeny) \<and>
    (\<exists>w \<in> set ?l. covers [''ws'', ''src'', ''a''] w \<and> fp_kind w = FsReadWrite \<and>
       (\<forall>r \<in> set ?l. covers [''ws'', ''src'', ''a''] r \<and> fp_kind r = FsReadOnly \<longrightarrow> fp_literal r < fp_literal w))"
    by code_simp
  then show ?thesis
    using layer_verdict [of "[''/ws'']" "[]" "[]" carved_spec "[''ws'', ''src'', ''a'']"] unfolding Let_def by blast
qed

section \<open>The two layers\<close>

lemma ResolveFS_allowed:
  assumes "p_err p = None"
  shows "allowed os (ResolveFS os (Some p) root) path access \<longleftrightarrow>
    (\<forall>(pre, spec) \<in> set (fs_sources p). \<forall>c \<in> set (fsCandidates os path).
       \<not> refuses (fst (verdict (compile_layer (pathVariants os root) (home_variants os) pre spec) (splitSegs c))) access)"
  using assms by (cases "fs_sources p = []") (auto simp: ResolveFS_def Let_def allowed_Some case_prod_beta)

definition layer_allows :: "fs_os \<Rightarrow> string \<Rightarrow> fs_spec \<Rightarrow> string \<Rightarrow> fs_access \<Rightarrow> bool" where
  "layer_allows os root spec path access \<longleftrightarrow>
     (\<forall>c \<in> set (fsCandidates os path).
        \<not> refuses (fst (verdict (compile_layer (pathVariants os root) (home_variants os) [] spec) (splitSegs c))) access)"

lemma layer_allows_any:
  "layer_allows os root spec path access \<longleftrightarrow>
     (\<forall>c \<in> set (fsCandidates os path).
        \<not> refuses (fst (verdict (compile_layer (pathVariants os root) (home_variants os) pre spec) (splitSegs c))) access)"
  using compile_layer_same [of "pathVariants os root" "home_variants os" "[]" spec _ pre] by (simp add: layer_allows_def)

lemma layer_allows_empty: "fs_empty spec \<Longrightarrow> layer_allows os root spec path access"
  by (simp add: layer_allows_def fs_empty_def compile_layer_def class_patterns_def verdict_def)

lemma ResolveFS_layers:
  assumes "p_err p = None"
  shows "allowed os (ResolveFS os (Some p) root) path access \<longleftrightarrow>
    (p_org_active p \<longrightarrow> layer_allows os root (p_org_fs p) path access) \<and> layer_allows os root (p_fs p) path access"
proof -
  have "(\<forall>(pre, spec) \<in> set (fs_sources p). layer_allows os root spec path access) \<longleftrightarrow>
      (p_org_active p \<longrightarrow> layer_allows os root (p_org_fs p) path access) \<and> layer_allows os root (p_fs p) path access"
    using layer_allows_empty [of "p_fs p" os root path access] layer_allows_empty [of "p_org_fs p" os root path access]
    by (auto simp: fs_sources_def)
  moreover have "allowed os (ResolveFS os (Some p) root) path access \<longleftrightarrow>
      (\<forall>(pre, spec) \<in> set (fs_sources p). layer_allows os root spec path access)"
    unfolding ResolveFS_allowed [OF assms] using layer_allows_any by fastforce
  ultimately show ?thesis by simp
qed

text \<open>
  C24: The rules of a merged policy allow an access exactly when the org's rules alone and the project's
  rules alone allow it, so a project file cannot carve an exception out of an org rule; and what may be
  written may be read.
\<close>

theorem merged_rules_allow:
  assumes "p_err org = None" and "p_err project = None" and "\<not> p_org_active org" and "\<not> p_org_active project"
  shows "(allowed os (ResolveFS os (Merge (Some org) (Some project)) root) path access \<longleftrightarrow>
      allowed os (ResolveFS os (Some org) root) path access \<and>
      allowed os (ResolveFS os (Some project) root) path access) \<and>
    (allowed os (ResolveFS os (Merge (Some org) (Some project)) root) path FSWrite \<longrightarrow>
      allowed os (ResolveFS os (Merge (Some org) (Some project)) root) path FSRead)"
proof -
  have m: "p_err (merge_parsed org project) = None" "p_org_active (merge_parsed org project)"
    "p_fs (merge_parsed org project) = p_fs project" "p_org_fs (merge_parsed org project) = p_fs org"
    using assms by (simp_all add: merge_parsed_def)
  have "layer_allows os root spec path FSWrite \<Longrightarrow> layer_allows os root spec path FSRead" for spec
    using refuses_write by (auto simp: layer_allows_def)
  then show ?thesis
    using assms by (simp add: Merge_def ResolveFS_layers m)
qed

definition closed_org :: policy where
  "closed_org = Empty_policy\<lparr>p_loaded := True, p_fs := no_fs\<lparr>fs_read_only := [''**'']\<rparr>\<rparr>"

definition open_project :: policy where
  "open_project = Empty_policy\<lparr>p_loaded := True, p_fs := no_fs\<lparr>fs_read_write := [''src/**'']\<rparr>\<rparr>"

definition plain_os :: fs_os where
  "plain_os = \<lparr>os_wd = Some ''/ws'', os_home = Some ''/home/u'', os_eval = Some\<rparr>"

theorem merged_rules_allow_witness:
  "\<not> allowed plain_os (ResolveFS plain_os (Merge (Some closed_org) (Some open_project)) ''/ws'') ''/ws/src/a.go'' FSWrite"
proof -
  have "\<not> allowed plain_os (ResolveFS plain_os (Some closed_org) ''/ws'') ''/ws/src/a.go'' FSWrite"
    unfolding allowed_def by code_simp
  then show ?thesis
    using merged_rules_allow [of closed_org open_project plain_os "''/ws''" "''/ws/src/a.go''" FSWrite]
    by (simp add: closed_org_def open_project_def Empty_policy_def)
qed

section \<open>Denied directories\<close>

definition literal_segment :: "string \<Rightarrow> bool" where
  "literal_segment s \<longleftrightarrow> plain_glob s \<and> CHR ''*'' \<notin> set s \<and> CHR ''?'' \<notin> set s"

lemma literal_matches: "CHR ''*'' \<notin> set s \<Longrightarrow> CHR ''?'' \<notin> set s \<Longrightarrow> seg_matches s s"
  by (induction s) (auto intro: seg_char)

lemma literal_path_match: "literal_segment s \<Longrightarrow> slash \<notin> set s \<Longrightarrow> path_match s s"
  using path_match_meaning [of s s] literal_matches by (simp add: literal_segment_def bytewise_def)

lemma literal_covers:
  assumes "\<forall>s \<in> set pat. literal_segment s \<and> slash \<notin> set s" and "prefix pat p"
  shows "coversSegs pat p"
proof -
  have "list_all2 piece_fits pat (map (\<lambda>s. [s]) pat)"
    using assms(1) literal_path_match by (simp add: list_all2_map2 piece_fits_def list.rel_refl_strong)
  moreover have "concat (map (\<lambda>s. [s]) pat) = pat" by (induction pat) simp_all
  ultimately have "matchSegs pat pat" using matchSegs_pieces by blast
  then show ?thesis using assms(2) by (auto simp: coversSegs_iff)
qed

text \<open>
  C25: A denied directory is closed with everything beneath it, to reads and writes, in either layer: when
  a deny glob expands to a path without wildcards, any path one of whose checked forms lies at it or
  under it is refused, whatever the other rules say.
\<close>

theorem denied_directory_is_closed:
  assumes "ResolveFS os (Some p) root = Some r" and "(pre, spec) \<in> set (fs_sources p)" and "g \<in> set (fs_deny spec)"
    and "a \<in> set (expansions (pathVariants os root) (home_variants os) g)"
    and "\<forall>s \<in> set (splitSegs a). literal_segment s"
    and "c \<in> set (fsCandidates os path)" and "prefix (splitSegs a) (splitSegs c)"
  shows "\<not> allowed os (Some r) path access"
proof -
  let ?l = "compile_layer (pathVariants os root) (home_variants os) pre spec"
  have err: "p_err p = None" using assms(1) by (auto simp: ResolveFS_def split: if_splits)
  obtain i where i: "i < length (fs_deny spec)" "fs_deny spec ! i = g" using assms(3) by (auto simp: in_set_conv_nth)
  have "(i, g) \<in> set (enumerate 0 (fs_deny spec))" using i by (simp add: in_set_enumerate_eq)
  then have "compile (rule_id pre ''deny'' i) g FsDeny a \<in> set ?l"
    using assms(4) by (force simp: compile_layer_def class_patterns_def)
  moreover have "coversSegs (splitSegs a) (splitSegs c)"
    using assms(5,7) splitSegs_no_slash by (intro literal_covers) auto
  ultimately have "fst (verdict ?l (splitSegs c)) = FsDeny"
    unfolding verdict_deny covers_def by (intro bexI [rotated]) (auto simp: compile_def)
  then have "refuses (fst (verdict ?l (splitSegs c))) access" by (simp add: refuses.simps)
  then show ?thesis using assms(1,2,6) ResolveFS_allowed [OF err, of os root path access] by auto
qed

definition secret_policy :: policy where
  "secret_policy = Empty_policy\<lparr>p_loaded := True, p_fs := no_fs\<lparr>fs_deny := [''secrets''], fs_read_write := [''secrets/public'']\<rparr>\<rparr>"

theorem denied_directory_is_closed_witness:
  "\<exists>r. ResolveFS plain_os (Some secret_policy) ''/ws'' = Some r \<and>
     \<not> allowed plain_os (Some r) ''src/../secrets/public/x'' FSRead"
proof -
  have src: "fs_sources secret_policy = [([], p_fs secret_policy)]" by code_simp
  have "ResolveFS plain_os (Some secret_policy) ''/ws'' \<noteq> None"
    by (simp add: ResolveFS_def src Let_def) (simp add: secret_policy_def Empty_policy_def)
  then obtain r where r: "ResolveFS plain_os (Some secret_policy) ''/ws'' = Some r" by blast
  have rule: "([], p_fs secret_policy) \<in> set (fs_sources secret_policy)" "''secrets'' \<in> set (fs_deny (p_fs secret_policy))"
    by (simp add: src) (simp add: secret_policy_def)
  have a: "''/ws/secrets'' \<in> set (expansions (pathVariants plain_os ''/ws'') (home_variants plain_os) ''secrets'')"
    by code_simp
  have segs: "splitSegs ''/ws/secrets'' = [''ws'', ''secrets'']" by code_simp
  have c: "''/ws/secrets/public/x'' \<in> set (fsCandidates plain_os ''src/../secrets/public/x'')" by code_simp
  have csegs: "splitSegs ''/ws/secrets/public/x'' = [''ws'', ''secrets'', ''public'', ''x'']" by code_simp
  have "\<not> allowed plain_os (Some r) ''src/../secrets/public/x'' FSRead"
    by (rule denied_directory_is_closed [OF r rule(1,2) a _ c])
      (simp_all add: segs csegs literal_segment_def plain_glob_def)
  with r show ?thesis by blast
qed

text \<open>
  A workspace whose own path holds a character that globs read specially is not covered by its rules: the
  root is put into the pattern as it is.
\<close>

lemma bracketed_root_is_open:
  "allowed plain_os (ResolveFS plain_os (Some secret_policy) ''/w[1]'') ''/w[1]/secrets/key'' FSRead"
  unfolding allowed_def by code_simp

section \<open>The shell check\<close>

lemma writes_all_names:
  "name \<in> set shWritesAll \<Longrightarrow> plain_command_name name \<and> path_base name = name \<and> name \<noteq> ''dd'' \<and> slash \<notin> set name"
proof -
  have "list_all (\<lambda>name. plain_command_name name \<and> path_base name = name \<and> name \<noteq> ''dd'' \<and> slash \<notin> set name) shWritesAll"
    by code_simp
  then show "name \<in> set shWritesAll \<Longrightarrow> ?thesis" by (simp add: list_all_iff)
qed

text \<open>
  The check before a shell command sees what a mutating command names: a line of quoted words whose
  first is a command that writes all its arguments is refused exactly when a rule refuses writing one of
  the arguments that is not a flag, resolved as the shell resolves it.
\<close>

lemma named_write_is_checked:
  assumes "name \<in> set shWritesAll"
  shows "CheckBash os (Some r) (join_with '' '' (map shellQuote (name # args))) cwd \<noteq> None \<longleftrightarrow>
    (\<exists>a \<in> set args. a \<noteq> [] \<and> \<not> has_prefix a ''-'' \<and> \<not> allowed os (Some r) (shResolve os a cwd) FSWrite)"
proof -
  let ?ops = "filter (\<lambda>w. \<not> has_prefix w ''-'') args"
  have name: "plain_command_name name" "path_base name = name" "name \<noteq> ''dd''" "slash \<notin> set name"
    using writes_all_names [OF assms] by simp_all
  have "command_path (sh_plain name False) = []" using name(4) by (simp add: command_path_def sh_plain_def)
  moreover have "operand_access name inPlace n i = FSWrite" for inPlace n i
    using assms by (simp add: operand_access_def)
  ultimately have "fst (command_accesses (map (\<lambda>w. sh_plain w False) (name # args))) =
      map (\<lambda>(i, x). (x, FSWrite)) (enumerate 0 ?ops)"
    using named_accesses [OF name(1,2,3), of args] by (simp add: Let_def)
  moreover have "map (\<lambda>(i, x). (x, FSWrite)) (enumerate 0 ?ops) = map (\<lambda>x. (x, FSWrite)) ?ops"
    by (rule nth_equalityI) (simp_all add: nth_enumerate_eq)
  ultimately show ?thesis unfolding CheckBash_quoted by (simp only: checkAccesses_refused) auto
qed

theorem named_write_is_checked_witness:
  "\<exists>r. ResolveFS plain_os (Some secret_policy) ''/ws'' = Some r \<and>
     CheckBash plain_os (Some r) (join_with '' '' (map shellQuote [''rm'', ''-rf'', ''secrets/a b''])) ''/ws'' \<noteq> None"
proof -
  define ro where "ro = ResolveFS plain_os (Some secret_policy) ''/ws''"
  have "\<not> allowed plain_os ro (shResolve plain_os ''secrets/a b'' ''/ws'') FSWrite"
    unfolding ro_def allowed_def by code_simp
  then obtain r where r: "ro = Some r" "\<not> allowed plain_os (Some r) (shResolve plain_os ''secrets/a b'' ''/ws'') FSWrite"
    by (cases ro) auto
  have "''rm'' \<in> set shWritesAll" by (simp add: shWritesAll_def)
  from named_write_is_checked [OF this, of plain_os r "[''-rf'', ''secrets/a b'']" "''/ws''"]
  have "CheckBash plain_os (Some r) (join_with '' '' (map shellQuote [''rm'', ''-rf'', ''secrets/a b''])) ''/ws'' \<noteq> None"
    using r(2) by simp
  with r(1) show ?thesis unfolding ro_def by blast
qed

text \<open>
  The directory a subshell changes to is kept for the commands after it, so a path they name is looked
  for in the wrong place.
\<close>

lemma subshell_cd_leaks:
  "CheckBash plain_os (ResolveFS plain_os (Some secret_policy) ''/ws'') ''(cd /tmp); rm secrets/key'' ''/ws'' = None"
  "CheckBash plain_os (ResolveFS plain_os (Some secret_policy) ''/ws'') ''rm secrets/key'' ''/ws'' \<noteq> None"
  by code_simp+

end
