(* ===== verification/BashRun.thy ===== *)
theory BashRun
  imports BashGate FsBash
begin

text \<open>
  Running a command with the bash tool (\<open>BashTool.Execute\<close> in \<open>internal/tools/bash.go\<close>,
  \<open>internal/tools/fs_policy.go\<close>): the directory, the filesystem check and the time limit settled before the
  process starts, and what is made of its output and its end. The process is what it wrote, in the
  chunks that were read, and how it ended; \<open>copy_output\<close> is \<open>io.Copy\<close>, which \<open>os/exec\<close> copies with.
\<close>

record bash_params =
  bp_Command :: string
  bp_Timeout :: int
  bp_WorkDir :: string

text \<open>Durations are nanoseconds in 64 bits.\<close>

definition duration :: "int \<Rightarrow> int" where
  "duration n = (n + 2 ^ 63) mod 2 ^ 64 - 2 ^ 63"

abbreviation maxTimeout :: int where "maxTimeout \<equiv> 600000000000"
abbreviation maxOutputBytes :: int where "maxOutputBytes \<equiv> 102400"

datatype bash_refusal =
  InvalidParams
| MissingCommand
| DirRefused fs_denied
| PathRefused fs_denied

definition bashFSRefusal :: "fs_os \<Rightarrow> fs_rules option \<Rightarrow> string \<Rightarrow> string \<Rightarrow> string \<Rightarrow> bash_refusal option" where
  "bashFSRefusal os ro command workDir0 defaultDir =
     (if ro = None then None
      else let workDir = (if is_abs workDir0 then workDir0 else path_join [defaultDir, workDir0])
        in case Check os ro workDir FSRead of
             Some e \<Rightarrow> Some (DirRefused e)
           | None \<Rightarrow> map_option PathRefused (CheckBash os ro command workDir))"

definition run_timeout :: "bash_tool \<Rightarrow> bash_params \<Rightarrow> int" where
  "run_timeout t p =
     (let asked = (if 0 < bp_Timeout p then duration (bp_Timeout p * 1000000) else bt_timeout t);
          capped = (if maxTimeout < asked then maxTimeout else asked)
      in if capped \<le> 0 then 30000000000 else capped)"

text \<open>Up to the process: a refusal, or the command, its directory and its time limit.\<close>

definition Execute_start ::
  "fs_os \<Rightarrow> fs_rules option \<Rightarrow> bash_tool \<Rightarrow> bash_params option \<Rightarrow> bash_refusal + string \<times> string \<times> int" where
  "Execute_start os ro t params =
     (case params of
        None \<Rightarrow> Inl InvalidParams
      | Some p \<Rightarrow>
          if bp_Command p = [] then Inl MissingCommand
          else let workDir = (if bp_WorkDir p \<noteq> [] then bp_WorkDir p else bt_workDir t)
            in case bashFSRefusal os ro (bp_Command p) workDir (bt_workDir t) of
                 Some refusal \<Rightarrow> Inl refusal
               | None \<Rightarrow> Inr (bp_Command p, workDir, run_timeout t p))"

section \<open>Output\<close>

text \<open>\<open>limitedWriter.Write\<close>: the buffer after it and the count it returns.\<close>

definition limited_write :: "int \<Rightarrow> string \<Rightarrow> string \<Rightarrow> string \<times> int" where
  "limited_write limit buf p =
     (let remaining = limit - int (length buf)
      in if remaining \<le> 0 then (buf, int (length p))
         else let p1 = (if remaining < int (length p) then take (nat remaining) p else p)
           in (buf @ p1, int (length p1)))"

text \<open>\<open>io.Copy\<close> ends with an error at the first write that takes fewer bytes than it was given.\<close>

fun copy_output :: "int \<Rightarrow> string \<Rightarrow> string list \<Rightarrow> string \<times> bool" where
  "copy_output limit buf [] = (buf, True)"
| "copy_output limit buf (p # ps) =
     (let (buf', n) = limited_write limit buf p
      in if n = int (length p) then copy_output limit buf' ps else (buf', False))"

section \<open>The end of the process\<close>

datatype process_end = NotStarted | Exit int

record process =
  pr_chunks :: "string list"
  pr_end :: process_end
  pr_cancelled :: bool
  pr_deadline :: bool

datatype bash_outcome =
  Refused bash_refusal
| Cancelled
| TimedOut string
| Failed string
| Finished string int

text \<open>The error of \<open>cmd.Run\<close>: that of the process comes before that of copying its output.\<close>

datatype run_error = RunFailed | ExitError int

definition run_result :: "process \<Rightarrow> string \<times> run_error option" where
  "run_result pr =
     (case pr_end pr of
        NotStarted \<Rightarrow> ([], Some RunFailed)
      | Exit n \<Rightarrow>
          let (output, copied) = copy_output maxOutputBytes [] (pr_chunks pr)
          in (output, if n \<noteq> 0 then Some (ExitError n) else if copied then None else Some RunFailed))"

definition Execute :: "fs_os \<Rightarrow> fs_rules option \<Rightarrow> bash_tool \<Rightarrow> bash_params option \<Rightarrow> (string \<Rightarrow> string \<Rightarrow> int \<Rightarrow> process) \<Rightarrow> bash_outcome" where
  "Execute os ro t params run =
     (case Execute_start os ro t params of
        Inl refusal \<Rightarrow> Refused refusal
      | Inr (command, workDir, timeout) \<Rightarrow>
          let pr = run command workDir timeout; (output, err) = run_result pr
          in case err of
               None \<Rightarrow> Finished output 0
             | Some e \<Rightarrow>
                 if pr_cancelled pr then Cancelled
                 else if pr_deadline pr then TimedOut output
                 else case e of ExitError n \<Rightarrow> Finished output n | RunFailed \<Rightarrow> Failed output)"

section \<open>What running guarantees\<close>

lemma run_timeout_bounds: "0 < run_timeout t p \<and> run_timeout t p \<le> maxTimeout"
  by (simp add: run_timeout_def Let_def)

text \<open>A command starts only in a directory the rules let it read, on paths they let it name, for ten minutes at most.\<close>

lemma runs_within_rules:
  assumes "Execute_start os (Some r) t (Some p) = Inr (command, dir, timeout)" and "is_abs dir"
  shows "allowed os (Some r) dir FSRead \<and> CheckBash os (Some r) command dir = None \<and> 0 < timeout \<and> timeout \<le> maxTimeout"
  using assms run_timeout_bounds [of t p]
  by (auto simp: Execute_start_def bashFSRefusal_def allowed_def Let_def split: if_splits option.splits)

lemma limited_write_bound: "int (length buf) \<le> limit \<Longrightarrow> int (length (fst (limited_write limit buf p))) \<le> limit"
  by (auto simp: limited_write_def Let_def min_def)

lemma limited_write_take:
  "int (length buf) \<le> limit \<Longrightarrow> fst (limited_write limit buf p) = take (nat limit) (buf @ p)"
  by (auto simp: limited_write_def Let_def nat_diff_distrib)

text \<open>Whatever the chunks, the output kept is the first bytes of what was written, up to the limit.\<close>

lemma copy_output_take:
  "int (length buf) \<le> limit \<Longrightarrow> fst (copy_output limit buf ps) = take (nat limit) (buf @ concat ps)"
proof (induction ps arbitrary: buf)
  case Nil
  then show ?case by simp
next
  case (Cons p ps)
  obtain buf' n where w: "limited_write limit buf p = (buf', n)" by fastforce
  have b: "buf' = take (nat limit) (buf @ p)" "int (length buf') \<le> limit"
    using limited_write_take [OF Cons.prems, of p] limited_write_bound [OF Cons.prems, of p] w by simp_all
  show ?case
  proof (cases "n = int (length p)")
    case True
    have "take (nat limit) (buf' @ concat ps) = take (nat limit) (buf @ concat (p # ps))"
      using w True Cons.prems by (auto simp: limited_write_def Let_def split: if_splits)
    then show ?thesis using Cons.IH [OF b(2)] w True by simp
  next
    case False
    then have "nat limit \<le> length (buf @ p)"
      using w Cons.prems by (auto simp: limited_write_def Let_def split: if_splits)
    then show ?thesis using w False b(1) by simp
  qed
qed

lemma copy_output_fits:
  "int (length (buf @ concat ps)) \<le> limit \<Longrightarrow> copy_output limit buf (ps @ qs) = copy_output limit (buf @ concat ps) qs"
proof (induction ps arbitrary: buf)
  case Nil
  then show ?case by simp
next
  case (Cons p ps)
  have "limited_write limit buf p = (buf @ p, int (length p))"
    using Cons.prems by (cases p) (auto simp: limited_write_def Let_def)
  then show ?case using Cons.IH [of "buf @ p"] Cons.prems by simp
qed

text \<open>
  A write that crosses the limit returns the bytes it kept, which is a short write to the copier: a
  command that ends with status 0 is then reported as an internal failure, with the output cut.
\<close>

lemma long_output_fails:
  assumes "Execute_start os ro t params = Inr (command, dir, timeout)"
    and "run command dir timeout =
      \<lparr>pr_chunks = ps @ p # qs, pr_end = Exit 0, pr_cancelled = False, pr_deadline = False\<rparr>"
    and "int (length (concat ps)) < maxOutputBytes" and "maxOutputBytes < int (length (concat ps @ p))"
  shows "Execute os ro t params run = Failed (take (nat maxOutputBytes) (concat ps @ p))"
proof -
  have "copy_output maxOutputBytes [] (ps @ p # qs) = copy_output maxOutputBytes (concat ps) (p # qs)"
    using copy_output_fits [of "[]" ps maxOutputBytes "p # qs"] assms(3) by simp
  also have "\<dots> = (take (nat maxOutputBytes) (concat ps @ p), False)"
    using assms(3,4) by (simp add: limited_write_def Let_def nat_diff_distrib)
  finally have "run_result (run command dir timeout) = (take (nat maxOutputBytes) (concat ps @ p), Some RunFailed)"
    using assms(2) by (simp add: run_result_def)
  then show ?thesis using assms(1,2) by (simp add: Execute_def)
qed

end
