(* ===== verification/Ledger.thy ===== *)
theory Ledger
  imports GoStrings
begin

text \<open>
  The daemon's side of the gateway ledger (\<open>internal/gateway/ledger.go\<close>): usage waiting to be reported, the
  leases it spends against, and what happens while a publish or a renewal is in flight.

  Times are seconds, counters integers (the code's are 64 bits wide). The constants and the floating
  point comparisons against them come from a shared module that is not in the repository; they are the
  record \<open>lease_terms\<close>, and \<open>scope_of\<close> is its \<open>TenantScope\<close>. A day is the text of its UTC date.
\<close>

section \<open>Configuration\<close>

record upstream_config =
  uc_Enabled :: bool
  uc_Governance :: bool
  uc_GovernanceOnPartition :: string
  uc_URL :: string
  uc_APIKey :: string
  uc_Workspace :: string

record lease_terms =
  lt_renew_due :: "int \<Rightarrow> int \<Rightarrow> bool"
  lt_share :: "int \<Rightarrow> int"
  lt_MinTokens :: int
  lt_MaxTokens :: int
  lt_RenewBefore :: int
  lt_TTL :: int
  lt_scope_of :: "string \<Rightarrow> string"
  lt_RefusalSpendCap :: string

abbreviation FlushMaxCalls :: int where "FlushMaxCalls \<equiv> 256"

abbreviation PartitionLocal :: string where "PartitionLocal \<equiv> ''local''"
abbreviation PartitionStrict :: string where "PartitionStrict \<equiv> ''strict''"
abbreviation PartitionOpen :: string where "PartitionOpen \<equiv> ''open''"

definition Enabled :: "upstream_config \<Rightarrow> bool" where
  "Enabled cfg \<longleftrightarrow> uc_Enabled cfg \<and> uc_Governance cfg \<and>
     uc_URL cfg \<noteq> [] \<and> uc_APIKey cfg \<noteq> [] \<and> uc_Workspace cfg \<noteq> []"

definition partitionMode :: "upstream_config \<Rightarrow> string" where
  "partitionMode cfg =
     (let mode = to_lower (trim_space (uc_GovernanceOnPartition cfg))
      in if mode = PartitionStrict then PartitionStrict
         else if mode = PartitionOpen then PartitionOpen else PartitionLocal)"

section \<open>Usage\<close>

record rollup =
  ru_InTokens :: int
  ru_OutTokens :: int
  ru_CacheRead :: int
  ru_CacheWrite :: int
  ru_CostMicroUSD :: int
  ru_Calls :: int

type_synonym rollup_key = "string \<times> string"

type_synonym rollups = "(rollup_key \<times> rollup) list"

record usage_record =
  ur_Tenant :: string
  ur_Date :: "string option"
  ur_InTokens :: int
  ur_OutTokens :: int
  ur_CacheRead :: int
  ur_CacheWrite :: int
  ur_CostMicroUSD :: int

record lease =
  ls_granted :: int
  ls_spent :: int
  ls_expires :: int
  ls_remaining :: int
  ls_ceiling :: int
  ls_exhausted :: bool
  ls_spentSince :: int
  ls_renewing :: bool
  ls_everGranted :: bool
  ls_refusal :: string
  ls_capMicroUSD :: int
  ls_capSpentUSD :: int
  ls_capPeriod :: string

record ledger =
  lg_pending :: rollups
  lg_calls :: int
  lg_unreportedMicroUSD :: int
  lg_seq :: int
  lg_leases :: "(string \<times> lease) list"
  lg_policyETag :: string
  lg_policyBody :: string
  lg_policyAt :: "int option"

definition empty_ledger :: ledger where
  "empty_ledger = \<lparr>lg_pending = [], lg_calls = 0, lg_unreportedMicroUSD = 0, lg_seq = 0, lg_leases = [],
     lg_policyETag = [], lg_policyBody = [], lg_policyAt = None\<rparr>"

definition new_lease :: lease where
  "new_lease = \<lparr>ls_granted = 0, ls_spent = 0, ls_expires = 0, ls_remaining = 0, ls_ceiling = 0,
     ls_exhausted = False, ls_spentSince = 0, ls_renewing = False, ls_everGranted = False, ls_refusal = [],
     ls_capMicroUSD = 0, ls_capSpentUSD = 0, ls_capPeriod = []\<rparr>"

definition no_usage :: rollup where
  "no_usage = \<lparr>ru_InTokens = 0, ru_OutTokens = 0, ru_CacheRead = 0, ru_CacheWrite = 0, ru_CostMicroUSD = 0, ru_Calls = 0\<rparr>"

definition add_usage :: "rollup \<Rightarrow> rollup \<Rightarrow> rollup" where
  "add_usage a b = \<lparr>ru_InTokens = ru_InTokens a + ru_InTokens b, ru_OutTokens = ru_OutTokens a + ru_OutTokens b,
     ru_CacheRead = ru_CacheRead a + ru_CacheRead b, ru_CacheWrite = ru_CacheWrite a + ru_CacheWrite b,
     ru_CostMicroUSD = ru_CostMicroUSD a + ru_CostMicroUSD b, ru_Calls = ru_Calls a + ru_Calls b\<rparr>"

definition usage_of :: "usage_record \<Rightarrow> rollup" where
  "usage_of rec = \<lparr>ru_InTokens = ur_InTokens rec, ru_OutTokens = ur_OutTokens rec, ru_CacheRead = ur_CacheRead rec,
     ru_CacheWrite = ur_CacheWrite rec, ru_CostMicroUSD = ur_CostMicroUSD rec, ru_Calls = 1\<rparr>"

text \<open>A record without a time counts for the day it arrives.\<close>

definition key_of :: "string \<Rightarrow> usage_record \<Rightarrow> rollup_key" where
  "key_of today rec = (ur_Tenant rec, case ur_Date rec of None \<Rightarrow> today | Some d \<Rightarrow> d)"

definition Record :: "string \<Rightarrow> usage_record \<Rightarrow> ledger \<Rightarrow> ledger" where
  "Record today rec c =
     (let key = key_of today rec;
          r = (case alist_get (lg_pending c) key of None \<Rightarrow> no_usage | Some r \<Rightarrow> r)
      in c\<lparr>lg_pending := AList.update key (add_usage r (usage_of rec)) (lg_pending c),
           lg_calls := lg_calls c + 1,
           lg_unreportedMicroUSD := lg_unreportedMicroUSD c + (if 0 < ur_CostMicroUSD rec then ur_CostMicroUSD rec else 0)\<rparr>)"

definition flush_due :: "ledger \<Rightarrow> bool" where
  "flush_due c \<longleftrightarrow> FlushMaxCalls \<le> lg_calls c"

text \<open>\<open>Flush\<close>, up to the publish: the batch goes out with the next number.\<close>

definition flush_begin :: "ledger \<Rightarrow> (ledger \<times> int \<times> rollups) option" where
  "flush_begin c =
     (if lg_pending c = [] then None
      else Some (c\<lparr>lg_seq := lg_seq c + 1, lg_pending := [], lg_calls := 0\<rparr>, lg_seq c + 1, lg_pending c))"

definition put_back :: "rollup_key \<times> rollup \<Rightarrow> rollups \<Rightarrow> rollups" where
  "put_back = (\<lambda>(k, r) pending.
     (case alist_get pending k of
        Some cur \<Rightarrow> AList.update k (add_usage cur r) pending
      | None \<Rightarrow> AList.update k r pending))"

definition flush_failed :: "rollups \<Rightarrow> ledger \<Rightarrow> ledger" where
  "flush_failed batch c = c\<lparr>lg_pending := fold put_back batch (lg_pending c), lg_seq := lg_seq c - 1\<rparr>"

section \<open>Leases\<close>

datatype allow_verdict = NoGovernance | Leased | Exhausted | LeaseSpent | Partition | SpendCapReached

definition lease_of :: "string \<Rightarrow> ledger \<Rightarrow> lease" where
  "lease_of scope c = (case alist_get (lg_leases c) scope of None \<Rightarrow> new_lease | Some l \<Rightarrow> l)"

definition set_lease :: "string \<Rightarrow> lease \<Rightarrow> ledger \<Rightarrow> ledger" where
  "set_lease scope l c = c\<lparr>lg_leases := AList.update scope l (lg_leases c)\<rparr>"

definition needsRenew :: "lease_terms \<Rightarrow> lease \<Rightarrow> int \<Rightarrow> bool" where
  "needsRenew lt l now =
     (if ls_renewing l then False
      else if ls_exhausted l then ls_expires l \<le> now
      else if \<not> ls_everGranted l \<or> ls_expires l < now then True
      else if 0 < ls_granted l \<and> lt_renew_due lt (ls_granted l - ls_spent l) (ls_granted l) then True
      else ls_expires l < now + lt_RenewBefore lt)"

definition verdict_of :: "upstream_config \<Rightarrow> lease_terms \<Rightarrow> lease \<Rightarrow> int \<Rightarrow> bool \<times> allow_verdict" where
  "verdict_of cfg lt l now =
     (let valid = (ls_everGranted l \<and> now < ls_expires l); remaining = ls_granted l - ls_spent l
      in if ls_exhausted l \<and> ls_refusal l = lt_RefusalSpendCap lt then (False, SpendCapReached)
         else if ls_exhausted l then (False, Exhausted)
         else if valid \<and> 0 < remaining then (True, Leased)
         else if valid then (False, LeaseSpent)
         else (partitionMode cfg \<noteq> PartitionStrict, Partition))"

text \<open>\<open>Allow\<close>: the verdict, whether a renewal is kicked off, and the ledger with the scope's lease in it.\<close>

definition Allow :: "upstream_config \<Rightarrow> lease_terms \<Rightarrow> string \<Rightarrow> int \<Rightarrow> ledger \<Rightarrow> (bool \<times> allow_verdict) \<times> bool \<times> ledger" where
  "Allow cfg lt tenant now c =
     (if \<not> Enabled cfg then ((True, NoGovernance), False, c)
      else let scope = lt_scope_of lt tenant; l = lease_of scope c
        in (verdict_of cfg lt l now, needsRenew lt l now,
            if alist_get (lg_leases c) scope = None then set_lease scope l c else c))"

definition Spend :: "upstream_config \<Rightarrow> lease_terms \<Rightarrow> string \<Rightarrow> int \<Rightarrow> ledger \<Rightarrow> ledger" where
  "Spend cfg lt tenant tokens c =
     (if \<not> Enabled cfg \<or> tokens \<le> 0 then c
      else let scope = lt_scope_of lt tenant; l = lease_of scope c
        in set_lease scope (l\<lparr>ls_spent := ls_spent l + tokens, ls_spentSince := ls_spentSince l + tokens\<rparr>) c)"

definition wantTokens :: "lease_terms \<Rightarrow> int \<Rightarrow> int" where
  "wantTokens lt remaining =
     (let want = lt_share lt remaining;
          want1 = (if want < lt_MinTokens lt then lt_MinTokens lt else want)
      in if lt_MaxTokens lt < want1 then lt_MaxTokens lt else want1)"

record lease_reply =
  lr_GrantedTokens :: int
  lr_ExpiresAt :: int
  lr_RemainingToday :: int
  lr_CeilingTokens :: int
  lr_Refusal :: string
  lr_SpendCapMicroUSD :: int
  lr_SpentPeriodMicroUSD :: int
  lr_SpendCapPeriod :: string

text \<open>What a renewal carries: the ask, the tokens and the money it reports.\<close>

record renewal =
  rn_scope :: string
  rn_want :: int
  rn_spentSince :: int
  rn_spentUSD :: int

definition renew_begin :: "lease_terms \<Rightarrow> string \<Rightarrow> ledger \<Rightarrow> (ledger \<times> renewal) option" where
  "renew_begin lt scope c =
     (case alist_get (lg_leases c) scope of
        None \<Rightarrow> None
      | Some l \<Rightarrow>
          if ls_renewing l then None
          else Some (set_lease scope (l\<lparr>ls_renewing := True\<rparr>) c,
            \<lparr>rn_scope = scope, rn_want = wantTokens lt (ls_remaining l), rn_spentSince = ls_spentSince l,
              rn_spentUSD = lg_unreportedMicroUSD c\<rparr>))"

definition floor0 :: "int \<Rightarrow> int" where
  "floor0 n = (if n < 0 then 0 else n)"

definition grant :: "lease_terms \<Rightarrow> lease_reply \<Rightarrow> int \<Rightarrow> lease \<Rightarrow> lease" where
  "grant lt reply now l0 =
     (let l = l0\<lparr>ls_everGranted := True, ls_remaining := lr_RemainingToday reply, ls_ceiling := lr_CeilingTokens reply,
            ls_refusal := lr_Refusal reply, ls_capMicroUSD := lr_SpendCapMicroUSD reply,
            ls_capSpentUSD := lr_SpentPeriodMicroUSD reply, ls_capPeriod := lr_SpendCapPeriod reply\<rparr>
      in if lr_GrantedTokens reply \<le> 0 then
           l\<lparr>ls_exhausted := True, ls_granted := 0, ls_spent := 0,
             ls_expires := (if now < lr_ExpiresAt reply then lr_ExpiresAt reply else now + lt_TTL lt)\<rparr>
         else l\<lparr>ls_exhausted := False, ls_refusal := [], ls_granted := lr_GrantedTokens reply,
             ls_spent := ls_spentSince l, ls_expires := lr_ExpiresAt reply\<rparr>)"

definition renew_done :: "lease_terms \<Rightarrow> renewal \<Rightarrow> lease_reply \<Rightarrow> int \<Rightarrow> ledger \<Rightarrow> ledger" where
  "renew_done lt rn reply now c =
     (let l = lease_of (rn_scope rn) c;
          l1 = l\<lparr>ls_renewing := False, ls_spentSince := floor0 (ls_spentSince l - rn_spentSince rn)\<rparr>
      in set_lease (rn_scope rn) (grant lt reply now l1)
           (c\<lparr>lg_unreportedMicroUSD := floor0 (lg_unreportedMicroUSD c - rn_spentUSD rn)\<rparr>))"

definition renew_failed :: "renewal \<Rightarrow> ledger \<Rightarrow> ledger" where
  "renew_failed rn c = set_lease (rn_scope rn) ((lease_of (rn_scope rn) c)\<lparr>ls_renewing := False\<rparr>) c"

section \<open>Central policy\<close>

text \<open>What comes back when the central document is asked for; the entity tag sent along is \<open>lg_policyETag\<close>.\<close>

datatype pull_reply =
  Unreachable
| NotModified
| OtherStatus int
| Unreadable
| Document string string

definition PullPolicy :: "upstream_config \<Rightarrow> int \<Rightarrow> pull_reply \<Rightarrow> ledger \<Rightarrow> ledger \<times> string option" where
  "PullPolicy cfg now reply c =
     (if \<not> Enabled cfg then (c, None)
      else case reply of
          NotModified \<Rightarrow> (c\<lparr>lg_policyAt := Some now\<rparr>, None)
        | Document etag body \<Rightarrow>
            (c\<lparr>lg_policyETag := etag, lg_policyBody := body, lg_policyAt := Some now\<rparr>, Some body)
        | _ \<Rightarrow> (c, None))"

definition Policy_doc :: "ledger \<Rightarrow> string \<times> int option" where
  "Policy_doc c = (lg_policyBody c, lg_policyAt c)"

section \<open>Snapshots\<close>

record lease_state =
  lst_Scope :: string
  lst_Granted :: int
  lst_Spent :: int
  lst_Expires :: int
  lst_Ceiling :: int
  lst_Remaining :: int
  lst_Exhausted :: bool
  lst_Refusal :: string

definition Leases :: "ledger \<Rightarrow> lease_state list" where
  "Leases c = map (\<lambda>(scope, l).
     \<lparr>lst_Scope = scope, lst_Granted = ls_granted l, lst_Spent = ls_spent l, lst_Expires = ls_expires l,
       lst_Ceiling = ls_ceiling l, lst_Remaining = ls_remaining l, lst_Exhausted = ls_exhausted l,
       lst_Refusal = ls_refusal l\<rparr>) (lg_leases c)"

text \<open>The spend cap as (period, cap, spent).\<close>

definition SpendCap :: "upstream_config \<Rightarrow> lease_terms \<Rightarrow> string \<Rightarrow> ledger \<Rightarrow> (string \<times> int \<times> int) option" where
  "SpendCap cfg lt tenant c =
     (if \<not> Enabled cfg then None
      else case alist_get (lg_leases c) (lt_scope_of lt tenant) of
          None \<Rightarrow> None
        | Some l \<Rightarrow> if ls_capMicroUSD l \<le> 0 then None else Some (ls_capPeriod l, ls_capMicroUSD l, ls_capSpentUSD l))"

section \<open>Runs\<close>

text \<open>
  The ledger with what is in flight. The last five fields are not in the code: they add up what was
  recorded, published, spent and reported, for the invariants to speak of.
\<close>

record world =
  w_ledger :: ledger
  w_flights :: "(int \<times> rollups) list"
  w_renewals :: "renewal list"
  w_published :: "(int \<times> rollups) list"
  w_recorded :: rollups
  w_spent :: "string \<Rightarrow> int"
  w_reported :: "string \<Rightarrow> int"
  w_cost :: int
  w_reported_cost :: int

definition start_world :: world where
  "start_world = \<lparr>w_ledger = empty_ledger, w_flights = [], w_renewals = [], w_published = [], w_recorded = [],
     w_spent = (\<lambda>_. 0), w_reported = (\<lambda>_. 0), w_cost = 0, w_reported_cost = 0\<rparr>"

text \<open>
  One step of the daemon. With \<open>serial\<close>, a flush begins only when none is in flight. A batch whose publish
  failed goes back; which of several batches or renewals in flight ends first is open.
\<close>

inductive client_step :: "bool \<Rightarrow> upstream_config \<Rightarrow> lease_terms \<Rightarrow> world \<Rightarrow> world \<Rightarrow> bool" for serial cfg lt where
  step_record: "Enabled cfg \<Longrightarrow>
    client_step serial cfg lt w (w\<lparr>w_ledger := Record today rec (w_ledger w),
      w_recorded := (key_of today rec, usage_of rec) # w_recorded w,
      w_cost := w_cost w + (if 0 < ur_CostMicroUSD rec then ur_CostMicroUSD rec else 0)\<rparr>)"
| step_flush: "Enabled cfg \<Longrightarrow> flush_begin (w_ledger w) = Some (c, sq, batch) \<Longrightarrow> serial \<longrightarrow> w_flights w = [] \<Longrightarrow>
    client_step serial cfg lt w (w\<lparr>w_ledger := c, w_flights := (sq, batch) # w_flights w\<rparr>)"
| step_published: "b \<in> set (w_flights w) \<Longrightarrow>
    client_step serial cfg lt w (w\<lparr>w_flights := remove1 b (w_flights w), w_published := b # w_published w\<rparr>)"
| step_unpublished: "(sq, batch) \<in> set (w_flights w) \<Longrightarrow>
    client_step serial cfg lt w (w\<lparr>w_flights := remove1 (sq, batch) (w_flights w), w_ledger := flush_failed batch (w_ledger w)\<rparr>)"
| step_allow: "client_step serial cfg lt w (w\<lparr>w_ledger := snd (snd (Allow cfg lt tenant now (w_ledger w)))\<rparr>)"
| step_spend: "Enabled cfg \<Longrightarrow> 0 < tokens \<Longrightarrow>
    client_step serial cfg lt w (w\<lparr>w_ledger := Spend cfg lt tenant tokens (w_ledger w),
      w_spent := (w_spent w)(lt_scope_of lt tenant := w_spent w (lt_scope_of lt tenant) + tokens)\<rparr>)"
| step_renew: "renew_begin lt scope (w_ledger w) = Some (c, rn) \<Longrightarrow>
    client_step serial cfg lt w (w\<lparr>w_ledger := c, w_renewals := rn # w_renewals w\<rparr>)"
| step_renewed: "rn \<in> set (w_renewals w) \<Longrightarrow>
    client_step serial cfg lt w (w\<lparr>w_ledger := renew_done lt rn reply now (w_ledger w),
      w_renewals := remove1 rn (w_renewals w),
      w_reported := (w_reported w)(rn_scope rn := w_reported w (rn_scope rn) + rn_spentSince rn),
      w_reported_cost := w_reported_cost w + rn_spentUSD rn\<rparr>)"
| step_unrenewed: "rn \<in> set (w_renewals w) \<Longrightarrow>
    client_step serial cfg lt w (w\<lparr>w_ledger := renew_failed rn (w_ledger w), w_renewals := remove1 rn (w_renewals w)\<rparr>)"
| step_pull: "client_step serial cfg lt w (w\<lparr>w_ledger := fst (PullPolicy cfg now pulled (w_ledger w))\<rparr>)"

inductive client_run :: "bool \<Rightarrow> upstream_config \<Rightarrow> lease_terms \<Rightarrow> world \<Rightarrow> bool" for serial cfg lt where
  run_start: "client_run serial cfg lt start_world"
| run_step: "client_run serial cfg lt w \<Longrightarrow> client_step serial cfg lt w w' \<Longrightarrow> client_run serial cfg lt w'"

inductive_cases client_stepE: "client_step serial cfg lt w w'"

end
