(* ===== verification/LedgerProperties.thy ===== *)
theory LedgerProperties
  imports Ledger
begin

text \<open>
  What the gateway ledger keeps through every interleaving of its steps: usage is neither lost nor counted
  twice, the tokens spent on a scope are those reported and those still to be; what serial flushes
  number; when a call is refused, and how a scope that ran out opens again.
\<close>

section \<open>Counting\<close>

datatype counter = InTokens | OutTokens | CacheRead | CacheWrite | Cost | Calls

fun count_of :: "counter \<Rightarrow> rollup \<Rightarrow> int" where
  "count_of InTokens r = ru_InTokens r" | "count_of OutTokens r = ru_OutTokens r"
| "count_of CacheRead r = ru_CacheRead r" | "count_of CacheWrite r = ru_CacheWrite r"
| "count_of Cost r = ru_CostMicroUSD r" | "count_of Calls r = ru_Calls r"

definition held :: "counter \<Rightarrow> rollup_key \<Rightarrow> rollups \<Rightarrow> int" where
  "held n key rs = (\<Sum>(k, r)\<leftarrow>rs. if k = key then count_of n r else 0)"

definition held_in :: "counter \<Rightarrow> rollup_key \<Rightarrow> (int \<times> rollups) list \<Rightarrow> int" where
  "held_in n key bs = (\<Sum>b\<leftarrow>bs. held n key (snd b))"

lemma held_simps [simp]:
  "held n key [] = 0" "held n key ((k, r) # rs) = (if k = key then count_of n r else 0) + held n key rs"
  by (simp_all add: held_def)

lemma held_in_simps [simp]: "held_in n key [] = 0" "held_in n key (b # bs) = held n key (snd b) + held_in n key bs"
  by (simp_all add: held_in_def)

lemma held_in_remove: "b \<in> set bs \<Longrightarrow> held_in n key bs = held n key (snd b) + held_in n key (remove1 b bs)"
  by (simp add: held_in_def sum_list_map_remove1 [of b bs])

lemma count_add [simp]: "count_of n (add_usage a b) = count_of n a + count_of n b"
  by (cases n) (simp_all add: add_usage_def)

lemma count_no_usage [simp]: "count_of n no_usage = 0"
  by (cases n) (simp_all add: no_usage_def)

lemma held_absent: "key \<notin> set (keys m) \<Longrightarrow> held n key m = 0"
  by (induction m) auto

lemma held_update:
  "alist_wf m \<Longrightarrow> held n key (AList.update k r m) =
     held n key m + (if k = key then count_of n r - (case alist_get m k of None \<Rightarrow> 0 | Some r0 \<Rightarrow> count_of n r0) else 0)"
proof (induction m)
  case Nil
  then show ?case by (simp add: alist_get_def)
next
  case (Cons kr m)
  obtain a b where kr: "kr = (a, b)" by (cases kr)
  then have "alist_wf m" "a \<notin> set (keys m)" using Cons.prems by (simp_all add: alist_wf_def)
  then show ?case using Cons.IH kr by (auto simp: alist_get_def held_absent split: option.split)
qed

lemma put_back_wf: "alist_wf m \<Longrightarrow> alist_wf (put_back b m)"
  by (cases b) (simp add: put_back_def split: option.split)

lemma put_back_all_wf: "alist_wf m \<Longrightarrow> alist_wf (fold put_back bs m)"
  by (induction bs arbitrary: m) (simp_all add: put_back_wf)

lemma held_put_back: "alist_wf m \<Longrightarrow> held n key (put_back b m) = held n key [b] + held n key m"
  by (cases b) (simp add: put_back_def held_update split: option.split)

lemma held_put_back_all: "alist_wf m \<Longrightarrow> held n key (fold put_back bs m) = held n key bs + held n key m"
proof (induction bs arbitrary: m)
  case (Cons b bs)
  have "held n key (fold put_back (b # bs) m) = held n key bs + held n key (put_back b m)"
    using Cons.IH [OF put_back_wf [OF Cons.prems]] by simp
  also have "held n key (put_back b m) = held n key [b] + held n key m" by (rule held_put_back [OF Cons.prems])
  also have "held n key bs + (held n key [b] + held n key m) = held n key (b # bs) + held n key m"
    by (cases b) simp
  finally show ?case .
qed simp

lemma Record_pending:
  "alist_wf (lg_pending c) \<Longrightarrow>
   alist_wf (lg_pending (Record today rec c)) \<and>
   held n key (lg_pending (Record today rec c)) =
     (if key_of today rec = key then count_of n (usage_of rec) else 0) + held n key (lg_pending c)"
  by (auto simp: Record_def Let_def held_update split: option.split)

section \<open>Leases in the ledger\<close>

lemma lease_of_set [simp]: "lease_of s (set_lease t l c) = (if s = t then l else lease_of s c)"
  by (simp add: lease_of_def set_lease_def)

lemma set_lease_fields [simp]:
  "lg_pending (set_lease s l c) = lg_pending c" "lg_seq (set_lease s l c) = lg_seq c"
  "lg_unreportedMicroUSD (set_lease s l c) = lg_unreportedMicroUSD c"
  by (simp_all add: set_lease_def)

lemma lease_of_fields [simp]:
  "lease_of s (c\<lparr>lg_unreportedMicroUSD := u\<rparr>) = lease_of s c" "lease_of s (Record today rec c) = lease_of s c"
  "lease_of s (flush_failed batch c) = lease_of s c"
  by (simp_all add: lease_of_def Record_def Let_def flush_failed_def)

lemma Allow_ledger:
  "lease_of s (snd (snd (Allow cfg lt tenant now c))) = lease_of s c \<and>
   lg_pending (snd (snd (Allow cfg lt tenant now c))) = lg_pending c \<and>
   lg_seq (snd (snd (Allow cfg lt tenant now c))) = lg_seq c \<and>
   lg_unreportedMicroUSD (snd (snd (Allow cfg lt tenant now c))) = lg_unreportedMicroUSD c"
  by (auto simp: Allow_def Let_def)

lemma PullPolicy_ledger [simp]:
  "lease_of s (fst (PullPolicy cfg now reply c)) = lease_of s c"
  "lg_pending (fst (PullPolicy cfg now reply c)) = lg_pending c"
  "lg_seq (fst (PullPolicy cfg now reply c)) = lg_seq c"
  "lg_unreportedMicroUSD (fst (PullPolicy cfg now reply c)) = lg_unreportedMicroUSD c"
  by (simp_all add: PullPolicy_def lease_of_def split: pull_reply.split)

text \<open>The last document stays in force until another one has been read in full.\<close>

lemma pulled_document_stays:
  "lg_policyBody (fst (PullPolicy cfg now reply c)) =
     (case reply of Document etag body \<Rightarrow> if Enabled cfg then body else lg_policyBody c | _ \<Rightarrow> lg_policyBody c)"
  by (simp add: PullPolicy_def split: pull_reply.split)

lemma flush_begin_Some:
  "flush_begin c = Some (c', sq, batch) \<longleftrightarrow>
     lg_pending c \<noteq> [] \<and> c' = c\<lparr>lg_seq := lg_seq c + 1, lg_pending := [], lg_calls := 0\<rparr> \<and>
     sq = lg_seq c + 1 \<and> batch = lg_pending c"
  by (auto simp: flush_begin_def)

lemma renew_begin_Some:
  "renew_begin lt scope c = Some (c', rn) \<longleftrightarrow>
     alist_get (lg_leases c) scope \<noteq> None \<and> \<not> ls_renewing (lease_of scope c) \<and>
     c' = set_lease scope ((lease_of scope c)\<lparr>ls_renewing := True\<rparr>) c \<and>
     rn = \<lparr>rn_scope = scope, rn_want = wantTokens lt (ls_remaining (lease_of scope c)),
       rn_spentSince = ls_spentSince (lease_of scope c), rn_spentUSD = lg_unreportedMicroUSD c\<rparr>"
  by (auto simp: renew_begin_def lease_of_def split: option.split)

lemma grant_fields [simp]:
  "ls_spentSince (grant lt reply now l) = ls_spentSince l" "ls_renewing (grant lt reply now l) = ls_renewing l"
  by (simp_all add: grant_def Let_def)

section \<open>The invariants\<close>

text \<open>Usage: everything recorded is pending, in flight or published.\<close>

definition usage_kept :: "world \<Rightarrow> bool" where
  "usage_kept w \<longleftrightarrow> alist_wf (lg_pending (w_ledger w)) \<and>
     (\<forall>n key. held n key (w_recorded w) =
        held n key (lg_pending (w_ledger w)) + held_in n key (w_flights w) + held_in n key (w_published w))"

lemma usage_kept_step: "client_step serial cfg lt w w' \<Longrightarrow> usage_kept w \<Longrightarrow> usage_kept w'"
proof (induction rule: client_step.induct)
  case (step_record w rec today)
  then show ?case using Record_pending [of "w_ledger w" today rec] by (simp add: usage_kept_def)
next
  case (step_unpublished sq batch w)
  then show ?case
    using held_in_remove [of "(sq, batch)" "w_flights w"]
    by (simp add: usage_kept_def flush_failed_def put_back_all_wf held_put_back_all)
next
  case (step_published b w)
  then show ?case using held_in_remove [of b "w_flights w"] by (simp add: usage_kept_def)
qed (auto simp: usage_kept_def flush_begin_Some renew_begin_Some Allow_ledger Spend_def renew_done_def renew_failed_def Let_def)

text \<open>Tokens: a scope has at most one renewal in flight, which reports no more than is unreported.\<close>

definition tokens_kept :: "world \<Rightarrow> bool" where
  "tokens_kept w \<longleftrightarrow>
     distinct (map rn_scope (w_renewals w)) \<and>
     (\<forall>s. 0 \<le> ls_spentSince (lease_of s (w_ledger w)) \<and>
        w_spent w s = w_reported w s + ls_spentSince (lease_of s (w_ledger w)) \<and>
        (ls_renewing (lease_of s (w_ledger w)) \<longleftrightarrow> s \<in> rn_scope ` set (w_renewals w))) \<and>
     (\<forall>rn \<in> set (w_renewals w). rn_spentSince rn \<le> ls_spentSince (lease_of (rn_scope rn) (w_ledger w)))"

lemma removed_scope:
  "distinct (map rn_scope rs) \<Longrightarrow> rn \<in> set rs \<Longrightarrow>
   rn_scope ` set (remove1 rn rs) = rn_scope ` set rs - {rn_scope rn} \<and> distinct (map rn_scope (remove1 rn rs))"
  by (induction rs) (auto simp: image_iff)

lemma tokens_kept_step: "client_step serial cfg lt w w' \<Longrightarrow> tokens_kept w \<Longrightarrow> tokens_kept w'"
proof (induction rule: client_step.induct)
  case (step_spend tokens w tenant)
  then show ?case by (auto simp: tokens_kept_def Spend_def Let_def)
next
  case (step_renew scope w c rn)
  then show ?case by (force simp: tokens_kept_def renew_begin_Some)
next
  case (step_renewed rn w reply now)
  note rm = removed_scope [of "w_renewals w" rn]
  have other: "rn_scope r \<noteq> rn_scope rn" if "r \<in> set (remove1 rn (w_renewals w))" for r
    using rm step_renewed that by (auto simp: tokens_kept_def)
  show ?case
    using step_renewed rm other
    by (auto simp: tokens_kept_def renew_done_def Let_def floor0_def dest: notin_set_remove1)
next
  case (step_unrenewed rn w)
  note rm = removed_scope [of "w_renewals w" rn]
  show ?case
    using step_unrenewed rm by (auto simp: tokens_kept_def renew_failed_def dest: notin_set_remove1)
next
  case (step_flush w c sq batch)
  then show ?case by (auto simp: tokens_kept_def flush_begin_Some lease_of_def)
qed (simp_all add: tokens_kept_def Allow_ledger)

text \<open>Money: never less reported than was spent.\<close>

definition money_kept :: "world \<Rightarrow> bool" where
  "money_kept w \<longleftrightarrow> 0 \<le> lg_unreportedMicroUSD (w_ledger w) \<and>
     w_cost w \<le> w_reported_cost w + lg_unreportedMicroUSD (w_ledger w) \<and>
     (\<forall>rn \<in> set (w_renewals w). 0 \<le> rn_spentUSD rn)"

lemma money_kept_step: "client_step serial cfg lt w w' \<Longrightarrow> money_kept w \<Longrightarrow> money_kept w'"
proof (induction rule: client_step.induct)
  case (step_renewed rn w reply now)
  then show ?case by (auto simp: money_kept_def renew_done_def Let_def floor0_def dest: notin_set_remove1)
next
  case (step_unrenewed rn w)
  then show ?case by (auto simp: money_kept_def renew_failed_def dest: notin_set_remove1)
qed (auto simp: money_kept_def Record_def flush_begin_Some renew_begin_Some flush_failed_def Allow_ledger Spend_def Let_def)

lemma run_keeps: "client_run serial cfg lt w \<Longrightarrow> usage_kept w \<and> tokens_kept w \<and> money_kept w"
proof (induction rule: client_run.induct)
  case run_start
  show ?case by (simp add: usage_kept_def tokens_kept_def money_kept_def start_world_def empty_ledger_def lease_of_def
      new_lease_def alist_get_def)
next
  case (run_step w w')
  then show ?case using usage_kept_step tokens_kept_step money_kept_step by blast
qed

text \<open>
  C26: Through every interleaving of records, flushes, spends and renewals, with publishes and renewals
  failing or ending in any order: of each counter of each tenant and day, what was recorded is what is
  pending, in flight and published together; the tokens spent on a scope are those reported and those
  its lease still has to report; and no less money is reported or waiting than was spent.
\<close>

theorem ledger_accounts:
  assumes "client_run serial cfg lt w"
  shows "held n key (w_recorded w) =
      held n key (lg_pending (w_ledger w)) + held_in n key (w_flights w) + held_in n key (w_published w) \<and>
    w_spent w scope = w_reported w scope + ls_spentSince (lease_of scope (w_ledger w)) \<and>
    w_cost w \<le> w_reported_cost w + lg_unreportedMicroUSD (w_ledger w)"
  using run_keeps [OF assms] unfolding usage_kept_def tokens_kept_def money_kept_def by blast

text \<open>Numbers: with serial flushes, the batch in flight is the next one.\<close>

definition numbered :: "world \<Rightarrow> bool" where
  "numbered w \<longleftrightarrow> rev (map fst (w_published w)) = [1..int (length (w_published w))] \<and>
     (case w_flights w of
        [] \<Rightarrow> lg_seq (w_ledger w) = int (length (w_published w))
      | [b] \<Rightarrow> fst b = int (length (w_published w)) + 1 \<and> lg_seq (w_ledger w) = fst b
      | _ \<Rightarrow> False)"

lemma numbered_same:
  "numbered w \<Longrightarrow> lg_seq (w_ledger w') = lg_seq (w_ledger w) \<Longrightarrow> w_flights w' = w_flights w \<Longrightarrow>
   w_published w' = w_published w \<Longrightarrow> numbered w'"
  by (simp only: numbered_def)

lemma numbered_flight: "numbered w \<Longrightarrow> b \<in> set (w_flights w) \<Longrightarrow> w_flights w = [b]"
  by (auto simp: numbered_def split: list.splits)

lemma numbered_step: "client_step True cfg lt w w' \<Longrightarrow> numbered w \<Longrightarrow> numbered w'"
proof (induction rule: client_step.induct)
  case (step_flush w c sq batch)
  then show ?case by (auto simp: numbered_def flush_begin_Some)
next
  case (step_published b w)
  note one = numbered_flight [OF step_published(2,1)]
  then show ?case using step_published by (auto simp: numbered_def upto_rec2)
next
  case (step_unpublished sq batch w)
  note one = numbered_flight [OF step_unpublished(2,1)]
  then show ?case using step_unpublished by (auto simp: numbered_def flush_failed_def)
qed (erule numbered_same; simp add: Record_def Allow_ledger Spend_def renew_begin_Some renew_done_def renew_failed_def Let_def)+

lemma numbered_run: "client_run True cfg lt w \<Longrightarrow> numbered w"
proof (induction rule: client_run.induct)
  case run_start
  show ?case by (simp add: numbered_def start_world_def empty_ledger_def)
next
  case (run_step w w')
  then show ?case using numbered_step by blast
qed

section \<open>Concrete runs\<close>

definition on_config :: upstream_config where
  "on_config = \<lparr>uc_Enabled = True, uc_Governance = True, uc_GovernanceOnPartition = [], uc_URL = ''u'',
     uc_APIKey = ''k'', uc_Workspace = ''w''\<rparr>"

definition fifth_terms :: lease_terms where
  "fifth_terms = \<lparr>lt_renew_due = (\<lambda>remaining granted. 5 * remaining \<le> granted), lt_share = (\<lambda>n. n div 10),
     lt_MinTokens = 1000, lt_MaxTokens = 100000, lt_RenewBefore = 60, lt_TTL = 600,
     lt_scope_of = (\<lambda>t. ''tenant:'' @ t), lt_RefusalSpendCap = ''spend_cap''\<rparr>"

definition one_call :: usage_record where
  "one_call = \<lparr>ur_Tenant = ''t'', ur_Date = Some ''2026-01-01'', ur_InTokens = 10, ur_OutTokens = 1, ur_CacheRead = 0,
     ur_CacheWrite = 0, ur_CostMicroUSD = 5\<rparr>"

lemma Enabled_on [simp]: "Enabled on_config"
  by (simp add: Enabled_def on_config_def)

text \<open>The steps of a run as functions of the world.\<close>

definition do_record :: "usage_record \<Rightarrow> world \<Rightarrow> world" where
  "do_record rec w = w\<lparr>w_ledger := Record [] rec (w_ledger w), w_recorded := (key_of [] rec, usage_of rec) # w_recorded w,
     w_cost := w_cost w + (if 0 < ur_CostMicroUSD rec then ur_CostMicroUSD rec else 0)\<rparr>"

definition do_flush :: "world \<Rightarrow> world" where
  "do_flush w = w\<lparr>w_ledger := (w_ledger w)\<lparr>lg_seq := lg_seq (w_ledger w) + 1, lg_pending := [], lg_calls := 0\<rparr>,
     w_flights := (lg_seq (w_ledger w) + 1, lg_pending (w_ledger w)) # w_flights w\<rparr>"

definition do_sent :: "int \<times> rollups \<Rightarrow> world \<Rightarrow> world" where
  "do_sent b w = w\<lparr>w_flights := remove1 b (w_flights w), w_published := b # w_published w\<rparr>"

definition do_lost :: "int \<times> rollups \<Rightarrow> world \<Rightarrow> world" where
  "do_lost b w = w\<lparr>w_flights := remove1 b (w_flights w), w_ledger := flush_failed (snd b) (w_ledger w)\<rparr>"

lemma run_record: "client_run serial on_config lt w \<Longrightarrow> client_run serial on_config lt (do_record rec w)"
  unfolding do_record_def by (erule run_step, rule step_record) simp

lemma run_flush:
  "client_run serial on_config lt w \<Longrightarrow> lg_pending (w_ledger w) \<noteq> [] \<Longrightarrow> (serial \<longrightarrow> w_flights w = []) \<Longrightarrow>
   client_run serial on_config lt (do_flush w)"
  unfolding do_flush_def by (erule run_step, rule step_flush) (simp_all add: flush_begin_Some)

lemma run_sent: "client_run serial cfg lt w \<Longrightarrow> b \<in> set (w_flights w) \<Longrightarrow> client_run serial cfg lt (do_sent b w)"
  unfolding do_sent_def by (erule run_step, rule step_published)

lemma run_lost: "client_run serial cfg lt w \<Longrightarrow> b \<in> set (w_flights w) \<Longrightarrow> client_run serial cfg lt (do_lost b w)"
  unfolding do_lost_def by (cases b) (auto intro: run_step step_unpublished)

lemma do_fields [simp]:
  "w_flights (do_record rec w) = w_flights w" "w_published (do_record rec w) = w_published w"
  "lg_seq (w_ledger (do_record rec w)) = lg_seq (w_ledger w)"
  "w_flights (do_flush w) = (lg_seq (w_ledger w) + 1, lg_pending (w_ledger w)) # w_flights w"
  "w_published (do_flush w) = w_published w" "lg_seq (w_ledger (do_flush w)) = lg_seq (w_ledger w) + 1"
  "lg_pending (w_ledger (do_flush w)) = []" "w_flights (do_sent b w) = remove1 b (w_flights w)"
  "w_published (do_sent b w) = b # w_published w" "w_ledger (do_sent b w) = w_ledger w"
  "w_flights (do_lost b w) = remove1 b (w_flights w)" "w_published (do_lost b w) = w_published w"
  "lg_seq (w_ledger (do_lost b w)) = lg_seq (w_ledger w) - 1"
  "lg_pending (w_ledger (do_lost b w)) = fold put_back (snd b) (lg_pending (w_ledger w))"
  by (simp_all add: do_record_def do_flush_def do_sent_def do_lost_def Record_def flush_failed_def Let_def)

lemma start_fields [simp]:
  "w_flights start_world = []" "w_published start_world = []" "lg_seq (w_ledger start_world) = 0"
  "lg_pending (w_ledger start_world) = []"
  by (simp_all add: start_world_def empty_ledger_def)

definition once :: rollups where
  "once = [(key_of [] one_call, usage_of one_call)]"

definition twice :: rollups where
  "twice = [(key_of [] one_call, add_usage (usage_of one_call) (usage_of one_call))]"

lemma once_not_twice: "once \<noteq> twice" "once \<noteq> []" "twice \<noteq> []"
  by (simp_all add: once_def twice_def add_usage_def usage_of_def)

lemma pending_once: "lg_pending (w_ledger w) = [] \<Longrightarrow> lg_pending (w_ledger (do_record one_call w)) = once"
  by (simp add: do_record_def Record_def Let_def once_def alist_get_def add_usage_def no_usage_def usage_of_def)

lemma pending_twice: "lg_pending (w_ledger w) = once \<Longrightarrow> lg_pending (w_ledger (do_record one_call w)) = twice"
  by (simp add: do_record_def Record_def Let_def once_def twice_def alist_get_def)

lemma put_back_once: "fold put_back once [] = once"
  by (simp add: once_def put_back_def alist_get_def)

theorem ledger_accounts_witness:
  "\<exists>w. client_run False on_config fifth_terms w \<and> w_flights w \<noteq> [] \<and>
     held InTokens (''t'', ''2026-01-01'') (w_recorded w) =
       held InTokens (''t'', ''2026-01-01'') (lg_pending (w_ledger w)) +
       held_in InTokens (''t'', ''2026-01-01'') (w_flights w) +
       held_in InTokens (''t'', ''2026-01-01'') (w_published w)"
proof -
  define w where "w = do_flush (do_record one_call start_world)"
  have w: "client_run False on_config fifth_terms w" "w_flights w \<noteq> []"
    by (simp_all add: w_def run_flush run_record run_start pending_once once_not_twice)
  then show ?thesis using ledger_accounts [OF w(1)] by blast
qed

text \<open>
  When flushes do not overlap, the batches that went out are numbered one after the other, without a
  gap and without a number used twice, whatever was recorded meanwhile and however many publishes failed.
\<close>

lemma serial_batches_are_numbered:
  assumes "client_run True cfg lt w"
  shows "rev (map fst (w_published w)) = [1..int (length (w_published w))] \<and> length (w_flights w) \<le> 1 \<and>
    lg_seq (w_ledger w) = int (length (w_published w) + length (w_flights w))"
  using numbered_run [OF assms] unfolding numbered_def by (cases "w_flights w") (auto split: list.splits)

theorem serial_batches_are_numbered_witness:
  "\<exists>w. client_run True on_config fifth_terms w \<and> map fst (w_published w) = [1]"
proof -
  define w where "w = do_sent (1, once) (do_flush (do_record one_call start_world))"
  have w: "client_run True on_config fifth_terms w" "length (w_published w) = 1"
    by (simp_all add: w_def run_sent run_flush run_record run_start pending_once once_not_twice)
  then show ?thesis using serial_batches_are_numbered [OF w(1)] by (intro exI [of _ w]) (auto simp: rev_swap)
qed

text \<open>
  Flushes do overlap: \<open>Record\<close> starts one on a goroutine of its own. When the earlier of two fails, its
  number is given back although the later one has gone out, and the next batch is sent under the number
  of a batch the server has seen.
\<close>

lemma overlapping_flushes_reuse_a_number:
  "\<exists>w b1 b2. client_run False on_config lt w \<and> w_published w = [b2, b1] \<and> fst b1 = fst b2 \<and> snd b1 \<noteq> snd b2"
proof -
  define w2 where "w2 = do_flush (do_record one_call (do_flush (do_record one_call start_world)))"
  define w3 where "w3 = do_lost (1, once) (do_sent (2, once) w2)"
  define w4 where "w4 = do_flush (do_record one_call w3)"
  have w2: "client_run False on_config lt w2" "w_flights w2 = [(2, once), (1, once)]"
    by (simp_all add: w2_def run_flush run_record run_start pending_once once_not_twice)
  have "client_run False on_config lt w3" by (simp add: w3_def run_lost run_sent w2)
  moreover have "lg_pending (w_ledger w3) = once" by (simp add: w3_def w2_def put_back_once)
  ultimately have w4: "client_run False on_config lt w4" "w_flights w4 = [(2, twice)]" "w_published w4 = [(2, once)]"
    by (simp_all add: w4_def run_flush run_record pending_twice once_not_twice)
      (simp_all add: w3_def w2_def pending_once)
  then show ?thesis
    using run_sent [OF w4(1), of "(2, twice)"] once_not_twice by (intro exI [of _ "do_sent (2, twice) w4"]) simp
qed

text \<open>
  Two scopes that renew at the same time both carry the one counter of unreported money, and both
  subtract it: the money is reported twice, and what was spent in between is taken off unreported.
\<close>

lemma concurrent_renewals_report_twice:
  fixes lt :: lease_terms
  defines "c0 \<equiv> empty_ledger\<lparr>lg_unreportedMicroUSD := 100, lg_leases := [(''a'', new_lease), (''b'', new_lease)]\<rparr>"
  shows "\<exists>c1 ra c2 rb c3.
    renew_begin lt ''a'' c0 = Some (c1, ra) \<and> renew_begin lt ''b'' c1 = Some (c2, rb) \<and>
    c3 = c2\<lparr>lg_unreportedMicroUSD := lg_unreportedMicroUSD c2 + 50\<rparr> \<and>
    rn_spentUSD ra + rn_spentUSD rb = 200 \<and>
    lg_unreportedMicroUSD (renew_done lt rb reply now (renew_done lt ra reply now c3)) = 0"
  by (simp add: c0_def renew_begin_def empty_ledger_def new_lease_def alist_get_def set_lease_def renew_done_def Let_def floor0_def)

section \<open>Allowing\<close>

text \<open>
  A call is refused exactly when governance is on and the server said the scope is out of budget, or
  its lease is valid and used up, or there is no valid lease and the daemon is configured to refuse then;
  an unrecognised setting does not refuse. A refusal or an approval changes no number.
\<close>

lemma refused_exactly:
  "(\<not> fst (fst (Allow cfg lt tenant now c)) \<longleftrightarrow>
     Enabled cfg \<and>
     (let l = lease_of (lt_scope_of lt tenant) c; valid = (ls_everGranted l \<and> now < ls_expires l)
      in ls_exhausted l \<or> (valid \<and> ls_granted l \<le> ls_spent l) \<or>
         (\<not> valid \<and> to_lower (trim_space (uc_GovernanceOnPartition cfg)) = ''strict''))) \<and>
   lease_of scope (snd (snd (Allow cfg lt tenant now c))) = lease_of scope c"
  using Allow_ledger [of scope cfg lt tenant now c]
  by (auto simp: Allow_def verdict_of_def partitionMode_def Let_def)

text \<open>
  C27: A scope that ran out opens again. Once its expiry has passed, the next call asks the server even
  though it is refused, and when the answer grants tokens, calls are allowed on the lease until the new
  expiry.
\<close>

theorem exhausted_scope_reopens:
  assumes "Enabled cfg" and "alist_get (lg_leases c) (lt_scope_of lt tenant) = Some l" and "ls_exhausted l"
    and "\<not> ls_renewing l" and "ls_expires l \<le> now" and "0 < lr_GrantedTokens reply" and "later < lr_ExpiresAt reply"
  shows "\<not> fst (fst (Allow cfg lt tenant now c)) \<and> fst (snd (Allow cfg lt tenant now c)) \<and>
    (\<exists>c' rn. renew_begin lt (lt_scope_of lt tenant) c = Some (c', rn) \<and>
       fst (Allow cfg lt tenant later (renew_done lt rn reply now' c')) = (True, Leased))"
proof -
  let ?s = "lt_scope_of lt tenant"
  have l: "lease_of ?s c = l" using assms(2) by (simp add: lease_of_def)
  have asks: "\<not> fst (fst (Allow cfg lt tenant now c)) \<and> fst (snd (Allow cfg lt tenant now c))"
    using assms(1,3-5) l by (simp add: Allow_def verdict_of_def needsRenew_def Let_def)
  define rn where "rn = \<lparr>rn_scope = ?s, rn_want = wantTokens lt (ls_remaining l), rn_spentSince = ls_spentSince l,
      rn_spentUSD = lg_unreportedMicroUSD c\<rparr>"
  define c' where "c' = set_lease ?s (l\<lparr>ls_renewing := True\<rparr>) c"
  have "renew_begin lt ?s c = Some (c', rn)" using assms(2,4) l by (simp add: renew_begin_Some c'_def rn_def)
  moreover have "fst (Allow cfg lt tenant later (renew_done lt rn reply now' c')) = (True, Leased)"
    using assms(1,6,7)
    by (simp add: Allow_def verdict_of_def renew_done_def rn_def c'_def grant_def floor0_def Let_def)
  ultimately show ?thesis using asks by blast
qed

definition drained :: lease where
  "drained = new_lease\<lparr>ls_exhausted := True, ls_everGranted := True, ls_expires := 100, ls_spentSince := 7\<rparr>"

definition granting :: lease_reply where
  "granting = \<lparr>lr_GrantedTokens = 500, lr_ExpiresAt = 700, lr_RemainingToday = 5000, lr_CeilingTokens = 9000,
     lr_Refusal = [], lr_SpendCapMicroUSD = 0, lr_SpentPeriodMicroUSD = 0, lr_SpendCapPeriod = []\<rparr>"

theorem exhausted_scope_reopens_witness:
  "\<exists>c' rn. renew_begin fifth_terms ''tenant:t'' (empty_ledger\<lparr>lg_leases := [(''tenant:t'', drained)]\<rparr>) = Some (c', rn) \<and>
     fst (Allow on_config fifth_terms ''t'' 300 (renew_done fifth_terms rn granting 101 c')) = (True, Leased)"
  using exhausted_scope_reopens [of on_config "empty_ledger\<lparr>lg_leases := [(''tenant:t'', drained)]\<rparr>" fifth_terms "''t''"
      drained 100 granting 300 101]
  by (simp add: fifth_terms_def drained_def new_lease_def granting_def alist_get_def)

end
