(* ===== verification/Diff.thy ===== *)
theory Diff
  imports GoStrings
begin

text \<open>
  The unified diff of two texts (\<open>internal/diff/diff.go\<close>): lines, the table of longest common subsequences,
  the edits read off it from the end, their grouping into hunks and the text of the hunks.
\<close>

abbreviation newline :: char where "newline \<equiv> CHR 0x0A"

definition splitLines :: "string \<Rightarrow> string list" where
  "splitLines content =
     (if content = [] then []
      else let lines = split_on newline content
        in if last lines = [] then butlast lines else lines)"

section \<open>Edits\<close>

datatype edit_kind = EditEqual | EditDelete | EditInsert

record edit =
  ed_kind :: edit_kind
  ed_oldIdx :: nat
  ed_newIdx :: nat

definition equal_edit :: "nat \<Rightarrow> nat \<Rightarrow> edit" where
  "equal_edit i j = \<lparr>ed_kind = EditEqual, ed_oldIdx = i, ed_newIdx = j\<rparr>"

definition delete_edit :: "nat \<Rightarrow> edit" where
  "delete_edit i = \<lparr>ed_kind = EditDelete, ed_oldIdx = i, ed_newIdx = 0\<rparr>"

definition insert_edit :: "nat \<Rightarrow> edit" where
  "insert_edit j = \<lparr>ed_kind = EditInsert, ed_oldIdx = 0, ed_newIdx = j\<rparr>"

text \<open>
  A row of the table from the one above it: \<open>left\<close> is the cell before, \<open>p\<close> the one above that and \<open>q\<close> the
  one above the cell to be filled.
\<close>

fun row_cells :: "string \<Rightarrow> string list \<Rightarrow> nat list \<Rightarrow> nat \<Rightarrow> nat list" where
  "row_cells a (b # bs) (p # q # prev) left =
     (let c = (if a = b then p + 1 else if left \<le> q then q else left)
      in c # row_cells a bs (q # prev) c)"
| "row_cells a bs prev left = []"

fun table_rows :: "string list \<Rightarrow> string list \<Rightarrow> nat list \<Rightarrow> nat list list" where
  "table_rows [] new prev = []"
| "table_rows (a # old) new prev =
     (let row = 0 # row_cells a new prev 0 in row # table_rows old new row)"

definition lcs_table :: "string list \<Rightarrow> string list \<Rightarrow> nat list list" where
  "lcs_table old new =
     (let first = replicate (length new + 1) 0 in first # table_rows old new first)"

function backtrack :: "string list \<Rightarrow> string list \<Rightarrow> nat list list \<Rightarrow> nat \<Rightarrow> nat \<Rightarrow> edit list" where
  "backtrack old new lcs i j =
     (if i = 0 \<and> j = 0 then []
      else if 0 < i \<and> 0 < j \<and> old ! (i - 1) = new ! (j - 1)
      then equal_edit (i - 1) (j - 1) # backtrack old new lcs (i - 1) (j - 1)
      else if 0 < j \<and> (i = 0 \<or> lcs ! (i - 1) ! j \<le> lcs ! i ! (j - 1))
      then insert_edit (j - 1) # backtrack old new lcs i (j - 1)
      else delete_edit (i - 1) # backtrack old new lcs (i - 1) j)"
  by pat_completeness auto
termination
  by (relation "measure (\<lambda>(old, new, lcs, i, j). i + j)") auto

declare backtrack.simps [simp del]

definition computeEdits :: "string list \<Rightarrow> string list \<Rightarrow> edit list" where
  "computeEdits old new = rev (backtrack old new (lcs_table old new) (length old) (length new))"

section \<open>Hunks\<close>

record hunk =
  hk_oldStart :: nat
  hk_oldCount :: nat
  hk_newStart :: nat
  hk_newCount :: nat
  hk_edits :: "edit list"

text \<open>The regions of changes: \<open>i\<close> is the index of the next edit, \<open>cur\<close> the start of the region it is in.\<close>

fun regions_from :: "nat \<Rightarrow> edit list \<Rightarrow> nat option \<Rightarrow> (nat \<times> nat) list" where
  "regions_from i [] None = []"
| "regions_from i [] (Some s) = [(s, i)]"
| "regions_from i (e # es) cur =
     (if ed_kind e \<noteq> EditEqual
      then regions_from (i + 1) es (case cur of None \<Rightarrow> Some i | Some s \<Rightarrow> Some s)
      else case cur of
          None \<Rightarrow> regions_from (i + 1) es None
        | Some s \<Rightarrow> (s, i) # regions_from (i + 1) es None)"

fun merge_regions :: "nat \<Rightarrow> nat \<times> nat \<Rightarrow> (nat \<times> nat) list \<Rightarrow> (nat \<times> nat) list" where
  "merge_regions contextLines cur [] = [cur]"
| "merge_regions contextLines (s, e) ((s', e') # rs) =
     (if s' - e \<le> 2 * contextLines then merge_regions contextLines (s, e') rs
      else (s, e) # merge_regions contextLines (s', e') rs)"

definition expand :: "nat \<Rightarrow> nat \<Rightarrow> nat \<times> nat \<Rightarrow> nat \<times> nat" where
  "expand contextLines len = (\<lambda>(s, e). (s - contextLines, if len < e + contextLines then len else e + contextLines))"

definition in_old :: "edit \<Rightarrow> bool" where
  "in_old e \<longleftrightarrow> ed_kind e = EditEqual \<or> ed_kind e = EditDelete"

definition in_new :: "edit \<Rightarrow> bool" where
  "in_new e \<longleftrightarrow> ed_kind e = EditEqual \<or> ed_kind e = EditInsert"

definition hunk_of :: "edit list \<Rightarrow> nat \<times> nat \<Rightarrow> hunk" where
  "hunk_of edits = (\<lambda>(hunkStart, hunkEnd).
     let hunkEdits = take (hunkEnd - hunkStart) (drop hunkStart edits)
     in \<lparr>hk_oldStart = (case List.find in_old hunkEdits of None \<Rightarrow> 1 | Some e \<Rightarrow> ed_oldIdx e + 1),
         hk_oldCount = length (filter in_old hunkEdits),
         hk_newStart = (case List.find in_new hunkEdits of None \<Rightarrow> 1 | Some e \<Rightarrow> ed_newIdx e + 1),
         hk_newCount = length (filter in_new hunkEdits),
         hk_edits = hunkEdits\<rparr>)"

definition groupIntoHunks :: "edit list \<Rightarrow> nat \<Rightarrow> hunk list" where
  "groupIntoHunks edits contextLines =
     (case regions_from 0 edits None of
        [] \<Rightarrow> []
      | r # rs \<Rightarrow> map (hunk_of edits \<circ> expand contextLines (length edits)) (merge_regions contextLines r rs))"

section \<open>Text\<close>

definition hunk_header :: "hunk \<Rightarrow> string" where
  "hunk_header h =
     ''@@ -'' @ nat_text (hk_oldStart h) @ '','' @ nat_text (hk_oldCount h) @ '' +'' @
     nat_text (hk_newStart h) @ '','' @ nat_text (hk_newCount h) @ '' @@''"

definition edit_line :: "string list \<Rightarrow> string list \<Rightarrow> edit \<Rightarrow> string" where
  "edit_line old new e =
     (case ed_kind e of
        EditEqual \<Rightarrow> CHR '' '' # old ! ed_oldIdx e
      | EditDelete \<Rightarrow> CHR ''-'' # old ! ed_oldIdx e
      | EditInsert \<Rightarrow> CHR ''+'' # new ! ed_newIdx e)"

definition text_of :: "string list \<Rightarrow> string" where
  "text_of lines = concat (map (\<lambda>l. l @ [newline]) lines)"

definition formatHunk :: "string list \<Rightarrow> string list \<Rightarrow> hunk \<Rightarrow> string" where
  "formatHunk old new h = hunk_header h @ [newline] @ text_of (map (edit_line old new) (hk_edits h))"

definition Generate :: "string \<Rightarrow> string \<Rightarrow> string \<Rightarrow> string" where
  "Generate oldContent newContent filePath =
     (let oldLines = splitLines oldContent; newLines = splitLines newContent;
          edits = computeEdits oldLines newLines; hunks = groupIntoHunks edits 3
      in if hunks = [] then []
         else text_of [''--- a/'' @ filePath, ''+++ b/'' @ filePath] @ concat (map (formatHunk oldLines newLines) hunks))"

definition GenerateForNewFile :: "string \<Rightarrow> string \<Rightarrow> string" where
  "GenerateForNewFile content filePath =
     (let lines = splitLines content
      in if lines = [] then []
         else text_of ([''--- /dev/null'', ''+++ b/'' @ filePath,
                ''@@ -0,0 +1,'' @ nat_text (length lines) @ '' @@''] @ map (Cons (CHR ''+'')) lines))"

definition GenerateForDelete :: "string \<Rightarrow> string \<Rightarrow> string" where
  "GenerateForDelete content filePath =
     (let lines = splitLines content
      in if lines = [] then []
         else text_of ([''--- a/'' @ filePath, ''+++ /dev/null'',
                ''@@ -1,'' @ nat_text (length lines) @ '' +0,0 @@''] @ map (Cons (CHR ''-'')) lines))"

section \<open>The table\<close>

text \<open>The length of a longest common subsequence, by the recursion the table unfolds from the end.\<close>

fun lcs_len :: "'a list \<Rightarrow> 'a list \<Rightarrow> nat" where
  "lcs_len (x # xs) (y # ys) = (if x = y then Suc (lcs_len xs ys) else max (lcs_len xs (y # ys)) (lcs_len (x # xs) ys))"
| "lcs_len xs ys = 0"

lemma lcs_len_Nil [simp]: "lcs_len xs [] = 0"
  by (cases xs) auto

lemma upt_0_shift: "map f [0..<Suc n] = f 0 # map (\<lambda>k. f (Suc k)) [0..<n]"
  by (simp add: upt_conv_Cons map_Suc_upt [symmetric] del: upt_Suc)

lemma row_cells_lcs:
  "row_cells a bs (map (\<lambda>k. lcs_len R (rev (take k bs) @ S)) [0..<Suc (length bs)]) (lcs_len (a # R) S) =
   map (\<lambda>k. lcs_len (a # R) (rev (take (Suc k) bs) @ S)) [0..<length bs]"
proof (induction bs arbitrary: S)
  case Nil
  then show ?case by simp
next
  case (Cons b bs)
  show ?case
    using Cons.IH [of "b # S"] by (auto simp: upt_0_shift Let_def max_def simp del: upt_Suc)
qed

lemma table_rows_lcs:
  "table_rows old new (map (\<lambda>j. lcs_len R (rev (take j new))) [0..<Suc (length new)]) =
   map (\<lambda>i. map (\<lambda>j. lcs_len (rev (take (Suc i) old) @ R) (rev (take j new))) [0..<Suc (length new)]) [0..<length old]"
proof (induction old arbitrary: R)
  case Nil
  then show ?case by simp
next
  case (Cons a old)
  have "0 # row_cells a new (map (\<lambda>j. lcs_len R (rev (take j new))) [0..<Suc (length new)]) 0 =
      map (\<lambda>j. lcs_len (a # R) (rev (take j new))) [0..<Suc (length new)]"
    using row_cells_lcs [of a new R "[]"] by (simp add: upt_0_shift del: upt_Suc)
  then show ?case using Cons.IH [of "a # R"] by (simp add: upt_0_shift Let_def del: upt_Suc)
qed

lemma lcs_table_nth:
  assumes "i \<le> length old" and "j \<le> length new"
  shows "lcs_table old new ! i ! j = lcs_len (rev (take i old)) (rev (take j new))"
proof -
  have "replicate (length new + 1) 0 = map (\<lambda>j. lcs_len [] (rev (take j new))) [0..<Suc (length new)]"
    by (simp add: map_replicate_const del: upt_Suc replicate.simps)
  then show ?thesis
    using table_rows_lcs [of old new "[]"] assms
    by (cases i) (simp_all add: lcs_table_def Let_def nth_append del: upt_Suc replicate.simps)
qed

text \<open>No common subsequence is longer.\<close>

lemma lcs_len_upper: "subseq cs xs \<Longrightarrow> subseq cs ys \<Longrightarrow> length cs \<le> lcs_len xs ys"
proof (induction xs ys arbitrary: cs rule: lcs_len.induct)
  case (1 x xs y ys)
  show ?case
  proof (cases cs)
    case Nil
    then show ?thesis by simp
  next
    case (Cons c cs')
    show ?thesis
    proof (cases "x = y")
      case True
      have "length cs' \<le> lcs_len xs ys"
        using "1.IH"(1) [OF True, of cs'] "1.prems" Cons True by (auto split: if_splits dest: subseq_Cons')
      then show ?thesis using Cons True by simp
    next
      case False
      then show ?thesis
        using "1.IH"(2) [OF False, of cs] "1.IH"(3) [OF False, of cs] "1.prems" Cons
        by (cases "c = x"; cases "c = y") (auto simp: max_def)
    qed
  qed
qed auto

end
