(* ===== verification/DiffProperties.thy ===== *)
theory DiffProperties
  imports Diff
begin

text \<open>
  What a generated diff promises: the edits turn the old lines into the new ones and keep as many lines
  as any edits could; the diff is empty exactly when the lines are the same; and a reader of unified
  diffs that takes the text literally rebuilds the new file from the old one.
\<close>

section \<open>Walking the edits\<close>

text \<open>The positions in both files after the edits, when each edit is about the line it is at.\<close>

fun walk :: "string list \<Rightarrow> string list \<Rightarrow> nat \<Rightarrow> nat \<Rightarrow> edit list \<Rightarrow> (nat \<times> nat) option" where
  "walk old new i j [] = Some (i, j)"
| "walk old new i j (e # es) =
     (case ed_kind e of
        EditEqual \<Rightarrow>
          if ed_oldIdx e = i \<and> ed_newIdx e = j \<and> i < length old \<and> j < length new \<and> old ! i = new ! j
          then walk old new (Suc i) (Suc j) es else None
      | EditDelete \<Rightarrow> if ed_oldIdx e = i \<and> i < length old then walk old new (Suc i) j es else None
      | EditInsert \<Rightarrow> if ed_newIdx e = j \<and> j < length new then walk old new i (Suc j) es else None)"

lemma walk_append:
  "walk old new i j (es @ fs) = (case walk old new i j es of None \<Rightarrow> None | Some (i', j') \<Rightarrow> walk old new i' j' fs)"
  by (induction es arbitrary: i j) (auto split: edit_kind.split)

lemma edit_fields [simp]:
  "ed_kind (equal_edit i j) = EditEqual" "ed_oldIdx (equal_edit i j) = i" "ed_newIdx (equal_edit i j) = j"
  "ed_kind (delete_edit i) = EditDelete" "ed_oldIdx (delete_edit i) = i"
  "ed_kind (insert_edit j) = EditInsert" "ed_newIdx (insert_edit j) = j"
  by (simp_all add: equal_edit_def delete_edit_def insert_edit_def)

lemma walk_backtrack:
  "i \<le> length old \<Longrightarrow> j \<le> length new \<Longrightarrow> walk old new 0 0 (rev (backtrack old new lcs i j)) = Some (i, j)"
proof (induction old new lcs i j rule: backtrack.induct)
  case (1 old new lcs i j)
  then show ?case by (subst backtrack.simps) (auto simp: walk_append split: if_splits)
qed

lemma walk_computeEdits: "walk old new 0 0 (computeEdits old new) = Some (length old, length new)"
  by (simp add: computeEdits_def walk_backtrack)

section \<open>As few changes as possible\<close>

definition kept :: "edit list \<Rightarrow> nat" where
  "kept es = length (filter (\<lambda>e. ed_kind e = EditEqual) es)"

lemma kept_simps [simp]:
  "kept [] = 0" "kept (e # es) = (if ed_kind e = EditEqual then Suc (kept es) else kept es)" "kept (rev es) = kept es"
  by (simp_all add: kept_def rev_filter [symmetric])

lemma rev_take_Suc: "0 < i \<Longrightarrow> i \<le> length xs \<Longrightarrow> rev (take i xs) = xs ! (i - 1) # rev (take (i - 1) xs)"
  by (cases i) (simp_all add: take_Suc_conv_app_nth)

lemma kept_backtrack:
  "i \<le> length old \<Longrightarrow> j \<le> length new \<Longrightarrow>
   kept (backtrack old new (lcs_table old new) i j) = lcs_len (rev (take i old)) (rev (take j new))"
proof (induction old new "lcs_table old new" i j rule: backtrack.induct)
  case (1 old new i j)
  show ?case
  proof (cases "i = 0 \<or> j = 0")
    case True
    then show ?thesis using 1 by (subst backtrack.simps) auto
  next
    case False
    then have "rev (take i old) = old ! (i - 1) # rev (take (i - 1) old)"
      "rev (take j new) = new ! (j - 1) # rev (take (j - 1) new)" using 1(4,5) by (simp_all add: rev_take_Suc)
    then show ?thesis using 1 False by (subst backtrack.simps) (simp add: lcs_table_nth max_def)
  qed
qed

lemma kept_walk: "walk old new i j es = Some (i', j') \<Longrightarrow>
   i' = i + length (filter in_old es) \<and> j' = j + length (filter in_new es)"
proof (induction es arbitrary: i j)
  case (Cons e es)
  show ?case
  proof (cases "ed_kind e")
    case EditEqual
    then have "walk old new (Suc i) (Suc j) es = Some (i', j')" using Cons.prems by (simp split: if_splits)
    from Cons.IH [OF this] EditEqual show ?thesis by (simp add: in_old_def in_new_def)
  next
    case EditDelete
    then have "walk old new (Suc i) j es = Some (i', j')" using Cons.prems by (simp split: if_splits)
    from Cons.IH [OF this] EditDelete show ?thesis by (simp add: in_old_def in_new_def)
  next
    case EditInsert
    then have "walk old new i (Suc j) es = Some (i', j')" using Cons.prems by (simp split: if_splits)
    from Cons.IH [OF this] EditInsert show ?thesis by (simp add: in_old_def in_new_def)
  qed
qed simp

lemma subseq_rev: "subseq xs ys \<Longrightarrow> subseq (rev xs) (rev ys)"
  by (induction rule: list_emb.induct) (auto intro: list_emb_append_mono subseq_rev_drop_many)

lemma edits_bound: "subseq cs old \<Longrightarrow> subseq cs new \<Longrightarrow> length cs \<le> kept (computeEdits old new)"
proof -
  assume "subseq cs old" "subseq cs new"
  then have "length (rev cs) \<le> lcs_len (rev old) (rev new)" by (intro lcs_len_upper) (simp_all add: subseq_rev)
  then show ?thesis using kept_backtrack [of "length old" old "length new" new] by (simp add: computeEdits_def)
qed

text \<open>
  C29: The edits are a walk through both files from the beginning to the end, each about the line it is at,
  with unchanged lines equal; and no edits could leave more lines unchanged, for the lines left are as
  many as any common subsequence of the two files has.
\<close>

theorem edits_minimal:
  "walk old new 0 0 (computeEdits old new) = Some (length old, length new) \<and>
   (\<forall>cs. subseq cs old \<and> subseq cs new \<longrightarrow> length cs \<le> kept (computeEdits old new))"
  using walk_computeEdits edits_bound by blast

theorem edits_minimal_witness: "2 \<le> kept (computeEdits [''a'', ''b'', ''c''] [''a'', ''x'', ''c''])"
proof -
  have "subseq [''a'', ''c''] [''a'', ''b'', ''c'']" "subseq [''a'', ''c''] [''a'', ''x'', ''c'']" by simp_all
  then show ?thesis using edits_minimal [of "[''a'', ''b'', ''c'']" "[''a'', ''x'', ''c'']"] by fastforce
qed

section \<open>Hunks cover the changes\<close>

abbreviation equal_at :: "edit list \<Rightarrow> nat \<Rightarrow> bool" where
  "equal_at es k \<equiv> ed_kind (es ! k) = EditEqual"

text \<open>Ranges in order, from \<open>lo\<close> on, with no change outside of them.\<close>

fun covers_from :: "edit list \<Rightarrow> nat \<Rightarrow> (nat \<times> nat) list \<Rightarrow> bool" where
  "covers_from es lo [] \<longleftrightarrow> (\<forall>k < length es. lo \<le> k \<longrightarrow> equal_at es k)"
| "covers_from es lo ((a, b) # rs) \<longleftrightarrow>
     lo \<le> a \<and> a < b \<and> b \<le> length es \<and> (\<forall>k < a. lo \<le> k \<longrightarrow> equal_at es k) \<and> covers_from es b rs"

definition maximal :: "edit list \<Rightarrow> nat \<times> nat \<Rightarrow> bool" where
  "maximal es = (\<lambda>(a, b). (a = 0 \<or> equal_at es (a - 1)) \<and> (b = length es \<or> equal_at es b))"

lemma covers_lower:
  assumes "covers_from es lo rs" and "lo' \<le> lo" and "\<And>k. lo' \<le> k \<Longrightarrow> k < lo \<Longrightarrow> equal_at es k"
  shows "covers_from es lo' rs"
proof (cases rs)
  case Nil
  then show ?thesis using assms by simp (metis linorder_not_less)
next
  case (Cons r rs')
  then show ?thesis using assms by (cases r) (simp, metis linorder_not_less)
qed

lemma regions_cover:
  "ds = drop i es \<Longrightarrow> i \<le> length es \<Longrightarrow>
   (case cur of None \<Rightarrow> i = 0 \<or> equal_at es (i - 1) | Some s \<Rightarrow> s < i \<and> (s = 0 \<or> equal_at es (s - 1))) \<Longrightarrow>
   covers_from es (case cur of None \<Rightarrow> i | Some s \<Rightarrow> s) (regions_from i ds cur) \<and>
   (\<forall>r \<in> set (regions_from i ds cur). maximal es r)"
proof (induction ds arbitrary: i cur)
  case Nil
  then show ?case by (cases cur) (auto simp: maximal_def)
next
  case (Cons e ds)
  have i: "i < length es" using Cons.prems(1) by (metis drop_all linorder_not_less list.distinct(1))
  have e: "es ! i = e" and ds: "ds = drop (Suc i) es"
    using Cons.prems(1) by (metis Cons_nth_drop_Suc i list.inject)+
  show ?case
  proof (cases "ed_kind e = EditEqual")
    case True
    have rest: "covers_from es (Suc i) (regions_from (Suc i) ds None)"
        "\<forall>r \<in> set (regions_from (Suc i) ds None). maximal es r"
      using Cons.IH [OF ds, of None] i e True by simp_all
    have wider: "covers_from es i (regions_from (Suc i) ds None)"
      by (rule covers_lower [OF rest(1)]) (use e True less_Suc_eq in auto)
    show ?thesis
    proof (cases cur)
      case None
      then show ?thesis using rest wider True by simp
    next
      case (Some s)
      then have "maximal es (s, i)" using Cons.prems(3) e True by (auto simp: maximal_def)
      then show ?thesis using rest wider True Some Cons.prems(3) i by simp
    qed
  next
    case False
    show ?thesis
    proof (cases cur)
      case None
      then show ?thesis using Cons.IH [OF ds, of "Some i"] Cons.prems(3) i False by simp
    next
      case (Some s)
      then show ?thesis using Cons.IH [OF ds, of "Some s"] Cons.prems(3) i False by simp
    qed
  qed
qed

lemma merge_covers:
  "covers_from es lo ((s, e) # rs) \<Longrightarrow> \<forall>r \<in> set ((s, e) # rs). maximal es r \<Longrightarrow>
   covers_from es lo (merge_regions ctx (s, e) rs) \<and> (\<forall>r \<in> set (merge_regions ctx (s, e) rs). maximal es r) \<and>
   successively (\<lambda>r r'. snd r + 2 * ctx < fst r') (merge_regions ctx (s, e) rs) \<and>
   merge_regions ctx (s, e) rs \<noteq> [] \<and> fst (hd (merge_regions ctx (s, e) rs)) = s"
proof (induction rs arbitrary: s e lo)
  case Nil
  then show ?case by simp
next
  case (Cons r rs)
  obtain s' e' where r: "r = (s', e')" by (cases r)
  show ?case
  proof (cases "s' - e \<le> 2 * ctx")
    case True
    have eq: "merge_regions ctx (s, e) (r # rs) = merge_regions ctx (s, e') rs" using True r by simp
    have "covers_from es lo ((s, e') # rs)" "\<forall>r \<in> set ((s, e') # rs). maximal es r"
      using Cons.prems r by (auto simp: maximal_def)
    from Cons.IH [OF this] show ?thesis unfolding eq .
  next
    case False
    then show ?thesis using Cons.IH [of e s' e'] Cons.prems r by (auto simp: successively_Cons)
  qed
qed

lemma expand_covers:
  "covers_from es lo rs \<Longrightarrow> successively (\<lambda>r r'. snd r + 2 * ctx < fst r') rs \<Longrightarrow> lo \<le> lo' \<Longrightarrow>
   (rs \<noteq> [] \<longrightarrow> lo' \<le> fst (hd rs) - ctx) \<Longrightarrow> covers_from es lo' (map (expand ctx (length es)) rs)"
proof (induction rs arbitrary: lo lo')
  case Nil
  then show ?case by auto
next
  case (Cons r rs)
  obtain a b where r: "r = (a, b)" by (cases r)
  define b' where "b' = (if length es < b + ctx then length es else b + ctx)"
  have "covers_from es b' (map (expand ctx (length es)) rs)"
    using Cons.IH [of b b'] Cons.prems r by (cases rs) (auto simp: b'_def)
  then show ?case using Cons.prems r by (auto simp: expand_def b'_def)
qed

definition two_sided :: "edit list \<Rightarrow> nat \<times> nat \<Rightarrow> bool" where
  "two_sided es = (\<lambda>(a, b). (\<exists>k. a \<le> k \<and> k < b \<and> equal_at es k) \<or> (a = 0 \<and> b = length es))"

lemma expand_two_sided:
  "maximal es (a, b) \<Longrightarrow> a < b \<Longrightarrow> b \<le> length es \<Longrightarrow> 0 < ctx \<Longrightarrow> two_sided es (expand ctx (length es) (a, b))"
proof -
  assume m: "maximal es (a, b)" and ab: "a < b" "b \<le> length es" and ctx: "0 < ctx"
  show ?thesis
  proof (cases "a = 0 \<and> b = length es")
    case True
    then show ?thesis by (simp add: two_sided_def expand_def)
  next
    case False
    then show ?thesis
    proof (cases "b = length es")
      case True
      then have "0 < a" "equal_at es (a - 1)" using m False by (auto simp: maximal_def)
      then show ?thesis using ab ctx True by (auto simp: two_sided_def expand_def intro!: exI [of _ "a - 1"])
    next
      case b: False
      then have "b < length es" "equal_at es b" using m ab by (auto simp: maximal_def)
      then show ?thesis using ab ctx by (auto simp: two_sided_def expand_def intro!: exI [of _ b])
    qed
  qed
qed

lemma covers_bounds: "covers_from es lo rs \<Longrightarrow> (a, b) \<in> set rs \<Longrightarrow> a < b \<and> b \<le> length es"
  by (induction es lo rs rule: covers_from.induct) auto

lemma hunks_cover:
  assumes "0 < ctx"
  obtains rs where "groupIntoHunks es ctx = map (hunk_of es) rs" and "covers_from es 0 rs" and "\<forall>r \<in> set rs. two_sided es r"
proof (cases "regions_from 0 es None")
  case Nil
  then show ?thesis using regions_cover [of es 0 es None] that [of "[]"] by (simp add: groupIntoHunks_def)
next
  case (Cons r rs)
  obtain s e where r: "r = (s, e)" by (cases r)
  define ms where "ms = merge_regions ctx (s, e) rs"
  have "covers_from es 0 ((s, e) # rs)" "\<forall>r \<in> set ((s, e) # rs). maximal es r"
    using regions_cover [of es 0 es None] Cons r by simp_all
  from merge_covers [OF this, of ctx]
  have ms: "covers_from es 0 ms" "\<forall>r \<in> set ms. maximal es r" "successively (\<lambda>r r'. snd r + 2 * ctx < fst r') ms"
    by (simp_all add: ms_def)
  have "two_sided es (expand ctx (length es) m)" if "m \<in> set ms" for m
    using covers_bounds [OF ms(1)] ms(2) that assms by (cases m) (auto intro: expand_two_sided)
  then show ?thesis
    using that [of "map (expand ctx (length es)) ms"] expand_covers [OF ms(1,3), of 0] Cons r
    by (simp add: groupIntoHunks_def ms_def)
qed

section \<open>Reading a diff\<close>

text \<open>
  A reader of unified diffs that takes every line at its word. \<open>i\<close> and \<open>j\<close> count the lines of both files
  already behind, \<open>oc\<close> and \<open>nc\<close> what the hunk still has to show of them. As the format has it, the start of
  an empty side is the line before it.
\<close>

definition parse_number :: "string \<Rightarrow> nat \<times> string" where
  "parse_number s = (digits_val (takeWhile is_digit s), dropWhile is_digit s)"

definition parse_range :: "string \<Rightarrow> (nat \<times> nat \<times> string) option" where
  "parse_range s =
     (let (a, r) = parse_number s
      in if has_prefix r '','' then let (b, r') = parse_number (tl r) in Some (a, b, r') else None)"

definition parse_header :: "string \<Rightarrow> (nat \<times> nat \<times> nat \<times> nat) option" where
  "parse_header l =
     (if \<not> has_prefix l ''@@ -'' then None
      else case parse_range (drop 4 l) of
          None \<Rightarrow> None
        | Some (a, b, r) \<Rightarrow>
            if \<not> has_prefix r '' +'' then None
            else case parse_range (drop 2 r) of
                None \<Rightarrow> None
              | Some (c, d, r') \<Rightarrow> if r' = '' @@'' then Some (a, b, c, d) else None)"

definition lines_before :: "nat \<Rightarrow> nat \<Rightarrow> nat" where
  "lines_before start n = (if n = 0 then start else start - 1)"

fun read_hunks :: "string list \<Rightarrow> nat \<Rightarrow> nat \<Rightarrow> nat \<Rightarrow> nat \<Rightarrow> string list \<Rightarrow> string list option" where
  "read_hunks old i j oc nc [] = (if oc = 0 \<and> nc = 0 then Some (drop i old) else None)"
| "read_hunks old i j oc nc (l # ls) =
     (if oc = 0 \<and> nc = 0 then
        (case parse_header l of
           None \<Rightarrow> None
         | Some (os, oc', ns, nc') \<Rightarrow>
             let i' = lines_before os oc'; j' = lines_before ns nc'
             in if i \<le> i' \<and> i' \<le> length old \<and> j' = j + (i' - i)
                then map_option ((@) (take (i' - i) (drop i old))) (read_hunks old i' j' oc' nc' ls) else None)
      else case l of
          [] \<Rightarrow> None
        | c # t \<Rightarrow>
            if c = CHR '' '' \<and> 0 < oc \<and> 0 < nc \<and> i < length old \<and> old ! i = t
            then map_option (Cons t) (read_hunks old (Suc i) (Suc j) (oc - 1) (nc - 1) ls)
            else if c = CHR ''-'' \<and> 0 < oc \<and> i < length old \<and> old ! i = t
            then read_hunks old (Suc i) j (oc - 1) nc ls
            else if c = CHR ''+'' \<and> 0 < nc then map_option (Cons t) (read_hunks old i (Suc j) oc (nc - 1) ls)
            else None)"

definition apply_patch :: "string list \<Rightarrow> string \<Rightarrow> string list option" where
  "apply_patch old diff =
     (case splitLines diff of
        [] \<Rightarrow> Some old
      | f # t # ls \<Rightarrow> if has_prefix f ''--- '' \<and> has_prefix t ''+++ '' then read_hunks old 0 0 0 0 ls else None
      | _ \<Rightarrow> None)"

lemma nat_text_nonempty_digits: "\<forall>c \<in> set (nat_text n). is_digit c"
  using nat_text_digits by blast

lemma parse_number_text:
  assumes "\<not> is_digit c"
  shows "parse_number (nat_text n @ c # s) = (n, c # s)"
proof -
  have "takeWhile is_digit (nat_text n @ c # s) = nat_text n" "dropWhile is_digit (nat_text n @ c # s) = c # s"
    using assms nat_text_digits by (simp_all add: takeWhile_append dropWhile_append)
  then show ?thesis by (simp add: parse_number_def)
qed

lemma not_digits: "\<not> is_digit (CHR '','')" "\<not> is_digit (CHR '' '')"
  by (simp_all add: is_digit_def)

lemma parse_range_text: "parse_range (nat_text a @ '','' @ nat_text b @ CHR '' '' # s) = Some (a, b, CHR '' '' # s)"
  by (simp add: parse_range_def parse_number_text not_digits Let_def)

lemma parse_hunk_header:
  "parse_header (hunk_header h) = Some (hk_oldStart h, hk_oldCount h, hk_newStart h, hk_newCount h)"
proof -
  have "parse_range (nat_text a @ CHR '','' # nat_text b @ CHR '' '' # s) = Some (a, b, CHR '' '' # s)" for a b s
    using parse_range_text [of a b s] by simp
  then show ?thesis by (simp add: parse_header_def hunk_header_def)
qed

lemma edit_sides:
  "ed_kind e = EditEqual \<Longrightarrow> in_old e \<and> in_new e \<and> edit_line old new e = CHR '' '' # old ! ed_oldIdx e"
  "ed_kind e = EditDelete \<Longrightarrow> in_old e \<and> \<not> in_new e \<and> edit_line old new e = CHR ''-'' # old ! ed_oldIdx e"
  "ed_kind e = EditInsert \<Longrightarrow> \<not> in_old e \<and> in_new e \<and> edit_line old new e = CHR ''+'' # new ! ed_newIdx e"
  by (simp_all add: in_old_def in_new_def edit_line_def)

lemma take_drop_Suc: "j < length xs \<Longrightarrow> take (Suc n) (drop j xs) = xs ! j # take n (drop (Suc j) xs)"
  by (simp add: Cons_nth_drop_Suc [symmetric])

text \<open>The lines of a hunk, read from where the walk is, give the new lines it walks over.\<close>

lemma read_edits:
  "walk old new i j es = Some (i', j') \<Longrightarrow>
   read_hunks old i j (length (filter in_old es) + oc) (length (filter in_new es) + nc) (map (edit_line old new) es @ ls) =
   map_option ((@) (take (j' - j) (drop j new))) (read_hunks old i' j' oc nc ls)"
proof (induction es arbitrary: i j)
  case Nil
  then show ?case by (simp add: option.map_ident)
next
  case (Cons e es)
  show ?case
  proof (cases "ed_kind e")
    case EditEqual
    then have w: "walk old new (Suc i) (Suc j) es = Some (i', j')" and at: "ed_oldIdx e = i" "i < length old" "j < length new"
        "old ! i = new ! j" using Cons.prems by (auto split: if_splits)
    then show ?thesis using Cons.IH [OF w] kept_walk [OF w] EditEqual
      by (simp add: edit_sides take_drop_Suc option.map_comp o_def)
  next
    case EditDelete
    then have w: "walk old new (Suc i) j es = Some (i', j')" and at: "ed_oldIdx e = i" "i < length old"
      using Cons.prems by (auto split: if_splits)
    then show ?thesis using Cons.IH [OF w] EditDelete by (simp add: edit_sides)
  next
    case EditInsert
    then have w: "walk old new i (Suc j) es = Some (i', j')" and at: "ed_newIdx e = j" "j < length new"
      using Cons.prems by (auto split: if_splits)
    then show ?thesis using Cons.IH [OF w] kept_walk [OF w] EditInsert
      by (simp add: edit_sides take_drop_Suc option.map_comp o_def)
  qed
qed

text \<open>Between hunks both files are the same.\<close>

lemma walk_equal:
  "walk old new i j es = Some (i', j') \<Longrightarrow> \<forall>e \<in> set es. ed_kind e = EditEqual \<Longrightarrow>
   i' = i + length es \<and> j' = j + length es \<and> (es \<noteq> [] \<longrightarrow> i' \<le> length old \<and> j' \<le> length new) \<and>
   take (length es) (drop i old) = take (length es) (drop j new)"
proof (induction es arbitrary: i j)
  case Nil
  then show ?case by simp
next
  case (Cons e es)
  then have w: "walk old new (Suc i) (Suc j) es = Some (i', j')" and at: "i < length old" "j < length new" "old ! i = new ! j"
    by (auto split: if_splits)
  have "\<forall>e \<in> set es. ed_kind e = EditEqual" using Cons.prems(2) by simp
  note IH = Cons.IH [OF w this]
  have "i' \<le> length old \<and> j' \<le> length new" using IH at(1,2) by (cases "es = []") simp_all
  then show ?case using IH at by (simp add: take_drop_Suc)
qed

lemma first_in_old: "walk old new i j es = Some q \<Longrightarrow> List.find in_old es = Some e \<Longrightarrow> ed_oldIdx e = i"
  by (induction es arbitrary: j) (auto simp: in_old_def split: edit_kind.splits if_splits)

lemma first_in_new: "walk old new i j es = Some q \<Longrightarrow> List.find in_new es = Some e \<Longrightarrow> ed_newIdx e = j"
  by (induction es arbitrary: i) (auto simp: in_new_def split: edit_kind.splits if_splits)

lemma walk_bound: "walk old new i j es = Some (i', j') \<Longrightarrow> i \<le> length old \<Longrightarrow> j \<le> length new \<Longrightarrow>
   i' \<le> length old \<and> j' \<le> length new"
  by (induction es arbitrary: i j) (auto split: edit_kind.splits if_splits)

definition hunk_lines :: "string list \<Rightarrow> string list \<Rightarrow> hunk \<Rightarrow> string list" where
  "hunk_lines old new h = hunk_header h # map (edit_line old new) (hk_edits h)"

lemma two_sided_counts:
  assumes "two_sided es (a, b)" and "b \<le> length es" and "walk old new 0 0 es = Some (length old, length new)"
    and "old \<noteq> []" and "new \<noteq> []"
  shows "(\<exists>e \<in> set (take (b - a) (drop a es)). in_old e) \<and> (\<exists>e \<in> set (take (b - a) (drop a es)). in_new e)"
proof -
  have "\<exists>k. a \<le> k \<and> k < b \<and> equal_at es k \<or> a = 0 \<and> b = length es" using assms(1) by (auto simp: two_sided_def)
  then show ?thesis
  proof (cases "\<exists>k. a \<le> k \<and> k < b \<and> equal_at es k")
    case True
    then obtain k where k: "a \<le> k" "k < b" "equal_at es k" by blast
    then have "take (b - a) (drop a es) ! (k - a) = es ! k" "k - a < length (take (b - a) (drop a es))"
      using assms(2) by simp_all
    then have "es ! k \<in> set (take (b - a) (drop a es))" by (metis nth_mem)
    then show ?thesis using k(3) by (auto simp: in_old_def in_new_def)
  next
    case False
    then have all: "take (b - a) (drop a es) = es" using assms(1) by (auto simp: two_sided_def)
    have "length (filter in_old es) = length old" "length (filter in_new es) = length new"
      using kept_walk [OF assms(3)] by simp_all
    then show ?thesis using assms(4,5) all by (metis filter_empty_conv length_0_conv)
  qed
qed

lemma read_hunk:
  assumes w: "walk old new i j hs = Some (i', j')" and "\<exists>e \<in> set hs. in_old e" and "\<exists>e \<in> set hs. in_new e"
    and h: "hs = take (b - a) (drop a es)" and at: "i0 \<le> i" "i \<le> length old" "j = j0 + (i - i0)"
  shows "read_hunks old i0 j0 0 0 (hunk_lines old new (hunk_of es (a, b)) @ ls) =
    map_option (\<lambda>rest. take (i - i0) (drop i0 old) @ take (j' - j) (drop j new) @ rest) (read_hunks old i' j' 0 0 ls)"
proof -
  obtain eo where eo: "List.find in_old hs = Some eo" using assms(2) by (cases "List.find in_old hs") (auto simp: find_None_iff)
  obtain en where en: "List.find in_new hs = Some en" using assms(3) by (cases "List.find in_new hs") (auto simp: find_None_iff)
  have starts: "ed_oldIdx eo = i" "ed_newIdx en = j" using first_in_old [OF w eo] first_in_new [OF w en] .
  have counts: "length (filter in_old hs) \<noteq> 0" "length (filter in_new hs) \<noteq> 0"
    using assms(2,3) by (auto simp: filter_empty_conv)
  let ?h = "hunk_of es (a, b)"
  have fields: "hk_oldStart ?h = i + 1" "hk_newStart ?h = j + 1" "hk_oldCount ?h = length (filter in_old hs)"
      "hk_newCount ?h = length (filter in_new hs)" "hk_edits ?h = hs"
    by (simp_all add: hunk_of_def h [symmetric] eo en starts)
  have "read_hunks old i0 j0 0 0 (hunk_lines old new ?h @ ls) =
      map_option ((@) (take (i - i0) (drop i0 old)))
        (read_hunks old i j (length (filter in_old hs)) (length (filter in_new hs)) (map (edit_line old new) hs @ ls))"
    using at counts by (simp add: hunk_lines_def parse_hunk_header fields lines_before_def)
  then show ?thesis using read_edits [OF w, of 0 0 ls] by (simp add: option.map_comp o_def)
qed

lemma read_all_hunks:
  assumes es: "walk old new 0 0 es = Some (length old, length new)" and "old \<noteq> []" and "new \<noteq> []"
  shows "covers_from es lo rs \<Longrightarrow> \<forall>r \<in> set rs. two_sided es r \<Longrightarrow> lo \<le> length es \<Longrightarrow>
    walk old new 0 0 (take lo es) = Some (i, j) \<Longrightarrow>
    read_hunks old i j 0 0 (concat (map (hunk_lines old new \<circ> hunk_of es) rs)) = Some (drop j new)"
proof (induction rs arbitrary: lo i j)
  case Nil
  have "walk old new 0 0 (take lo es @ drop lo es) = Some (length old, length new)" using es by simp
  then have w: "walk old new i j (drop lo es) = Some (length old, length new)" using Nil.prems(4) by (simp only: walk_append) simp
  have "\<forall>e \<in> set (drop lo es). ed_kind e = EditEqual" using Nil.prems(1) by (auto simp: in_set_conv_nth)
  from walk_equal [OF w this] have "drop i old = drop j new" by auto
  then show ?case by simp
next
  case (Cons r rs)
  obtain a b where r: "r = (a, b)" by (cases r)
  have ab: "lo \<le> a" "a < b" "b \<le> length es" "\<forall>k < a. lo \<le> k \<longrightarrow> equal_at es k" "covers_from es b rs"
    using Cons.prems(1) r by simp_all
  define gap hs where "gap = take (a - lo) (drop lo es)" and "hs = take (b - a) (drop a es)"
  have split: "take b es = take lo es @ gap @ hs"
    using ab(1,2) take_add [of lo "a - lo" es] take_add [of a "b - a" es] by (simp add: gap_def hs_def)
  have "walk old new 0 0 (take b es @ drop b es) = Some (length old, length new)" using es by simp
  then obtain i2 j2 where b: "walk old new 0 0 (take b es) = Some (i2, j2)"
    by (simp only: walk_append) (auto split: option.splits)
  then have "walk old new i j (gap @ hs) = Some (i2, j2)" using Cons.prems(4) by (simp only: split walk_append) simp
  then obtain i1 j1 where g: "walk old new i j gap = Some (i1, j1)" and h: "walk old new i1 j1 hs = Some (i2, j2)"
    by (auto simp: walk_append split: option.splits)
  have "\<forall>e \<in> set gap. ed_kind e = EditEqual" using ab by (auto simp: gap_def in_set_conv_nth)
  note same = walk_equal [OF g this]
  have ij: "i \<le> length old \<and> j \<le> length new" using walk_bound [OF Cons.prems(4)] by simp
  then have ij1: "i1 \<le> length old \<and> j1 \<le> length new" using walk_bound [OF g] by simp
  have sides: "\<exists>e \<in> set hs. in_old e" "\<exists>e \<in> set hs. in_new e"
    using two_sided_counts [OF _ ab(3) es assms(2,3)] Cons.prems(2) r by (auto simp: hs_def)
  have "read_hunks old i j 0 0 (hunk_lines old new (hunk_of es (a, b)) @ concat (map (hunk_lines old new \<circ> hunk_of es) rs)) =
      map_option (\<lambda>rest. take (i1 - i) (drop i old) @ take (j2 - j1) (drop j1 new) @ rest) (Some (drop j2 new))"
    using read_hunk [OF h sides hs_def, of i j] Cons.IH [OF ab(5) _ ab(3) b] Cons.prems(2) same ij1 by (simp add: o_def)
  also have "\<dots> = Some (take (j1 - j) (drop j new) @ take (j2 - j1) (drop j1 new) @ drop j2 new)" using same by simp
  also have "take (j1 - j) (drop j new) @ take (j2 - j1) (drop j1 new) @ drop j2 new = drop j new"
  proof -
    have "j \<le> j1" "j1 \<le> j2" using kept_walk [OF g] kept_walk [OF h] by simp_all
    then show ?thesis by (metis append_take_drop_id drop_drop le_add_diff_inverse2)
  qed
  finally show ?case using r by simp
qed

section \<open>The text\<close>

lemma split_text_of: "\<forall>l \<in> set ls. newline \<notin> set l \<Longrightarrow> split_on newline (text_of ls) = ls @ [[]]"
  by (induction ls) (simp_all add: text_of_def split_on_append_sep)

lemma splitLines_text_of: "\<forall>l \<in> set ls. newline \<notin> set l \<Longrightarrow> splitLines (text_of ls) = ls"
  by (cases ls) (simp_all add: splitLines_def split_text_of, simp add: text_of_def)

lemma splitLines_no_newline: "l \<in> set (splitLines s) \<Longrightarrow> newline \<notin> set l"
  by (auto simp: splitLines_def Let_def dest: split_on_no_sep in_set_butlastD split: if_splits)

lemma text_of_append: "text_of (xs @ ys) = text_of xs @ text_of ys"
  by (simp add: text_of_def)

lemma format_lines: "concat (map (formatHunk old new) hs) = text_of (concat (map (hunk_lines old new) hs))"
  by (induction hs) (simp_all add: formatHunk_def hunk_lines_def text_of_append, simp_all add: text_of_def)

lemma newline_not_digit: "newline \<notin> set (nat_text n)"
  using nat_text_digits [of newline n] by (auto simp: is_digit_def)

lemma walk_lines:
  assumes "walk old new i j es = Some q" and "\<forall>l \<in> set old \<union> set new. newline \<notin> set l" and "e \<in> set es"
  shows "newline \<notin> set (edit_line old new e)"
  using assms(1,3)
proof (induction es arbitrary: i j)
  case (Cons f es)
  then show ?case using assms(2) by (cases "ed_kind f") (auto simp: edit_line_def split: if_splits)
qed simp

lemma hunk_lines_no_newline:
  assumes "walk old new 0 0 es = Some q" and "\<forall>l \<in> set old \<union> set new. newline \<notin> set l"
    and "l \<in> set (hunk_lines old new (hunk_of es r))"
  shows "newline \<notin> set l"
proof -
  obtain a b where r: "r = (a, b)" by (cases r)
  have "set (hk_edits (hunk_of es r)) \<subseteq> set es"
    by (auto simp: hunk_of_def r Let_def dest: in_set_takeD in_set_dropD)
  then show ?thesis
    using assms(3) walk_lines [OF assms(1,2)] by (auto simp: hunk_lines_def hunk_header_def newline_not_digit)
qed

lemma Generate_lines:
  assumes "newline \<notin> set path" and "groupIntoHunks (computeEdits (splitLines a) (splitLines b)) 3 = hs" and "hs \<noteq> []"
  shows "splitLines (Generate a b path) =
    [''--- a/'' @ path, ''+++ b/'' @ path] @ concat (map (hunk_lines (splitLines a) (splitLines b)) hs)"
proof -
  let ?o = "splitLines a" and ?n = "splitLines b"
  obtain rs where rs: "hs = map (hunk_of (computeEdits ?o ?n)) rs"
    using hunks_cover [of 3 "computeEdits ?o ?n"] assms(2) by (metis zero_less_numeral)
  define body where "body = concat (map (hunk_lines ?o ?n) hs)"
  have "newline \<notin> set l" if "l \<in> set body" for l
    using that hunk_lines_no_newline [OF walk_computeEdits] splitLines_no_newline unfolding rs body_def by fastforce
  moreover have "newline \<notin> set (''--- a/'' @ path)" "newline \<notin> set (''+++ b/'' @ path)" using assms(1) by auto
  ultimately have all: "\<forall>l \<in> set ([''--- a/'' @ path, ''+++ b/'' @ path] @ body). newline \<notin> set l" by simp
  have "Generate a b path = text_of ([''--- a/'' @ path, ''+++ b/'' @ path] @ body)"
    using assms(2,3) by (simp add: Generate_def Let_def format_lines body_def flip: text_of_append)
  then show ?thesis unfolding body_def [symmetric] using splitLines_text_of [OF all] by (simp only:)
qed

text \<open>The diff of equal lines is empty, for the longest common subsequence is then all of them.\<close>

lemma kept_le: "kept es \<le> length (filter in_old es) \<and> kept es \<le> length (filter in_new es)"
  by (induction es) (auto simp: in_old_def in_new_def)

lemma all_kept:
  "kept es = length (filter in_old es) \<Longrightarrow> kept es = length (filter in_new es) \<Longrightarrow> e \<in> set es \<Longrightarrow> ed_kind e = EditEqual"
proof (induction es)
  case (Cons f es)
  have "ed_kind f = EditEqual"
    using Cons.prems(1,2) kept_le [of es] edit_sides [of f] by (cases "ed_kind f") (auto split: if_splits)
  then show ?case using Cons edit_sides(1) [of f] by (auto split: if_splits)
qed simp

lemma no_regions: "\<forall>e \<in> set es. ed_kind e = EditEqual \<Longrightarrow> regions_from i es None = []"
  by (induction es arbitrary: i) auto

lemma no_hunks_iff: "groupIntoHunks (computeEdits old new) 3 = [] \<longleftrightarrow> old = new"
proof
  assume none: "groupIntoHunks (computeEdits old new) 3 = []"
  obtain rs where "groupIntoHunks (computeEdits old new) 3 = map (hunk_of (computeEdits old new)) rs"
      "covers_from (computeEdits old new) 0 rs" using hunks_cover [of 3 "computeEdits old new"] by (metis zero_less_numeral)
  then have "\<forall>e \<in> set (computeEdits old new). ed_kind e = EditEqual" using none by (auto simp: in_set_conv_nth)
  from walk_equal [OF walk_computeEdits this] show "old = new" by (metis add_0 drop_0 order_refl take_all)
next
  assume "old = new"
  then have "length old \<le> kept (computeEdits old new)" using edits_bound [of old old new] by simp
  then have "\<forall>e \<in> set (computeEdits old new). ed_kind e = EditEqual"
    using kept_le [of "computeEdits old new"] kept_walk [OF walk_computeEdits [of old new]] \<open>old = new\<close>
    by (intro ballI all_kept) simp_all
  then show "groupIntoHunks (computeEdits old new) 3 = []" by (simp add: groupIntoHunks_def no_regions)
qed

text \<open>
  C28: The diff of two texts is empty exactly when their lines are the same; and when neither has no lines,
  a reader that checks every line, count and position of the diff against the old lines gets the new
  lines from it.
\<close>

theorem diff_patches:
  assumes "newline \<notin> set path"
  shows "(Generate a b path = [] \<longleftrightarrow> splitLines a = splitLines b) \<and>
    (splitLines a \<noteq> [] \<and> splitLines b \<noteq> [] \<longrightarrow>
       apply_patch (splitLines a) (Generate a b path) = Some (splitLines b))"
proof -
  let ?o = "splitLines a" and ?n = "splitLines b"
  define hs where "hs = groupIntoHunks (computeEdits ?o ?n) 3"
  have empty: "Generate a b path = [] \<longleftrightarrow> hs = []" by (simp add: Generate_def Let_def hs_def text_of_def)
  have "apply_patch ?o (Generate a b path) = Some ?n" if ne: "?o \<noteq> []" "?n \<noteq> []"
  proof (cases "hs = []")
    case True
    then show ?thesis using empty no_hunks_iff [of ?o ?n] by (simp add: apply_patch_def splitLines_def hs_def)
  next
    case False
    obtain rs where rs: "hs = map (hunk_of (computeEdits ?o ?n)) rs" "covers_from (computeEdits ?o ?n) 0 rs"
        "\<forall>r \<in> set rs. two_sided (computeEdits ?o ?n) r"
      using hunks_cover [of 3 "computeEdits ?o ?n"] hs_def by (metis zero_less_numeral)
    have "read_hunks ?o 0 0 0 0 (concat (map (hunk_lines ?o ?n) hs)) = Some ?n"
      using read_all_hunks [OF walk_computeEdits ne rs(2,3), of 0 0] by (simp add: rs(1) comp_def)
    then show ?thesis using Generate_lines [OF assms hs_def [symmetric] False] by (simp add: apply_patch_def)
  qed
  then show ?thesis using empty no_hunks_iff [of ?o ?n] hs_def by simp
qed

theorem diff_patches_witness:
  "apply_patch [''a'', ''b'', ''c''] (Generate ''a\<newline>b\<newline>c'' ''a\<newline>x\<newline>c\<newline>'' ''f'') = Some [''a'', ''x'', ''c'']"
proof -
  have "newline \<notin> set ''f''" "splitLines ''a\<newline>b\<newline>c'' = [''a'', ''b'', ''c'']"
    "splitLines ''a\<newline>x\<newline>c\<newline>'' = [''a'', ''x'', ''c'']" by code_simp+
  then show ?thesis using diff_patches [of "''f''" "''a\<newline>b\<newline>c''" "''a\<newline>x\<newline>c\<newline>''"] by simp
qed

text \<open>
  A change of nothing but the final newline has no diff, and the header of a hunk that has no lines of one
  file names line 1 of it, where the format, and the diff of a new file, have line 0.
\<close>

lemma final_newline_has_no_diff: "Generate ''a'' ''a\<newline>'' path = []"
proof -
  have "splitLines ''a'' = splitLines ''a\<newline>''" by code_simp
  then show ?thesis by (simp add: Generate_def Let_def no_hunks_iff)
qed

lemma diff_of_empty_file_unreadable:
  "apply_patch [] (Generate [] ''a'' ''f'') = None \<and> apply_patch [] (GenerateForNewFile ''a'' ''f'') = Some [''a'']"
  by code_simp

end
