(* ===== verification/BoardText.thy ===== *)
theory BoardText
  imports FsPaths
begin

text \<open>
  The scrubbing of agent-written text (\<open>internal/board/items.go\<close>, below "Sanitising agent-written text"): every
  terminal escape sequence and control is removed, the rest kept. The code walks over runes by index; the model
  over the list of what is left, so an index the code returns is the list after it.
\<close>

section \<open>Encoding runes\<close>

abbreviation byte_of :: "int \<Rightarrow> char" where "byte_of n \<equiv> char_of n"

definition valid_rune :: "int \<Rightarrow> bool" where
  "valid_rune r \<longleftrightarrow> 0 \<le> r \<and> r \<le> 0x10FFFF \<and> \<not> (0xD800 \<le> r \<and> r \<le> 0xDFFF)"

definition encode_rune :: "int \<Rightarrow> string" where
  "encode_rune r0 =
     (let r = (if valid_rune r0 then r0 else RuneError)
      in if r < 128 then [byte_of r]
         else if r < 0x800 then [byte_of (0xC0 + r div 64), byte_of (0x80 + r mod 64)]
         else if r < 0x10000 then [byte_of (0xE0 + r div 4096), byte_of (0x80 + (r div 64) mod 64), byte_of (0x80 + r mod 64)]
         else [byte_of (0xF0 + r div 262144), byte_of (0x80 + (r div 4096) mod 64), byte_of (0x80 + (r div 64) mod 64),
               byte_of (0x80 + r mod 64)])"

definition of_runes :: "int list \<Rightarrow> string" where
  "of_runes rs = concat (map encode_rune rs)"

section \<open>Skipping sequences\<close>

fun skipCSI :: "int list \<Rightarrow> int list" where
  "skipCSI [] = []"
| "skipCSI (r # rs) = (if 0x40 \<le> r \<and> r \<le> 0x7E then rs else if r < 0x20 then r # rs else skipCSI rs)"

fun skipString :: "int list \<Rightarrow> int list" where
  "skipString [] = []"
| "skipString (r # rs) =
     (if r = 0x07 \<or> r = 0x9C then rs
      else if r = 0x1B then (if rs \<noteq> [] \<and> hd rs = 0x5C then tl rs else r # rs)
      else skipString rs)"

definition string_intro :: "int \<Rightarrow> bool" where
  "string_intro r \<longleftrightarrow> r \<in> {0x5D, 0x50, 0x58, 0x5E, 0x5F}"

definition intermediate :: "int \<Rightarrow> bool" where
  "intermediate r \<longleftrightarrow> 0x20 \<le> r \<and> r \<le> 0x2F"

definition skipEscape :: "int list \<Rightarrow> int list" where
  "skipEscape rs =
     (case rs of
        [] \<Rightarrow> []
      | r # t \<Rightarrow> if r = 0x5B then skipCSI t else if string_intro r then skipString t else drop 1 (dropWhile intermediate rs))"

lemma skipCSI_length: "length (skipCSI rs) \<le> length rs"
  by (induction rs) auto

lemma skipString_length: "length (skipString rs) \<le> length rs"
  by (induction rs) auto

lemma skipEscape_length: "length (skipEscape rs) \<le> length rs"
  using skipCSI_length [of "tl rs"] skipString_length [of "tl rs"] length_dropWhile_le [of intermediate rs]
  by (cases rs) (auto simp: skipEscape_def)

definition c1_string :: "int \<Rightarrow> bool" where
  "c1_string r \<longleftrightarrow> r \<in> {0x9D, 0x90, 0x98, 0x9E, 0x9F}"

definition layout_rune :: "int \<Rightarrow> bool" where
  "layout_rune r \<longleftrightarrow> r = 0x0A \<or> r = 0x09"

definition control_rune :: "int \<Rightarrow> bool" where
  "control_rune r \<longleftrightarrow> r < 0x20 \<or> r = 0x7F \<or> (0x80 \<le> r \<and> r < 0xA0)"

function strip_runes :: "bool \<Rightarrow> int list \<Rightarrow> int list" where
  "strip_runes keep [] = []"
| "strip_runes keep (r # rs) =
     (if r = 0x1B then strip_runes keep (skipEscape rs)
      else if r = 0x9B then strip_runes keep (skipCSI rs)
      else if c1_string r then strip_runes keep (skipString rs)
      else if keep \<and> layout_rune r then r # strip_runes keep rs
      else if control_rune r then strip_runes keep rs
      else r # strip_runes keep rs)"
  by pat_completeness auto
termination
  by (relation "measure (\<lambda>(k, rs). length rs)")
    (use skipEscape_length skipCSI_length skipString_length in \<open>auto simp: le_imp_less_Suc\<close>)

definition stripControls :: "string \<Rightarrow> bool \<Rightarrow> string" where
  "stripControls s keep = of_runes (strip_runes keep (runes s))"

section \<open>Bodies and lines\<close>

text \<open>\<open>ReplaceAll(s, "\r\n", to)\<close> followed by \<open>ReplaceAll(s, "\r", to)\<close> for \<open>to\<close> without \<open>\r\<close>.\<close>

fun plain_returns :: "char \<Rightarrow> string \<Rightarrow> string" where
  "plain_returns to [] = []"
| "plain_returns to (c # s) =
     (if c = CHR 0x0D then to # plain_returns to (if s \<noteq> [] \<and> hd s = CHR 0x0A then tl s else s)
      else c # plain_returns to s)"

definition SanitiseBody :: "string \<Rightarrow> string" where
  "SanitiseBody s = stripControls (plain_returns (CHR 0x0A) s) True"

definition SanitiseInline :: "string \<Rightarrow> string" where
  "SanitiseInline s =
     stripControls (map (\<lambda>c. if c = CHR 0x0A \<or> c = CHR 0x09 then CHR '' '' else c) (plain_returns (CHR '' '') s)) False"

section \<open>Decoding what was encoded\<close>

lemma byte_code: "0 \<le> n \<Longrightarrow> n < 256 \<Longrightarrow> (of_char (char_of n :: char) :: int) = n"
  by (simp add: of_char_of)

lemma rune_digits:
  fixes r :: int
  assumes "0 \<le> r"
  obtains a b c d where "r = a * 262144 + b * 4096 + c * 64 + d" "0 \<le> a" "0 \<le> b" "b < 64" "0 \<le> c" "c < 64" "0 \<le> d" "d < 64"
    "r div 64 = a * 4096 + b * 64 + c" "r mod 64 = d" "(r div 64) mod 64 = c" "r div 4096 = a * 64 + b" "(r div 4096) mod 64 = b"
    "r div 262144 = a"
proof -
  let ?a = "r div 262144" and ?b = "(r div 4096) mod 64" and ?c = "(r div 64) mod 64" and ?d = "r mod 64"
  have "r div (64 * 64) = r div 64 div 64" "r div (64 * 64 * 64) = r div (64 * 64) div 64"
    by (rule zdiv_zmult2_eq, simp)+
  then have "r div 4096 = r div 64 div 64" "r div 262144 = r div 4096 div 64" by simp_all
  then have q: "r div 64 = (r div 4096) * 64 + ?c" "r div 4096 = ?a * 64 + ?b" "r = (r div 64) * 64 + ?d"
    using div_mult_mod_eq [of "r div 64" 64] div_mult_mod_eq [of "r div 4096" 64] div_mult_mod_eq [of r 64] by linarith+
  have "r = ?a * 262144 + ?b * 4096 + ?c * 64 + ?d" "r div 64 = ?a * 4096 + ?b * 64 + ?c" "0 \<le> ?a"
    using q assms by (linarith, linarith, simp)
  moreover have "0 \<le> ?b" "?b < 64" "0 \<le> ?c" "?c < 64" "0 \<le> ?d" "?d < 64" by simp_all
  ultimately show ?thesis using that [of ?a ?b ?c ?d] q(2) by blast
qed

lemma tag_mod:
  fixes x :: int
  shows "0 \<le> x \<Longrightarrow> x < 64 \<Longrightarrow> (0x80 + x) mod 64 = x" "0 \<le> x \<Longrightarrow> x < 32 \<Longrightarrow> (0xC0 + x) mod 32 = x"
    "0 \<le> x \<Longrightarrow> x < 16 \<Longrightarrow> (0xE0 + x) mod 16 = x" "0 \<le> x \<Longrightarrow> x < 8 \<Longrightarrow> (0xF0 + x) mod 8 = x"
  using mod_mult_self4 [of 64 2 x] mod_mult_self4 [of 32 6 x] mod_mult_self4 [of 16 14 x] mod_mult_self4 [of 8 30 x] by simp_all

lemma decode_encode:
  assumes "valid_rune r"
  shows "decode_rune (encode_rune r @ t) = (r, length (encode_rune r))"
proof -
  have r: "0 \<le> r" "r \<le> 0x10FFFF" "\<not> (0xD800 \<le> r \<and> r \<le> 0xDFFF)" using assms by (simp_all add: valid_rune_def)
  from rune_digits [OF r(1)] obtain a b c d where
    e: "r = a * 262144 + b * 4096 + c * 64 + d" "0 \<le> a" "0 \<le> b" "b < 64" "0 \<le> c" "c < 64" "0 \<le> d" "d < 64"
    and q: "r div 64 = a * 4096 + b * 64 + c" "r mod 64 = d" "(r div 64) mod 64 = c" "r div 4096 = a * 64 + b"
    "(r div 4096) mod 64 = b" "r div 262144 = a" by blast
  consider "r < 128" | "128 \<le> r" "r < 0x800" | "0x800 \<le> r" "r < 0x10000" | "0x10000 \<le> r" by linarith
  then show ?thesis
  proof cases
    case 1
    then show ?thesis using assms r by (simp add: encode_rune_def decode_rune_def byte_code)
  next
    case 2
    then have "a = 0" "b = 0" using e by linarith+
    then have "64 < c * 64" "c * 64 < 32 * 64" using 2 e by linarith+
    then have z: "a = 0" "b = 0" "2 \<le> c" "c < 32" using \<open>a = 0\<close> \<open>b = 0\<close> by simp_all
    then have enc: "encode_rune r = [byte_of (0xC0 + c), byte_of (0x80 + d)]"
      using 2 assms q by (simp add: encode_rune_def)
    have "(0xC0 + c) mod 32 = c" "(0x80 + d) mod 64 = d" using z e by (simp_all add: tag_mod)
    then show ?thesis using z e unfolding enc
      by (simp add: decode_rune_def byte_code second_range_def byte_in_def low6_def Let_def)
  next
    case 3
    then have "a = 0" using e by linarith
    moreover have "b < 16" using 3 e \<open>a = 0\<close> by linarith
    moreover have "b = 0 \<Longrightarrow> 32 \<le> c" using 3 e \<open>a = 0\<close> by linarith
    moreover have "b = 13 \<Longrightarrow> c < 32"
    proof (rule ccontr)
      assume "b = 13" "\<not> c < 32"
      then have "0xD800 \<le> r" "r \<le> 0xDFFF" using e \<open>a = 0\<close> by linarith+
      then show False using r(3) by simp
    qed
    ultimately have z: "a = 0" "b < 16" "b = 0 \<longrightarrow> 32 \<le> c" "b = 13 \<longrightarrow> c < 32" by blast+
    then have enc: "encode_rune r = [byte_of (0xE0 + b), byte_of (0x80 + c), byte_of (0x80 + d)]"
      using 3 assms q by (simp add: encode_rune_def)
    have "(0xE0 + b) mod 16 = b" "(0x80 + c) mod 64 = c" "(0x80 + d) mod 64 = d" using z e by (simp_all add: tag_mod)
    then show ?thesis using z e unfolding enc
      by (cases "b = 0"; cases "b = 13") (simp_all add: decode_rune_def byte_code second_range_def byte_in_def low6_def Let_def)
  next
    case 4
    then have "a < 5" "a = 0 \<Longrightarrow> 16 \<le> b" "a = 4 \<Longrightarrow> b < 16" using e r(2) by linarith+
    then have z: "a < 5" "a = 0 \<longrightarrow> 16 \<le> b" "a = 4 \<longrightarrow> b < 16" by blast+
    then have enc: "encode_rune r = [byte_of (0xF0 + a), byte_of (0x80 + b), byte_of (0x80 + c), byte_of (0x80 + d)]"
      using 4 assms q by (simp add: encode_rune_def)
    have "(0xF0 + a) mod 8 = a" "(0x80 + b) mod 64 = b" "(0x80 + c) mod 64 = c" "(0x80 + d) mod 64 = d" using z e by (simp_all add: tag_mod)
    then show ?thesis using z e unfolding enc
      by (cases "a = 0"; cases "a = 4") (simp_all add: decode_rune_def byte_code second_range_def byte_in_def low6_def Let_def)
  qed
qed

lemma encode_nonempty: "encode_rune r \<noteq> []"
  by (simp add: encode_rune_def Let_def)

lemma runes_of_runes: "\<forall>r \<in> set rs. valid_rune r \<Longrightarrow> runes (of_runes rs) = rs"
proof (induction rs)
  case Nil
  show ?case by (simp add: of_runes_def runes.simps)
next
  case (Cons r rs)
  have "runes (encode_rune r @ of_runes rs) = r # runes (of_runes rs)"
    using Cons.prems encode_nonempty [of r] by (subst runes.simps) (simp add: decode_encode)
  then show ?case using Cons by (simp add: of_runes_def)
qed

lemma low6_range: "0 \<le> low6 c \<and> low6 c < 64"
  by (simp add: low6_def)

lemma three_bytes_valid:
  assumes "0 \<le> b" "b < 16" "0 \<le> x" "x < 64" "0 \<le> y" "y < 64" "b = 13 \<longrightarrow> x < 32" shows "valid_rune (b * 4096 + x * 64 + y)"
proof -
  consider "b \<le> 12" | "b = 13" | "14 \<le> b" by linarith
  then have "b * 4096 + x * 64 + y \<le> 0xD7FF \<or> 0xE000 \<le> b * 4096 + x * 64 + y"
  proof cases
    case 2
    then have "x \<le> 31" using assms(7) by simp
    then have "b * 4096 + x * 64 + y \<le> 0xD7FF" using 2 assms(6) by linarith
    then show ?thesis ..
  qed (use assms in linarith)+
  moreover have "0 \<le> b * 4096 + x * 64 + y" "b * 4096 + x * 64 + y \<le> 0x10FFFF" using assms by linarith+
  ultimately show ?thesis unfolding valid_rune_def by linarith
qed

lemma four_bytes_valid:
  assumes "0 \<le> b" "b < 5" "0 \<le> x" "x < 64" "0 \<le> y" "y < 64" "0 \<le> z" "z < 64" "b = 4 \<longrightarrow> x < 16" "b = 0 \<longrightarrow> 16 \<le> x"
  shows "valid_rune (b * 262144 + x * 4096 + y * 64 + z)"
proof -
  let ?r = "b * 262144 + x * 4096 + y * 64 + z"
  consider "b = 0" "16 \<le> x" | "1 \<le> b" "b \<le> 3" | "b = 4" "x \<le> 15" using assms by linarith
  then have "0x10000 \<le> ?r \<and> ?r \<le> 0x10FFFF" by cases (use assms in linarith)+
  then show ?thesis unfolding valid_rune_def by linarith
qed

lemma decode_valid: "valid_rune (fst (decode_rune s))"
proof (cases s)
  case Nil
  then show ?thesis by (simp add: decode_rune_def valid_rune_def)
next
  case (Cons c t)
  let ?b = "of_char c :: int" and ?x = "low6 (t ! 0)" and ?y = "low6 (t ! 1)" and ?z = "low6 (t ! 2)"
  have l: "0 \<le> ?x" "?x < 64" "0 \<le> ?y" "?y < 64" "0 \<le> ?z" "?z < 64" using low6_range by simp_all
  have sub: "byte_in lo hi (t ! 0) \<Longrightarrow> 0x80 \<le> lo \<Longrightarrow> hi \<le> 0xBF \<Longrightarrow> lo - 0x80 \<le> ?x \<and> ?x \<le> hi - 0x80" for lo hi
    using tag_mod(1) [of "of_char (t ! 0) - 0x80"] unfolding byte_in_def low6_def by simp
  have two: "valid_rune ((?b mod 32) * 64 + ?x)" if "0xC2 \<le> ?b" "?b \<le> 0xDF"
  proof -
    have "0 \<le> ?b mod 32" "?b mod 32 < 32" by simp_all
    then show ?thesis using l unfolding valid_rune_def by linarith
  qed
  have three: "valid_rune ((?b mod 16) * 4096 + ?x * 64 + ?y)" if "0xE0 \<le> ?b" "?b \<le> 0xEF" "?b = 0xED \<longrightarrow> ?x < 32"
  proof -
    have "?b mod 16 = ?b - 0xE0" using tag_mod(3) [of "?b - 0xE0"] that by simp
    then show ?thesis using three_bytes_valid [of "?b - 0xE0" ?x ?y] l that by simp
  qed
  have four: "valid_rune ((?b mod 8) * 262144 + ?x * 4096 + ?y * 64 + ?z)"
    if "0xF0 \<le> ?b" "?b \<le> 0xF4" "?b = 0xF4 \<longrightarrow> ?x < 16" "?b = 0xF0 \<longrightarrow> 16 \<le> ?x"
  proof -
    have "?b mod 8 = ?b - 0xF0" using tag_mod(4) [of "?b - 0xF0"] that by simp
    then show ?thesis using four_bytes_valid [of "?b - 0xF0" ?x ?y ?z] l that by simp
  qed
  have "?b mod 256 = ?b" by simp
  then have "0 \<le> ?b" by presburger
  then have one: "?b < 128 \<Longrightarrow> valid_rune ?b" "valid_rune RuneError" by (simp_all add: valid_rune_def)
  obtain lo hi where sr: "second_range ?b = (lo, hi)" by (cases "second_range ?b")
  have lim: "0x80 \<le> lo" "hi \<le> 0xBF" "?b = 0xED \<longrightarrow> hi = 0x9F" "?b = 0xF4 \<longrightarrow> hi = 0x8F" "?b = 0xF0 \<longrightarrow> lo = 0x90"
    using sr by (auto simp: second_range_def split: if_splits)
  have x: "byte_in lo hi (t ! 0) \<Longrightarrow> (?b = 0xED \<longrightarrow> ?x < 32) \<and> (?b = 0xF4 \<longrightarrow> ?x < 16) \<and> (?b = 0xF0 \<longrightarrow> 16 \<le> ?x)"
    using sub [of lo hi] lim by auto
  have "byte_in lo hi (t ! 0) \<Longrightarrow> 0xE0 \<le> ?b \<Longrightarrow> ?b \<le> 0xEF \<Longrightarrow> valid_rune ((?b mod 16) * 4096 + ?x * 64 + ?y)"
    "byte_in lo hi (t ! 0) \<Longrightarrow> 0xF0 \<le> ?b \<Longrightarrow> ?b \<le> 0xF4 \<Longrightarrow> valid_rune ((?b mod 8) * 262144 + ?x * 4096 + ?y * 64 + ?z)"
    using three four x by blast+
  then show ?thesis using two one unfolding Cons by (simp add: decode_rune_def sr Let_def del: One_nat_def)
qed

end
