(* ===== verification/BoardFlow.thy ===== *)
theory BoardFlow
  imports BoardText BoardInbox BoardId
begin

text \<open>
  The flow model of a board (\<open>internal/board/flow.go\<close>): its posts as a sequence of events, the panes as nodes,
  who ordered whom and what became of the orders as edges, and the counts of the header. A pane's meta is an
  association list, a Go map read at a missing key giving the empty text; the thread a post was filed on is
  named by its position.
\<close>

section \<open>The model\<close>

record flow_pane =
  fp_id :: string
  fp_name :: string
  fp_meta :: "(string \<times> string) list"

record flow_node =
  fn_id :: string
  fn_kind :: string
  fn_label :: string
  fn_role :: string
  fn_parent :: string
  fn_comm :: string
  fn_posts :: nat
  fn_work :: string
  fn_task :: string
  fn_activity :: string
  fn_health :: string
  fn_blocked_by :: "string list"
  fn_goal_state :: string
  fn_goal_pct :: "int option"
  fn_goal_eta :: int

record flow_edge =
  fe_type :: string
  fe_from :: string
  fe_to :: string
  fe_count :: nat
  fe_answered :: "nat option"
  fe_undelivered :: "nat option"
  fe_open :: "nat option"
  fe_latency :: "int option"
  fe_last :: int

record flow_event =
  fv_ts :: int
  fv_type :: string
  fv_from :: string
  fv_to :: string
  fv_kind :: string
  fv_thread :: string
  fv_cmd_id :: string
  fv_summary :: string

record flow_stats =
  ft_panes :: nat
  ft_prompts :: nat
  ft_answered :: nat
  ft_undelivered :: nat
  ft_open :: nat
  ft_status :: nat
  ft_blocked :: nat

record flow =
  fl_board :: string
  fl_nodes :: "flow_node list"
  fl_edges :: "flow_edge list"
  fl_events :: "flow_event list"
  fl_stats :: flow_stats

abbreviation FlowPrompt :: string where "FlowPrompt \<equiv> ''prompt''"
abbreviation FlowAck :: string where "FlowAck \<equiv> ''ack''"
abbreviation FlowUndelivered :: string where "FlowUndelivered \<equiv> ''undelivered''"
abbreviation FlowReply :: string where "FlowReply \<equiv> ''reply''"
abbreviation FlowStatus :: string where "FlowStatus \<equiv> ''status''"
abbreviation FlowChain :: string where "FlowChain \<equiv> ''chain''"
abbreviation FlowBlocks :: string where "FlowBlocks \<equiv> ''blocks''"
abbreviation flowUndeliveredKind :: string where "flowUndeliveredKind \<equiv> ''undelivered''"
abbreviation FlowEventCap :: nat where "FlowEventCap \<equiv> 200"
abbreviation flowSummaryRunes :: nat where "flowSummaryRunes \<equiv> 80"

definition FlowBoardNodeID :: "string \<Rightarrow> string" where
  "FlowBoardNodeID b = ''board:'' @ b"

definition NormaliseComm :: "string \<Rightarrow> string" where
  "NormaliseComm c = (let t = trim_space c in if t = ''polling-stream'' then ''grid'' else t)"

definition meta :: "(string \<times> string) list \<Rightarrow> string \<Rightarrow> string" where
  "meta ms k = (case alist_get ms k of None \<Rightarrow> [] | Some v \<Rightarrow> v)"

section \<open>Summaries and medians\<close>

fun summary_of :: "string list \<Rightarrow> string" where
  "summary_of [] = []"
| "summary_of (l # ls) =
     (let line = trim_space l
      in if line = [] then summary_of ls
         else if flowSummaryRunes < length (runes line)
         then of_runes (take (flowSummaryRunes - 1) (runes line)) @ [CHR 0xE2, CHR 0x80, CHR 0xA6]
         else line)"

definition flowSummary :: "string \<Rightarrow> string" where
  "flowSummary text = summary_of (split_on (CHR 0x0A) (SanitiseBody text))"

definition medianFloor :: "int list \<Rightarrow> int" where
  "medianFloor xs = (let s = sort xs; n = length s
     in if n mod 2 = 1 then s ! (n div 2) else (s ! (n div 2 - 1) + s ! (n div 2)) div 2)"

section \<open>The posts of a board\<close>

record filed_post =
  fx_post :: board_post
  fx_thread :: nat
  fx_root :: "board_post option"
  fx_key :: string

definition posts_on :: "nat \<times> thread \<Rightarrow> filed_post list" where
  "posts_on it = (case it of (i, t) \<Rightarrow>
     map (\<lambda>p. \<lparr>fx_post = p, fx_thread = i, fx_root = t_root t, fx_key = (if p_thread p = [] then t_key t else p_thread p)\<rparr>)
       ((case t_root t of None \<Rightarrow> [] | Some p \<Rightarrow> [p]) @ t_replies t))"

definition flow_posts :: "thread list \<Rightarrow> filed_post list" where
  "flow_posts threads = sort_key (\<lambda>fx. p_ts (fx_post fx)) (concat (map posts_on (enumerate 0 threads)))"

section \<open>Events\<close>

definition order_of :: "filed_post \<Rightarrow> board_post option" where
  "order_of fx = (case fx_root fx of
     None \<Rightarrow> None | Some r \<Rightarrow> if p_kind r = BoardKindCmd \<and> p_to_pane r \<noteq> [] then Some r else None)"

definition flow_event_of :: "string \<Rightarrow> filed_post \<Rightarrow> flow_event" where
  "flow_event_of boardNode fx =
     (let p = fx_post fx;
          ev = (\<lambda>ty to c. \<lparr>fv_ts = p_ts p, fv_type = ty, fv_from = p_pane p, fv_to = to, fv_kind = p_kind p,
                  fv_thread = fx_key fx, fv_cmd_id = c, fv_summary = flowSummary (p_text p)\<rparr>)
      in if p_kind p = BoardKindCmd \<and> p_to_pane p \<noteq> [] then ev FlowPrompt (p_to_pane p) (p_cmd_id p)
         else case order_of fx of
             None \<Rightarrow> ev FlowStatus boardNode []
           | Some cmd \<Rightarrow>
               if p_kind p = BoardKindAck then ev FlowAck (p_pane cmd) (p_cmd_id cmd)
               else if p_kind p = flowUndeliveredKind then ev FlowUndelivered (p_to_pane cmd) (p_cmd_id cmd)
               else ev FlowReply (if p_pane p = p_to_pane cmd then p_pane cmd else p_to_pane cmd) (p_cmd_id cmd))"

section \<open>What became of the prompts\<close>

record prompt_state =
  pr_answered :: bool
  pr_first :: int
  pr_undelivered :: bool
  pr_latency :: "int option"

definition answer_at :: "int \<Rightarrow> prompt_state \<Rightarrow> prompt_state" where
  "answer_at ts st = (if \<not> pr_answered st \<or> ts < pr_first st then st\<lparr>pr_answered := True, pr_first := ts\<rparr> else st)"

definition thread_answer :: "board_post \<Rightarrow> board_post \<Rightarrow> prompt_state \<Rightarrow> prompt_state" where
  "thread_answer c r st =
     (if p_kind r = BoardKindCmd then st
      else let st1 = (if p_kind r = flowUndeliveredKind then st\<lparr>pr_undelivered := True\<rparr> else st)
        in if p_to_pane c \<noteq> [] \<and> p_pane r = p_to_pane c then answer_at (p_ts r) st1 else st1)"

definition ack_answer :: "board_post \<Rightarrow> board_post \<Rightarrow> prompt_state \<Rightarrow> prompt_state" where
  "ack_answer c r st =
     (if p_to_pane c \<noteq> [] \<and> p_pane r = p_to_pane c \<and> (p_thread r = [] \<or> p_thread r = p_thread c) then answer_at (p_ts r) st else st)"

definition acks_of :: "filed_post list \<Rightarrow> string \<Rightarrow> board_post list" where
  "acks_of posts cmdID = filter (\<lambda>r. p_kind r = BoardKindAck \<and> p_cmd_id r \<noteq> [] \<and> p_cmd_id r = cmdID) (map fx_post posts)"

definition on_thread :: "filed_post list \<Rightarrow> nat \<Rightarrow> board_post list" where
  "on_thread posts i = map fx_post (filter (\<lambda>fx. fx_thread fx = i) posts)"

definition prompt_state_of :: "filed_post list \<Rightarrow> filed_post \<Rightarrow> prompt_state" where
  "prompt_state_of posts fx =
     (let c = fx_post fx;
          st0 = \<lparr>pr_answered = False, pr_first = 0, pr_undelivered = False, pr_latency = None\<rparr>;
          st = fold (ack_answer c) (acks_of posts (p_cmd_id c)) (fold (thread_answer c) (on_thread posts (fx_thread fx)) st0)
      in if pr_answered st \<and> 0 \<le> pr_first st - p_ts c then st\<lparr>pr_latency := Some (pr_first st - p_ts c)\<rparr> else st)"

text \<open>A command sent again, by its sender and its id, is one prompt: the first seen.\<close>

fun first_prompts :: "(string \<times> string) list \<Rightarrow> filed_post list \<Rightarrow> bool list" where
  "first_prompts seen [] = []"
| "first_prompts seen (fx # rest) =
     (let c = fx_post fx; k = (p_pane c, p_cmd_id c)
      in if p_kind c \<noteq> BoardKindCmd \<or> p_to_pane c = [] then False # first_prompts seen rest
         else if p_cmd_id c \<noteq> [] \<and> k \<in> set seen then False # first_prompts seen rest
         else True # first_prompts (if p_cmd_id c \<noteq> [] then k # seen else seen) rest)"

section \<open>Nodes\<close>

definition add_node :: "string \<Rightarrow> string list \<Rightarrow> string list" where
  "add_node i ids = (if i = [] then ids else append_unique ids i)"

definition node_ids :: "string \<Rightarrow> flow_event list \<Rightarrow> flow_pane list \<Rightarrow> string list" where
  "node_ids boardID events panes =
     (let seen = fold (\<lambda>ev ids. add_node (fv_to ev) (add_node (fv_from ev) ids)) events (add_node (FlowBoardNodeID boardID) []);
          extra = map fp_id (filter (\<lambda>p. fp_id p \<notin> set seen \<and> fp_id p \<noteq> [] \<and> meta (fp_meta p) ''board.id'' = boardID) panes)
      in fold add_node (sort extra) seen)"

definition newest_personas :: "filed_post list \<Rightarrow> (string \<times> string) list" where
  "newest_personas posts = fold (\<lambda>fx ps. let s = SanitiseInline (p_persona (fx_post fx))
     in if trim_space s \<noteq> [] then AList.update (p_pane (fx_post fx)) s ps else ps) posts []"

definition pane_by_id :: "flow_pane list \<Rightarrow> (string \<times> flow_pane) list" where
  "pane_by_id panes = fold (\<lambda>p m. AList.update (fp_id p) p m) panes []"

definition node_kind :: "string \<Rightarrow> string" where
  "node_kind i = (if i = ''courier'' then ''courier'' else if i = ''listener'' then ''listener''
     else if i = ''fleet'' then ''fleet'' else ''pane'')"

definition blank_node :: "string \<Rightarrow> nat \<Rightarrow> flow_node" where
  "blank_node i n = \<lparr>fn_id = i, fn_kind = [], fn_label = [], fn_role = [], fn_parent = [], fn_comm = [], fn_posts = n, fn_work = [],
     fn_task = [], fn_activity = [], fn_health = [], fn_blocked_by = [], fn_goal_state = [], fn_goal_pct = None, fn_goal_eta = 0\<rparr>"

definition goal_pct_of :: "string \<Rightarrow> int option" where
  "goal_pct_of s = (case atoi (trim_space s) of None \<Rightarrow> None | Some v \<Rightarrow> if 0 \<le> v \<and> v \<le> 100 then Some v else None)"

definition goal_eta_of :: "string \<Rightarrow> int" where
  "goal_eta_of s = (case atoi (trim_space s) of None \<Rightarrow> 0 | Some v \<Rightarrow> if 0 < v then v else 0)"

definition from_meta :: "(string \<times> string) list \<Rightarrow> flow_node \<Rightarrow> flow_node" where
  "from_meta ms n = n\<lparr>fn_role := meta ms ''fleet.role'', fn_parent := meta ms ''fleet.parent'',
     fn_comm := NormaliseComm (meta ms ''fleet.comm''), fn_work := meta ms ''fleet.work'',
     fn_task := SanitiseInline (meta ms ''fleet.task''), fn_activity := meta ms ''fleet.activity'',
     fn_health := meta ms ''fleet.health'',
     fn_blocked_by := filter (\<lambda>b. b \<noteq> []) (map trim_space (split_on (CHR '','') (meta ms ''fleet.blocked_by''))),
     fn_goal_state := SanitiseInline (meta ms ''fleet.goal_state''), fn_goal_pct := goal_pct_of (meta ms ''fleet.goal_pct''),
     fn_goal_eta := goal_eta_of (meta ms ''fleet.goal_eta'')\<rparr>"

definition node_of :: "string \<Rightarrow> flow_pane list \<Rightarrow> filed_post list \<Rightarrow> string \<Rightarrow> flow_node" where
  "node_of boardID panes posts i =
     (let n = blank_node i (length (filter (\<lambda>fx. p_pane (fx_post fx) = i) posts))
      in if i = FlowBoardNodeID boardID then n\<lparr>fn_kind := ''board'', fn_label := boardID\<rparr>
         else let pane = alist_get (pane_by_id panes) i; persona = meta (newest_personas posts) i;
             n1 = n\<lparr>fn_kind := node_kind i,
               fn_label := (if persona \<noteq> [] then persona
                 else case pane of
                     Some p \<Rightarrow> if fp_name p \<noteq> [] then fp_name p else BoardPersona [] [] i
                   | None \<Rightarrow> BoardPersona [] [] i)\<rparr>
           in case pane of Some p \<Rightarrow> if node_kind i = ''pane'' then from_meta (fp_meta p) n1 else n1 | None \<Rightarrow> n1)"

section \<open>Edges\<close>

definition edge_key :: "flow_edge \<Rightarrow> string \<times> string \<times> string" where
  "edge_key e = (fe_type e, fe_from e, fe_to e)"

definition new_edge :: "string \<Rightarrow> string \<Rightarrow> string \<Rightarrow> flow_edge" where
  "new_edge ty from to = (let z = (if ty = FlowPrompt then Some 0 else None)
     in \<lparr>fe_type = ty, fe_from = from, fe_to = to, fe_count = 0, fe_answered = z, fe_undelivered = z, fe_open = z,
         fe_latency = None, fe_last = 0\<rparr>)"

definition at_edge :: "string \<Rightarrow> string \<Rightarrow> string \<Rightarrow> (flow_edge \<Rightarrow> flow_edge) \<Rightarrow> flow_edge list \<Rightarrow> flow_edge list" where
  "at_edge ty from to f es =
     (if \<exists>e \<in> set es. edge_key e = (ty, from, to) then map (\<lambda>e. if edge_key e = (ty, from, to) then f e else e) es
      else es @ [f (new_edge ty from to)])"

definition hit :: "int \<Rightarrow> flow_edge \<Rightarrow> flow_edge" where
  "hit ts e = e\<lparr>fe_count := Suc (fe_count e), fe_last := max (fe_last e) ts\<rparr>"

definition tally :: "prompt_state \<Rightarrow> flow_edge \<Rightarrow> flow_edge" where
  "tally st e =
     (if pr_answered st then e\<lparr>fe_answered := map_option Suc (fe_answered e)\<rparr>
      else if pr_undelivered st then e\<lparr>fe_undelivered := map_option Suc (fe_undelivered e)\<rparr>
      else e\<lparr>fe_open := map_option Suc (fe_open e)\<rparr>)"

definition chain_edges :: "flow_node list \<Rightarrow> flow_edge list \<Rightarrow> flow_edge list" where
  "chain_edges nodes = fold (\<lambda>n es.
     if fn_kind n \<noteq> ''pane'' \<or> fn_parent n = [] \<or> fn_parent n \<notin> set (map fn_id nodes) then es
     else at_edge FlowChain (fn_parent n) (fn_id n) (\<lambda>e. e\<lparr>fe_count := 1\<rparr>) es) nodes"

definition block_edges :: "flow_node list \<Rightarrow> flow_edge list \<Rightarrow> flow_edge list" where
  "block_edges nodes = fold (\<lambda>n es.
     if fn_kind n \<noteq> ''pane'' then es
     else fold (\<lambda>b es. if b \<in> set (map fn_id nodes) \<and> b \<noteq> fn_id n
       then at_edge FlowBlocks (fn_id n) b (\<lambda>e. e\<lparr>fe_count := 1\<rparr>) es else es) (fn_blocked_by n) es) nodes"

definition no_stats :: flow_stats where
  "no_stats = \<lparr>ft_panes = 0, ft_prompts = 0, ft_answered = 0, ft_undelivered = 0, ft_open = 0, ft_status = 0, ft_blocked = 0\<rparr>"

definition count_prompt :: "prompt_state \<Rightarrow> flow_stats \<Rightarrow> flow_stats" where
  "count_prompt st ss0 = (let ss = ss0\<lparr>ft_prompts := Suc (ft_prompts ss0)\<rparr>
     in if pr_answered st then ss\<lparr>ft_answered := Suc (ft_answered ss)\<rparr>
        else if pr_undelivered st then ss\<lparr>ft_undelivered := Suc (ft_undelivered ss)\<rparr>
        else ss\<lparr>ft_open := Suc (ft_open ss)\<rparr>)"

type_synonym latencies = "((string \<times> string) \<times> int list) list"

definition note_latency :: "string \<Rightarrow> string \<Rightarrow> prompt_state \<Rightarrow> latencies \<Rightarrow> latencies" where
  "note_latency from to st ls = (case (if pr_answered st then pr_latency st else None) of
     None \<Rightarrow> ls
   | Some l \<Rightarrow> AList.update (from, to) ((case alist_get ls (from, to) of None \<Rightarrow> [] | Some xs \<Rightarrow> xs) @ [l]) ls)"

definition count_event ::
  "flow_event \<times> bool \<times> prompt_state \<Rightarrow> flow_edge list \<times> flow_stats \<times> latencies \<Rightarrow> flow_edge list \<times> flow_stats \<times> latencies" where
  "count_event evp acc = (case evp of (ev, isPrompt, st) \<Rightarrow> case acc of (es, ss, ls) \<Rightarrow>
     if fv_type ev = FlowPrompt
     then (if \<not> isPrompt then acc
           else (at_edge FlowPrompt (fv_from ev) (fv_to ev) (\<lambda>e. tally st (hit (fv_ts ev) e)) es, count_prompt st ss,
                 note_latency (fv_from ev) (fv_to ev) st ls))
     else if fv_type ev = FlowUndelivered \<or> fv_type ev = FlowStatus
     then (if fv_to ev = [] then acc
           else (at_edge (fv_type ev) (fv_from ev) (fv_to ev) (hit (fv_ts ev)) es,
                 if fv_type ev = FlowStatus then ss\<lparr>ft_status := Suc (ft_status ss)\<rparr> else ss, ls))
     else acc)"

definition set_latency :: "latencies \<Rightarrow> flow_edge \<Rightarrow> flow_edge" where
  "set_latency ls e =
     (if fe_type e = FlowPrompt
      then case alist_get ls (fe_from e, fe_to e) of None \<Rightarrow> e | Some xs \<Rightarrow> e\<lparr>fe_latency := Some (medianFloor xs)\<rparr>
      else e)"

definition typeRank :: "string \<Rightarrow> nat" where
  "typeRank ty = (if ty = FlowChain then 0 else if ty = FlowBlocks then 1 else if ty = FlowPrompt then 2
     else if ty = FlowUndelivered then 3 else if ty = FlowStatus then 4 else 0)"

fun node_index :: "string list \<Rightarrow> string \<Rightarrow> nat" where
  "node_index ids i = (if i \<in> set ids then length (takeWhile (\<lambda>j. j \<noteq> i) ids) else 0)"

text \<open>By type, then sender, then receiver: a stable sort by the last key first.\<close>

definition sort_edges :: "string list \<Rightarrow> flow_edge list \<Rightarrow> flow_edge list" where
  "sort_edges ids es = sort_key (\<lambda>e. typeRank (fe_type e))
     (sort_key (\<lambda>e. node_index ids (fe_from e)) (sort_key (\<lambda>e. node_index ids (fe_to e)) es))"

definition newest_n :: "nat \<Rightarrow> 'a list \<Rightarrow> 'a list" where
  "newest_n n xs = drop (length xs - n) xs"

definition BuildFlow :: "string \<Rightarrow> thread list \<Rightarrow> flow_pane list \<Rightarrow> flow" where
  "BuildFlow boardID threads panes =
     (let posts = flow_posts threads;
          events = map (flow_event_of (FlowBoardNodeID boardID)) posts;
          ids = node_ids boardID events panes;
          nodes = map (node_of boardID panes posts) ids;
          (es, ss, ls) = fold count_event (zip events (zip (first_prompts [] posts) (map (prompt_state_of posts) posts)))
            (block_edges nodes (chain_edges nodes []), no_stats, []);
          isPane = (\<lambda>n. fn_kind n = ''pane'')
      in \<lparr>fl_board = boardID, fl_nodes = nodes, fl_edges = sort_edges ids (map (set_latency ls) es),
          fl_events = newest_n FlowEventCap events,
          fl_stats = ss\<lparr>ft_panes := length (filter isPane nodes),
            ft_blocked := length (filter (\<lambda>n. isPane n \<and> fn_work n = ''blocked'') nodes)\<rparr>\<rparr>)"

end
