(* ===== verification/BoardStore.thy ===== *)
theory BoardStore
  imports BoardInbox BoardId
begin

text \<open>
  The board's store (\<open>internal/board/store.go\<close>): posts filed under threads, each once, in a bounded store that
  forgets whole threads, oldest first; and the roster of the agents that announced themselves. The maps
  are association lists with distinct keys, the mutex makes every method one step. The arrival counter
  is a natural number (a \<open>uint64\<close> in the code, one per accepted post), and a thread is filed under its own
  key, so evicting deletes the entry that was found.
\<close>

section \<open>The store\<close>

abbreviation MaxPosts :: nat where "MaxPosts \<equiv> 5000"
abbreviation BoardSchemaVersion :: int where "BoardSchemaVersion \<equiv> 1"

record stored_thread =
  sh_key :: string
  sh_root :: "board_post option"
  sh_replies :: "board_post list"
  sh_order :: nat
  sh_dedup :: "string list"

record roster_entry =
  ro_pane :: string
  ro_persona :: string
  ro_ts :: int

record board_store =
  bs_max :: nat
  bs_seq :: nat
  bs_threads :: "(string \<times> stored_thread) list"
  bs_roster :: "(string \<times> roster_entry) list"
  bs_dedup :: "(string \<times> string) list"
  bs_duplicates :: nat
  bs_evicted :: nat
  bs_unknown :: nat
  bs_versions :: "(int \<times> nat) list"

record board_stats =
  bt_threads :: nat
  bt_provisional :: nat
  bt_posts :: nat
  bt_duplicates :: nat
  bt_evicted :: nat
  bt_unknown :: nat

definition New :: "int \<Rightarrow> board_store" where
  "New m = \<lparr>bs_max = (if m \<le> 0 then MaxPosts else nat m), bs_seq = 0, bs_threads = [], bs_roster = [], bs_dedup = [],
     bs_duplicates = 0, bs_evicted = 0, bs_unknown = 0, bs_versions = []\<rparr>"

definition post_count :: "stored_thread \<Rightarrow> nat" where
  "post_count t = length (sh_replies t) + (if sh_root t = None then 0 else 1)"

definition sanitisePersona :: "board_post \<Rightarrow> board_post" where
  "sanitisePersona p =
     (let p1 = (if containsUnitSep (p_persona p) then p\<lparr>p_persona := BoardPersona [] [] (p_pane p)\<rparr> else p)
      in if p_persona p1 = [] then p1\<lparr>p_persona := BoardPersona [] [] (p_pane p1)\<rparr> else p1)"

section \<open>Keys\<close>

definition standaloneKey :: "nat \<Rightarrow> string" where
  "standaloneKey seq = CHR 0x00 # ''standalone/'' @ nat_text seq"

definition IsStandaloneKey :: "string \<Rightarrow> bool" where
  "IsStandaloneKey key \<longleftrightarrow> key \<noteq> [] \<and> hd key = CHR 0x00"

definition ownsThread :: "string \<Rightarrow> string \<Rightarrow> bool" where
  "ownsThread paneID threadID \<longleftrightarrow>
     paneID \<noteq> [] \<and> has_prefix threadID (paneID @ ''/'') \<and> drop (Suc (length paneID)) threadID \<noteq> []"

definition classify :: "board_post \<Rightarrow> nat \<Rightarrow> string \<times> bool" where
  "classify p seq = (if p_thread p = [] then (standaloneKey seq, True) else (p_thread p, ownsThread (p_pane p) (p_thread p)))"

definition dedupKey :: "board_post \<Rightarrow> string" where
  "dedupKey p = p_pane p @ CHR 0x00 # nat_text (nat (p_ts p mod 2 ^ 64)) @ CHR 0x00 # p_thread p @ CHR 0x00 #
     p_kind p @ CHR 0x00 # p_text p"

section \<open>Filing and evicting\<close>

definition held_posts :: "(string \<times> stored_thread) list \<Rightarrow> nat" where
  "held_posts ts = (\<Sum>kt\<leftarrow>ts. post_count (snd kt))"

definition older :: "string \<times> stored_thread \<Rightarrow> (string \<times> stored_thread) option \<Rightarrow> (string \<times> stored_thread) option" where
  "older kt best = (case best of None \<Rightarrow> Some kt | Some b \<Rightarrow> if sh_order (snd kt) < sh_order (snd b) then Some kt else Some b)"

definition oldest :: "(string \<times> stored_thread) list \<Rightarrow> (string \<times> stored_thread) option" where
  "oldest ts = fold older ts None"

definition drop_thread :: "string \<Rightarrow> stored_thread \<Rightarrow> board_store \<Rightarrow> board_store" where
  "drop_thread k t s = s\<lparr>bs_evicted := bs_evicted s + post_count t,
     bs_dedup := fold AList.delete (sh_dedup t) (bs_dedup s), bs_threads := AList.delete k (bs_threads s)\<rparr>"

lemma older_fold: "fold older ts b = Some kt \<Longrightarrow> kt \<in> set ts \<or> b = Some kt"
  by (induction ts arbitrary: b) (auto simp: older_def split: option.splits if_splits)

lemma oldest_member: "oldest ts = Some kt \<Longrightarrow> kt \<in> set ts"
  using older_fold [of ts None kt] by (simp add: oldest_def)

lemma delete_shorter: "(k, t) \<in> set ts \<Longrightarrow> length (AList.delete k ts) < length ts"
  using length_filter_less [of "(k, t)" ts "\<lambda>(k', _). k \<noteq> k'"] by (simp add: AList.delete_eq)

function evict_loop :: "nat \<Rightarrow> board_store \<Rightarrow> board_store" where
  "evict_loop n s =
     (if n \<le> bs_max s then s
      else case oldest (bs_threads s) of
          None \<Rightarrow> s
        | Some (k, t) \<Rightarrow> evict_loop (n - post_count t) (drop_thread k t s))"
  by pat_completeness auto
termination
  by (relation "measure (\<lambda>(n, s). length (bs_threads s))")
    (auto simp: drop_thread_def dest!: oldest_member intro: delete_shorter)

declare evict_loop.simps [simp del]

definition evictLocked :: "board_store \<Rightarrow> board_store" where
  "evictLocked s = evict_loop (held_posts (bs_threads s)) s"

definition new_thread :: "string \<Rightarrow> nat \<Rightarrow> stored_thread" where
  "new_thread key seq = \<lparr>sh_key = key, sh_root = None, sh_replies = [], sh_order = seq, sh_dedup = []\<rparr>"

definition file_post :: "board_post \<Rightarrow> nat \<Rightarrow> bool \<Rightarrow> stored_thread \<Rightarrow> stored_thread" where
  "file_post p seq isRoot t =
     (let t1 = (if isRoot \<and> sh_root t = None then t\<lparr>sh_root := Some p, sh_order := seq\<rparr> else t\<lparr>sh_replies := sh_replies t @ [p]\<rparr>)
      in t1\<lparr>sh_dedup := sh_dedup t1 @ [dedupKey p]\<rparr>)"

definition count_version :: "int \<Rightarrow> (int \<times> nat) list \<Rightarrow> (int \<times> nat) list" where
  "count_version v vs = AList.update v (Suc (case alist_get vs v of None \<Rightarrow> 0 | Some n \<Rightarrow> n)) vs"

definition file_new :: "board_post \<Rightarrow> board_store \<Rightarrow> board_store" where
  "file_new p0 s =
     (let seq = Suc (bs_seq s); p = sanitisePersona p0; (key, isRoot) = classify p seq;
          t = (case alist_get (bs_threads s) key of None \<Rightarrow> new_thread key seq | Some t \<Rightarrow> t)
      in s\<lparr>bs_seq := seq, bs_versions := count_version (p_version p) (bs_versions s),
           bs_unknown := (if p_version p \<noteq> BoardSchemaVersion then Suc (bs_unknown s) else bs_unknown s),
           bs_threads := AList.update key (file_post p seq isRoot t) (bs_threads s),
           bs_dedup := AList.update (dedupKey p) key (bs_dedup s)\<rparr>)"

definition Apply :: "board_post \<Rightarrow> board_store \<Rightarrow> board_store \<times> bool" where
  "Apply p s =
     (if alist_get (bs_dedup s) (dedupKey p) \<noteq> None then (s\<lparr>bs_duplicates := Suc (bs_duplicates s)\<rparr>, False)
      else (evictLocked (file_new p s), True))"

definition RegisterAgent :: "roster_entry \<Rightarrow> board_store \<Rightarrow> board_store" where
  "RegisterAgent r s =
     (if ro_pane r = [] then s
      else let persona = (if containsUnitSep (ro_persona r) then BoardPersona [] [] (ro_pane r) else ro_persona r)
        in s\<lparr>bs_roster := AList.update (ro_pane r) \<lparr>ro_pane = ro_pane r, ro_persona = persona, ro_ts = ro_ts r\<rparr> (bs_roster s)\<rparr>)"

definition RetainRoster :: "string list \<Rightarrow> board_store \<Rightarrow> board_store" where
  "RetainRoster live s = (if live = [] then s else s\<lparr>bs_roster := filter (\<lambda>ke. fst ke \<in> set live) (bs_roster s)\<rparr>)"

datatype board_event = Posted board_post | Registered roster_entry | NoEvent

definition ApplyEvent :: "board_event \<Rightarrow> board_store \<Rightarrow> board_store" where
  "ApplyEvent e s = (case e of Posted p \<Rightarrow> fst (Apply p s) | Registered r \<Rightarrow> RegisterAgent r s | NoEvent \<Rightarrow> s)"

section \<open>Reading\<close>

definition view_thread :: "stored_thread \<Rightarrow> thread" where
  "view_thread t = \<lparr>t_key = sh_key t, t_root = sh_root t, t_replies = sh_replies t\<rparr>"

definition Provisional :: "thread \<Rightarrow> bool" where
  "Provisional t \<longleftrightarrow> t_root t = None"

definition Threads :: "board_store \<Rightarrow> thread list" where
  "Threads s = map view_thread (sort_key sh_order (map snd (bs_threads s)))"

definition Roster :: "board_store \<Rightarrow> roster_entry list" where
  "Roster s = sort_key ro_pane (map snd (bs_roster s))"

definition Stats :: "board_store \<Rightarrow> board_stats" where
  "Stats s = \<lparr>bt_threads = length (bs_threads s),
     bt_provisional = length (filter (\<lambda>kt. sh_root (snd kt) = None) (bs_threads s)), bt_posts = held_posts (bs_threads s),
     bt_duplicates = bs_duplicates s, bt_evicted = bs_evicted s, bt_unknown = bs_unknown s\<rparr>"

definition VersionCounts :: "board_store \<Rightarrow> (int \<times> nat) list" where
  "VersionCounts s = bs_versions s"

end
