(* ===== verification/StoreProperties.thy ===== *)
theory StoreProperties
  imports BoardStore "HOL-Library.Multiset"
begin

text \<open>
  What the board's store keeps true, what it files where, and what it forgets.
\<close>

section \<open>The invariant\<close>

definition posts_in :: "stored_thread \<Rightarrow> board_post list" where
  "posts_in t = (case sh_root t of None \<Rightarrow> [] | Some p \<Rightarrow> [p]) @ sh_replies t"

text \<open>A post belongs to the thread it names, a post that names none to one of its own; the owner of a thread opens it.\<close>

definition belongs :: "board_post \<Rightarrow> string \<Rightarrow> bool" where
  "belongs p k \<longleftrightarrow> (if p_thread p = [] then IsStandaloneKey k else p_thread p = k)"

definition opens :: "board_post \<Rightarrow> string \<Rightarrow> bool" where
  "opens p k \<longleftrightarrow> p_thread p = [] \<or> ownsThread (p_pane p) k"

definition thread_ok :: "nat \<Rightarrow> string \<Rightarrow> stored_thread \<Rightarrow> bool" where
  "thread_ok seq k t \<longleftrightarrow> sh_key t = k \<and> 0 < sh_order t \<and> sh_order t \<le> seq \<and> posts_in t \<noteq> [] \<and>
     (\<forall>p \<in> set (posts_in t). belongs p k) \<and> (case sh_root t of None \<Rightarrow> \<forall>p \<in> set (posts_in t). \<not> opens p k | Some p \<Rightarrow> opens p k) \<and>
     mset (sh_dedup t) = mset (map dedupKey (posts_in t)) \<and> distinct (sh_dedup t)"

definition total_count :: "(int \<times> nat) list \<Rightarrow> nat" where
  "total_count vs = (\<Sum>vn\<leftarrow>vs. snd vn)"

definition orders_apart :: "(string \<times> stored_thread) list \<Rightarrow> bool" where
  "orders_apart ts \<longleftrightarrow> (\<forall>a \<in> set ts. \<forall>b \<in> set ts. sh_order (snd a) = sh_order (snd b) \<longrightarrow> fst a = fst b)"

definition store_wf :: "board_store \<Rightarrow> bool" where
  "store_wf s \<longleftrightarrow> alist_wf (bs_threads s) \<and> alist_wf (bs_dedup s) \<and> alist_wf (bs_roster s) \<and> alist_wf (bs_versions s) \<and>
     (\<forall>(k, t) \<in> set (bs_threads s). thread_ok (bs_seq s) k t) \<and>
     orders_apart (bs_threads s) \<and>
     (\<forall>dk k. alist_get (bs_dedup s) dk = Some k \<longleftrightarrow> (\<exists>t. (k, t) \<in> set (bs_threads s) \<and> dk \<in> set (sh_dedup t))) \<and>
     held_posts (bs_threads s) + bs_evicted s = bs_seq s \<and>
     total_count (bs_versions s) = bs_seq s \<and>
     total_count (filter (\<lambda>vn. fst vn \<noteq> BoardSchemaVersion) (bs_versions s)) = bs_unknown s"

lemma post_count_posts: "post_count t = length (posts_in t)"
  by (simp add: post_count_def posts_in_def split: option.split)

lemma sanitise_same [simp]:
  "p_pane (sanitisePersona p) = p_pane p" "p_thread (sanitisePersona p) = p_thread p" "p_kind (sanitisePersona p) = p_kind p"
  "p_text (sanitisePersona p) = p_text p" "p_ts (sanitisePersona p) = p_ts p" "p_version (sanitisePersona p) = p_version p"
  by (simp_all add: sanitisePersona_def Let_def)

lemma dedupKey_sanitise [simp]: "dedupKey (sanitisePersona p) = dedupKey p"
  by (simp add: dedupKey_def)

lemma filed_update:
  "alist_wf m \<Longrightarrow> held_posts (AList.update k v m) + (case alist_get m k of None \<Rightarrow> 0 | Some t \<Rightarrow> post_count t) = held_posts m + post_count v"
  by (induction m) (auto simp: held_posts_def alist_get_def alist_wf_def split: option.splits)

lemma filed_delete: "alist_wf m \<Longrightarrow> (k, t) \<in> set m \<Longrightarrow> held_posts (AList.delete k m) + post_count t = held_posts m"
proof (induction m)
  case (Cons e m)
  show ?case
  proof (cases "fst e = k")
    case True
    then have "AList.delete k (e # m) = AList.delete k m" by (cases e) simp
    moreover have "k \<notin> set (keys m)" using Cons.prems(1) True by (cases e) (auto simp: alist_wf_def)
    ultimately have "AList.delete k (e # m) = m" by (simp add: delete_idem)
    moreover have "snd e = t" using Cons.prems True \<open>k \<notin> set (keys m)\<close> by (cases e) force
    ultimately show ?thesis by (simp add: held_posts_def)
  next
    case False
    then have "(k, t) \<in> set m" "AList.delete k (e # m) = e # AList.delete k m" using Cons.prems(2) by (cases e; auto)+
    moreover have "alist_wf m" using Cons.prems(1) by (simp add: alist_wf_def)
    ultimately show ?thesis using Cons.IH by (simp add: held_posts_def)
  qed
qed simp

lemma in_alist_iff: "alist_wf m \<Longrightarrow> (k, v) \<in> set m \<longleftrightarrow> alist_get m k = Some v"
  using alist_get_from_set alist_get_in_set by metis

lemma in_update: "alist_wf m \<Longrightarrow> (k', t') \<in> set (AList.update k v m) \<longleftrightarrow> (if k' = k then t' = v else (k', t') \<in> set m)"
  by (auto simp: in_alist_iff)

lemma in_delete: "(k', t') \<in> set (AList.delete k m) \<longleftrightarrow> k' \<noteq> k \<and> (k', t') \<in> set m"
  by (auto simp: AList.delete_eq)

lemma get_delete_all: "alist_get (fold AList.delete ds m) d = (if d \<in> set ds then None else alist_get m d)"
  by (induction ds arbitrary: m) auto

lemma wf_delete_all: "alist_wf m \<Longrightarrow> alist_wf (fold AList.delete ds m)"
  by (induction ds arbitrary: m) auto

lemma count_version_total: "alist_wf vs \<Longrightarrow> total_count (count_version v vs) = Suc (total_count vs)"
  unfolding count_version_def total_count_def
  by (induction vs) (auto simp: alist_get_def alist_wf_def)

lemma count_version_filter:
  "alist_wf vs \<Longrightarrow> total_count (filter (\<lambda>vn. P (fst vn)) (count_version v vs)) =
     (if P v then Suc (total_count (filter (\<lambda>vn. P (fst vn)) vs)) else total_count (filter (\<lambda>vn. P (fst vn)) vs))"
  unfolding count_version_def total_count_def
  by (induction vs) (auto simp: alist_get_def alist_wf_def)

section \<open>Filing keeps it\<close>

lemma file_post_count: "post_count (file_post p seq r t) = Suc (post_count t)"
  by (auto simp: file_post_def post_count_def Let_def)

lemma new_thread_count: "post_count (new_thread k seq) = 0"
  by (simp add: new_thread_def post_count_def)

lemma file_post_ok:
  assumes "t = new_thread k seq \<or> thread_ok seq0 k t" and "seq = Suc seq0" and "dedupKey p \<notin> set (sh_dedup t)"
    and "classify p seq = (k, r)"
  shows "thread_ok seq k (file_post p seq r t) \<and> set (sh_dedup (file_post p seq r t)) = insert (dedupKey p) (set (sh_dedup t)) \<and>
    (sh_order (file_post p seq r t) = seq \<or> sh_order (file_post p seq r t) = sh_order t)"
proof -
  have "belongs p k" "opens p k = r"
    using assms(4) by (auto simp: belongs_def opens_def classify_def standaloneKey_def IsStandaloneKey_def split: if_splits)
  then show ?thesis
    using assms(1-3) by (auto simp: thread_ok_def file_post_def new_thread_def posts_in_def Let_def split: option.splits)
qed

lemma file_new_wf:
  assumes wf: "store_wf s" and fresh: "alist_get (bs_dedup s) (dedupKey p) = None"
  shows "store_wf (file_new p s)"
proof -
  let ?seq = "Suc (bs_seq s)" and ?p = "sanitisePersona p"
  obtain key r where cl: "classify ?p ?seq = (key, r)" by (cases "classify ?p ?seq")
  let ?t = "case alist_get (bs_threads s) key of None \<Rightarrow> new_thread key ?seq | Some t \<Rightarrow> t"
  let ?t' = "file_post ?p ?seq r ?t"
  have s': "file_new p s = s\<lparr>bs_seq := ?seq, bs_versions := count_version (p_version p) (bs_versions s),
      bs_unknown := (if p_version p \<noteq> BoardSchemaVersion then Suc (bs_unknown s) else bs_unknown s),
      bs_threads := AList.update key ?t' (bs_threads s), bs_dedup := AList.update (dedupKey p) key (bs_dedup s)\<rparr>"
    using cl by (simp add: file_new_def Let_def)
  have w: "alist_wf (bs_threads s)" "alist_wf (bs_dedup s)" "alist_wf (bs_roster s)" "alist_wf (bs_versions s)"
    and ok: "\<And>k t. (k, t) \<in> set (bs_threads s) \<Longrightarrow> thread_ok (bs_seq s) k t"
    and ord': "\<And>a b. a \<in> set (bs_threads s) \<Longrightarrow> b \<in> set (bs_threads s) \<Longrightarrow> sh_order (snd a) = sh_order (snd b) \<Longrightarrow> fst a = fst b"
    and ded: "\<And>dk k. alist_get (bs_dedup s) dk = Some k \<longleftrightarrow> (\<exists>t. (k, t) \<in> set (bs_threads s) \<and> dk \<in> set (sh_dedup t))"
    using wf unfolding store_wf_def orders_apart_def by blast+
  have ord: "(k, t) \<in> set (bs_threads s) \<Longrightarrow> (k', t') \<in> set (bs_threads s) \<Longrightarrow> sh_order t = sh_order t' \<Longrightarrow> k = k'" for k t k' t'
    using ord' [of "(k, t)" "(k', t')"] by simp
  have old: "?t = new_thread key ?seq \<and> alist_get (bs_threads s) key = None \<or>
      thread_ok (bs_seq s) key ?t \<and> (key, ?t) \<in> set (bs_threads s) \<and> alist_get (bs_threads s) key = Some ?t"
    using ok alist_get_in_set [of "bs_threads s" key] by (auto split: option.split)
  have nd: "dedupKey p \<notin> set (sh_dedup ?t)"
    using old ded [of "dedupKey p"] fresh by (auto simp: new_thread_def)
  have fp: "thread_ok ?seq key ?t'" "set (sh_dedup ?t') = insert (dedupKey p) (set (sh_dedup ?t))"
    "sh_order ?t' = ?seq \<or> sh_order ?t' = sh_order ?t"
    using file_post_ok [of ?t key ?seq "bs_seq s" ?p r] old nd cl by auto
  have up: "(k, t) \<in> set (bs_threads (file_new p s)) \<longleftrightarrow> (if k = key then t = ?t' else (k, t) \<in> set (bs_threads s))" for k t
    using in_update [OF w(1)] by (simp add: s')
  have bound: "thread_ok (bs_seq s) k t \<Longrightarrow> thread_ok ?seq k t \<and> sh_order t < ?seq" for k t by (auto simp: thread_ok_def)
  have threads: "(k, t) \<in> set (bs_threads (file_new p s)) \<Longrightarrow> thread_ok ?seq k t" for k t
    using up fp(1) ok bound by (auto split: if_splits)
  have orders: "(k, t) \<in> set (bs_threads (file_new p s)) \<Longrightarrow> (k', t') \<in> set (bs_threads (file_new p s)) \<Longrightarrow>
      sh_order t = sh_order t' \<Longrightarrow> k = k'" for k t k' t'
  proof -
    assume a: "(k, t) \<in> set (bs_threads (file_new p s))" "(k', t') \<in> set (bs_threads (file_new p s))" "sh_order t = sh_order t'"
    have other: "sh_order ?t' \<noteq> sh_order t2" if "(k2, t2) \<in> set (bs_threads s)" "k2 \<noteq> key" for k2 t2
    proof (cases "sh_order ?t' = ?seq")
      case True
      then show ?thesis using bound [OF ok [OF that(1)]] by simp
    next
      case False
      then have e: "sh_order ?t' = sh_order ?t" using fp(3) by simp
      then have "(key, ?t) \<in> set (bs_threads s)" using False old by (auto simp: new_thread_def)
      then show ?thesis using ord [OF that(1)] that(2) e by metis
    qed
    show "k = k'"
    proof (cases "k = key \<or> k' = key")
      case True
      then show ?thesis using a(1,2) other [of k t] other [of k' t'] a(3) unfolding up by (auto split: if_splits)
    next
      case False
      then have "(k, t) \<in> set (bs_threads s)" "(k', t') \<in> set (bs_threads s)" using a(1,2) by (simp_all add: up)
      then show ?thesis by (rule ord [OF _ _ a(3)])
    qed
  qed
  then have apart: "orders_apart (bs_threads (file_new p s))" unfolding orders_apart_def by (metis prod.collapse)
  have dedup: "alist_get (bs_dedup (file_new p s)) dk = Some k \<longleftrightarrow>
      (\<exists>t. (k, t) \<in> set (bs_threads (file_new p s)) \<and> dk \<in> set (sh_dedup t))" for dk k
  proof -
    have "(\<exists>t. (k, t) \<in> set (bs_threads (file_new p s)) \<and> dk \<in> set (sh_dedup t)) \<longleftrightarrow>
        (if k = key then dk = dedupKey p \<or> dk \<in> set (sh_dedup ?t) else alist_get (bs_dedup s) dk = Some k)"
      by (cases "k = key") (simp_all add: up fp(2) ded)
    moreover have "dk \<in> set (sh_dedup ?t) \<longleftrightarrow> alist_get (bs_dedup s) dk = Some key"
      unfolding ded in_alist_iff [OF w(1)] by (cases "alist_get (bs_threads s) key") (simp_all add: new_thread_def)
    ultimately show ?thesis using fresh by (auto simp: s')
  qed
  have "held_posts (bs_threads (file_new p s)) = Suc (held_posts (bs_threads s))"
  proof -
    have "post_count ?t' = Suc (case alist_get (bs_threads s) key of None \<Rightarrow> 0 | Some t \<Rightarrow> post_count t)"
      by (simp add: file_post_count new_thread_count split: option.split)
    then show ?thesis using filed_update [OF w(1), of key ?t'] by (simp add: s')
  qed
  moreover have "alist_wf (count_version (p_version p) (bs_versions s))" using w(4) by (simp add: count_version_def)
  ultimately show ?thesis
    using wf w threads apart dedup count_version_total [OF w(4), of "p_version p"]
      count_version_filter [OF w(4), of "\<lambda>v. v \<noteq> BoardSchemaVersion" "p_version p"]
    unfolding store_wf_def by (auto simp: s' simp del: bs_max_def)
qed

section \<open>Forgetting keeps it\<close>

lemma drop_thread_wf:
  assumes wf: "store_wf s" and m: "(k, t) \<in> set (bs_threads s)"
  shows "store_wf (drop_thread k t s)"
proof -
  have w: "alist_wf (bs_threads s)" and ded: "\<And>dk k. alist_get (bs_dedup s) dk = Some k \<longleftrightarrow> (\<exists>t. (k, t) \<in> set (bs_threads s) \<and> dk \<in> set (sh_dedup t))"
    using wf unfolding store_wf_def by blast+
  have same: "(k, t') \<in> set (bs_threads s) \<Longrightarrow> t' = t" for t' using m by (simp add: in_alist_iff [OF w])
  have d: "alist_get (fold AList.delete (sh_dedup t) (bs_dedup s)) dk = Some k' \<longleftrightarrow>
      (\<exists>t'. k' \<noteq> k \<and> (k', t') \<in> set (bs_threads s) \<and> dk \<in> set (sh_dedup t'))" for dk k'
  proof (cases "dk \<in> set (sh_dedup t)")
    case True
    then have "alist_get (bs_dedup s) dk = Some k" using m ded by blast
    then have "(k', t') \<in> set (bs_threads s) \<Longrightarrow> dk \<in> set (sh_dedup t') \<Longrightarrow> k' = k" for t' using ded [of dk k'] by auto
    then show ?thesis using True by (auto simp: get_delete_all)
  next
    case False
    then show ?thesis using same by (auto simp: get_delete_all ded)
  qed
  have sub: "set (AList.delete k (bs_threads s)) \<subseteq> set (bs_threads s)" by (auto simp: in_delete)
  have "\<forall>(k, t) \<in> set (AList.delete k (bs_threads s)). thread_ok (bs_seq s) k t"
    and "orders_apart (AList.delete k (bs_threads s))"
    using wf sub unfolding store_wf_def orders_apart_def by blast+
  moreover have "alist_wf (AList.delete k (bs_threads s))" "alist_wf (fold AList.delete (sh_dedup t) (bs_dedup s))"
    "alist_wf (bs_roster s)" "alist_wf (bs_versions s)" "held_posts (bs_threads s) + bs_evicted s = bs_seq s"
    "total_count (bs_versions s) = bs_seq s"
    "total_count (filter (\<lambda>vn. fst vn \<noteq> BoardSchemaVersion) (bs_versions s)) = bs_unknown s"
    using wf by (simp_all add: store_wf_def wf_delete_all)
  ultimately show ?thesis
    using filed_delete [OF w m] unfolding store_wf_def by (simp add: drop_thread_def in_delete d)
qed

lemma evict_loop_wf: "store_wf s \<Longrightarrow> store_wf (evict_loop n s)"
proof (induction n s rule: evict_loop.induct)
  case (1 n s)
  show ?case
  proof (cases "n \<le> bs_max s \<or> oldest (bs_threads s) = None")
    case True
    then show ?thesis using 1(2) by (subst evict_loop.simps) auto
  next
    case False
    then obtain k t where o: "oldest (bs_threads s) = Some (k, t)" by auto
    have "store_wf (evict_loop (n - post_count t) (drop_thread k t s))"
      by (rule 1(1) [OF _ o refl drop_thread_wf [OF 1(2) oldest_member [OF o]]]) (use False in simp)
    then show ?thesis using False o by (subst evict_loop.simps) simp
  qed
qed

lemma evict_loop_same [simp]:
  "bs_max (evict_loop n s) = bs_max s" "bs_seq (evict_loop n s) = bs_seq s" "bs_duplicates (evict_loop n s) = bs_duplicates s"
  "bs_roster (evict_loop n s) = bs_roster s" "bs_versions (evict_loop n s) = bs_versions s" "bs_unknown (evict_loop n s) = bs_unknown s"
  by (induction n s rule: evict_loop.induct; subst evict_loop.simps; simp add: drop_thread_def split: option.split)+

lemma older_least:
  "fold older ts b = Some kt \<Longrightarrow> (\<forall>x \<in> set ts. sh_order (snd kt) \<le> sh_order (snd x)) \<and> (case b of None \<Rightarrow> True | Some y \<Rightarrow> sh_order (snd kt) \<le> sh_order (snd y))"
proof (induction ts arbitrary: b)
  case (Cons x ts)
  have f: "fold older ts (older x b) = Some kt" using Cons.prems by simp
  from Cons.IH [OF f] show ?case by (cases b) (auto simp: older_def split: if_splits)
qed auto

lemma oldest_least: "oldest ts = Some kt \<Longrightarrow> x \<in> set ts \<Longrightarrow> sh_order (snd kt) \<le> sh_order (snd x)"
  using older_least [of ts None kt] by (simp add: oldest_def)

lemma oldest_None: "oldest ts = None \<longleftrightarrow> ts = []"
proof -
  have "fold older ts b = None \<longleftrightarrow> ts = [] \<and> b = None" for b
    by (induction ts arbitrary: b) (auto simp: older_def split: option.splits)
  then show ?thesis by (simp add: oldest_def)
qed

definition younger :: "nat \<Rightarrow> (string \<times> stored_thread) list \<Rightarrow> (string \<times> stored_thread) list" where
  "younger c ts = filter (\<lambda>kt. c < sh_order (snd kt)) ts"

text \<open>
  What the loop leaves is what is younger than some thread it dropped, or everything, and dropping that thread
  was needed.
\<close>

lemma evict_exact:
  assumes "store_wf s" and "n = held_posts (bs_threads s)"
  shows "held_posts (bs_threads (evict_loop n s)) \<le> bs_max s \<and>
    (evict_loop n s = s \<or> (\<exists>kt \<in> set (bs_threads s). bs_threads (evict_loop n s) = younger (sh_order (snd kt)) (bs_threads s) \<and>
       bs_max s < held_posts (filter (\<lambda>x. sh_order (snd kt) \<le> sh_order (snd x)) (bs_threads s))))"
  using assms
proof (induction n s rule: evict_loop.induct)
  case (1 n s)
  show ?case
  proof (cases "n \<le> bs_max s")
    case True
    then show ?thesis using 1 by (subst (1 2) evict_loop.simps) simp
  next
    case False
    then obtain k t where o: "oldest (bs_threads s) = Some (k, t)"
      using 1(3) oldest_None [of "bs_threads s"] by (cases "oldest (bs_threads s)") (auto simp: held_posts_def)
    let ?u = "drop_thread k t s" and ?ts = "bs_threads s"
    have m: "(k, t) \<in> set ?ts" using o by (rule oldest_member)
    have w: "alist_wf ?ts" and uniq: "\<And>x. x \<in> set ?ts \<Longrightarrow> sh_order (snd x) = sh_order (snd (k, t)) \<Longrightarrow> fst x = fst (k, t)"
      using 1(2) m unfolding store_wf_def orders_apart_def by blast+
    have low: "x \<in> set ?ts \<Longrightarrow> sh_order t \<le> sh_order (snd x)" for x using oldest_least [OF o] by fastforce
    have keys: "x \<in> set ?ts \<Longrightarrow> fst x = k \<Longrightarrow> snd x = t" for x using m by (cases x) (simp add: in_alist_iff [OF w])
    have cut_at: "fst x \<noteq> k \<longleftrightarrow> sh_order t < sh_order (snd x)" if "x \<in> set ?ts" for x
      using low [OF that] uniq [OF that] keys [OF that] by (cases "fst x = k"; cases "sh_order (snd x) = sh_order t") auto
    have "AList.delete k ?ts = filter (\<lambda>x. fst x \<noteq> k) ?ts" unfolding AList.delete_eq by (rule filter_cong) auto
    also have "\<dots> = younger (sh_order t) ?ts" unfolding younger_def by (rule filter_cong [OF refl]) (rule cut_at)
    finally have y: "bs_threads ?u = younger (sh_order t) ?ts" by (simp add: drop_thread_def)
    have all: "filter (\<lambda>x. sh_order t \<le> sh_order (snd x)) ?ts = ?ts" by (rule filter_True) (use low in auto)
    have e: "evict_loop n s = evict_loop (n - post_count t) ?u" using False o by (subst evict_loop.simps) simp
    have n': "n - post_count t = held_posts (bs_threads ?u)"
      using filed_delete [OF w m] 1(3) by (simp add: drop_thread_def)
    have mx: "bs_max ?u = bs_max s" by (simp add: drop_thread_def)
    from 1(1) [OF False o refl drop_thread_wf [OF 1(2) m] n'] have ih:
      "held_posts (bs_threads (evict_loop n s)) \<le> bs_max s"
      "evict_loop n s = ?u \<or> (\<exists>kt \<in> set (bs_threads ?u). bs_threads (evict_loop n s) = younger (sh_order (snd kt)) (bs_threads ?u) \<and>
         bs_max s < held_posts (filter (\<lambda>x. sh_order (snd kt) \<le> sh_order (snd x)) (bs_threads ?u)))"
      unfolding e mx by blast+
    from ih(2) show ?thesis
    proof
      assume "evict_loop n s = ?u"
      then have "bs_threads (evict_loop n s) = younger (sh_order (snd (k, t))) ?ts \<and>
          bs_max s < held_posts (filter (\<lambda>x. sh_order (snd (k, t)) \<le> sh_order (snd x)) ?ts)"
        using y all False 1(3) by simp
      then show ?thesis using ih(1) m by blast
    next
      assume "\<exists>kt \<in> set (bs_threads ?u). bs_threads (evict_loop n s) = younger (sh_order (snd kt)) (bs_threads ?u) \<and>
         bs_max s < held_posts (filter (\<lambda>x. sh_order (snd kt) \<le> sh_order (snd x)) (bs_threads ?u))"
      then obtain kt where kt: "kt \<in> set (younger (sh_order t) ?ts)"
        "bs_threads (evict_loop n s) = younger (sh_order (snd kt)) (younger (sh_order t) ?ts)"
        "bs_max s < held_posts (filter (\<lambda>x. sh_order (snd kt) \<le> sh_order (snd x)) (younger (sh_order t) ?ts))"
        unfolding y by blast
      have lt: "sh_order t < sh_order (snd kt)" "kt \<in> set ?ts" using kt(1) by (simp_all add: younger_def)
      have "younger (sh_order (snd kt)) (younger (sh_order t) ?ts) = younger (sh_order (snd kt)) ?ts"
        "filter (\<lambda>x. sh_order (snd kt) \<le> sh_order (snd x)) (younger (sh_order t) ?ts) = filter (\<lambda>x. sh_order (snd kt) \<le> sh_order (snd x)) ?ts"
        using lt(1) by (auto simp: younger_def intro: filter_cong)
      then show ?thesis using ih(1) kt(2,3) lt(2) by auto
    qed
  qed
qed

section \<open>Every run\<close>

datatype store_op = ApplyPost board_post | RegisterPane roster_entry | RetainPanes "string list"

primrec store_step :: "store_op \<Rightarrow> board_store \<Rightarrow> board_store" where
  "store_step (ApplyPost p) s = fst (Apply p s)"
| "store_step (RegisterPane r) s = RegisterAgent r s"
| "store_step (RetainPanes live) s = RetainRoster live s"

definition store_run :: "store_op list \<Rightarrow> board_store \<Rightarrow> board_store" where
  "store_run ops s = fold store_step ops s"

definition posts_applied :: "store_op list \<Rightarrow> nat" where
  "posts_applied ops = length (filter (\<lambda>op. case op of ApplyPost p \<Rightarrow> True | _ \<Rightarrow> False) ops)"

definition all_posts :: "board_store \<Rightarrow> board_post list" where
  "all_posts s = concat (map (\<lambda>kt. posts_in (snd kt)) (bs_threads s))"

definition store_settled :: "board_store \<Rightarrow> bool" where
  "store_settled s \<longleftrightarrow> store_wf s \<and> held_posts (bs_threads s) \<le> bs_max s"

lemma file_new_same [simp]: "bs_max (file_new p s) = bs_max s" "bs_duplicates (file_new p s) = bs_duplicates s"
  "bs_seq (file_new p s) = Suc (bs_seq s)" "bs_roster (file_new p s) = bs_roster s"
  by (simp_all add: file_new_def Let_def case_prod_beta)

lemma Apply_settled: "store_settled s \<Longrightarrow> store_settled (fst (Apply p s))"
proof (cases "alist_get (bs_dedup s) (dedupKey p) = None")
  case True
  assume "store_settled s"
  then have "store_wf (file_new p s)" using file_new_wf True by (simp add: store_settled_def)
  then show ?thesis
    using True evict_loop_wf [of "file_new p s"] evict_exact [of "file_new p s", OF _ refl]
    by (simp add: store_settled_def Apply_def evictLocked_def)
next
  case False
  assume "store_settled s"
  then show ?thesis using False by (simp add: store_settled_def Apply_def store_wf_def)
qed

lemma roster_settled: "store_settled s \<Longrightarrow> alist_wf ro \<Longrightarrow> store_settled (s\<lparr>bs_roster := ro\<rparr>)"
  by (simp add: store_settled_def store_wf_def)

lemma step_settled: "store_settled s \<Longrightarrow> store_settled (store_step op s)"
proof (cases op)
  case (RegisterPane r)
  assume s: "store_settled s"
  then have "alist_wf (bs_roster s)" by (simp add: store_settled_def store_wf_def)
  then show ?thesis using s RegisterPane by (auto simp: RegisterAgent_def Let_def intro: roster_settled)
next
  case (RetainPanes live)
  assume s: "store_settled s"
  then have "alist_wf (bs_roster s)" by (simp add: store_settled_def store_wf_def)
  then have "alist_wf (filter (\<lambda>ke. fst ke \<in> set live) (bs_roster s))" by (simp add: alist_wf_def distinct_map_filter)
  then show ?thesis using s RetainPanes by (auto simp: RetainRoster_def intro: roster_settled)
qed (simp add: Apply_settled)

lemma New_settled: "store_settled (New m)"
  by (simp add: store_settled_def store_wf_def New_def alist_wf_def orders_apart_def held_posts_def total_count_def alist_get_def)

lemma run_settled: "store_settled s \<Longrightarrow> store_settled (store_run ops s)"
  unfolding store_run_def by (induction ops arbitrary: s) (simp_all add: step_settled)

lemma step_counts:
  "bs_max (store_step op s) = bs_max s \<and>
   bs_seq (store_step op s) + bs_duplicates (store_step op s) = bs_seq s + bs_duplicates s + posts_applied [op]"
  by (cases op) (auto simp: Apply_def evictLocked_def RegisterAgent_def RetainRoster_def Let_def posts_applied_def)

lemma run_counts:
  "bs_max (store_run ops s) = bs_max s \<and>
   bs_seq (store_run ops s) + bs_duplicates (store_run ops s) = bs_seq s + bs_duplicates s + posts_applied ops"
proof (induction ops arbitrary: s)
  case (Cons op ops)
  from Cons [of "store_step op s"] step_counts [of op s] show ?case
    by (cases op) (simp_all add: store_run_def posts_applied_def)
qed (simp add: store_run_def posts_applied_def)

text \<open>No post is held twice, on one thread or on two.\<close>

lemma held_once:
  assumes "store_wf s" shows "distinct (map dedupKey (all_posts s))"
proof -
  have ok: "\<And>k t. (k, t) \<in> set (bs_threads s) \<Longrightarrow> mset (sh_dedup t) = mset (map dedupKey (posts_in t)) \<and> distinct (sh_dedup t)"
    and ded: "\<And>dk k. alist_get (bs_dedup s) dk = Some k \<longleftrightarrow> (\<exists>t. (k, t) \<in> set (bs_threads s) \<and> dk \<in> set (sh_dedup t))"
    using assms unfolding store_wf_def thread_ok_def by blast+
  have each: "distinct (map dedupKey (posts_in t)) \<and> set (map dedupKey (posts_in t)) = set (sh_dedup t)" if "(k, t) \<in> set (bs_threads s)" for k t
    using ok [OF that] by (metis mset_eq_imp_distinct_iff mset_eq_setD)
  have apart: "set (sh_dedup t) \<inter> set (sh_dedup t') = {}" if "(k, t) \<in> set (bs_threads s)" "(k', t') \<in> set (bs_threads s)" "k \<noteq> k'" for k t k' t'
  proof -
    have "alist_get (bs_dedup s) dk = Some k \<and> alist_get (bs_dedup s) dk = Some k'" if "dk \<in> set (sh_dedup t) \<inter> set (sh_dedup t')" for dk
      using that ded \<open>(k, t) \<in> _\<close> \<open>(k', t') \<in> _\<close> by blast
    then show ?thesis using that(3) by (metis disjoint_iff IntI option.inject)
  qed
  have "distinct (map dedupKey (concat (map (\<lambda>kt. posts_in (snd kt)) ts)))" if "set ts \<subseteq> set (bs_threads s)" "alist_wf ts" for ts
    using that
  proof (induction ts)
    case (Cons e ts)
    obtain k t where e: "e = (k, t)" by (cases e)
    have "set (sh_dedup t) \<inter> set (map dedupKey (posts_in t')) = {}" if "(k', t') \<in> set ts" for k' t'
    proof -
      have "k \<noteq> k'" using Cons.prems(2) that e by (auto simp: alist_wf_def image_iff)
      then show ?thesis using apart [of k t k' t'] each [of k' t'] that Cons.prems(1) e by auto
    qed
    then have "set (map dedupKey (posts_in t)) \<inter> set (map dedupKey (concat (map (\<lambda>kt. posts_in (snd kt)) ts))) = {}"
      using each [of k t] Cons.prems(1) e by fastforce
    then show ?case using Cons each [of k t] e by (auto simp: alist_wf_def)
  qed simp
  then show ?thesis using assms by (simp add: all_posts_def store_wf_def)
qed

lemma all_posts_count: "length (all_posts s) = held_posts (bs_threads s)"
  by (simp add: all_posts_def held_posts_def length_concat post_count_posts comp_def)

lemma all_posts_member: "p \<in> set (all_posts s) \<longleftrightarrow> (\<exists>kt \<in> set (bs_threads s). p \<in> set (posts_in (snd kt)))"
  by (auto simp: all_posts_def)

section \<open>What a post does\<close>

lemma posts_update:
  "alist_wf m \<Longrightarrow> mset (concat (map (\<lambda>kt. posts_in (snd kt)) (AList.update k v m))) + (case alist_get m k of None \<Rightarrow> {#} | Some t \<Rightarrow> mset (posts_in t)) =
     mset (concat (map (\<lambda>kt. posts_in (snd kt)) m)) + mset (posts_in v)"
  by (induction m) (auto simp: alist_get_def alist_wf_def ac_simps split: option.splits)

lemma file_post_posts: "mset (posts_in (file_post p seq r t)) = add_mset p (mset (posts_in t))"
  by (auto simp: file_post_def posts_in_def Let_def split: option.split)

lemma file_new_posts:
  assumes "store_wf s" shows "mset (all_posts (file_new p s)) = add_mset (sanitisePersona p) (mset (all_posts s))"
proof -
  let ?seq = "Suc (bs_seq s)" and ?p = "sanitisePersona p"
  obtain key r where cl: "classify ?p ?seq = (key, r)" by (cases "classify ?p ?seq")
  have w: "alist_wf (bs_threads s)" using assms by (simp add: store_wf_def)
  have "mset (posts_in (new_thread key ?seq)) = {#}" by (simp add: new_thread_def posts_in_def)
  then show ?thesis
    using posts_update [OF w, of key "file_post ?p ?seq r (case alist_get (bs_threads s) key of None \<Rightarrow> new_thread key ?seq | Some t \<Rightarrow> t)"] cl
    by (cases "alist_get (bs_threads s) key") (simp_all add: all_posts_def file_new_def Let_def file_post_posts)
qed

lemma dedup_held:
  assumes "store_wf s" shows "alist_get (bs_dedup s) dk = None \<longleftrightarrow> dk \<notin> dedupKey ` set (all_posts s)"
proof -
  have ok: "\<And>k t. (k, t) \<in> set (bs_threads s) \<Longrightarrow> mset (sh_dedup t) = mset (map dedupKey (posts_in t))"
    and ded: "\<And>dk k. alist_get (bs_dedup s) dk = Some k \<longleftrightarrow> (\<exists>t. (k, t) \<in> set (bs_threads s) \<and> dk \<in> set (sh_dedup t))"
    using assms unfolding store_wf_def thread_ok_def by blast+
  have "set (sh_dedup t) = dedupKey ` set (posts_in t)" if "(k, t) \<in> set (bs_threads s)" for k t
    using mset_eq_setD [OF ok [OF that]] by simp
  then have "(\<exists>k. alist_get (bs_dedup s) dk = Some k) \<longleftrightarrow> dk \<in> dedupKey ` set (all_posts s)"
    unfolding ded all_posts_def by fastforce
  then show ?thesis by (cases "alist_get (bs_dedup s) dk") auto
qed

text \<open>
  C35: However posts arrive, the store never holds more than its bound, holds no post twice, keeps every post on the
  thread it names with the opener's post as the root, and its counts add up: every post given to it is held, was
  evicted, or was a duplicate.
\<close>

theorem store_accounts:
  "let s = store_run ops (New m); st = Stats s
   in store_wf s \<and> bt_posts st \<le> (if m \<le> 0 then MaxPosts else nat m) \<and> length (all_posts s) = bt_posts st \<and>
     distinct (map dedupKey (all_posts s)) \<and> bt_posts st + bt_evicted st + bt_duplicates st = posts_applied ops"
proof -
  let ?s = "store_run ops (New m)"
  have s: "store_settled ?s" by (rule run_settled [OF New_settled])
  moreover have "bs_max ?s = (if m \<le> 0 then MaxPosts else nat m)" "bs_seq ?s + bs_duplicates ?s = posts_applied ops"
    using run_counts [of ops "New m"] by (simp_all add: New_def)
  ultimately show ?thesis
    using held_once [of ?s] all_posts_count [of ?s] by (simp add: store_settled_def store_wf_def Stats_def Let_def)
qed

text \<open>
  C36: A post is taken exactly when no held post is the same one. It is added to what is held, and then the store is
  left with everything, or with what is younger than one of its threads that had to go; a duplicate changes nothing.
\<close>

theorem store_forgets_oldest:
  "let s = store_run ops (New m); u = file_new p s; s' = fst (Apply p s)
   in (snd (Apply p s) \<longleftrightarrow> dedupKey p \<notin> dedupKey ` set (all_posts s)) \<and>
     mset (all_posts u) = add_mset (sanitisePersona p) (mset (all_posts s)) \<and>
     (if snd (Apply p s)
      then bs_threads s' = bs_threads u \<or>
        (\<exists>kt \<in> set (bs_threads u). bs_threads s' = younger (sh_order (snd kt)) (bs_threads u) \<and>
           bs_max s < held_posts (filter (\<lambda>x. sh_order (snd kt) \<le> sh_order (snd x)) (bs_threads u)))
      else bs_threads s' = bs_threads s)"
proof -
  let ?s = "store_run ops (New m)" and ?n = "held_posts (bs_threads (file_new p (store_run ops (New m))))"
  have s: "store_wf ?s" using run_settled [OF New_settled, of ops m] by (simp add: store_settled_def)
  show ?thesis
  proof (cases "alist_get (bs_dedup ?s) (dedupKey p) = None")
    case True
    have "evict_loop ?n (file_new p ?s) = file_new p ?s \<or> (\<exists>kt \<in> set (bs_threads (file_new p ?s)).
        bs_threads (evict_loop ?n (file_new p ?s)) = younger (sh_order (snd kt)) (bs_threads (file_new p ?s)) \<and>
        bs_max ?s < held_posts (filter (\<lambda>x. sh_order (snd kt) \<le> sh_order (snd x)) (bs_threads (file_new p ?s))))"
      using evict_exact [OF file_new_wf [OF s True] refl] by simp
    then show ?thesis
      using True file_new_posts [OF s, of p] dedup_held [OF s, of "dedupKey p"]
      by (auto simp: Let_def Apply_def evictLocked_def simp del: bex_simps)
  next
    case False
    then show ?thesis using file_new_posts [OF s, of p] dedup_held [OF s, of "dedupKey p"] by (simp add: Let_def Apply_def)
  qed
qed

text \<open>
  Eviction takes whole threads by the arrival of their first post, and so takes a post that was just accepted
  when it answers the oldest thread.
\<close>

definition demo_post :: "string \<Rightarrow> string \<Rightarrow> int \<Rightarrow> board_post" where
  "demo_post pane th ts = \<lparr>p_pane = pane, p_persona = pane, p_kind = ''status'', p_text = ''t'', p_thread = th, p_ts = ts,
     p_to_pane = [], p_cmd_id = [], p_file = [], p_version = 1\<rparr>"

lemma accepted_reply_forgotten:
  "let s = store_run [ApplyPost (demo_post ''a'' ''a/1'' 1), ApplyPost (demo_post ''b'' [] 2)] (New 2); (s', ok) = Apply (demo_post ''c'' ''a/1'' 3) s
   in ok \<and> map p_pane (all_posts s') = [''b'']"
  by code_simp

end
