(* ===== verification/FlowProperties.thy ===== *)
theory FlowProperties
  imports BoardFlow StoreProperties
begin

text \<open>
  What the flow model of a board adds up to, and how its open prompts compare with the command inbox.
\<close>

section \<open>Edges and their counts\<close>





text \<open>The tallies of one edge, and of all edges of a type.\<close>

definition opt0 :: "nat option \<Rightarrow> nat" where
  "opt0 v = (case v of None \<Rightarrow> 0 | Some n \<Rightarrow> n)"

definition edge_ok :: "flow_edge \<Rightarrow> bool" where
  "edge_ok e \<longleftrightarrow>
     (if fe_type e = FlowPrompt
      then fe_answered e \<noteq> None \<and> fe_undelivered e \<noteq> None \<and> fe_open e \<noteq> None \<and>
        fe_count e = opt0 (fe_answered e) + opt0 (fe_undelivered e) + opt0 (fe_open e)
      else fe_answered e = None \<and> fe_undelivered e = None \<and> fe_open e = None)"



lemma opt0_simps [simp]: "opt0 None = 0" "opt0 (Some n) = n" "v \<noteq> None \<Longrightarrow> opt0 (map_option Suc v) = Suc (opt0 v)"
  by (auto simp: opt0_def)

lemma new_edge_ok [simp]: "edge_ok (new_edge ty from to)"
  by (cases "ty = FlowPrompt"; simp add: edge_ok_def new_edge_def Let_def)

lemma new_edge_tallies [simp]:
  "opt0 (fe_answered (new_edge ty from to)) = 0" "opt0 (fe_undelivered (new_edge ty from to)) = 0" "opt0 (fe_open (new_edge ty from to)) = 0"
  by (cases "ty = FlowPrompt"; simp add: new_edge_def Let_def)+

lemma edge_key_same [simp]: "edge_key (hit ts e) = edge_key e" "edge_key (tally st e) = edge_key e"
  by (simp_all add: edge_key_def hit_def tally_def)









section \<open>The edges of the model\<close>





section \<open>Prompts, each once\<close>

definition is_order :: "board_post \<Rightarrow> bool" where
  "is_order p \<longleftrightarrow> p_kind p = BoardKindCmd \<and> p_to_pane p \<noteq> []"

definition named_orders :: "board_post list \<Rightarrow> (string \<times> string) set" where
  "named_orders ps = {(p_pane p, p_cmd_id p) | p. p \<in> set ps \<and> is_order p \<and> p_cmd_id p \<noteq> []}"

lemma finite_orders [simp]: "finite (named_orders ps)"
  by (rule finite_subset [of _ "(\<lambda>p. (p_pane p, p_cmd_id p)) ` set ps"]) (auto simp: named_orders_def)










section \<open>Nodes\<close>

lemma add_node_set [simp]: "set (add_node i ids) = set ids \<union> ({i} - {[]})"
  by (auto simp: add_node_def)




lemma node_of_same [simp]: "fn_id (node_of b ps posts i) = i" "fn_posts (node_of b ps posts i) = length (filter (\<lambda>fx. p_pane (fx_post fx) = i) posts)"
  by (simp_all add: node_of_def blank_node_def from_meta_def Let_def split: option.split)

section \<open>The ends of the edges\<close>









section \<open>What the model adds up to\<close>


section \<open>The flow and the inbox\<close>

lemma answer_at_answers [simp]: "pr_answered (answer_at ts st)"
  by (simp add: answer_at_def)









text \<open>A board with two orders on one thread, of which the acknowledgement names one.\<close>

definition demo_order :: "string \<Rightarrow> int \<Rightarrow> board_post" where
  "demo_order c ts = (demo_post ''a'' ''a/1'' ts)\<lparr>p_kind := BoardKindCmd, p_to_pane := ''b'', p_cmd_id := c\<rparr>"

definition demo_board :: "store_op list" where
  "demo_board = map ApplyPost [demo_order ''c1'' 1, demo_order ''c2'' 2, (demo_post ''b'' ''a/1'' 3)\<lparr>p_kind := BoardKindAck, p_cmd_id := ''c1''\<rparr>]"



text \<open>The flow counts the acknowledgement for both orders, the inbox for the one it names.\<close>

lemma flow_answers_more:
  "let posts = flow_posts (Threads (store_run demo_board (New 0)))
   in map (\<lambda>fx. (p_cmd_id (fx_post fx), pr_answered (prompt_state_of posts fx))) (take 2 posts) = [(''c1'', True), (''c2'', True)]"
  by code_simp

end
