(* ===== verification/TextProperties.thy ===== *)
theory TextProperties
  imports BoardText
begin

text \<open>
  What the scrubbing of agent-written text promises: no control is left in a scrubbed text, scrubbing it again
  changes nothing, and a text made of plain runes and well-formed escape sequences loses exactly the sequences.
\<close>

section \<open>What is left\<close>

lemma skipped_subset:
  "set (skipCSI rs) \<subseteq> set rs" "set (skipString rs) \<subseteq> set rs" "set (skipEscape rs) \<subseteq> set rs"
proof -
  show csi: "set (skipCSI rs) \<subseteq> set rs" for rs by (induction rs) auto
  show str: "set (skipString rs) \<subseteq> set rs" for rs by (induction rs) (auto dest: list.set_sel(2))
  show "set (skipEscape rs) \<subseteq> set rs"
    using csi [of "tl rs"] str [of "tl rs"] by (cases rs) (auto simp: skipEscape_def dest!: in_set_dropD set_dropWhileD)
qed

definition kept_rune :: "bool \<Rightarrow> int \<Rightarrow> bool" where
  "kept_rune keep r \<longleftrightarrow> (control_rune r \<longrightarrow> keep \<and> layout_rune r)"

lemma controls_dropped: "r = 0x1B \<or> r = 0x9B \<or> c1_string r \<Longrightarrow> control_rune r \<and> \<not> layout_rune r"
  by (auto simp: control_rune_def layout_rune_def c1_string_def)

lemma strip_step:
  "(\<exists>t. set t \<subseteq> set rs \<and> length t \<le> length rs \<and> strip_runes keep (r # rs) = strip_runes keep t) \<or>
   strip_runes keep (r # rs) = r # strip_runes keep rs \<and> kept_rune keep r"
proof -
  consider "r = 0x1B" | "r = 0x9B" | "r \<noteq> 0x1B" "r \<noteq> 0x9B" "c1_string r" |
    "r \<noteq> 0x1B" "r \<noteq> 0x9B" "\<not> c1_string r" "control_rune r" "\<not> (keep \<and> layout_rune r)" |
    "r \<noteq> 0x1B" "r \<noteq> 0x9B" "\<not> c1_string r" "kept_rune keep r" unfolding kept_rune_def by blast
  then show ?thesis
  proof cases
    case 1
    then show ?thesis using skipped_subset(3) skipEscape_length by (intro disjI1 exI [of _ "skipEscape rs"]) simp
  next
    case 2
    then show ?thesis using skipped_subset(1) skipCSI_length by (intro disjI1 exI [of _ "skipCSI rs"]) simp
  next
    case 3
    then show ?thesis using skipped_subset(2) skipString_length by (intro disjI1 exI [of _ "skipString rs"]) simp
  next
    case 4
    then show ?thesis by (intro disjI1 exI [of _ rs]) simp
  next
    case 5
    then show ?thesis by (intro disjI2) (auto simp: kept_rune_def)
  qed
qed

lemma strip_facts: "set (strip_runes keep rs) \<subseteq> set rs \<and> (\<forall>r \<in> set (strip_runes keep rs). kept_rune keep r)"
proof (induction rs rule: length_induct)
  case (1 rs)
  show ?case
  proof (cases rs)
    case (Cons r t)
    have ih: "length u \<le> length t \<Longrightarrow> set (strip_runes keep u) \<subseteq> set u \<and>
        (\<forall>r \<in> set (strip_runes keep u). kept_rune keep r)" for u using spec [OF 1, of u] Cons by (simp add: less_Suc_eq_le)
    from strip_step [of t keep r] show ?thesis
    proof
      assume "\<exists>u. set u \<subseteq> set t \<and> length u \<le> length t \<and> strip_runes keep (r # t) = strip_runes keep u"
      then obtain u where "set u \<subseteq> set t" "length u \<le> length t" "strip_runes keep (r # t) = strip_runes keep u" by blast
      then show ?thesis using ih [of u] unfolding Cons by auto
    next
      assume s: "strip_runes keep (r # t) = r # strip_runes keep t \<and> kept_rune keep r"
      then show ?thesis using ih [of t] unfolding Cons by (simp only: list.set) blast
    qed
  qed simp
qed

lemmas strip_subset = strip_facts [THEN conjunct1]

lemma strip_clean: "r \<in> set (strip_runes keep rs) \<Longrightarrow> control_rune r \<Longrightarrow> keep \<and> layout_rune r"
  using strip_facts unfolding kept_rune_def by blast

lemma strip_plain:
  "\<forall>r \<in> set rs. kept_rune keep r \<Longrightarrow> strip_runes keep (rs @ t) = rs @ strip_runes keep t"
proof (induction rs)
  case (Cons r rs)
  then have c: "kept_rune keep r" "strip_runes keep (rs @ t) = rs @ strip_runes keep t" by simp_all
  have "r \<noteq> 0x1B \<and> r \<noteq> 0x9B \<and> \<not> c1_string r"
    using c(1) controls_dropped [of r] unfolding kept_rune_def by blast
  then show ?case using c by (auto simp: kept_rune_def)
qed simp

lemma strip_same: "\<forall>r \<in> set rs. kept_rune keep r \<Longrightarrow> strip_runes keep rs = rs"
  using strip_plain [of rs keep "[]"] by simp

lemma runes_valid: "r \<in> set (runes s) \<Longrightarrow> valid_rune r"
proof (induction s rule: runes.induct)
  case (1 s)
  then show ?case by (subst (asm) (2) runes.simps) (auto simp: decode_valid split: if_splits)
qed

lemma runes_strip: "runes (stripControls s keep) = strip_runes keep (runes s)"
  unfolding stripControls_def by (rule runes_of_runes) (use strip_subset runes_valid in blast)

lemma stripControls_idem: "stripControls (stripControls s keep) keep = stripControls s keep"
proof -
  have "strip_runes keep (strip_runes keep (runes s)) = strip_runes keep (runes s)"
    by (rule strip_same) (use strip_facts in blast)
  then show ?thesis unfolding stripControls_def [of "stripControls s keep"] runes_strip by (simp add: stripControls_def)
qed

text \<open>An ASCII byte of a scrubbed text is one of its runes.\<close>

lemma encode_high: "valid_rune r \<Longrightarrow> 128 \<le> r \<Longrightarrow> c \<in> set (encode_rune r) \<Longrightarrow> 128 \<le> (of_char c :: int)"
proof -
  assume a: "valid_rune r" "128 \<le> r" "c \<in> set (encode_rune r)"
  then have r: "0 \<le> r" "r \<le> 0x10FFFF" by simp_all (simp add: valid_rune_def)
  from rune_digits [OF r(1)] obtain x y z w where e: "r = x * 262144 + y * 4096 + z * 64 + w"
    and d: "0 \<le> x" "0 \<le> y" "y < 64" "0 \<le> z" "z < 64" "0 \<le> w" "w < 64" "r div 64 = x * 4096 + y * 64 + z" "r mod 64 = w"
    "(r div 64) mod 64 = z" "r div 4096 = x * 64 + y" "(r div 4096) mod 64 = y" "r div 262144 = x" by blast
  have high: "128 \<le> n \<Longrightarrow> n < 256 \<Longrightarrow> 128 \<le> (of_char (byte_of n) :: int)" for n by (simp add: byte_code)
  have tail: "128 \<le> (of_char (byte_of (0x80 + r mod 64)) :: int)" "128 \<le> (of_char (byte_of (0x80 + (r div 64) mod 64)) :: int)"
    "128 \<le> (of_char (byte_of (0x80 + (r div 4096) mod 64)) :: int)" by (rule high; simp add: order_less_le_trans [OF pos_mod_bound])+
  show ?thesis
  proof -
    consider "r < 0x800" | "0x800 \<le> r" "r < 0x10000" | "0x10000 \<le> r" by linarith
    then show ?thesis
    proof cases
      case 1
      then have z: "x = 0" "y = 0" using e d(1-7) by linarith+
      then have "z < 32" using e 1 d(6) by linarith
      then have "128 \<le> (of_char (byte_of (0xC0 + r div 64)) :: int)" using d(8) z d(4) by (intro high) linarith+
      moreover have "c = byte_of (0xC0 + r div 64) \<or> c = byte_of (0x80 + r mod 64)" using a 1 by (auto simp: encode_rune_def)
      ultimately show ?thesis using tail by (elim disjE) (simp_all only:)
    next
      case 2
      then have z: "x = 0" using e d(1-7) by linarith
      then have "y < 16" using e 2 d(4,6) by linarith
      then have "128 \<le> (of_char (byte_of (0xE0 + r div 4096)) :: int)" using d(2,11) z by (intro high) linarith+
      moreover have "c = byte_of (0xE0 + r div 4096) \<or> c = byte_of (0x80 + (r div 64) mod 64) \<or> c = byte_of (0x80 + r mod 64)"
        using a 2 by (auto simp: encode_rune_def)
      ultimately show ?thesis using tail by (elim disjE) (simp_all only:)
    next
      case 3
      then have "x < 5" using e r d(1-7) by linarith
      then have "128 \<le> (of_char (byte_of (0xF0 + r div 262144)) :: int)" using d(1,13) by (intro high) linarith+
      moreover have "c = byte_of (0xF0 + r div 262144) \<or> c = byte_of (0x80 + (r div 4096) mod 64) \<or>
          c = byte_of (0x80 + (r div 64) mod 64) \<or> c = byte_of (0x80 + r mod 64)" using a 3 by (auto simp: encode_rune_def)
      ultimately show ?thesis using tail by (elim disjE) (simp_all only:)
    qed
  qed
qed

lemma encode_ascii: "valid_rune r \<Longrightarrow> c \<in> set (encode_rune r) \<Longrightarrow> (of_char c :: int) < 128 \<Longrightarrow> r = of_char c"
  using encode_high [of r c] by (cases "128 \<le> r") (auto simp: encode_rune_def byte_code valid_rune_def)

lemma stripped_byte:
  assumes "c \<in> set (stripControls s keep)" and "(of_char c :: int) < 128" shows "of_char c \<in> set (strip_runes keep (runes s))"
proof -
  obtain r where "r \<in> set (strip_runes keep (runes s))" "c \<in> set (encode_rune r)"
    using assms(1) by (auto simp: stripControls_def of_runes_def)
  then show ?thesis using encode_ascii [of r c] assms(2) strip_subset runes_valid by blast
qed

lemma plain_returns_id: "CHR 0x0D \<notin> set s \<Longrightarrow> plain_returns to s = s"
  by (induction to s rule: plain_returns.induct) auto

lemma no_return: "CHR 0x0D \<notin> set (stripControls s keep)"
proof
  assume "CHR 0x0D \<in> set (stripControls s keep)"
  then have "13 \<in> set (strip_runes keep (runes s))" using stripped_byte [of "CHR 0x0D"] by simp
  then show False using strip_clean [of 13] by (simp add: control_rune_def layout_rune_def)
qed

lemma no_layout: "CHR 0x0A \<notin> set (stripControls s False) \<and> CHR 0x09 \<notin> set (stripControls s False)"
  using stripped_byte [of "CHR 0x0A" s False] stripped_byte [of "CHR 0x09" s False] strip_clean [of 10 False] strip_clean [of 9 False]
  by (auto simp: control_rune_def)

text \<open>
  C37: A text that was scrubbed holds no control rune, a body only its line ends and tabs, a line not even those;
  and scrubbing it once more changes nothing.
\<close>

theorem scrubbed_text_is_clean:
  "filter (\<lambda>r. control_rune r \<and> \<not> layout_rune r) (runes (SanitiseBody s)) = [] \<and>
   filter control_rune (runes (SanitiseInline s)) = [] \<and>
   SanitiseBody (SanitiseBody s) = SanitiseBody s \<and> SanitiseInline (SanitiseInline s) = SanitiseInline s"
proof (intro conjI)
  show "filter (\<lambda>r. control_rune r \<and> \<not> layout_rune r) (runes (SanitiseBody s)) = []"
    unfolding SanitiseBody_def runes_strip by (auto simp: filter_empty_conv dest: strip_clean)
  show "filter control_rune (runes (SanitiseInline s)) = []"
    unfolding SanitiseInline_def runes_strip by (auto simp: filter_empty_conv dest: strip_clean)
  show "SanitiseBody (SanitiseBody s) = SanitiseBody s"
    unfolding SanitiseBody_def plain_returns_id [OF no_return] stripControls_idem ..
  have "map (\<lambda>c. if c = CHR 0x0A \<or> c = CHR 0x09 then CHR '' '' else c) (stripControls x False) = stripControls x False" for x
    by (rule map_idI) (use no_layout in auto)
  then show "SanitiseInline (SanitiseInline s) = SanitiseInline s"
    unfolding SanitiseInline_def plain_returns_id [OF no_return] by (simp add: stripControls_idem)
qed

section \<open>Sequences go whole\<close>












text \<open>
  The code reads the second of two escape characters as the final byte of the first one's sequence, so the
  sequence the second one begins is not removed whole.
\<close>

lemma doubled_escape_leaves_litter: "strip_runes True [0x1B, 0x1B, 0x5B, 0x33, 0x31, 0x6D] = [0x5B, 0x33, 0x31, 0x6D]"
  by (simp add: skipEscape_def string_intro_def intermediate_def control_rune_def layout_rune_def c1_string_def)

end
