(* ===== verification/CleanPaths.thy ===== *)
theory CleanPaths
  imports FsPaths
begin

text \<open>
  Clean absolute paths and their segments: what cleaning, the parent, the base and joining do to them, and
  that resolving the links of a path gives it back where there are none.
\<close>

definition seg_ok :: "string \<Rightarrow> bool" where
  "seg_ok s \<longleftrightarrow> s \<noteq> [] \<and> s \<noteq> ''.'' \<and> s \<noteq> ''..'' \<and> slash \<notin> set s"

definition abs_path :: "string list \<Rightarrow> string" where
  "abs_path segs = slash # join_with ''/'' segs"

definition clean_abs :: "string \<Rightarrow> bool" where
  "clean_abs p \<longleftrightarrow> is_abs p \<and> path_clean p = p"

lemma is_abs_abs_path [simp]: "is_abs (abs_path segs)"
  by (simp add: is_abs_def abs_path_def)

lemma split_on_middle: "split_on c (u @ c # v) = split_on c u @ split_on c v"
proof (induction u)
  case (Cons d u)
  obtain w ws where "split_on c u = w # ws" by (meson list.exhaust split_on_nonempty)
  then show ?case using Cons by auto
qed simp

lemma clean_fold_ok: "list_all seg_ok segs \<Longrightarrow> foldl (clean_step r) out segs = out @ segs"
  by (induction segs arbitrary: out) (auto simp: clean_step_def seg_ok_def)

lemma clean_fold_rooted:
  "\<forall>s \<in> set segs. slash \<notin> set s \<Longrightarrow> list_all seg_ok out \<Longrightarrow> list_all seg_ok (foldl (clean_step True) out segs)"
proof (induction segs arbitrary: out)
  case (Cons s segs)
  have "last out \<noteq> ''..''" if "out \<noteq> []" using Cons.prems(2) that by (auto simp: list_all_iff seg_ok_def)
  then have "list_all seg_ok (clean_step True out s)"
    using Cons.prems by (auto simp: clean_step_def list_all_iff seg_ok_def dest: in_set_butlastD)
  then show ?case using Cons by simp
qed simp

lemma path_clean_abs: "is_abs p \<Longrightarrow> \<exists>segs. list_all seg_ok segs \<and> path_clean p = abs_path segs"
  using clean_fold_rooted [of "split_on slash p" "[]"] split_on_no_sep
  by (auto simp: path_clean_def Let_def abs_path_def clean_segs_def)

lemma split_join_segs: "list_all seg_ok segs \<Longrightarrow> split_on slash (join_with ''/'' segs) = (if segs = [] then [[]] else segs)"
  by (cases "segs = []") (auto simp: list_all_iff seg_ok_def intro: split_join)

lemma clean_fold_join:
  "list_all seg_ok segs \<Longrightarrow> foldl (clean_step r) out (split_on slash (join_with ''/'' segs)) = out @ segs"
  by (simp add: split_join_segs clean_fold_ok) (simp add: clean_step_def)

lemma path_clean_abs_path [simp]: "list_all seg_ok segs \<Longrightarrow> path_clean (abs_path segs) = abs_path segs"
  using clean_fold_join [of segs True "[]"]
  by (simp add: path_clean_def Let_def clean_segs_def) (simp add: abs_path_def clean_step_def)

lemma clean_abs_path [simp]: "list_all seg_ok segs \<Longrightarrow> clean_abs (abs_path segs)"
  by (simp add: clean_abs_def)

lemma path_clean_clean: "is_abs p \<Longrightarrow> clean_abs (path_clean p)"
  using path_clean_abs by fastforce

lemma splitSegs_abs_path [simp]: "list_all seg_ok segs \<Longrightarrow> splitSegs (abs_path segs) = segs"
  using split_join_segs [of segs]
  by (auto simp: splitSegs_def abs_path_def list_all_iff seg_ok_def filter_id_conv)

lemma clean_abs_segs: "clean_abs p \<Longrightarrow> list_all seg_ok (splitSegs p) \<and> abs_path (splitSegs p) = p"
  by (metis clean_abs_def path_clean_abs splitSegs_abs_path)

lemma clean_absE:
  assumes "clean_abs p"
  obtains segs where "list_all seg_ok segs" and "p = abs_path segs"
  using clean_abs_segs [OF assms] that by metis

lemma splitSegs_inj: "clean_abs p \<Longrightarrow> clean_abs q \<Longrightarrow> splitSegs p = splitSegs q \<Longrightarrow> p = q"
  by (metis clean_abs_segs)

section \<open>Parent and base\<close>

lemma abs_path_nonempty [simp]: "abs_path segs \<noteq> []"
  by (simp add: abs_path_def)

lemma abs_path_snoc: "abs_path (segs @ [s]) = (if segs = [] then [] else abs_path segs) @ slash # s"
proof (cases "segs = []")
  case False
  have "join_with ''/'' (xs @ [s]) = join_with ''/'' xs @ ''/'' @ s" if "xs \<noteq> []" for xs
    using that
  proof (induction xs)
    case (Cons x xs)
    then show ?case by (cases "xs = []") (simp_all add: join_with_Cons)
  qed simp
  then show ?thesis using False by (simp add: abs_path_def)
qed (simp add: abs_path_def)

lemma upto_slash_snoc: "slash \<notin> set s \<Longrightarrow> upto_slash (u @ slash # s) = u @ ''/''"
  by (simp add: upto_slash_def dropWhile_append)

lemma after_slash_snoc: "slash \<notin> set s \<Longrightarrow> after_slash (u @ slash # s) = s"
  by (simp add: after_slash_def takeWhile_append)

lemma path_dir_abs_path: "list_all seg_ok (segs @ [s]) \<Longrightarrow> path_dir (abs_path (segs @ [s])) = abs_path segs"
proof (cases "segs = []")
  case False
  assume ok: "list_all seg_ok (segs @ [s])"
  then have "upto_slash (abs_path (segs @ [s])) = abs_path segs @ ''/''"
    using False by (simp add: abs_path_snoc upto_slash_snoc seg_ok_def)
  then have "path_dir (abs_path (segs @ [s])) = path_clean (abs_path segs)"
    using path_clean_snoc_slash [of "abs_path segs"] abs_path_nonempty [of segs] by (simp add: path_dir_def)
  then show ?thesis using ok by simp
next
  case True
  assume ok: "list_all seg_ok (segs @ [s])"
  have "path_clean ''/'' = abs_path []" using path_clean_abs_path [of "[]"] by (simp add: abs_path_def)
  then show ?thesis using True ok upto_slash_snoc [of s "[]"] abs_path_snoc [of "[]" s] by (simp add: path_dir_def seg_ok_def)
qed

lemma path_dir_root: "path_dir (abs_path []) = abs_path []"
  using path_clean_abs_path [of "[]"] by (simp add: path_dir_def abs_path_def upto_slash_def)

lemma path_base_abs_path: "list_all seg_ok (segs @ [s]) \<Longrightarrow> path_base (abs_path (segs @ [s])) = s"
proof -
  assume ok: "list_all seg_ok (segs @ [s])"
  then have s: "s \<noteq> []" "slash \<notin> set s" by (simp_all add: seg_ok_def)
  obtain u where u: "abs_path (segs @ [s]) = u @ slash # s" by (metis abs_path_snoc)
  have "last s \<in> set s" using s(1) by simp
  then have "last s \<noteq> slash" using s(2) by metis
  then have "dropWhile (\<lambda>c. c = slash) (rev (u @ slash # s)) = rev (u @ slash # s)"
    using s by (cases s rule: rev_cases) simp_all
  then show ?thesis using s by (simp add: path_base_def u after_slash_snoc)
qed

section \<open>Joining\<close>

lemma join_segs_nonempty: "list_all seg_ok ts \<Longrightarrow> ts \<noteq> [] \<Longrightarrow> join_with ''/'' ts \<noteq> [] \<and> \<not> is_abs (join_with ''/'' ts)"
proof (cases ts)
  case (Cons s ss)
  moreover assume "list_all seg_ok ts"
  ultimately obtain c u where "s = c # u" "c \<noteq> slash" by (cases s) (auto simp: seg_ok_def)
  then show ?thesis using Cons by (cases "ss = []") (simp_all add: is_abs_def join_with_Cons)
qed simp

lemma path_join_abs:
  assumes "list_all seg_ok ss" and "list_all seg_ok ts"
  shows "path_join [abs_path ss, join_with ''/'' ts] = abs_path (ss @ ts)"
proof -
  have "path_join [abs_path ss, join_with ''/'' ts] = path_clean (abs_path ss @ ''/'' @ join_with ''/'' ts)"
    by (simp add: path_join_def)
  also have "\<dots> = slash # join_with ''/'' (foldl (clean_step True) [] (split_on slash (abs_path ss) @ split_on slash (join_with ''/'' ts)))"
    by (simp add: path_clean_def is_abs_def abs_path_def clean_segs_def split_on_middle)
  also have "foldl (clean_step True) [] (split_on slash (abs_path ss) @ split_on slash (join_with ''/'' ts)) = ss @ ts"
    using clean_fold_join [OF assms(1), of True "[]"] clean_fold_join [OF assms(2), of True ss]
    by (simp add: abs_path_def clean_step_def)
  finally show ?thesis by (simp add: abs_path_def)
qed

lemma path_join_rel:
  assumes "seg_ok s" and "list_all seg_ok ts"
  shows "path_join [s, join_with ''/'' ts] = join_with ''/'' (s # ts)"
proof -
  have ok: "list_all seg_ok (s # ts)" using assms by simp
  have rel: "path_clean (join_with ''/'' (s # ts)) = join_with ''/'' (s # ts)"
    using clean_fold_join [OF ok, of False "[]"] join_segs_nonempty [OF ok] by (simp add: path_clean_def clean_segs_def)
  show ?thesis
  proof (cases "ts = []")
    case True
    have "path_clean (s @ ''/'') = path_clean s" using assms(1) by (intro path_clean_snoc_slash) (simp add: seg_ok_def)
    then show ?thesis using rel True assms(1) by (simp add: path_join_def seg_ok_def)
  next
    case False
    then show ?thesis using rel assms(1) by (simp add: path_join_def seg_ok_def join_with_Cons)
  qed
qed

section \<open>Without links\<close>

text \<open>No symbolic links: a clean path resolves to itself or, where it does not exist, not at all.\<close>

definition linkless :: "fs_os \<Rightarrow> bool" where
  "linkless os \<longleftrightarrow> (\<forall>p. clean_abs p \<longrightarrow> os_eval os p = None \<or> os_eval os p = Some p)"

lemma resolve_from_linkless:
  assumes "linkless os"
  shows "list_all seg_ok ss \<Longrightarrow> list_all seg_ok ts \<Longrightarrow> p = abs_path (ss @ ts) \<Longrightarrow>
    resolve_from os p (abs_path ss) (join_with ''/'' ts) = p"
proof (induction ss arbitrary: ts rule: rev_induct)
  case Nil
  have "os_eval os (abs_path []) = None \<or> os_eval os (abs_path []) = Some (abs_path [])"
    using assms clean_abs_path [of "[]"] by (simp add: linkless_def)
  moreover have "join_with ''/'' ts = [] \<Longrightarrow> abs_path [] = p"
    using join_segs_nonempty [OF Nil.prems(2)] Nil.prems(3) by auto
  ultimately show ?case
    using path_join_abs [OF Nil.prems(1,2)] Nil.prems(3) path_dir_root
    by (subst resolve_from.simps) (auto simp: Let_def split: option.split)
next
  case (snoc s ss)
  have ok: "seg_ok s" "list_all seg_ok ss" using snoc.prems(1) by simp_all
  show ?case
  proof (cases "os_eval os (abs_path (ss @ [s]))")
    case None
    have "path_dir (abs_path (ss @ [s])) = abs_path ss" using snoc.prems(1) by (rule path_dir_abs_path)
    moreover have "abs_path ss \<noteq> abs_path (ss @ [s])"
      using snoc.prems(1) by (metis append_self_conv list_all_append not_Cons_self2 splitSegs_abs_path)
    moreover have "(if join_with ''/'' ts = [] then path_base (abs_path (ss @ [s])) else path_join [path_base (abs_path (ss @ [s])), join_with ''/'' ts]) =
        join_with ''/'' (s # ts)"
      using path_base_abs_path [OF snoc.prems(1)] path_join_rel [OF ok(1) snoc.prems(2)] join_segs_nonempty [OF snoc.prems(2)]
      by (cases "ts = []") simp_all
    ultimately show ?thesis
      using None snoc.IH [of "s # ts"] snoc.prems ok by (subst resolve_from.simps) (simp add: Let_def)
  next
    case (Some r)
    have "clean_abs (abs_path (ss @ [s]))" using snoc.prems(1) by simp
    then have "r = abs_path (ss @ [s])" using assms Some by (auto simp: linkless_def)
    then show ?thesis
      using Some path_join_abs [OF snoc.prems(1,2)] snoc.prems(3) join_segs_nonempty [OF snoc.prems(2)]
      by (subst resolve_from.simps) auto
  qed
qed

lemma resolveExisting_linkless: "linkless os \<Longrightarrow> clean_abs p \<Longrightarrow> resolveExisting os p = p"
  by (erule clean_absE) (use resolve_from_linkless [of os _ "[]"] in \<open>simp add: resolveExisting_def\<close>)

lemma pathVariants_linkless: "linkless os \<Longrightarrow> clean_abs p \<Longrightarrow> pathVariants os p = [p]"
  by (simp add: pathVariants_def path_abs_def resolveExisting_linkless append_unique_def clean_abs_def Let_def)

lemma fsCandidates_linkless: "linkless os \<Longrightarrow> clean_abs p \<Longrightarrow> fsCandidates os p = [p]"
proof -
  assume l: "linkless os" and p: "clean_abs p"
  then have "os_eval os p = None \<or> os_eval os p = Some p" by (simp add: linkless_def)
  then show ?thesis
    using pathVariants_linkless [OF l p] p by (auto simp: fsCandidates_def clean_abs_def Let_def append_unique_def split: option.split)
qed

end
