(* ===== verification/SandboxRules.thy ===== *)
theory SandboxRules
  imports FsRules CleanPaths
begin

text \<open>
  The hand-off of the filesystem rules to the sandbox (\<open>internal/sandbox/rules.go\<close>): the daemon converts its
  compiled rules to literal paths and writes them to a file; the process that starts an agent reads the
  file back and refuses what it cannot enforce. The file is what its reader makes of it,
  \<open>rules_read\<close>; \<open>fs_os\<close> is the file system the links of the paths are resolved in.
\<close>

record rules_file =
  rf_Version :: int
  rf_FailClosed :: bool
  rf_Reason :: string
  rf_ReadOnly :: "string list"
  rf_ReadWrite :: "string list"
  rf_Deny :: "string list"
  rf_Unenforceable :: "string list"

record path_rules =
  pt_ReadOnly :: "string list"
  pt_ReadWrite :: "string list"
  pt_Deny :: "string list"

abbreviation rulesVersion :: int where "rulesVersion \<equiv> 1"

section \<open>Converting\<close>

function strip_deep :: "string \<Rightarrow> string" where
  "strip_deep g = (if has_suffix g ''/**'' then strip_deep (trim_suffix g ''/**'') else g)"
  by pat_completeness auto
termination
  by (relation "measure length") (auto simp: trim_suffix_def has_suffix_iff suffix_def)

declare strip_deep.simps [simp del]

definition wild_chars :: string where
  "wild_chars = ''*?[''"

definition literalRule :: "string \<Rightarrow> string option" where
  "literalRule g0 =
     (let g = strip_deep (trim_space g0)
      in if g = [] \<or> \<not> is_abs g \<or> contains_any g wild_chars then None else Some (path_clean g))"

definition no_rules :: rules_file where
  "no_rules = \<lparr>rf_Version = rulesVersion, rf_FailClosed = False, rf_Reason = [], rf_ReadOnly = [], rf_ReadWrite = [],
     rf_Deny = [], rf_Unenforceable = []\<rparr>"

text \<open>The loop over a class that restricts: the literal paths and the rules that are not.\<close>

definition lit :: "string \<Rightarrow> string list \<Rightarrow> string list \<Rightarrow> string list \<times> string list" where
  "lit class globs unenforceable =
     fold (\<lambda>g (dst, un). case literalRule g of
         None \<Rightarrow> (dst, un @ [''fs.'' @ class @ '' '' @ g])
       | Some p \<Rightarrow> (append_unique dst p, un)) globs ([], unenforceable)"

definition carve_outs :: "fs_os \<Rightarrow> fs_rules \<Rightarrow> string list \<Rightarrow> string list" where
  "carve_outs os r globs =
     fold (\<lambda>g out. case literalRule g of
         None \<Rightarrow> out
       | Some p \<Rightarrow> if Check os (Some r) p FSWrite \<noteq> None then out else append_unique out p) globs []"

definition RulesFromFS :: "fs_os \<Rightarrow> fs_rules option \<Rightarrow> rules_file" where
  "RulesFromFS os ro =
     (case ro of
        None \<Rightarrow> no_rules
      | Some r \<Rightarrow>
          let m = Mounts (Some r)
          in if mt_FailClosed m then no_rules\<lparr>rf_FailClosed := True, rf_Reason := ''the policy failed to load''\<rparr>
             else let (deny, un1) = lit ''deny'' (mt_Deny m) []; (ro, un2) = lit ''read_only'' (mt_ReadOnly m) un1
               in no_rules\<lparr>rf_Deny := deny, rf_ReadOnly := ro, rf_Unenforceable := un2,
                    rf_ReadWrite := carve_outs os r (mt_ReadWrite m)\<rparr>)"

section \<open>Reading back\<close>

datatype rules_read = RulesMissing | RulesUnreadable | RulesMalformed | RulesDecoded rules_file

datatype rules_error =
  NeverPublished
| RulesReadFailed
| RulesNotDecoded
| RulesVersion int
| PolicyFailed string
| NotEnforceable "string list"
| NotLiteral string

function resolve_up :: "fs_os \<Rightarrow> string \<Rightarrow> string \<Rightarrow> string \<Rightarrow> string" where
  "resolve_up os p cur rest =
     (case os_eval os cur of
        Some r \<Rightarrow> path_join [r, rest]
      | None \<Rightarrow>
          let parent = path_dir cur
          in if parent = cur then p else resolve_up os p parent (path_join [path_base cur, rest]))"
  by pat_completeness auto
termination
  by (relation "measure (\<lambda>(os, p, cur, rest). path_height cur)") (auto intro: path_height_dir)

declare resolve_up.simps [simp del]

definition resolvePrefix :: "fs_os \<Rightarrow> string \<Rightarrow> string" where
  "resolvePrefix os p = resolve_up os p p []"

definition withResolved :: "fs_os \<Rightarrow> string list \<Rightarrow> string list" where
  "withResolved os ps = fold (\<lambda>p out. append_unique (append_unique out p) (resolvePrefix os p)) ps []"

definition literal_path :: "string \<Rightarrow> bool" where
  "literal_path p \<longleftrightarrow> p \<noteq> [] \<and> is_abs p \<and> path_clean p = p \<and> \<not> contains_any p wild_chars"

definition LoadRules :: "fs_os \<Rightarrow> rules_read \<Rightarrow> (rules_error, path_rules) result" where
  "LoadRules os rd =
     (case rd of
        RulesMissing \<Rightarrow> Inl NeverPublished
      | RulesUnreadable \<Rightarrow> Inl RulesReadFailed
      | RulesMalformed \<Rightarrow> Inl RulesNotDecoded
      | RulesDecoded f \<Rightarrow>
          if rf_Version f \<noteq> rulesVersion then Inl (RulesVersion (rf_Version f))
          else if rf_FailClosed f then
            Inl (PolicyFailed (if rf_Reason f = [] then ''the policy failed to load'' else rf_Reason f))
          else if rf_Unenforceable f \<noteq> [] then Inl (NotEnforceable (rf_Unenforceable f))
          else case List.find (\<lambda>p. \<not> literal_path p) (rf_ReadOnly f @ rf_ReadWrite f @ rf_Deny f) of
              Some p \<Rightarrow> Inl (NotLiteral p)
            | None \<Rightarrow> Inr \<lparr>pt_ReadOnly = withResolved os (rf_ReadOnly f), pt_ReadWrite = withResolved os (rf_ReadWrite f),
                pt_Deny = withResolved os (rf_Deny f)\<rparr>)"

section \<open>Verdicts inside the sandbox\<close>

text \<open>
  \<open>within\<close>: whether the relative path from \<open>base\<close> to \<open>p\<close> (\<open>filepath.Rel\<close>) exists and does not lead up. Both
  are cleaned; it exists and does not begin with \<open>..\<close> when the one is a front part of the other and
  what is left does not begin so.
\<close>

definition clean_parts :: "string \<Rightarrow> string list" where
  "clean_parts p = (if path_clean p = ''.'' then [] else splitSegs (path_clean p))"

definition within_path :: "string \<Rightarrow> string \<Rightarrow> bool" where
  "within_path p base \<longleftrightarrow>
     base \<noteq> [] \<and> is_abs (path_clean base) = is_abs (path_clean p) \<and> prefix (clean_parts base) (clean_parts p) \<and>
     take 1 (drop (length (clean_parts base)) (clean_parts p)) \<noteq> [''..'']"

definition depth :: "string \<Rightarrow> nat" where
  "depth p = length (filter (\<lambda>c. c = slash) (path_clean p))"

record layered_rule =
  ly_Path :: string
  ly_ReadOnly :: bool

text \<open>The order of the stable sort: by depth, and at the same depth read-write before read-only.\<close>

definition layer_key :: "layered_rule \<Rightarrow> nat" where
  "layer_key l = 2 * depth (ly_Path l) + (if ly_ReadOnly l then 1 else 0)"

definition layered :: "path_rules \<Rightarrow> layered_rule list" where
  "layered r = sort_key layer_key
     (map (\<lambda>p. \<lparr>ly_Path = p, ly_ReadOnly = False\<rparr>) (pt_ReadWrite r) @
      map (\<lambda>p. \<lparr>ly_Path = p, ly_ReadOnly = True\<rparr>) (pt_ReadOnly r))"

definition verdictReadOnly :: "string \<Rightarrow> path_rules \<Rightarrow> bool" where
  "verdictReadOnly p r = fold (\<lambda>l ro. if within_path p (ly_Path l) then ly_ReadOnly l else ro) (layered r) False"

definition deniedByRules :: "string \<Rightarrow> path_rules \<Rightarrow> bool" where
  "deniedByRules p r \<longleftrightarrow> list_ex (within_path p) (pt_Deny r)"

section \<open>Within, on clean paths\<close>

lemma clean_parts_abs: "clean_abs p \<Longrightarrow> clean_parts p = splitSegs p"
  by (auto simp: clean_parts_def clean_abs_def is_abs_def)

lemma within_clean:
  assumes "clean_abs p" and "clean_abs b"
  shows "within_path p b \<longleftrightarrow> prefix (splitSegs b) (splitSegs p)"
proof -
  have "\<forall>s \<in> set (splitSegs p). s \<noteq> ''..''"
    using clean_abs_segs [OF assms(1)] by (auto simp: list_all_iff seg_ok_def)
  then have "take 1 (drop n (splitSegs p)) \<noteq> [''..'']" for n
    by (metis in_set_dropD in_set_takeD list.set_intros(1))
  then show ?thesis
    using assms by (auto simp: within_path_def clean_parts_abs) (auto simp: clean_abs_def is_abs_def)
qed

lemma within_refl: "clean_abs p \<Longrightarrow> within_path p p"
  by (simp add: within_clean)

lemma within_trans: "clean_abs p \<Longrightarrow> clean_abs b \<Longrightarrow> clean_abs c \<Longrightarrow> within_path p b \<Longrightarrow> within_path b c \<Longrightarrow> within_path p c"
  by (auto simp: within_clean intro: prefix_order.trans)

lemma within_linear: "clean_abs p \<Longrightarrow> clean_abs b \<Longrightarrow> clean_abs c \<Longrightarrow> within_path p b \<Longrightarrow> within_path p c \<Longrightarrow>
   within_path b c \<or> within_path c b"
  by (auto simp: within_clean dest: prefix_same_cases)

lemma within_antisym: "clean_abs p \<Longrightarrow> clean_abs b \<Longrightarrow> within_path p b \<Longrightarrow> within_path b p \<Longrightarrow> p = b"
  by (auto simp: within_clean intro: splitSegs_inj prefix_order.antisym)

lemma count_slash_join: "list_all seg_ok segs \<Longrightarrow> length (filter (\<lambda>c. c = slash) (join_with ''/'' segs)) = length segs - 1"
proof (induction segs)
  case (Cons s segs)
  moreover have "filter (\<lambda>c. c = slash) s = []" using Cons.prems by (auto simp: seg_ok_def filter_empty_conv)
  ultimately show ?case by (cases "segs = []") (simp_all add: join_with_Cons)
qed simp

text \<open>The root is as deep as what is directly in it.\<close>

lemma depth_clean: "clean_abs p \<Longrightarrow> depth p = max 1 (length (splitSegs p))"
proof (erule clean_absE)
  fix segs
  assume segs: "list_all seg_ok segs" "p = abs_path segs"
  then have "length (filter (\<lambda>c. c = slash) p) = Suc (length segs - 1)"
    by (simp add: abs_path_def count_slash_join)
  then show ?thesis using segs by (auto simp: depth_def)
qed

lemma depth_within: "clean_abs p \<Longrightarrow> clean_abs b \<Longrightarrow> within_path p b \<Longrightarrow> depth b \<le> depth p"
  by (auto simp: depth_clean within_clean dest: prefix_length_le)

lemma shallower_within:
  assumes "clean_abs p" and "clean_abs b" and "clean_abs c" and "within_path p b" and "within_path p c" and "depth b < depth c"
  shows "within_path c b"
  using within_linear [OF assms(1-5)] depth_within [OF assms(2,3)] assms(6) by auto

section \<open>The last rule that covers\<close>

lemma fold_last:
  "fold (\<lambda>l ro. if P l then f l else ro) ls b =
     (if \<exists>l \<in> set ls. P l then f (last (filter P ls)) else b)"
proof (induction ls rule: rev_induct)
  case (snoc l ls)
  then show ?case by (cases "P l") auto
qed simp

lemma last_is_greatest:
  assumes "sorted (map f ls)" and "x \<in> set ls" and "P x"
  shows "P (last (filter P ls)) \<and> last (filter P ls) \<in> set ls \<and> f x \<le> f (last (filter P ls))"
  using assms
proof (induction ls rule: rev_induct)
  case (snoc l ls)
  show ?case
  proof (cases "P l")
    case True
    then show ?thesis using snoc.prems by (auto simp: sorted_append)
  next
    case False
    then have "x \<in> set ls" using snoc.prems(2,3) by auto
    then show ?thesis using snoc.IH snoc.prems False by (simp add: sorted_append)
  qed
qed simp

text \<open>A path is read-only when some read-only rule covers it and no read-write rule that does is deeper.\<close>

lemma verdictReadOnly_iff:
  "verdictReadOnly q r \<longleftrightarrow>
     (\<exists>S \<in> set (pt_ReadOnly r). within_path q S \<and> (\<forall>W \<in> set (pt_ReadWrite r). within_path q W \<longrightarrow> depth W \<le> depth S))"
proof -
  let ?P = "\<lambda>l. within_path q (ly_Path l)"
  let ?l = "last (filter ?P (layered r))"
  have sorted: "sorted (map layer_key (layered r))" by (simp add: layered_def)
  have ro: "S \<in> set (pt_ReadOnly r) \<longleftrightarrow> \<lparr>ly_Path = S, ly_ReadOnly = True\<rparr> \<in> set (layered r)" for S
    by (auto simp: layered_def)
  have rw: "W \<in> set (pt_ReadWrite r) \<longleftrightarrow> \<lparr>ly_Path = W, ly_ReadOnly = False\<rparr> \<in> set (layered r)" for W
    by (auto simp: layered_def)
  have v: "verdictReadOnly q r \<longleftrightarrow> (\<exists>l \<in> set (layered r). ?P l) \<and> ly_ReadOnly ?l"
    unfolding verdictReadOnly_def fold_last by auto
  show ?thesis
  proof (cases "\<exists>l \<in> set (layered r). ?P l")
    case False
    then show ?thesis using v ro by fastforce
  next
    case True
    note top = last_is_greatest [OF sorted, where P = ?P]
    have l: "?P ?l" "?l \<in> set (layered r)" using True top by blast+
    have le: "layer_key \<lparr>ly_Path = p, ly_ReadOnly = b\<rparr> \<le> layer_key ?l"
      if "\<lparr>ly_Path = p, ly_ReadOnly = b\<rparr> \<in> set (layered r)" "within_path q p" for p b
      using top [OF that(1)] that(2) by simp
    show ?thesis
    proof (cases "ly_ReadOnly ?l")
      case read: True
      then have "?l = \<lparr>ly_Path = ly_Path ?l, ly_ReadOnly = True\<rparr>" by simp
      then have "ly_Path ?l \<in> set (pt_ReadOnly r)" using ro l(2) by metis
      moreover have "depth W \<le> depth (ly_Path ?l)" if "W \<in> set (pt_ReadWrite r)" "within_path q W" for W
        using le [of W False] that rw read by (simp add: layer_key_def)
      ultimately show ?thesis using v True read l(1) by blast
    next
      case open_rule: False
      then have "?l = \<lparr>ly_Path = ly_Path ?l, ly_ReadOnly = False\<rparr>" by simp
      then have w: "ly_Path ?l \<in> set (pt_ReadWrite r)" using rw l(2) by metis
      have "depth S < depth (ly_Path ?l)" if "S \<in> set (pt_ReadOnly r)" "within_path q S" for S
        using le [of S True] that ro open_rule by (simp add: layer_key_def)
      then show ?thesis using v True open_rule l(1) w by (metis linorder_not_less)
    qed
  qed
qed

section \<open>Resolving and converting, on clean paths\<close>

lemma resolve_up_linkless:
  assumes "linkless os"
  shows "list_all seg_ok ss \<Longrightarrow> list_all seg_ok ts \<Longrightarrow> p = abs_path (ss @ ts) \<Longrightarrow>
    resolve_up os p (abs_path ss) (join_with ''/'' ts) = p"
proof (induction ss arbitrary: ts rule: rev_induct)
  case Nil
  have "os_eval os (abs_path []) = None \<or> os_eval os (abs_path []) = Some (abs_path [])"
    using assms clean_abs_path [of "[]"] by (simp add: linkless_def)
  then show ?case
    using path_join_abs [OF Nil.prems(1,2)] Nil.prems(3) path_dir_root
    by (subst resolve_up.simps) (auto simp: Let_def split: option.split)
next
  case (snoc s ss)
  have ok: "seg_ok s" "list_all seg_ok ss" using snoc.prems(1) by simp_all
  show ?case
  proof (cases "os_eval os (abs_path (ss @ [s]))")
    case None
    have "path_dir (abs_path (ss @ [s])) = abs_path ss" using snoc.prems(1) by (rule path_dir_abs_path)
    moreover have "abs_path ss \<noteq> abs_path (ss @ [s])"
      using snoc.prems(1) by (metis append_self_conv list_all_append not_Cons_self2 splitSegs_abs_path)
    moreover have "path_join [path_base (abs_path (ss @ [s])), join_with ''/'' ts] = join_with ''/'' (s # ts)"
      using path_base_abs_path [OF snoc.prems(1)] path_join_rel [OF ok(1) snoc.prems(2)] by simp
    ultimately show ?thesis
      using None snoc.IH [of "s # ts"] snoc.prems ok by (subst resolve_up.simps) (simp add: Let_def)
  next
    case (Some r)
    have "clean_abs (abs_path (ss @ [s]))" using snoc.prems(1) by simp
    then have "r = abs_path (ss @ [s])" using assms Some by (auto simp: linkless_def)
    then show ?thesis
      using Some path_join_abs [OF snoc.prems(1,2)] snoc.prems(3) by (subst resolve_up.simps) simp
  qed
qed

lemma resolvePrefix_linkless: "linkless os \<Longrightarrow> clean_abs p \<Longrightarrow> resolvePrefix os p = p"
  by (erule clean_absE) (use resolve_up_linkless [of os _ "[]"] in \<open>simp add: resolvePrefix_def\<close>)

lemma withResolved_linkless:
  assumes "linkless os" and "\<forall>p \<in> set ps. clean_abs p"
  shows "set (withResolved os ps) = set ps"
proof -
  have "set (fold (\<lambda>p out. append_unique (append_unique out p) (resolvePrefix os p)) ps out) = set out \<union> set ps" for out
    using assms(2) by (induction ps arbitrary: out) (auto simp: resolvePrefix_linkless [OF assms(1)])
  then show ?thesis by (simp add: withResolved_def)
qed

lemma literalRule_clean: "literalRule g = Some p \<Longrightarrow> clean_abs p"
  by (auto simp: literalRule_def Let_def path_clean_clean split: if_splits)

end
