(* ===== verification/SandboxProperties.thy ===== *)
theory SandboxProperties
  imports SandboxRules FsProperties
begin

text \<open>
  What the hand-off to the sandbox keeps of the policy: on a file system without links, whatever the
  policy denies is denied by the rules the sandbox reads, and whatever it makes read-only is read-only.
\<close>

section \<open>Literal rules\<close>













section \<open>The published rules\<close>















section \<open>The hand-off\<close>








end
