(* ===== verification/HostFs.thy ===== *)
theory HostFs
  imports FsPaths
begin

text \<open>
  What the code that starts agents reads of the machine it runs on: the file system, with \<open>Lstat\<close>,
  \<open>Stat\<close>, \<open>ReadFile\<close>, \<open>ReadDir\<close> and opening a file as their answers for a path, the tools found on
  the daemon's own \<open>PATH\<close>, and the system. A failing call that the code tells apart from a missing
  file is \<open>Unreadable\<close>; reading the entries of a file that is not a directory counts as \<open>Missing\<close>.
\<close>

datatype file_kind = RegularFile | Directory | SymbolicLink | OtherFile

datatype 'a looked_up = Missing | Unreadable | Found 'a

record opened_file =
  op_same :: bool
  op_mode :: nat
  op_data :: "string option"

record host =
  h_lstat :: "string \<Rightarrow> file_kind looked_up"
  h_stat :: "string \<Rightarrow> (file_kind \<times> nat) option"
  h_read :: "string \<Rightarrow> string looked_up"
  h_list :: "string \<Rightarrow> (string \<times> file_kind) list looked_up"
  h_open :: "string \<Rightarrow> opened_file option"
  h_glob :: "string \<Rightarrow> string list"
  h_create :: "string \<Rightarrow> bool"
  h_tool :: "string \<Rightarrow> string option"
  h_os :: fs_os
  h_goos :: string
  h_uid :: nat
  h_gid :: nat
  h_runtime_dir :: string

definition is_directory :: "host \<Rightarrow> string \<Rightarrow> bool" where
  "is_directory h p \<longleftrightarrow> (case h_stat h p of Some (Directory, m) \<Rightarrow> True | _ \<Rightarrow> False)"

definition exists_at :: "host \<Rightarrow> string \<Rightarrow> bool" where
  "exists_at h p \<longleftrightarrow> h_stat h p \<noteq> None"

definition linked_at :: "host \<Rightarrow> string \<Rightarrow> bool" where
  "linked_at h p \<longleftrightarrow> (case h_lstat h p of Found k \<Rightarrow> True | _ \<Rightarrow> False)"

text \<open>A file with an execute bit; the mode's permission bits are its low nine.\<close>

definition runnable :: "host \<Rightarrow> string \<Rightarrow> bool" where
  "runnable h p \<longleftrightarrow>
     (case h_stat h p of None \<Rightarrow> False
      | Some (k, mode) \<Rightarrow> k \<noteq> Directory \<and> (odd mode \<or> odd (mode div 8) \<or> odd (mode div 64)))"

section \<open>Environment entries\<close>

definition entry_name :: "string \<Rightarrow> string" where
  "entry_name kv = takeWhile (\<lambda>c. c \<noteq> CHR ''='') kv"

definition entry_value :: "string \<Rightarrow> string" where
  "entry_value kv = drop 1 (dropWhile (\<lambda>c. c \<noteq> CHR ''='') kv)"

definition cut_prefix :: "string \<Rightarrow> string \<Rightarrow> string option" where
  "cut_prefix p s = (if has_prefix s p then Some (drop (length p) s) else None)"

lemma entry_name_pair [simp]: "CHR ''='' \<notin> set n \<Longrightarrow> entry_name (n @ CHR ''='' # v) = n"
  unfolding entry_name_def by (subst takeWhile_append2) auto

end
