(* ===== verification/AgentEnv.thy ===== *)
theory AgentEnv
  imports HostFs
begin

text \<open>
  The environment an agent process may inherit (\<open>internal/agentenv/agentenv.go\<close>, \<open>account.go\<close>): the names
  kept for an agent, the names denied, the filter over an environment, and the account token put into
  it. A set of names is the list it is built from.
\<close>

datatype agent_kind = Claude | Codex | OtherAgent string

fun kind_text :: "agent_kind \<Rightarrow> string" where
  "kind_text Claude = ''claude''"
| "kind_text Codex = ''codex''"
| "kind_text (OtherAgent s) = s"

definition ParseKind :: "string \<Rightarrow> agent_kind option" where
  "ParseKind s = (if trim_space s = ''claude'' then Some Claude else if trim_space s = ''codex'' then Some Codex else None)"

section \<open>Names\<close>

definition denyExact :: "string list" where
  "denyExact =
     [''AWS_ACCESS_KEY_ID'', ''AWS_SECRET_ACCESS_KEY'', ''AWS_DEFAULT_REGION'', ''AWS_SESSION_TOKEN'', ''S3_ENDPOINT_URL'',
      ''GEMINI_API_KEY'', ''GIT_USERNAME'',
      ''TANGOLIFE_BLOG_AUTOMATION_TOKEN'', ''TANGOLIFE_INSTAGRAM_PASSWORD'', ''TANGOLIFE_INSTAGRAM_USERNAME'',
      ''GH_TOKEN'', ''GITHUB_TOKEN'', ''RYSH_CLI_PAT'', ''NPM_TOKEN'', ''NODE_AUTH_TOKEN'',
      ''HOMEBREW_TAP_TOKEN'', ''GORELEASER_GITHUB_TOKEN'', ''GPG_KEY_FILE'', ''GPG_FINGERPRINT'',
      ''R2_ACCESS_KEY_ID'', ''R2_SECRET_ACCESS_KEY'', ''R2_TOKEN'', ''NFPM_PASSPHRASE'',
      ''GIT_ASKPASS'', ''GIT_CONFIG_COUNT'',
      ''CLAUDECODE'', ''CLAUDE_CODE_ENTRYPOINT'', ''CLAUDE_CODE_EXECPATH'',
      ''CLAUDE_CODE_CHILD_SESSION'', ''CLAUDE_CODE_SESSION_ID'', ''CLAUDE_SESSION_ID'',
      ''CLAUDE_PID'', ''CLAUDE_EFFORT'']"

definition denyPrefixes :: "string list" where
  "denyPrefixes = [''AWS_'', ''GIT_CONFIG_KEY_'', ''GIT_CONFIG_VALUE_'']"

definition denySuffixes :: "string list" where
  "denySuffixes = [''_PASSWORD'', ''_TOKEN'', ''_API_KEY'', ''_PAT'', ''_CREDENTIALS'', ''_PRIVATE_KEY'', ''_PASSPHRASE'', ''_KEY_ID'']"

definition denyContains :: "string list" where
  "denyContains = [''_SECRET'']"

definition keepClaude :: "string list" where
  "keepClaude =
     [''ANTHROPIC_API_KEY'', ''ANTHROPIC_AUTH_TOKEN'', ''ANTHROPIC_BASE_URL'',
      ''CLAUDE_CODE_OAUTH_TOKEN'', ''CLAUDE_CODE_OAUTH_REFRESH_TOKEN'', ''CLAUDE_CODE_SESSION_ACCESS_TOKEN'',
      ''CLAUDE_CODE_OAUTH_TOKEN_FILE_DESCRIPTOR'', ''CLAUDE_CODE_API_KEY_FILE_DESCRIPTOR'',
      ''CLAUDE_CODE_WEBSOCKET_AUTH_FILE_DESCRIPTOR'', ''CLAUDE_CODE_CLIENT_KEY'',
      ''ANTHROPIC_IDENTITY_TOKEN_FILE'', ''ANTHROPIC_FOUNDRY_API_KEY'', ''ANTHROPIC_AWS_API_KEY'']"

definition keepClaudeBedrock :: "string list" where
  "keepClaudeBedrock =
     [''AWS_ACCESS_KEY_ID'', ''AWS_SECRET_ACCESS_KEY'', ''AWS_SESSION_TOKEN'', ''AWS_REGION'',
      ''AWS_DEFAULT_REGION'', ''AWS_PROFILE'', ''AWS_BEARER_TOKEN_BEDROCK'', ''AWS_SHARED_CREDENTIALS_FILE'']"

definition keepClaudeVertex :: "string list" where
  "keepClaudeVertex = [''GOOGLE_APPLICATION_CREDENTIALS'']"

definition keepCodex :: "string list" where
  "keepCodex = [''OPENAI_API_KEY'', ''OPENAI_BASE_URL'', ''CODEX_HOME'']"

definition switchOn :: "string list \<Rightarrow> string \<Rightarrow> bool" where
  "switchOn env name =
     (case List.find (\<lambda>kv. entry_name kv = name) env of None \<Rightarrow> False | Some kv \<Rightarrow> trim_space (entry_value kv) \<noteq> [])"

definition keepFor :: "agent_kind \<Rightarrow> string list \<Rightarrow> string list" where
  "keepFor kind env =
     (case kind of
        Claude \<Rightarrow> keepClaude @
          (if switchOn env ''CLAUDE_CODE_USE_BEDROCK'' then keepClaudeBedrock else []) @
          (if switchOn env ''CLAUDE_CODE_USE_VERTEX'' then keepClaudeVertex else [])
      | Codex \<Rightarrow> keepCodex
      | OtherAgent _ \<Rightarrow> [])"

definition Denied :: "string \<Rightarrow> bool" where
  "Denied name \<longleftrightarrow>
     list_ex (\<lambda>n. name = n) denyExact \<or> list_ex (has_prefix name) denyPrefixes \<or>
     list_ex (has_suffix name) denySuffixes \<or> list_ex (contains_sub name) denyContains"

section \<open>Filtering\<close>

definition Filter :: "string list \<Rightarrow> agent_kind \<Rightarrow> string list" where
  "Filter env kind =
     (let keep = keepFor kind env in filter (\<lambda>kv. entry_name kv \<in> set keep \<or> \<not> Denied (entry_name kv)) env)"

definition Dropped :: "string list \<Rightarrow> agent_kind \<Rightarrow> string list" where
  "Dropped env kind =
     (let keep = keepFor kind env
      in sort (map entry_name (filter (\<lambda>kv. entry_name kv \<notin> set keep \<and> Denied (entry_name kv)) env)))"

definition StaticNames :: "string list" where
  "StaticNames = denyExact"

definition StaticPrefix :: string where
  "StaticPrefix = ''env'' @ concat (map (\<lambda>n. '' -u '' @ n) denyExact)"

definition FilterStatic :: "string list \<Rightarrow> string list" where
  "FilterStatic env = filter (\<lambda>kv. entry_name kv \<notin> set denyExact) env"

definition ForRunner :: "string list \<Rightarrow> string \<Rightarrow> string list" where
  "ForRunner env runner = (if ParseKind runner = Some Claude then Filter env Claude else FilterStatic env)"

section \<open>The account token\<close>

abbreviation ClaudeOAuthTokenEnv :: string where
  "ClaudeOAuthTokenEnv \<equiv> ''CLAUDE_CODE_OAUTH_TOKEN''"

abbreviation ClaudeOAuthTokenFDEnv :: string where
  "ClaudeOAuthTokenFDEnv \<equiv> ''CLAUDE_CODE_OAUTH_TOKEN_FILE_DESCRIPTOR''"

definition ClaudeAccountDir :: "string \<Rightarrow> string" where
  "ClaudeAccountDir home = (if trim_space home = [] then [] else path_join [home, ''.rysh/claude-account''])"

definition ClaudeAccountTokenFile :: "string \<Rightarrow> string" where
  "ClaudeAccountTokenFile dir = path_join [dir, ''token'']"

definition env_lookup :: "string list \<Rightarrow> string \<Rightarrow> string" where
  "env_lookup env name =
     (case List.find (\<lambda>kv. CHR ''='' \<in> set kv \<and> entry_name kv = name) env of None \<Rightarrow> [] | Some kv \<Rightarrow> entry_value kv)"

datatype account_error = TokenLstat | TokenNotRegular | TokenOpen | TokenSwapped | TokenReadable nat | TokenRead

definition token_limit :: nat where
  "token_limit = 65536"

definition readClaudeAccountToken :: "host \<Rightarrow> string list \<Rightarrow> (account_error, string option) result" where
  "readClaudeAccountToken h env =
     (let dir = ClaudeAccountDir (env_lookup env ''HOME''); path = ClaudeAccountTokenFile dir
      in if dir = [] then Inr None
         else case h_lstat h path of
             Missing \<Rightarrow> Inr None
           | Unreadable \<Rightarrow> Inl TokenLstat
           | Found k \<Rightarrow>
               if k \<noteq> RegularFile then Inl TokenNotRegular
               else case h_open h path of
                   None \<Rightarrow> Inl TokenOpen
                 | Some f \<Rightarrow>
                     if \<not> op_same f then Inl TokenSwapped
                     else if op_mode f mod 64 \<noteq> 0 then Inl (TokenReadable (op_mode f mod 512))
                     else case op_data f of
                         None \<Rightarrow> Inl TokenRead
                       | Some data \<Rightarrow>
                           let t = trim_space (take token_limit data) in Inr (if t = [] then None else Some t))"

definition withClaudeAccount :: "host \<Rightarrow> string list \<Rightarrow> string list" where
  "withClaudeAccount h env =
     (case readClaudeAccountToken h env of
        Inr (Some token) \<Rightarrow>
          filter (\<lambda>kv. entry_name kv \<noteq> ClaudeOAuthTokenEnv \<and> entry_name kv \<noteq> ClaudeOAuthTokenFDEnv) env @
          [ClaudeOAuthTokenEnv @ ''='' @ token]
      | _ \<Rightarrow> env)"

section \<open>What the filter leaves\<close>

lemma set_Filter: "kv \<in> set (Filter env kind) \<longleftrightarrow>
   kv \<in> set env \<and> (entry_name kv \<in> set (keepFor kind env) \<or> \<not> Denied (entry_name kv))"
  by (auto simp: Filter_def Let_def)

text \<open>The provider switches are never filtered themselves.\<close>

lemma find_filter: "(\<And>x. P x \<Longrightarrow> Q x) \<Longrightarrow> List.find P (filter Q xs) = List.find P xs"
  by (induction xs) auto

lemma switches_pass: "\<not> Denied ''CLAUDE_CODE_USE_BEDROCK''" "\<not> Denied ''CLAUDE_CODE_USE_VERTEX''"
  by code_simp+

lemma keepFor_Filter: "keepFor kind (Filter env kind') = keepFor kind env"
proof -
  have "switchOn (Filter env kind') n = switchOn env n" if "\<not> Denied n" for n
    unfolding switchOn_def Filter_def Let_def by (subst find_filter) (use that in auto)
  then show ?thesis using switches_pass by (simp add: keepFor_def split: agent_kind.split)
qed

lemma Filter_idem: "Filter (Filter env kind) kind = Filter env kind"
  unfolding Filter_def [of "Filter env kind"] keepFor_Filter by (simp add: Filter_def Let_def)

lemma set_Dropped: "set (Dropped env kind) = entry_name ` set env - entry_name ` set (Filter env kind)"
  by (auto simp: Dropped_def Filter_def Let_def)

text \<open>The static list is part of the rule.\<close>

lemma static_denied: "n \<in> set denyExact \<Longrightarrow> Denied n"
  by (auto simp: Denied_def list_ex_iff)

end
