(* ===== verification/SandboxSpec.thy ===== *)
theory SandboxSpec
  imports SandboxRules AgentEnv
begin

text \<open>
  What a sandbox is asked to be (\<open>internal/sandbox/profile.go\<close>, \<open>sandbox.go\<close>, \<open>bridge.go\<close>): the profiles of
  \<open>sandbox.yaml\<close>, the specification every backend takes and the checks it passes first, the environment
  inside, the ports, and the choice of the backend.

  \<open>decoders\<close> holds the decoders the code calls on text: \<open>url.Parse\<close> with the host name and the port, the
  integer field of a session record (0 when the record does not have it), the profile file, the rules
  file, and \<open>net.SplitHostPort\<close>.
\<close>

section \<open>Profiles\<close>

abbreviation BackendAuto :: string where "BackendAuto \<equiv> ''auto''"
abbreviation BackendContainer :: string where "BackendContainer \<equiv> ''container''"
abbreviation BackendMacOS :: string where "BackendMacOS \<equiv> ''macos''"
abbreviation BackendBwrap :: string where "BackendBwrap \<equiv> ''bwrap''"
abbreviation DefaultProfile :: string where "DefaultProfile \<equiv> ''default''"

record profile =
  pr_Name :: string
  pr_Backend :: string
  pr_Image :: string
  pr_Network :: bool
  pr_Proxy :: bool
  pr_ReadOnly :: "string list"
  pr_CopyConfig :: "string list"

record yaml_profile =
  yp_Backend :: string
  yp_Image :: string
  yp_Network :: string
  yp_ReadOnly :: "string list"
  yp_CopyConfig :: "string list option"

record yaml_file =
  yf_Default :: string
  yf_Required :: bool
  yf_Profiles :: "(string \<times> yaml_profile) list"

record settings =
  st_Default :: string
  st_Required :: bool

record decoders =
  dc_url :: "string \<Rightarrow> (string \<times> string) option"
  dc_port :: "string \<Rightarrow> string \<Rightarrow> int option"
  dc_profiles :: "string \<Rightarrow> (string, yaml_file) result"
  dc_rules :: "string \<Rightarrow> rules_file option"
  dc_split :: "string \<Rightarrow> (string \<times> string) option"

definition defaultCopyConfig :: "string list" where
  "defaultCopyConfig = [''CLAUDE.md'', ''commands'', ''agents'']"

definition refusedConfigNames :: "string list" where
  "refusedConfigNames = [''.credentials.json'', ''.claude.json'', ''auth.json'', ''credentials.json'']"

definition refusedConfigName :: "string \<Rightarrow> bool" where
  "refusedConfigName name \<longleftrightarrow> to_lower name \<in> set refusedConfigNames \<or> contains_sub (to_lower name) ''credential''"

definition builtinDefault :: profile where
  "builtinDefault = \<lparr>pr_Name = DefaultProfile, pr_Backend = BackendAuto, pr_Image = [], pr_Network = True, pr_Proxy = False,
     pr_ReadOnly = [], pr_CopyConfig = defaultCopyConfig\<rparr>"

text \<open>\<open>profileNameRE\<close>: a lower-case letter or digit, then at most 31 of these, underscores and dashes.\<close>

definition name_start :: "char \<Rightarrow> bool" where
  "name_start c \<longleftrightarrow> is_digit c \<or> (CHR ''a'' \<le> c \<and> c \<le> CHR ''z'')"

definition name_char :: "char \<Rightarrow> bool" where
  "name_char c \<longleftrightarrow> name_start c \<or> c = CHR ''_'' \<or> c = CHR ''-''"

definition ValidName :: "string \<Rightarrow> bool" where
  "ValidName s \<longleftrightarrow> (case s of [] \<Rightarrow> False | c # t \<Rightarrow> name_start c \<and> length t \<le> 31 \<and> list_all name_char t)"

datatype profile_error =
  BadProfileName
| BadBackend string
| BadNetwork string
| RelativeReadOnly string
| CopyNotPlain string
| CopyCredential string

definition profile_backend :: "string \<Rightarrow> string option" where
  "profile_backend b =
     (if b = [] \<or> b = BackendAuto then Some BackendAuto
      else if b \<in> {BackendContainer, BackendMacOS, BackendBwrap} then Some b else None)"

text \<open>The two switches of the network setting: the general network, and the proxy.\<close>

definition profile_network :: "string \<Rightarrow> (bool \<times> bool) option" where
  "profile_network n =
     (if n = [] \<or> n = ''on'' then Some (True, False)
      else if n = ''off'' then Some (False, False)
      else if n = ''proxy'' then Some (False, True) else None)"

fun profile_read_only :: "string list \<Rightarrow> (profile_error, string list) result" where
  "profile_read_only [] = Inr []"
| "profile_read_only (ro0 # ros) =
     (let ro = path_clean (trim_space ro0)
      in if \<not> is_abs ro then Inl (RelativeReadOnly ro)
         else case profile_read_only ros of Inl e \<Rightarrow> Inl e | Inr out \<Rightarrow> Inr (ro # out))"

fun profile_copy :: "string list \<Rightarrow> (profile_error, string list) result" where
  "profile_copy [] = Inr []"
| "profile_copy (c0 # cs) =
     (let c = trim_space c0
      in if c = [] \<or> c \<noteq> path_base c \<or> c = ''.'' \<or> c = ''..'' then Inl (CopyNotPlain c)
         else if refusedConfigName c then Inl (CopyCredential c)
         else case profile_copy cs of Inl e \<Rightarrow> Inl e | Inr out \<Rightarrow> Inr (c # out))"

definition parseProfile :: "string \<Rightarrow> yaml_profile \<Rightarrow> (profile_error, profile) result" where
  "parseProfile name yp =
     (if \<not> ValidName name then Inl BadProfileName
      else case profile_backend (trim_space (yp_Backend yp)) of
          None \<Rightarrow> Inl (BadBackend (trim_space (yp_Backend yp)))
        | Some b \<Rightarrow>
            (case profile_network (trim_space (yp_Network yp)) of
               None \<Rightarrow> Inl (BadNetwork (trim_space (yp_Network yp)))
             | Some (network, proxy) \<Rightarrow>
                 (case profile_read_only (yp_ReadOnly yp) of
                    Inl e \<Rightarrow> Inl e
                  | Inr ros \<Rightarrow>
                      (case (case yp_CopyConfig yp of None \<Rightarrow> Inr defaultCopyConfig | Some cs \<Rightarrow> profile_copy cs) of
                         Inl e \<Rightarrow> Inl e
                       | Inr cs \<Rightarrow> Inr \<lparr>pr_Name = name, pr_Backend = b, pr_Image = trim_space (yp_Image yp),
                           pr_Network = network, pr_Proxy = proxy, pr_ReadOnly = ros, pr_CopyConfig = cs\<rparr>))))"

datatype load_error =
  ProfilesUnreadable
| ProfilesNotDecoded string
| ProfileRefused string profile_error
| DefaultInvalid string
| DefaultUnknown string
| NameInvalid string
| NameUnknown string

fun parse_profiles :: "(string \<times> yaml_profile) list \<Rightarrow> (string \<times> profile) list \<Rightarrow> (load_error, (string \<times> profile) list) result" where
  "parse_profiles [] out = Inr out"
| "parse_profiles ((name, yp) # yps) out =
     (case parseProfile name yp of
        Inl e \<Rightarrow> Inl (ProfileRefused name e)
      | Inr p \<Rightarrow> parse_profiles yps (AList.update name p out))"

definition load_profiles :: "decoders \<Rightarrow> host \<Rightarrow> string \<Rightarrow> (load_error, (string \<times> profile) list \<times> settings) result" where
  "load_profiles dc h ryshDir =
     (let out = [(DefaultProfile, builtinDefault)]; optional = \<lparr>st_Default = [], st_Required = False\<rparr>
      in if trim_space ryshDir = [] then Inr (out, optional)
         else case h_read h (path_join [ryshDir, ''sandbox.yaml'']) of
             Missing \<Rightarrow> Inr (out, optional)
           | Unreadable \<Rightarrow> Inl ProfilesUnreadable
           | Found data \<Rightarrow>
               (case dc_profiles dc data of
                  Inl e \<Rightarrow> Inl (ProfilesNotDecoded e)
                | Inr f \<Rightarrow>
                    (case parse_profiles (yf_Profiles f) out of
                       Inl e \<Rightarrow> Inl e
                     | Inr out' \<Rightarrow>
                         let d = trim_space (yf_Default f)
                         in if d \<noteq> [] \<and> \<not> ValidName d then Inl (DefaultInvalid d)
                            else if d \<noteq> [] \<and> alist_get out' d = None then Inl (DefaultUnknown d)
                            else Inr (out', \<lparr>st_Default = d, st_Required = yf_Required f\<rparr>))))"

definition Resolve :: "decoders \<Rightarrow> host \<Rightarrow> string \<Rightarrow> string \<Rightarrow> (load_error, profile) result" where
  "Resolve dc h ryshDir name0 =
     (let name = trim_space name0
      in if \<not> ValidName name then Inl (NameInvalid name)
         else case load_profiles dc h ryshDir of
             Inl e \<Rightarrow> Inl e
           | Inr (ps, s) \<Rightarrow> (case alist_get ps name of None \<Rightarrow> Inl (NameUnknown name) | Some p \<Rightarrow> Inr p))"

section \<open>The specification\<close>

record bridge =
  br_Dir :: string
  br_Socket :: string
  br_Binary :: string
  br_Port :: int

record spec =
  sb_Profile :: profile
  sb_Workspace :: string
  sb_Home :: string
  sb_HostHome :: string
  sb_RyshDir :: string
  sb_GitCommonDir :: string
  sb_Argv :: "string list"
  sb_Env :: "string list"
  sb_Bridge :: "bridge option"
  sb_BusPorts :: "int list"
  sb_ProxyPort :: int
  sb_SetEnv :: "string list"
  sb_Rules :: path_rules
  sb_ID :: string

definition sensitiveHomePaths :: "string list" where
  "sensitiveHomePaths =
     [''.ssh'', ''.aws'', ''.rysh_env'', ''.gnupg'', ''.netrc'', ''.docker'', ''.kube'',
      ''.config/gcloud'', ''.azure'', ''Library/Keychains'', ''.claude'', ''.claude.json'', ''.codex'', ''.rysh-run'']"

definition SensitivePaths :: "host \<Rightarrow> string \<Rightarrow> string list" where
  "SensitivePaths h hostHome =
     map (\<lambda>p. path_join [hostHome, p]) sensitiveHomePaths @
     (if is_abs (h_runtime_dir h) then [path_join [path_clean (h_runtime_dir h), ''rysh'']] else []) @
     (if h_goos h = ''linux'' then [path_join [''/run/user'', itoa (int (h_uid h)), ''rysh'']] else [])"

section \<open>The environment inside\<close>

abbreviation MarkerEnv :: string where "MarkerEnv \<equiv> ''RYSH_SANDBOX''"
abbreviation ProxyDummyKey :: string where "ProxyDummyKey \<equiv> ''rysh-proxy-dummy''"

definition innerDropNames :: "string list" where
  "innerDropNames = [''SSH_AUTH_SOCK'', ''SSH_AGENT_PID'', ''HOME'', ''CLAUDE_CONFIG_DIR'', ''CODEX_HOME'', ''GNUPGHOME'',
     ''KUBECONFIG'', ''DOCKER_CONFIG'', ''DOCKER_HOST'', MarkerEnv]"

definition proxyDropNames :: "string list" where
  "proxyDropNames =
     [''ANTHROPIC_API_KEY'', ''ANTHROPIC_AUTH_TOKEN'', ''CLAUDE_CODE_OAUTH_TOKEN'',
      ''CLAUDE_CODE_OAUTH_REFRESH_TOKEN'', ''CLAUDE_CODE_SESSION_ACCESS_TOKEN'',
      ''CLAUDE_CODE_OAUTH_TOKEN_FILE_DESCRIPTOR'', ''CLAUDE_CODE_API_KEY_FILE_DESCRIPTOR'',
      ''CLAUDE_CODE_WEBSOCKET_AUTH_FILE_DESCRIPTOR'', ''CLAUDE_CODE_CLIENT_KEY'',
      ''ANTHROPIC_FOUNDRY_API_KEY'', ''ANTHROPIC_AWS_API_KEY'', ''ANTHROPIC_IDENTITY_TOKEN_FILE'',
      ''AWS_ACCESS_KEY_ID'', ''AWS_SECRET_ACCESS_KEY'', ''AWS_SESSION_TOKEN'', ''AWS_REGION'',
      ''AWS_DEFAULT_REGION'', ''AWS_PROFILE'', ''AWS_BEARER_TOKEN_BEDROCK'', ''AWS_SHARED_CREDENTIALS_FILE'',
      ''GOOGLE_APPLICATION_CREDENTIALS'', ''OPENAI_API_KEY'']"

definition proxySwitches :: "string list" where
  "proxySwitches = [''CLAUDE_CODE_USE_BEDROCK'', ''CLAUDE_CODE_USE_VERTEX'']"

definition innerParts :: "spec \<Rightarrow> string list \<Rightarrow> string list \<times> string list" where
  "innerParts s extraDrop =
     (if \<not> pr_Proxy (sb_Profile s) then (extraDrop, sb_SetEnv s)
      else (extraDrop @ proxyDropNames,
            sb_SetEnv s @ [''ANTHROPIC_API_KEY='' @ ProxyDummyKey, ''OPENAI_API_KEY='' @ ProxyDummyKey]))"

definition crosses :: "string list \<Rightarrow> string list \<Rightarrow> string \<Rightarrow> bool" where
  "crosses extraDrop sets kv \<longleftrightarrow>
     (let name = entry_name kv
      in name \<noteq> [] \<and> name \<notin> set innerDropNames \<and> name \<notin> set extraDrop \<and> name \<notin> entry_name ` set sets \<and>
         \<not> has_prefix name ''DOCKER_'' \<and> \<not> has_prefix name ''PODMAN_'')"

definition innerEnv :: "string list \<Rightarrow> string list \<Rightarrow> string list \<Rightarrow> string \<Rightarrow> string \<Rightarrow> string list" where
  "innerEnv env extraDrop sets home marker =
     filter (crosses extraDrop sets) env @ sets @ [''HOME='' @ home, MarkerEnv @ ''='' @ marker]"

definition isSetEnv :: "string list \<Rightarrow> string \<Rightarrow> string option" where
  "isSetEnv sets name = List.find (\<lambda>kv. entry_name kv = name) sets"

definition envNames :: "string list \<Rightarrow> string list" where
  "envNames env = sort (map entry_name env)"

section \<open>Provider URLs and ports\<close>

definition providerURLNames :: "string list" where
  "providerURLNames = [''ANTHROPIC_BASE_URL'', ''OPENAI_BASE_URL'']"

definition loopback_entry :: "decoders \<Rightarrow> string \<Rightarrow> (string \<times> int) option" where
  "loopback_entry dc kv =
     (if entry_name kv \<notin> set providerURLNames then None
      else case dc_url dc (trim_space (entry_value kv)) of
          None \<Rightarrow> None
        | Some (host, port) \<Rightarrow>
            if host \<notin> {''127.0.0.1'', ''localhost'', ''::1''} then None
            else case atoi port of None \<Rightarrow> None | Some p \<Rightarrow> if p \<le> 0 \<or> 65535 < p then None else Some (host, p))"

definition loopbackProviderURLs :: "decoders \<Rightarrow> string list \<Rightarrow> (string \<times> int) list" where
  "loopbackProviderURLs dc env = List.map_filter (loopback_entry dc) env"

definition LoopbackProxyPorts :: "decoders \<Rightarrow> string list \<Rightarrow> int list" where
  "LoopbackProxyPorts dc env = sort (dedup (map snd (loopbackProviderURLs dc env)))"

definition envValue :: "string list \<Rightarrow> string \<Rightarrow> string option" where
  "envValue env name = map_option (\<lambda>kv. drop (Suc (length name)) kv) (List.find (\<lambda>kv. has_prefix kv (name @ ''='')) env)"

definition SessionProxyPort :: "decoders \<Rightarrow> host \<Rightarrow> string \<Rightarrow> string list \<Rightarrow> int" where
  "SessionProxyPort dc h ryshDir env =
     (let name0 = trim_space (case envValue env ''RYSH_SESSION'' of None \<Rightarrow> [] | Some v \<Rightarrow> v);
          name = map (\<lambda>c. if c = slash then CHR ''-'' else c) name0
      in if name0 = [] \<or> ryshDir = [] \<or> name = ''.'' \<or> name = ''..'' then 0
         else case h_read h (path_join [ryshDir, ''sessions'', name @ ''.json'']) of
             Found data \<Rightarrow>
               (case dc_port dc data ''proxy_port'' of None \<Rightarrow> 0 | Some p \<Rightarrow> if p \<le> 0 \<or> 65535 < p then 0 else p)
           | _ \<Rightarrow> 0)"

abbreviation defaultBusPort :: int where "defaultBusPort \<equiv> 4222"

definition record_port :: "decoders \<Rightarrow> host \<Rightarrow> string \<Rightarrow> int option" where
  "record_port dc h f =
     (case h_read h f of
        Found data \<Rightarrow> (case dc_port dc data ''nats_port'' of Some p \<Rightarrow> if 0 < p \<and> p \<le> 65535 then Some p else None | None \<Rightarrow> None)
      | _ \<Rightarrow> None)"

definition env_bus_port :: "string \<Rightarrow> int option" where
  "env_bus_port kv =
     (case cut_prefix ''RYSH_NATS_PORT='' kv of
        None \<Rightarrow> None
      | Some v \<Rightarrow> (case atoi (trim_space v) of Some p \<Rightarrow> if 0 < p \<and> p \<le> 65535 then Some p else None | None \<Rightarrow> None))"

definition BusPorts :: "decoders \<Rightarrow> host \<Rightarrow> string \<Rightarrow> string list \<Rightarrow> int list" where
  "BusPorts dc h ryshDir env =
     sort (dedup (defaultBusPort #
       (if ryshDir = [] then [] else List.map_filter (record_port dc h) (h_glob h (path_join [ryshDir, ''sessions'', ''*.json'']))) @
       List.map_filter env_bus_port env))"

section \<open>Checking a specification\<close>

datatype spec_error =
  SpecName string
| NoCommand
| NotClean string
| WorkspaceMissing
| WorkspaceHoldsHome
| WorkspaceSensitive string
| WorkspaceDenied
| GitDirDenied
| CannotSet string
| SetOutsideHome string
| PortIsBus int
| PortNotProxy int
| HostNotLoopback string
| ProxyOff
| ProxySwitch string
| WorkspaceInRysh
| HomeInWorkspace

definition setEnvAllowed :: "string list" where
  "setEnvAllowed = [''CODEX_HOME'']"

fun check_set :: "string \<Rightarrow> string list \<Rightarrow> spec_error option" where
  "check_set home [] = None"
| "check_set home (kv # kvs) =
     (let n = entry_name kv; v = entry_value kv
      in if n \<notin> set setEnvAllowed then Some (CannotSet n)
         else if \<not> is_abs v \<or> path_clean v \<noteq> v \<or> \<not> within_path v home then Some (SetOutsideHome n)
         else check_set home kvs)"

fun check_urls :: "spec \<Rightarrow> (string \<times> int) list \<Rightarrow> spec_error option" where
  "check_urls s [] = None"
| "check_urls s ((host, port) # urls) =
     (if port \<in> set (sb_BusPorts s) then Some (PortIsBus port)
      else if sb_ProxyPort s = 0 \<or> port \<noteq> sb_ProxyPort s then Some (PortNotProxy port)
      else if pr_Proxy (sb_Profile s) \<and> host \<noteq> ''127.0.0.1'' then Some (HostNotLoopback host)
      else check_urls s urls)"

definition unclean :: "string \<Rightarrow> bool" where
  "unclean p \<longleftrightarrow> p = [] \<or> \<not> is_abs p \<or> path_clean p \<noteq> p"

definition switched_away :: "string list \<Rightarrow> string \<Rightarrow> bool" where
  "switched_away env sw \<longleftrightarrow> (case envValue env sw of None \<Rightarrow> False | Some v \<Rightarrow> trim_space v \<noteq> [])"

text \<open>The checks in their order: \<open>first_error\<close> is the first of them that fails.\<close>

fun first_error :: "'e option list \<Rightarrow> 'e option" where
  "first_error [] = None"
| "first_error (None # es) = first_error es"
| "first_error (Some e # es) = Some e"

definition error_if :: "bool \<Rightarrow> 'e \<Rightarrow> 'e option" where
  "error_if b e = (if b then Some e else None)"

definition CheckSpec :: "decoders \<Rightarrow> host \<Rightarrow> spec \<Rightarrow> spec_error option" where
  "CheckSpec dc h s =
     (let ws = sb_Workspace s; home = sb_Home s; hostHome = sb_HostHome s; rysh = sb_RyshDir s;
          proxy = pr_Proxy (sb_Profile s); urls = loopbackProviderURLs dc (sb_Env s)
      in first_error
        [error_if (\<not> ValidName (pr_Name (sb_Profile s))) (SpecName (pr_Name (sb_Profile s))),
         error_if (sb_Argv s = [] \<or> trim_space (hd (sb_Argv s)) = []) NoCommand,
         map_option NotClean (List.find unclean [ws, home, hostHome]),
         error_if (\<not> is_directory h ws) WorkspaceMissing,
         error_if (within_path hostHome ws) WorkspaceHoldsHome,
         map_option WorkspaceSensitive (List.find (within_path ws) (SensitivePaths h hostHome)),
         error_if (deniedByRules ws (sb_Rules s)) WorkspaceDenied,
         error_if (sb_GitCommonDir s \<noteq> [] \<and> deniedByRules (sb_GitCommonDir s) (sb_Rules s)) GitDirDenied,
         check_set home (sb_SetEnv s),
         check_urls s urls,
         error_if (proxy \<and> (urls = [] \<or> sb_ProxyPort s = 0)) ProxyOff,
         (if proxy then map_option ProxySwitch (List.find (switched_away (sb_Env s)) proxySwitches) else None),
         error_if (rysh \<noteq> [] \<and> within_path ws rysh) WorkspaceInRysh,
         error_if (rysh \<noteq> [] \<and> \<not> within_path home rysh \<and> within_path home ws) HomeInWorkspace])"

definition HomeDir :: "string \<Rightarrow> string \<Rightarrow> string" where
  "HomeDir ryshDir name = path_join [ryshDir, ''sandbox'', ''homes'', name]"

section \<open>The bridge\<close>

abbreviation BridgeMount :: string where "BridgeMount \<equiv> ''/run/rysh-proxy''"
abbreviation bridgeSocketName :: string where "bridgeSocketName \<equiv> ''bridge.sock''"

datatype upstream_error = UpstreamForm | UpstreamHost | UpstreamPort | UpstreamBus int

definition CheckUpstream :: "decoders \<Rightarrow> string \<Rightarrow> int list \<Rightarrow> upstream_error option" where
  "CheckUpstream dc upstream busPorts =
     (case dc_split dc upstream of
        None \<Rightarrow> Some UpstreamForm
      | Some (host, port) \<Rightarrow>
          if host \<noteq> ''127.0.0.1'' then Some UpstreamHost
          else case atoi port of
              None \<Rightarrow> Some UpstreamPort
            | Some p \<Rightarrow> if p \<le> 0 \<or> 65535 < p then Some UpstreamPort else if p \<in> set busPorts then Some (UpstreamBus p) else None)"

datatype bridge_error = NoBridge | BridgePort | BridgeMalformed

definition checkBridge :: "decoders \<Rightarrow> spec \<Rightarrow> bridge_error option" where
  "checkBridge dc s =
     (case sb_Bridge s of
        None \<Rightarrow> Some NoBridge
      | Some b \<Rightarrow>
          if br_Port b \<noteq> sb_ProxyPort s \<or> LoopbackProxyPorts dc (sb_Env s) \<noteq> [br_Port b] then Some BridgePort
          else if br_Socket b \<noteq> path_join [br_Dir b, bridgeSocketName] \<or> \<not> is_abs (br_Dir b) \<or> \<not> is_abs (br_Binary b)
          then Some BridgeMalformed else None)"

definition forwardArgv :: "int \<Rightarrow> string \<Rightarrow> string list \<Rightarrow> string list" where
  "forwardArgv port agent args =
     [BridgeMount @ ''/rysh'', ''sandbox-forward'', ''--listen'', ''127.0.0.1:'' @ itoa port,
      ''--socket'', BridgeMount @ ''/'' @ bridgeSocketName, ''--'', agent] @ args"

section \<open>Choosing the backend\<close>

datatype backend = Container | MacOS | Bwrap

fun backend_name :: "backend \<Rightarrow> string" where
  "backend_name Container = BackendContainer" | "backend_name MacOS = BackendMacOS" | "backend_name Bwrap = BackendBwrap"

datatype select_error = ProxyInVM string | NeedsMacOS string | NeedsLinux string | NetworkOn | UnknownBackend string

definition found_tool :: "host \<Rightarrow> string \<Rightarrow> bool" where
  "found_tool h t \<longleftrightarrow> (case h_tool h t of None \<Rightarrow> False | Some p \<Rightarrow> p \<noteq> [])"

definition auto_backend :: "host \<Rightarrow> profile \<Rightarrow> string" where
  "auto_backend h p =
     (if h_goos h = ''darwin'' then BackendMacOS
      else if h_goos h = ''linux'' \<and> found_tool h ''bwrap'' \<and> \<not> pr_Network p then BackendBwrap
      else BackendContainer)"

definition Select :: "host \<Rightarrow> profile \<Rightarrow> (select_error, backend) result" where
  "Select h p =
     (let goos = h_goos h; name = (if pr_Backend p = BackendAuto \<or> pr_Backend p = [] then auto_backend h p else pr_Backend p)
      in if name = BackendContainer then
           (if pr_Proxy p \<and> (goos = ''darwin'' \<or> goos = ''windows'') then Inl (ProxyInVM goos) else Inr Container)
         else if name = BackendMacOS then (if goos \<noteq> ''darwin'' then Inl (NeedsMacOS goos) else Inr MacOS)
         else if name = BackendBwrap then
           (if goos \<noteq> ''linux'' then Inl (NeedsLinux goos) else if pr_Network p then Inl NetworkOn else Inr Bwrap)
         else Inl (UnknownBackend name))"

section \<open>What a checked specification is\<close>

lemma first_error_None: "first_error es = None \<longleftrightarrow> (\<forall>e \<in> set es. e = None)"
  by (induction es rule: first_error.induct) auto

lemma when_None [simp]: "error_if b e = None \<longleftrightarrow> \<not> b"
  by (simp add: error_if_def)

lemma CheckSpec_passed:
  assumes "CheckSpec dc h s = None"
  shows "ValidName (pr_Name (sb_Profile s))" and "sb_Argv s \<noteq> []"
    and "clean_abs (sb_Workspace s)" and "clean_abs (sb_Home s)" and "clean_abs (sb_HostHome s)"
    and "\<not> within_path (sb_HostHome s) (sb_Workspace s)"
    and "p \<in> set (SensitivePaths h (sb_HostHome s)) \<Longrightarrow> \<not> within_path (sb_Workspace s) p"
    and "\<not> deniedByRules (sb_Workspace s) (sb_Rules s)"
    and "sb_GitCommonDir s \<noteq> [] \<Longrightarrow> \<not> deniedByRules (sb_GitCommonDir s) (sb_Rules s)"
    and "check_set (sb_Home s) (sb_SetEnv s) = None"
    and "check_urls s (loopbackProviderURLs dc (sb_Env s)) = None"
    and "pr_Proxy (sb_Profile s) \<Longrightarrow> loopbackProviderURLs dc (sb_Env s) \<noteq> [] \<and> sb_ProxyPort s \<noteq> 0"
    and "pr_Proxy (sb_Profile s) \<Longrightarrow> sw \<in> set proxySwitches \<Longrightarrow> \<not> switched_away (sb_Env s) sw"
    and "sb_RyshDir s \<noteq> [] \<Longrightarrow> \<not> within_path (sb_Workspace s) (sb_RyshDir s)"
    and "sb_RyshDir s \<noteq> [] \<Longrightarrow> within_path (sb_Home s) (sb_Workspace s) \<Longrightarrow> within_path (sb_Home s) (sb_RyshDir s)"
  using assms by (auto simp: CheckSpec_def Let_def first_error_None find_None_iff unclean_def clean_abs_def split: if_splits)

text \<open>Every provider URL of a checked specification is the session's proxy, and no port of the bus.\<close>

lemma check_urls_None: "check_urls s urls = None \<Longrightarrow> (host, port) \<in> set urls \<Longrightarrow>
   port = sb_ProxyPort s \<and> port \<noteq> 0 \<and> port \<notin> set (sb_BusPorts s) \<and> (pr_Proxy (sb_Profile s) \<longrightarrow> host = ''127.0.0.1'')"
  by (induction s urls rule: check_urls.induct) (auto split: if_splits)

lemma check_set_None: "check_set home kvs = None \<Longrightarrow> kv \<in> set kvs \<Longrightarrow>
   entry_name kv \<in> set setEnvAllowed \<and> clean_abs (entry_value kv) \<and> within_path (entry_value kv) home"
  by (induction home kvs rule: check_set.induct) (auto simp: Let_def clean_abs_def split: if_splits)

end
