(* ===== verification/SandboxGit.thy ===== *)
theory SandboxGit
  imports SandboxSpec
begin

text \<open>
  The git metadata a sandbox holds (\<open>internal/sandbox/sandbox.go\<close>): the git directories of a workspace,
  the walk over the git directories of its submodules, and the files that point at them. The walk is
  bounded by depth, so it is a recursion on the levels that are left.
\<close>

section \<open>Pointer files\<close>

definition gitDirOf :: "host \<Rightarrow> string \<Rightarrow> string" where
  "gitDirOf h ws =
     (case h_read h (path_join [ws, ''.git'']) of
        Found data \<Rightarrow>
          (case cut_prefix ''gitdir:'' (trim_space data) of
             None \<Rightarrow> []
           | Some g0 \<Rightarrow> let g = trim_space g0 in path_clean (if is_abs g then g else path_join [ws, g]))
      | _ \<Rightarrow> [])"

definition GitCommonDir :: "host \<Rightarrow> string \<Rightarrow> string" where
  "GitCommonDir h ws =
     (let gitdir = gitDirOf h ws
      in if gitdir = [] then []
         else path_clean (case h_read h (path_join [gitdir, ''commondir'']) of
             Found c \<Rightarrow> let cd = trim_space c in if is_abs cd then cd else path_join [gitdir, cd]
           | _ \<Rightarrow> gitdir))"

text \<open>The loop over the lines of a git directory's \<open>config\<close>: the first \<open>worktree\<close> of a \<open>core\<close> section.\<close>

definition trim_chars :: "string \<Rightarrow> string \<Rightarrow> string" where
  "trim_chars cs s = rev (dropWhile (\<lambda>c. c \<in> set cs) (rev (dropWhile (\<lambda>c. c \<in> set cs) s)))"

fun worktree_line :: "string \<Rightarrow> bool \<Rightarrow> string list \<Rightarrow> string" where
  "worktree_line gitDir inCore [] = []"
| "worktree_line gitDir inCore (l # ls) =
     (let line = trim_space l
      in if has_prefix line ''['' then worktree_line gitDir (equal_fold (trim_chars (''[] '' @ [CHR 0x09]) line) ''core'') ls
         else if \<not> inCore \<or> CHR ''='' \<notin> set line \<or> \<not> equal_fold (trim_space (entry_name line)) ''worktree''
         then worktree_line gitDir inCore ls
         else let v = trim_chars [CHR 0x22] (trim_space (entry_value line))
           in if v = [] then [] else path_clean (if is_abs v then v else path_join [gitDir, v]))"

definition coreWorktree :: "host \<Rightarrow> string \<Rightarrow> string" where
  "coreWorktree h gitDir =
     (case h_read h (path_join [gitDir, ''config'']) of
        Found data \<Rightarrow> worktree_line gitDir False (split_on (CHR 0x0A) data)
      | _ \<Rightarrow> [])"

section \<open>Git directories\<close>

definition gitMetaNames :: "string list" where
  "gitMetaNames = [''commondir'', ''config'', ''config.worktree'', ''gitdir'', ''hooks'']"

definition gitMetaCreatable :: "string list" where
  "gitMetaCreatable = [''hooks'', ''config.worktree'']"

datatype git_error = UnreadableModules | TooManyDirectories | ModulesTooDeep | TooManyModules

abbreviation maxModuleDirs :: nat where "maxModuleDirs \<equiv> 256"
abbreviation maxModuleDepth :: nat where "maxModuleDepth \<equiv> 8"
abbreviation maxModuleWalkDirs :: nat where "maxModuleWalkDirs \<equiv> 1024"

fun marker_in :: "host \<Rightarrow> string \<Rightarrow> string list \<Rightarrow> (git_error, bool) result" where
  "marker_in h dir [] = Inr False"
| "marker_in h dir (n # ns) =
     (case h_lstat h (path_join [dir, n]) of
        Missing \<Rightarrow> marker_in h dir ns
      | Unreadable \<Rightarrow> Inl UnreadableModules
      | Found k \<Rightarrow> if k = RegularFile then Inr True else marker_in h dir ns)"

definition isGitDirMarker :: "host \<Rightarrow> string \<Rightarrow> (git_error, bool) result" where
  "isGitDirMarker h dir = marker_in h dir [''HEAD'', ''config'']"

text \<open>
  The walk. The state is the git directories found and the directories entered; \<open>left\<close> is how many levels
  deeper it may go.
\<close>

type_synonym walk_state = "string list \<times> string list"

function walk_dir :: "host \<Rightarrow> nat \<Rightarrow> string \<Rightarrow> walk_state \<Rightarrow> (git_error, walk_state) result"
  and walk_entries :: "host \<Rightarrow> nat \<Rightarrow> string \<Rightarrow> (string \<times> file_kind) list \<Rightarrow> walk_state \<Rightarrow> (git_error, walk_state) result" where
  "walk_dir h left dir st =
     (case h_list h dir of
        Missing \<Rightarrow> Inr st
      | Unreadable \<Rightarrow> Inl UnreadableModules
      | Found es \<Rightarrow>
          if maxModuleWalkDirs \<le> length (snd st) then Inl TooManyDirectories
          else walk_entries h left dir es (fst st, snd st @ [dir]))"
| "walk_entries h left dir [] st = Inr st"
| "walk_entries h left dir ((n, k) # es) st =
     (if k \<noteq> Directory then walk_entries h left dir es st
      else case left of
          0 \<Rightarrow> Inl ModulesTooDeep
        | Suc l \<Rightarrow>
            let p = path_join [dir, n]
            in case isGitDirMarker h p of
                Inl e \<Rightarrow> Inl e
              | Inr marker \<Rightarrow>
                  if marker \<and> maxModuleDirs \<le> length (fst st) then Inl TooManyModules
                  else case (if marker then walk_dir h l (path_join [p, ''modules'']) (fst st @ [p], snd st)
                             else walk_dir h l p st) of
                      Inl e \<Rightarrow> Inl e
                    | Inr st' \<Rightarrow> walk_entries h left dir es st')"
  by pat_completeness auto
termination
  by (relation "measures [\<lambda>x. case x of Inl (h, left, d, st) \<Rightarrow> left | Inr (h, left, d, es, st) \<Rightarrow> left,
      \<lambda>x. case x of Inl _ \<Rightarrow> 1 | Inr _ \<Rightarrow> 0,
      \<lambda>x. case x of Inl _ \<Rightarrow> 0 | Inr (h, left, d, es, st) \<Rightarrow> length es]") auto

definition moduleGitDirs :: "host \<Rightarrow> string \<Rightarrow> (git_error, walk_state) result" where
  "moduleGitDirs h gitDir = walk_dir h maxModuleDepth (path_join [gitDir, ''modules'']) ([], [])"

definition gitBaseDirs :: "host \<Rightarrow> string \<Rightarrow> string \<Rightarrow> string list" where
  "gitBaseDirs h ws gitCommonDir =
     path_join [ws, ''.git''] #
     (if gitCommonDir = [] then []
      else gitCommonDir # (let gd = gitDirOf h ws in if gd \<noteq> [] \<and> gd \<noteq> gitCommonDir then [gd] else []))"

fun dirs_and_parents :: "host \<Rightarrow> string list \<Rightarrow> (git_error, walk_state) result" where
  "dirs_and_parents h [] = Inr ([], [])"
| "dirs_and_parents h (d # ds) =
     (case moduleGitDirs h d of
        Inl e \<Rightarrow> Inl e
      | Inr (mods, walked) \<Rightarrow>
          (case dirs_and_parents h ds of
             Inl e \<Rightarrow> Inl e
           | Inr (dirs, parents) \<Rightarrow> Inr (d # mods @ dirs, walked @ parents)))"

definition gitDirsAndModuleParents :: "host \<Rightarrow> string \<Rightarrow> string \<Rightarrow> (git_error, walk_state) result" where
  "gitDirsAndModuleParents h ws gitCommonDir = dirs_and_parents h (gitBaseDirs h ws gitCommonDir)"

definition gitMetaDirs :: "host \<Rightarrow> string \<Rightarrow> string \<Rightarrow> (git_error, string list) result" where
  "gitMetaDirs h ws gitCommonDir = map_sum id fst (gitDirsAndModuleParents h ws gitCommonDir)"

definition GitMetaPaths :: "host \<Rightarrow> string \<Rightarrow> string \<Rightarrow> (git_error, string list) result" where
  "GitMetaPaths h ws gitCommonDir =
     map_sum id (\<lambda>dirs. concat (map (\<lambda>dir. map (\<lambda>n. path_join [dir, n]) gitMetaNames) dirs)) (gitMetaDirs h ws gitCommonDir)"

definition not_a_directory :: "host \<Rightarrow> string \<Rightarrow> bool" where
  "not_a_directory h d \<longleftrightarrow> (case h_lstat h d of Found k \<Rightarrow> k \<noteq> Directory | _ \<Rightarrow> False)"

definition GitModuleParents :: "host \<Rightarrow> string \<Rightarrow> string \<Rightarrow> (git_error, string list) result" where
  "GitModuleParents h ws gitCommonDir =
     map_sum id (\<lambda>r. dedup (snd r @ map (\<lambda>d. path_join [d, ''modules''])
       (filter (\<lambda>d. \<not> not_a_directory h d) (gitBaseDirs h ws gitCommonDir))))
       (gitDirsAndModuleParents h ws gitCommonDir)"

definition submodule_pointer :: "host \<Rightarrow> string \<Rightarrow> string \<Rightarrow> string option" where
  "submodule_pointer h ws d =
     (let wt = coreWorktree h d
      in if wt = [] \<or> \<not> within_path wt ws \<or> wt = ws then None else Some (path_join [wt, ''.git'']))"

definition GitPins :: "host \<Rightarrow> string \<Rightarrow> string \<Rightarrow> (git_error, string list) result" where
  "GitPins h ws gitCommonDir =
     map_sum id (\<lambda>dirs. dirs @ List.map_filter (submodule_pointer h ws) dirs) (gitMetaDirs h ws gitCommonDir)"

section \<open>The walk finds every git directory\<close>

text \<open>
  What there is to find: the directories under a \<open>modules\<close> directory, following directories that are no
  git directory, and going on below \<open>modules\<close> of each git directory.
\<close>

inductive submodule :: "host \<Rightarrow> string \<Rightarrow> string \<Rightarrow> bool" for h where
  found: "h_list h dir = Found es \<Longrightarrow> (n, Directory) \<in> set es \<Longrightarrow> isGitDirMarker h (path_join [dir, n]) = Inr True \<Longrightarrow>
    submodule h dir (path_join [dir, n])"
| below: "h_list h dir = Found es \<Longrightarrow> (n, Directory) \<in> set es \<Longrightarrow> isGitDirMarker h (path_join [dir, n]) = Inr True \<Longrightarrow>
    submodule h (path_join [path_join [dir, n], ''modules'']) p \<Longrightarrow> submodule h dir p"
| through: "h_list h dir = Found es \<Longrightarrow> (n, Directory) \<in> set es \<Longrightarrow> isGitDirMarker h (path_join [dir, n]) = Inr False \<Longrightarrow>
    submodule h (path_join [dir, n]) p \<Longrightarrow> submodule h dir p"

inductive_cases submodule_cases: "submodule h dir p"

definition in_entry :: "host \<Rightarrow> string \<Rightarrow> string \<times> file_kind \<Rightarrow> string \<Rightarrow> bool" where
  "in_entry h dir e p \<longleftrightarrow> snd e = Directory \<and>
     (let q = path_join [dir, fst e]
      in isGitDirMarker h q = Inr True \<and> (p = q \<or> submodule h (path_join [q, ''modules'']) p) \<or>
         isGitDirMarker h q = Inr False \<and> submodule h q p)"

lemma in_entry_marked:
  "isGitDirMarker h (path_join [dir, n]) = Inr True \<Longrightarrow>
   {p. in_entry h dir (n, Directory) p} = insert (path_join [dir, n]) {p. submodule h (path_join [path_join [dir, n], ''modules'']) p}"
  "isGitDirMarker h (path_join [dir, n]) = Inr False \<Longrightarrow>
   {p. in_entry h dir (n, Directory) p} = {p. submodule h (path_join [dir, n]) p}"
  by (auto simp: in_entry_def Let_def)

lemma entries_Cons: "{p. \<exists>e \<in> set (x # es). in_entry h dir e p} = {p. in_entry h dir x p} \<union> {p. \<exists>e \<in> set es. in_entry h dir e p}"
  by auto

lemma submodule_entries: "h_list h dir = Found es \<Longrightarrow> submodule h dir p \<longleftrightarrow> (\<exists>e \<in> set es. in_entry h dir e p)"
proof
  assume es: "h_list h dir = Found es" and "submodule h dir p"
  from this(2) show "\<exists>e \<in> set es. in_entry h dir e p"
    by (cases rule: submodule_cases) (use es in \<open>force simp: in_entry_def Let_def\<close>)+
next
  assume es: "h_list h dir = Found es" and "\<exists>e \<in> set es. in_entry h dir e p"
  then obtain n where "(n, Directory) \<in> set es" "in_entry h dir (n, Directory) p" by (auto simp: in_entry_def)
  then show "submodule h dir p"
    using es by (auto simp: in_entry_def Let_def intro: found below through)
qed

lemma submodule_nothing: "(\<And>es. h_list h dir \<noteq> Found es) \<Longrightarrow> \<not> submodule h dir p"
  by (auto elim: submodule_cases)

text \<open>One step of the loop over the entries, when the walk ends well.\<close>

lemma walk_step:
  assumes "walk_entries h left dir ((n, Directory) # es) st = Inr st'"
  obtains l marker st1 where "left = Suc l" and "isGitDirMarker h (path_join [dir, n]) = Inr marker"
    and "\<not> (marker \<and> maxModuleDirs \<le> length (fst st))"
    and "(if marker then walk_dir h l (path_join [path_join [dir, n], ''modules'']) (fst st @ [path_join [dir, n]], snd st)
       else walk_dir h l (path_join [dir, n]) st) = Inr st1"
    and "walk_entries h left dir es st1 = Inr st'"
proof -
  let ?p = "path_join [dir, n]"
  obtain l where l: "left = Suc l" using assms by (cases left) auto
  obtain marker where marker: "isGitDirMarker h ?p = Inr marker"
    using assms l by (cases "isGitDirMarker h ?p") (auto simp: Let_def)
  have few: "\<not> (marker \<and> maxModuleDirs \<le> length (fst st))"
    using assms l marker by (auto simp: Let_def split: if_splits)
  let ?step = "if marker then walk_dir h l (path_join [?p, ''modules'']) (fst st @ [?p], snd st) else walk_dir h l ?p st"
  have "walk_entries h left dir ((n, Directory) # es) st = (case ?step of Inl e \<Rightarrow> Inl e | Inr st1 \<Rightarrow> walk_entries h left dir es st1)"
    using l marker few by (simp only: walk_entries.simps nat.case Let_def sum.case if_False not_True_eq_False simp_thms)
  then obtain st1 where "?step = Inr st1" "walk_entries h left dir es st1 = Inr st'"
    using assms by (cases ?step) simp_all
  then show ?thesis by (rule that [OF l marker few])
qed

text \<open>A walk that ends well has found exactly these, and stayed within its bounds.\<close>

definition bounded_from :: "walk_state \<Rightarrow> walk_state \<Rightarrow> bool" where
  "bounded_from st st' \<longleftrightarrow>
     (length (fst st) \<le> maxModuleDirs \<longrightarrow> length (fst st') \<le> maxModuleDirs) \<and>
     (length (snd st) \<le> maxModuleWalkDirs \<longrightarrow> length (snd st') \<le> maxModuleWalkDirs)"

lemma bounded_from_refl [simp]: "bounded_from st st"
  by (simp add: bounded_from_def)

lemma bounded_from_trans: "bounded_from a b \<Longrightarrow> bounded_from b c \<Longrightarrow> bounded_from a c"
  by (simp add: bounded_from_def)

lemma walk_exact:
  "walk_dir h left dir st = Inr st' \<Longrightarrow>
     set (fst st') = set (fst st) \<union> {p. submodule h dir p} \<and> bounded_from st st'"
  "walk_entries h left dir es st = Inr st' \<Longrightarrow>
     set (fst st') = set (fst st) \<union> {p. \<exists>e \<in> set es. in_entry h dir e p} \<and> bounded_from st st'"
proof (induction h left dir st and h left dir es st arbitrary: st' and st' rule: walk_dir_walk_entries.induct)
  case (1 h left dir st)
  show ?case
  proof (cases "h_list h dir")
    case (Found es)
    then have few: "\<not> maxModuleWalkDirs \<le> length (snd st)" and
      walk: "walk_entries h left dir es (fst st, snd st @ [dir]) = Inr st'"
      using 1(2) by (auto split: if_splits)
    have "bounded_from st (fst st, snd st @ [dir])" using few by (simp add: bounded_from_def)
    then show ?thesis using 1(1) [OF Found few walk] submodule_entries [OF Found] bounded_from_trans by auto
  qed (use 1(2) submodule_nothing in auto)
next
  case (2 h left dir st)
  then show ?case by simp
next
  case (3 h left dir n k es st)
  note ih = "3.IH" and run = "3.prems"
  show ?case
  proof (cases "k = Directory")
    case False
    then have "walk_entries h left dir es st = Inr st'" using run by simp
    then show ?thesis using ih(1) [OF False] False by (auto simp: in_entry_def)
  next
    case True
    then have dir: "\<not> k \<noteq> Directory" by simp
    let ?p = "path_join [dir, n]"
    obtain l marker st1 where l: "left = Suc l" and marker: "isGitDirMarker h ?p = Inr marker"
      and few: "\<not> (marker \<and> maxModuleDirs \<le> length (fst st))"
      and st1: "(if marker then walk_dir h l (path_join [?p, ''modules'']) (fst st @ [?p], snd st) else walk_dir h l ?p st) = Inr st1"
        "walk_entries h left dir es st1 = Inr st'"
      using walk_step run unfolding True by metis
    note rest = ih(4) [OF dir l refl marker few st1]
    show ?thesis
    proof (cases marker)
      case m: True
      then have "walk_dir h l (path_join [?p, ''modules'']) (fst st @ [?p], snd st) = Inr st1" using st1(1) by simp
      note here = ih(2) [OF dir l refl marker few m this]
      have "bounded_from st (fst st @ [?p], snd st)" using few m by (simp add: bounded_from_def)
      then have "bounded_from st st'"
        by (rule bounded_from_trans [OF bounded_from_trans [OF _ conjunct2 [OF here]] conjunct2 [OF rest]])
      moreover have "set (fst st') = set (fst st) \<union> {p. \<exists>e \<in> set ((n, Directory) # es). in_entry h dir e p}"
        unfolding entries_Cons in_entry_marked(1) [OF marker [simplified m]] using here rest
        by (simp only: fst_conv set_append list.set Un_assoc Un_insert_left Un_insert_right Un_empty_right Un_empty_left)
      ultimately show ?thesis unfolding True by blast
    next
      case m: False
      then have "walk_dir h l ?p st = Inr st1" using st1(1) by simp
      note here = ih(3) [OF dir l refl marker few m this]
      have "bounded_from st st'" by (rule bounded_from_trans [OF conjunct2 [OF here] conjunct2 [OF rest]])
      moreover have "set (fst st') = set (fst st) \<union> {p. \<exists>e \<in> set ((n, Directory) # es). in_entry h dir e p}"
        unfolding entries_Cons in_entry_marked(2) [OF marker [simplified m]] using here rest
        by (simp only: Un_assoc)
      ultimately show ?thesis unfolding True by blast
    qed
  qed
qed

lemma moduleGitDirs_exact:
  "moduleGitDirs h gitDir = Inr (out, walked) \<Longrightarrow>
   set out = {p. submodule h (path_join [gitDir, ''modules'']) p} \<and> length out \<le> maxModuleDirs \<and> length walked \<le> maxModuleWalkDirs"
  unfolding moduleGitDirs_def by (drule walk_exact(1)) (simp add: bounded_from_def)

lemma dirs_and_parents_exact:
  "dirs_and_parents h ds = Inr (dirs, parents) \<Longrightarrow>
   set dirs = set ds \<union> {p. \<exists>d \<in> set ds. submodule h (path_join [d, ''modules'']) p}"
proof (induction ds arbitrary: dirs parents)
  case (Cons d ds)
  then show ?case by (auto dest!: moduleGitDirs_exact split: sum.splits)
qed simp

end
