(* ===== verification/SandboxMounts.thy ===== *)
theory SandboxMounts
  imports SandboxGit
begin

text \<open>
  The two backends that expose paths by bind mounts: the container (\<open>internal/sandbox/container.go\<close>) and
  bubblewrap (\<open>bwrap.go\<close>), with the resolution of the agent's own files (\<open>macos.go\<close>). A plan is the command
  that is run in place of the agent, its environment and the mounts, in the order they are applied.

  The steps that build the list of mounts can each fail; \<open>add\<close> is the check of a path before it is
  mounted.
\<close>

record mount =
  mo_Host :: string
  mo_Target :: string
  mo_ReadOnly :: bool
  mo_Hidden :: bool

record sandbox_plan =
  pl_Backend :: string
  pl_Profile :: string
  pl_Argv :: "string list"
  pl_Env :: "string list"
  pl_InnerEnvNames :: "string list"
  pl_Mounts :: "mount list"
  pl_ContainerName :: string
  pl_Tool :: string
  pl_SBPL :: string

datatype agent_error = AgentNotFound | AgentUnresolved | AgentExposesHome string | AgentSensitive string

datatype prepare_error =
  BadSpec spec_error
| NoTool
| BadBridge bridge_error
| NoImage
| BadID string
| BadPath string
| ReadOnlyMissing string
| GitFailed git_error
| GitPrepare string
| NeverExposed string
| ReadOnlyUnreadable string
| NetworkRefused
| AgentRefused agent_error

section \<open>Results of steps\<close>

fun all_results :: "('e, 'a) result list \<Rightarrow> ('e, 'a list) result" where
  "all_results [] = Inr []"
| "all_results (Inl e # rs) = Inl e"
| "all_results (Inr x # rs) = (case all_results rs of Inl e \<Rightarrow> Inl e | Inr xs \<Rightarrow> Inr (x # xs))"

definition append_results :: "('e, 'a list) result list \<Rightarrow> ('e, 'a list) result" where
  "append_results rs = map_sum id concat (all_results rs)"

lemma all_results_map [simp]: "all_results (map Inr xs) = Inr xs"
  by (induction xs) simp_all

lemma all_results_Inr: "all_results rs = Inr xs \<longleftrightarrow> rs = map Inr xs"
proof
  show "all_results rs = Inr xs \<Longrightarrow> rs = map Inr xs"
    by (induction rs arbitrary: xs rule: all_results.induct) (auto split: sum.splits)
qed simp

lemma append_results_Inr: "append_results rs = Inr xs \<longleftrightarrow> (\<exists>xss. rs = map Inr xss \<and> xs = concat xss)"
  by (cases "all_results rs") (auto simp: append_results_def all_results_Inr)

section \<open>The agent's files\<close>

definition split_list :: "string \<Rightarrow> string list" where
  "split_list v = (if v = [] then [] else split_on (CHR '':'') v)"

definition path_dirs :: "string list \<Rightarrow> string list" where
  "path_dirs env = concat (map split_list (List.map_filter (cut_prefix ''PATH='') env))"

definition resolveInPath :: "host \<Rightarrow> string \<Rightarrow> string list \<Rightarrow> string option" where
  "resolveInPath h name env =
     (if slash \<in> set name then (if exists_at h name then path_abs (h_os h) name else None)
      else List.find (runnable h) (map (\<lambda>dir. path_join [dir, name]) (filter is_abs (path_dirs env))))"

text \<open>\<open>strings.Fields\<close>.\<close>

fun first_word :: "string \<Rightarrow> string \<times> string" where
  "first_word [] = ([], [])"
| "first_word (c # s) =
     (if list_ex (has_prefix (c # s)) space_encodings then ([], c # s)
      else let (w, r) = first_word s in (c # w, r))"

lemma first_word_rest: "length (snd (first_word s)) \<le> length s"
  by (induction s) (auto simp: case_prod_beta)

function words_of :: "string \<Rightarrow> string list" where
  "words_of s0 =
     (let s = trim_left_space s0 in if s = [] \<or> fst (first_word s) = [] then [] else fst (first_word s) # words_of (snd (first_word s)))"
  by pat_completeness auto

lemma first_word_append: "fst (first_word s) @ snd (first_word s) = s"
  by (induction s) (auto simp: case_prod_beta)

termination words_of
proof (relation "measure length", goal_cases)
  case (2 s0 s)
  have "length s \<le> length s0" using trim_left_space_suffix [of s0] 2(1) by (auto dest: suffix_length_le)
  moreover have "length (fst (first_word s)) + length (snd (first_word s)) = length s"
    using first_word_append [of s] by (metis length_append)
  ultimately show ?case using 2(2) by (cases "fst (first_word s)") auto
qed simp

declare words_of.simps [simp del]

definition scriptInterpreter :: "host \<Rightarrow> string \<Rightarrow> string list \<Rightarrow> string" where
  "scriptInterpreter h script env =
     (case h_read h script of
        Found data \<Rightarrow>
          (case cut_prefix ''#!'' (hd (split_on (CHR 0x0A) data)) of
             None \<Rightarrow> []
           | Some rest \<Rightarrow>
               (case words_of rest of
                  [] \<Rightarrow> []
                | prog # args \<Rightarrow>
                    if path_base prog = ''env'' then
                      (case List.find (\<lambda>a. \<not> has_prefix a ''-'') args of
                         None \<Rightarrow> []
                       | Some a \<Rightarrow> (case resolveInPath h a env of None \<Rightarrow> [] | Some p \<Rightarrow> p))
                    else prog))
      | _ \<Rightarrow> [])"

definition isAgentInstallUnderClaude :: "string \<Rightarrow> string \<Rightarrow> bool" where
  "isAgentInstallUnderClaude d home \<longleftrightarrow> within_path d (path_join [home, ''.claude'', ''local''])"

definition exposing_dir :: "host \<Rightarrow> spec \<Rightarrow> string \<Rightarrow> agent_error option" where
  "exposing_dir h s d =
     (if within_path (sb_HostHome s) d then Some (AgentExposesHome d)
      else if list_ex (\<lambda>sp. within_path d sp \<and> \<not> isAgentInstallUnderClaude d (sb_HostHome s)) (SensitivePaths h (sb_HostHome s))
      then Some (AgentSensitive d) else None)"

definition interpreter_paths :: "host \<Rightarrow> string \<Rightarrow> string list \<times> string list" where
  "interpreter_paths h interp =
     (if interp = [] then ([], [])
      else case os_eval (h_os h) interp of
          None \<Rightarrow> ([], [])
        | Some ri \<Rightarrow> ([path_dir (path_dir ri)], if ri \<noteq> interp then [interp] else []))"

text \<open>The agent, the directories it must read and the links on the way.\<close>

definition agentReadPaths :: "host \<Rightarrow> spec \<Rightarrow> (agent_error, string \<times> string list \<times> string list) result" where
  "agentReadPaths h s =
     (case resolveInPath h (hd (sb_Argv s)) (sb_Env s) of
        None \<Rightarrow> Inl AgentNotFound
      | Some agent \<Rightarrow>
          (case os_eval (h_os h) agent of
             None \<Rightarrow> Inl AgentUnresolved
           | Some real \<Rightarrow>
               let (dirs, lits) = interpreter_paths h (scriptInterpreter h real (sb_Env s));
                   readDirs = path_dir real # dirs; readLits = (if agent \<noteq> real then [agent] else []) @ lits
               in case first_error (map (exposing_dir h s) readDirs) of
                   Some e \<Rightarrow> Inl e
                 | None \<Rightarrow> Inr (agent, readDirs, readLits)))"

section \<open>Mounts\<close>

definition insideAny :: "string \<Rightarrow> string list \<Rightarrow> bool" where
  "insideAny p bases \<longleftrightarrow> list_ex (within_path p) bases"

definition isAnyOf :: "string \<Rightarrow> string list \<Rightarrow> bool" where
  "isAnyOf p ps \<longleftrightarrow> list_ex (\<lambda>b. p = b) ps"

definition bind_at :: "string \<Rightarrow> bool \<Rightarrow> mount" where
  "bind_at p ro = \<lparr>mo_Host = p, mo_Target = p, mo_ReadOnly = ro, mo_Hidden = False\<rparr>"

definition hide_at :: "string \<Rightarrow> mount" where
  "hide_at p = \<lparr>mo_Host = p, mo_Target = p, mo_ReadOnly = False, mo_Hidden = True\<rparr>"

definition add_with :: "string \<Rightarrow> mount \<Rightarrow> (prepare_error, mount) result" where
  "add_with bad m =
     (if contains_any (mo_Host m) bad then Inl (BadPath (mo_Host m))
      else if contains_any (mo_Target m) bad then Inl (BadPath (mo_Target m)) else Inr m)"

definition container_bad :: string where
  "container_bad = [CHR '','', CHR 0x0A, CHR 0x00]"

definition bwrap_bad :: string where
  "bwrap_bad = [CHR 0x00]"

definition add_all :: "string \<Rightarrow> mount list \<Rightarrow> (prepare_error, mount list) result" where
  "add_all bad ms = all_results (map (add_with bad) ms)"

definition rwAreas :: "spec \<Rightarrow> string list" where
  "rwAreas s =
     sb_Workspace s #
     (if sb_GitCommonDir s \<noteq> [] \<and> \<not> within_path (sb_GitCommonDir s) (sb_Workspace s) then [sb_GitCommonDir s] else [])"

definition base_mounts :: "spec \<Rightarrow> mount list" where
  "base_mounts s =
     [bind_at (sb_Workspace s) (verdictReadOnly (sb_Workspace s) (sb_Rules s)), bind_at (sb_Home s) False] @
     (if sb_GitCommonDir s \<noteq> [] \<and> \<not> within_path (sb_GitCommonDir s) (sb_Workspace s)
      then [bind_at (sb_GitCommonDir s) (verdictReadOnly (sb_GitCommonDir s) (sb_Rules s))] else [])"

definition outside_rules :: "spec \<Rightarrow> string \<Rightarrow> bool" where
  "outside_rules s p \<longleftrightarrow> \<not> insideAny p (rwAreas s) \<or> within_path p (sb_RyshDir s) \<or> deniedByRules p (sb_Rules s)"

definition parentDir :: "string \<Rightarrow> string" where
  "parentDir p = (let u = butlast (upto_slash p) in if u = [] then ''/'' else u)"

definition layer_mount :: "host \<Rightarrow> string \<Rightarrow> (string \<Rightarrow> string) \<Rightarrow> spec \<Rightarrow> layered_rule \<Rightarrow> (prepare_error, mount list) result" where
  "layer_mount h bad parent s l =
     (if outside_rules s (ly_Path l) \<or> isAnyOf (ly_Path l) (rwAreas s) then Inr []
      else if \<not> exists_at h (ly_Path l) then
        (if ly_ReadOnly l \<and> \<not> verdictReadOnly (parent (ly_Path l)) (sb_Rules s) then Inl (ReadOnlyMissing (ly_Path l)) else Inr [])
      else add_all bad [bind_at (ly_Path l) (ly_ReadOnly l)])"

definition layer_mounts :: "host \<Rightarrow> string \<Rightarrow> (string \<Rightarrow> string) \<Rightarrow> spec \<Rightarrow> (prepare_error, mount list) result" where
  "layer_mounts h bad parent s = append_results (map (layer_mount h bad parent s) (layered (sb_Rules s)))"

text \<open>
  The git metadata. An entry that is missing and may be created empty is created, and then mounted.
\<close>

definition meta_mount :: "host \<Rightarrow> string \<Rightarrow> string \<Rightarrow> string \<Rightarrow> (prepare_error, mount list) result" where
  "meta_mount h bad p n =
     (let mp = path_join [p, n]
      in case h_lstat h mp of
          Missing \<Rightarrow>
            if n \<notin> set gitMetaCreatable then Inr []
            else if \<not> h_create h mp then Inl (GitPrepare mp)
            else add_all bad [bind_at mp True]
        | Unreadable \<Rightarrow> Inr []
        | Found k \<Rightarrow> if k = SymbolicLink then Inr [] else add_all bad [bind_at mp True])"

definition pin_mount :: "host \<Rightarrow> string \<Rightarrow> spec \<Rightarrow> string \<Rightarrow> (prepare_error, mount list) result" where
  "pin_mount h bad s p =
     (if outside_rules s p then Inr []
      else case h_lstat h p of
          Found k \<Rightarrow>
            if k = SymbolicLink then Inr []
            else if k \<noteq> Directory then add_all bad [bind_at p True]
            else append_results
              ((if isAnyOf p (rwAreas s) then Inr [] else add_all bad [bind_at p (verdictReadOnly p (sb_Rules s))]) #
               map (meta_mount h bad p) gitMetaNames)
        | _ \<Rightarrow> Inr [])"

definition parent_mount :: "host \<Rightarrow> string \<Rightarrow> spec \<Rightarrow> string \<Rightarrow> (prepare_error, mount list) result" where
  "parent_mount h bad s p =
     (if outside_rules s p \<or> isAnyOf p (rwAreas s) \<or> h_lstat h p \<noteq> Found Directory then Inr []
      else add_all bad [bind_at p (verdictReadOnly p (sb_Rules s))])"

definition gitMounts :: "host \<Rightarrow> string \<Rightarrow> spec \<Rightarrow> (prepare_error, mount list) result" where
  "gitMounts h bad s =
     (case GitPins h (sb_Workspace s) (sb_GitCommonDir s) of
        Inl e \<Rightarrow> Inl (GitFailed e)
      | Inr pins \<Rightarrow>
          (case GitModuleParents h (sb_Workspace s) (sb_GitCommonDir s) of
             Inl e \<Rightarrow> Inl (GitFailed e)
           | Inr parents \<Rightarrow> append_results (map (parent_mount h bad s) parents @ map (pin_mount h bad s) pins)))"

definition hiddenByPolicy :: "host \<Rightarrow> string \<Rightarrow> spec \<Rightarrow> bool" where
  "hiddenByPolicy h p s \<longleftrightarrow>
     list_ex (\<lambda>sp. within_path p sp \<or> within_path sp p) (SensitivePaths h (sb_HostHome s)) \<or>
     within_path (sb_HostHome s) p \<or> list_ex (within_path p) (pt_Deny (sb_Rules s))"

definition extra_mount :: "host \<Rightarrow> string \<Rightarrow> spec \<Rightarrow> string \<Rightarrow> (prepare_error, mount list) result" where
  "extra_mount h bad s ro =
     (if hiddenByPolicy h ro s then Inl (NeverExposed ro)
      else if \<not> exists_at h ro then Inl (ReadOnlyUnreadable ro)
      else add_all bad [bind_at ro True])"

definition extra_mounts :: "host \<Rightarrow> string \<Rightarrow> spec \<Rightarrow> (prepare_error, mount list) result" where
  "extra_mounts h bad s = append_results (map (extra_mount h bad s) (pr_ReadOnly (sb_Profile s)))"

definition hidden_rules :: "host \<Rightarrow> spec \<Rightarrow> string list" where
  "hidden_rules h s =
     filter (\<lambda>d. linked_at h d \<and> insideAny d (rwAreas s @ pr_ReadOnly (sb_Profile s))) (pt_Deny (sb_Rules s)) @
     (if sb_RyshDir s \<noteq> [] \<and> within_path (sb_RyshDir s) (sb_Workspace s) then [sb_RyshDir s] else [])"

definition hidden_home :: "host \<Rightarrow> spec \<Rightarrow> string list" where
  "hidden_home h s = filter (\<lambda>sp. within_path sp (sb_Workspace s)) (SensitivePaths h (sb_HostHome s))"

definition by_depth :: "mount list \<Rightarrow> mount list" where
  "by_depth ms = sort_key (\<lambda>m. depth (mo_Target m)) ms"

definition container_mounts :: "host \<Rightarrow> spec \<Rightarrow> (prepare_error, mount list) result" where
  "container_mounts h s =
     map_sum id by_depth (append_results
       [add_all container_bad (base_mounts s), layer_mounts h container_bad path_dir s, gitMounts h container_bad s,
        extra_mounts h container_bad s, add_all container_bad (map hide_at (hidden_rules h s @ hidden_home h s))])"

definition bwrap_mounts :: "host \<Rightarrow> spec \<Rightarrow> string list \<Rightarrow> (prepare_error, mount list) result" where
  "bwrap_mounts h s reads =
     map_sum id by_depth (append_results
       [add_all bwrap_bad (base_mounts s), layer_mounts h bwrap_bad parentDir s, gitMounts h bwrap_bad s,
        extra_mounts h bwrap_bad s,
        add_all bwrap_bad (map (\<lambda>d. bind_at d True) (filter (\<lambda>d. \<not> insideAny d (rwAreas s) \<and> \<not> within_path d (sb_Home s)) reads)),
        add_all bwrap_bad (map hide_at (hidden_rules h s))])"

end
