(* ===== verification/SandboxConfines.thy ===== *)
theory SandboxConfines
  imports SandboxMounts CleanPaths
begin

text \<open>
  What the bind mounts of a plan let the agent see and write. Mounts are applied in order, and a later
  one lies on top of what it covers, so the last mount that covers a path decides about it.
\<close>

section \<open>The mount that decides\<close>

definition on_path :: "mount list \<Rightarrow> string \<Rightarrow> mount list" where
  "on_path ms p = filter (\<lambda>m. within_path p (mo_Target m)) ms"

definition deciding :: "mount list \<Rightarrow> string \<Rightarrow> mount option" where
  "deciding ms p = (if on_path ms p = [] then None else Some (last (on_path ms p)))"

definition can_write :: "mount list \<Rightarrow> string \<Rightarrow> bool" where
  "can_write ms p \<longleftrightarrow> (case deciding ms p of None \<Rightarrow> False | Some m \<Rightarrow> \<not> mo_ReadOnly m \<and> \<not> mo_Hidden m)"

definition can_see :: "mount list \<Rightarrow> string \<Rightarrow> bool" where
  "can_see ms p \<longleftrightarrow> (case deciding ms p of None \<Rightarrow> False | Some m \<Rightarrow> \<not> mo_Hidden m)"

text \<open>The last of a stable sort, in the order before the sort.\<close>

lemma last_filter: "xs \<noteq> [] \<Longrightarrow> P (last xs) \<Longrightarrow> last (filter P xs) = last xs"
  by (induction xs rule: rev_induct) auto

lemma last_sort_key:
  assumes "ys \<noteq> []"
  shows "\<exists>us vs. ys = us @ last (sort_key f ys) # vs \<and> (\<forall>u \<in> set us. f u \<le> f (last (sort_key f ys))) \<and>
    (\<forall>v \<in> set vs. f v < f (last (sort_key f ys)))"
proof -
  let ?m = "last (sort_key f ys)"
  let ?P = "\<lambda>y. f y = f ?m"
  have ne: "sort_key f ys \<noteq> []" using assms by (metis length_0_conv length_sort)
  have top: "f y \<le> f ?m" if "y \<in> set ys" for y
    using last_is_greatest [of f "sort_key f ys" y "\<lambda>_. True"] that by simp
  have "filter ?P (sort_key f ys) = filter ?P ys" by (rule sort_key_stable)
  then have l: "last (filter ?P ys) = ?m" using last_filter [OF ne, of ?P] by simp
  have "?m \<in> set ys" using last_in_set [OF ne] by simp
  then have "\<exists>y \<in> set ys. ?P y" by blast
  from split_list_last_prop [OF this] obtain us x vs where s: "ys = us @ x # vs" "?P x" "\<forall>v \<in> set vs. \<not> ?P v" by blast
  have "filter ?P vs = []" using s(3) by (simp add: filter_empty_conv)
  then have "last (filter ?P ys) = x" using s(1,2) by simp
  then have x: "x = ?m" using l by simp
  have below: "f v < f ?m" if v: "v \<in> set vs" for v
  proof -
    have "v \<in> set ys" using s(1) v by simp
    then show ?thesis using top s(3) v by (blast intro: le_neq_trans)
  qed
  have "f u \<le> f ?m" if "u \<in> set us" for u by (rule top) (use s(1) that in simp)
  then show ?thesis using s(1) x below by blast
qed

text \<open>The mount that decides, in the order before the sort: no other that covers the path is deeper, and none as deep comes later.\<close>

definition wins :: "mount list \<Rightarrow> mount \<Rightarrow> string \<Rightarrow> bool" where
  "wins ms m p \<longleftrightarrow> within_path p (mo_Target m) \<and>
     (\<exists>us vs. ms = us @ m # vs \<and>
       (\<forall>u \<in> set us. within_path p (mo_Target u) \<longrightarrow> depth (mo_Target u) \<le> depth (mo_Target m)) \<and>
       (\<forall>v \<in> set vs. within_path p (mo_Target v) \<longrightarrow> depth (mo_Target v) < depth (mo_Target m)))"

lemma filter_split:
  "filter P ys = us @ m # vs \<Longrightarrow> \<exists>us' vs'. ys = us' @ m # vs' \<and> filter P us' = us \<and> filter P vs' = vs \<and> P m"
proof (induction ys arbitrary: us)
  case (Cons y ys)
  show ?case
  proof (cases "P y")
    case False
    then obtain us' vs' where "ys = us' @ m # vs' \<and> filter P us' = us \<and> filter P vs' = vs \<and> P m"
      using Cons by auto
    then show ?thesis using False by (intro exI [of _ "y # us'"] exI [of _ vs']) simp
  next
    case True
    show ?thesis
    proof (cases us)
      case Nil
      then show ?thesis using Cons.prems True by (intro exI [of _ "[]"] exI [of _ ys]) simp
    next
      case (Cons u us2)
      then have "filter P ys = us2 @ m # vs" "y = u" using Cons.prems True by simp_all
      then obtain us' vs' where "ys = us' @ m # vs' \<and> filter P us' = us2 \<and> filter P vs' = vs \<and> P m"
        using Cons.IH by blast
      then show ?thesis using True Cons \<open>y = u\<close> by (intro exI [of _ "y # us'"] exI [of _ vs']) simp
    qed
  qed
qed simp

lemma deciding_wins: "deciding (by_depth ms) p = Some m \<Longrightarrow> wins ms m p"
proof -
  assume d: "deciding (by_depth ms) p = Some m"
  let ?f = "\<lambda>m. depth (mo_Target m)"
  have on: "on_path (by_depth ms) p = sort_key ?f (on_path ms p)"
    by (simp add: on_path_def by_depth_def filter_sort)
  have ne: "on_path ms p \<noteq> []" using d on by (auto simp: deciding_def)
  have m: "m = last (sort_key ?f (on_path ms p))" using d on by (simp add: deciding_def split: if_splits)
  obtain us vs where s: "on_path ms p = us @ m # vs" "\<forall>u \<in> set us. ?f u \<le> ?f m" "\<forall>v \<in> set vs. ?f v < ?f m"
    using last_sort_key [OF ne, of ?f] unfolding m by blast
  obtain us' vs' where split: "ms = us' @ m # vs'" "us = on_path us' p" "vs = on_path vs' p" "within_path p (mo_Target m)"
    using filter_split [OF s(1) [unfolded on_path_def]] by (auto simp: on_path_def)
  then show ?thesis using s(2,3) by (auto simp: wins_def on_path_def)
qed

lemma wins_member: "wins ms m p \<Longrightarrow> m \<in> set ms \<and> within_path p (mo_Target m)"
  by (auto simp: wins_def)

lemma wins_deepest: "wins ms m p \<Longrightarrow> m' \<in> set ms \<Longrightarrow> within_path p (mo_Target m') \<Longrightarrow> depth (mo_Target m') \<le> depth (mo_Target m)"
  by (auto simp: wins_def) (blast intro: less_imp_le)

lemma split_after: "A @ B = us @ m # vs \<Longrightarrow> m \<notin> set A \<Longrightarrow> \<exists>us'. us = A @ us' \<and> B = us' @ m # vs"
proof (induction A arbitrary: us)
  case (Cons a A)
  then show ?case by (cases us) auto
qed simp

lemma split_before: "A @ B = us @ m # vs \<Longrightarrow> m \<notin> set B \<Longrightarrow> \<exists>vs'. A = us @ m # vs' \<and> vs = vs' @ B"
proof (induction us arbitrary: A)
  case Nil
  then show ?case by (cases A) auto
next
  case (Cons u us)
  then show ?case by (cases A) auto
qed

text \<open>Against a mount of a later stage, the deciding one is deeper.\<close>

lemma wins_later:
  assumes "wins (A @ B) m p" and "m \<notin> set B" and "m' \<in> set B" and "within_path p (mo_Target m')"
  shows "depth (mo_Target m') < depth (mo_Target m)"
proof -
  obtain us vs where s: "A @ B = us @ m # vs" "\<forall>v \<in> set vs. within_path p (mo_Target v) \<longrightarrow> depth (mo_Target v) < depth (mo_Target m)"
    using assms(1) by (auto simp: wins_def)
  have "set B \<subseteq> set vs" using split_before [OF s(1) assms(2)] by auto
  then show ?thesis using assms(3,4) s(2) by blast
qed

text \<open>What decides about a path decides about what lies between it and the path.\<close>

lemma wins_above:
  assumes "wins ms m q" and "within_path p (mo_Target m)" and "\<And>m'. m' \<in> set ms \<Longrightarrow> within_path p (mo_Target m') \<Longrightarrow> within_path q (mo_Target m')"
  shows "wins ms m p"
proof -
  obtain us vs where s: "ms = us @ m # vs"
    "\<forall>u \<in> set us. within_path q (mo_Target u) \<longrightarrow> depth (mo_Target u) \<le> depth (mo_Target m)"
    "\<forall>v \<in> set vs. within_path q (mo_Target v) \<longrightarrow> depth (mo_Target v) < depth (mo_Target m)"
    using assms(1) by (auto simp: wins_def)
  then show ?thesis using assms(2,3) unfolding wins_def by (intro conjI exI [of _ us] exI [of _ vs]) auto
qed

section \<open>The stages\<close>

lemma add_all_Inr: "add_all bad ms = Inr xs \<Longrightarrow> xs = ms"
proof -
  assume "add_all bad ms = Inr xs"
  then have "map (add_with bad) ms = map Inr xs" by (simp add: add_all_def all_results_Inr)
  then show "xs = ms"
    by (induction ms arbitrary: xs) (auto simp: add_with_def split: if_splits)
qed

lemma append_results_InrE:
  assumes "append_results rs = Inr xs"
  obtains xss where "rs = map Inr xss" and "xs = concat xss"
  using assms append_results_Inr [of rs xs] by (elim iffE) (erule impE, assumption, erule exE, erule conjE, rule that)

lemma append_map_Inr:
  assumes "append_results (map g xs) = Inr ys" and "x \<in> set xs"
  shows "\<exists>zs. g x = Inr zs \<and> set zs \<subseteq> set ys"
proof -
  obtain xss where s: "map g xs = map Inr xss" "ys = concat xss" using assms(1) by (auto simp: append_results_Inr)
  obtain i where i: "i < length xs" "x = xs ! i" using assms(2) by (auto simp: in_set_conv_nth)
  have "length xss = length xs" using s(1) by (metis length_map)
  then have "xss ! i \<in> set xss" "g x = Inr (xss ! i)" using i s(1) by (simp, metis nth_map)
  then show ?thesis using s(2) by auto
qed

lemma append_map_member:
  assumes "append_results (map g xs) = Inr ys" and "y \<in> set ys"
  shows "\<exists>x \<in> set xs. \<exists>zs. g x = Inr zs \<and> y \<in> set zs"
proof -
  obtain xss where s: "map g xs = map Inr xss" "ys = concat xss" using assms(1) by (auto simp: append_results_Inr)
  then obtain zs where zs: "zs \<in> set xss" "y \<in> set zs" using assms(2) by auto
  then have "Inr zs \<in> g ` set xs" using s(1) by (metis image_eqI image_set)
  then obtain x where "x \<in> set xs" "g x = Inr zs" by (metis imageE)
  then show ?thesis using zs(2) by blast
qed

text \<open>A plan's mounts before the sort: the areas, the policy's layers, git's metadata, the extras, and what is hidden.\<close>

definition staged :: "host \<Rightarrow> string \<Rightarrow> (string \<Rightarrow> string) \<Rightarrow> spec \<Rightarrow> mount list \<Rightarrow> string list \<Rightarrow> (prepare_error, mount list) result" where
  "staged h bad parent s reads hides =
     append_results [add_all bad (base_mounts s), layer_mounts h bad parent s, gitMounts h bad s, extra_mounts h bad s,
       add_all bad reads, add_all bad (map hide_at hides)]"

definition agent_reads :: "spec \<Rightarrow> string list \<Rightarrow> mount list" where
  "agent_reads s reads = map (\<lambda>d. bind_at d True) (filter (\<lambda>d. \<not> insideAny d (rwAreas s) \<and> \<not> within_path d (sb_Home s)) reads)"

lemma container_staged:
  "container_mounts h s = map_sum id by_depth (staged h container_bad path_dir s [] (hidden_rules h s @ hidden_home h s))"
proof -
  have "append_results [a, b, c, d, Inr [], e] = append_results [a, b, c, d, e]" for a b c d e :: "(prepare_error, mount list) result"
    unfolding append_results_def by (cases a; cases b; cases c; cases d; cases e) simp_all
  then show ?thesis by (simp add: container_mounts_def staged_def add_all_def)
qed

lemma bwrap_staged:
  "bwrap_mounts h s reads = map_sum id by_depth (staged h bwrap_bad parentDir s (agent_reads s reads) (hidden_rules h s))"
  by (simp add: bwrap_mounts_def staged_def agent_reads_def)

lemma stagedE:
  assumes "staged h bad parent s reads hides = Inr ms"
  obtains L G E where "ms = base_mounts s @ L @ G @ E @ reads @ map hide_at hides"
    and "layer_mounts h bad parent s = Inr L" and "gitMounts h bad s = Inr G" and "extra_mounts h bad s = Inr E"
proof -
  obtain xss where x: "[add_all bad (base_mounts s), layer_mounts h bad parent s, gitMounts h bad s, extra_mounts h bad s,
       add_all bad reads, add_all bad (map hide_at hides)] = map Inr xss" "ms = concat xss"
    by (rule append_results_InrE [OF assms [unfolded staged_def]])
  then obtain B L G E R H where xss: "xss = [B, L, G, E, R, H]" by (auto simp: map_eq_Cons_conv Cons_eq_map_conv)
  then have "add_all bad (base_mounts s) = Inr B" "layer_mounts h bad parent s = Inr L" "gitMounts h bad s = Inr G"
    "extra_mounts h bad s = Inr E" "add_all bad reads = Inr R" "add_all bad (map hide_at hides) = Inr H"
    using x(1) by simp_all
  then show ?thesis using that [of L G E] x(2) xss by (auto dest!: add_all_Inr)
qed

lemma bind_at_fields [simp]:
  "mo_Target (bind_at p b) = p" "mo_ReadOnly (bind_at p b) = b" "\<not> mo_Hidden (bind_at p b)"
  "mo_Target (hide_at p) = p" "mo_Hidden (hide_at p)" "bind_at p b = bind_at p' b' \<longleftrightarrow> p = p' \<and> b = b'" "bind_at p b \<noteq> hide_at p'"
  by (simp_all add: bind_at_def hide_at_def)

lemma base_member: "m \<in> set (base_mounts s) \<longleftrightarrow>
   m = bind_at (sb_Home s) False \<or> (\<exists>a \<in> set (rwAreas s). m = bind_at a (verdictReadOnly a (sb_Rules s)))"
  by (auto simp: base_mounts_def rwAreas_def)

lemma layer_member:
  assumes "layer_mounts h bad parent s = Inr L" and "m \<in> set L"
  shows "\<exists>l \<in> set (layered (sb_Rules s)). m = bind_at (ly_Path l) (ly_ReadOnly l) \<and>
    \<not> outside_rules s (ly_Path l) \<and> \<not> isAnyOf (ly_Path l) (rwAreas s) \<and> exists_at h (ly_Path l)"
proof -
  from append_map_member [OF assms(1) [unfolded layer_mounts_def] assms(2)]
  obtain l zs where l: "l \<in> set (layered (sb_Rules s))" "layer_mount h bad parent s l = Inr zs" "m \<in> set zs" by blast
  then show ?thesis by (auto simp: layer_mount_def split: if_splits dest!: add_all_Inr)
qed

lemma layer_rw_member:
  "layer_mounts h bad parent s = Inr L \<Longrightarrow> m \<in> set L \<Longrightarrow>
   \<exists>t. m = bind_at t (mo_ReadOnly m) \<and> \<not> outside_rules s t \<and> \<not> isAnyOf t (rwAreas s) \<and> exists_at h t \<and>
     (if mo_ReadOnly m then t \<in> set (pt_ReadOnly (sb_Rules s)) else t \<in> set (pt_ReadWrite (sb_Rules s)))"
  by (drule (1) layer_member) (auto simp: layered_def)

lemma layer_present:
  assumes "layer_mounts h bad parent s = Inr L" and "S \<in> set (pt_ReadOnly (sb_Rules s))"
    and "\<not> outside_rules s S" and "\<not> isAnyOf S (rwAreas s)"
  shows "bind_at S True \<in> set L \<or> \<not> exists_at h S \<and> verdictReadOnly (parent S) (sb_Rules s)"
proof -
  have "\<lparr>ly_Path = S, ly_ReadOnly = True\<rparr> \<in> set (layered (sb_Rules s))" using assms(2) by (auto simp: layered_def)
  from append_map_Inr [OF assms(1) [unfolded layer_mounts_def] this] obtain zs where
    zs: "layer_mount h bad parent s \<lparr>ly_Path = S, ly_ReadOnly = True\<rparr> = Inr zs" "set zs \<subseteq> set L" by blast
  then show ?thesis using assms(3,4) by (auto simp: layer_mount_def split: if_splits dest!: add_all_Inr)
qed

definition mount_key :: "mount \<Rightarrow> nat" where
  "mount_key m = 2 * depth (mo_Target m) + (if mo_ReadOnly m then 1 else 0)"

lemma layer_sorted:
  assumes "layer_mounts h bad parent s = Inr L"
  shows "sorted (map mount_key L)"
proof -
  have "sorted (map mount_key L) \<and> (\<forall>m \<in> set L. \<exists>l \<in> set ls. mount_key m = layer_key l)"
    if "append_results (map (layer_mount h bad parent s) ls) = Inr L" "sorted (map layer_key ls)" for ls L
    using that
  proof (induction ls arbitrary: L)
    case Nil
    then show ?case by (simp add: append_results_def)
  next
    case (Cons l ls)
    obtain xss where "map (layer_mount h bad parent s) (l # ls) = map Inr xss" "L = concat xss"
      by (rule append_results_InrE [OF Cons.prems(1)])
    then obtain z zs where z: "layer_mount h bad parent s l = Inr z" "map (layer_mount h bad parent s) ls = map Inr zs" "L = z @ concat zs"
      by (cases xss) auto
    then have "append_results (map (layer_mount h bad parent s) ls) = Inr (concat zs)" by (auto simp: append_results_Inr)
    note ih = Cons.IH [OF this]
    have "z = [] \<or> z = [bind_at (ly_Path l) (ly_ReadOnly l)]"
      using z(1) by (auto simp: layer_mount_def split: if_splits dest!: add_all_Inr)
    moreover have "mount_key (bind_at (ly_Path l) (ly_ReadOnly l)) = layer_key l" by (simp add: mount_key_def layer_key_def)
    ultimately show ?case using ih Cons.prems(2) z(3) by (fastforce simp: sorted_append)
  qed
  then show ?thesis using assms by (simp add: layer_mounts_def layered_def)
qed

text \<open>The metadata mounts: what can be written through them has the policy's verdict.\<close>

lemma meta_member: "meta_mount h bad p n = Inr zs \<Longrightarrow> m \<in> set zs \<Longrightarrow> m = bind_at (path_join [p, n]) True"
  by (auto simp: meta_mount_def Let_def split: if_splits looked_up.splits dest!: add_all_Inr)

lemma pin_member:
  assumes "pin_mount h bad s p = Inr zs" and "m \<in> set zs"
  shows "\<not> outside_rules s p \<and> (m = bind_at p True \<or> m = bind_at p (verdictReadOnly p (sb_Rules s)) \<or> (\<exists>n \<in> set gitMetaNames. m = bind_at (path_join [p, n]) True))"
proof -
  have out: "\<not> outside_rules s p" using assms by (auto simp: pin_mount_def split: if_splits)
  then obtain k where k: "h_lstat h p = Found k" using assms by (cases "h_lstat h p") (auto simp: pin_mount_def)
  show ?thesis
  proof (cases "k = Directory")
    case False
    then show ?thesis using assms out k by (auto simp: pin_mount_def split: if_splits dest!: add_all_Inr)
  next
    case True
    let ?self = "if isAnyOf p (rwAreas s) then Inr [] else add_all bad [bind_at p (verdictReadOnly p (sb_Rules s))]"
    have "append_results (?self # map (meta_mount h bad p) gitMetaNames) = Inr zs"
      using assms(1) out k True by (simp add: pin_mount_def)
    then obtain xss where "?self # map (meta_mount h bad p) gitMetaNames = map Inr xss" "zs = concat xss"
      by (rule append_results_InrE)
    then obtain y ys where y: "?self = Inr y" "map (meta_mount h bad p) gitMetaNames = map Inr ys" "zs = y @ concat ys"
      by (cases xss) auto
    then have "append_results (map (meta_mount h bad p) gitMetaNames) = Inr (concat ys)" by (auto simp: append_results_Inr)
    from append_map_member [OF this] have "m \<in> set (concat ys) \<Longrightarrow> \<exists>n \<in> set gitMetaNames. m = bind_at (path_join [p, n]) True"
      using meta_member by blast
    moreover have "m \<in> set y \<Longrightarrow> m = bind_at p (verdictReadOnly p (sb_Rules s))"
      using y(1) by (auto split: if_splits dest!: add_all_Inr)
    ultimately show ?thesis using assms(2) y(3) out by auto
  qed
qed

definition git_path :: "host \<Rightarrow> spec \<Rightarrow> string \<Rightarrow> bool" where
  "git_path h s p \<longleftrightarrow>
     (\<exists>pins. GitPins h (sb_Workspace s) (sb_GitCommonDir s) = Inr pins \<and> p \<in> set pins) \<or>
     (\<exists>parents. GitModuleParents h (sb_Workspace s) (sb_GitCommonDir s) = Inr parents \<and> p \<in> set parents)"

lemma git_member:
  assumes "gitMounts h bad s = Inr G" and "m \<in> set G"
  shows "\<exists>p. git_path h s p \<and> \<not> outside_rules s p \<and>
    (m = bind_at p True \<or> m = bind_at p (verdictReadOnly p (sb_Rules s)) \<or> (\<exists>n \<in> set gitMetaNames. m = bind_at (path_join [p, n]) True))"
proof -
  obtain pins parents where g: "GitPins h (sb_Workspace s) (sb_GitCommonDir s) = Inr pins"
    "GitModuleParents h (sb_Workspace s) (sb_GitCommonDir s) = Inr parents"
    using assms(1) by (auto simp: gitMounts_def split: sum.splits)
  then have "append_results (map (parent_mount h bad s) parents @ map (pin_mount h bad s) pins) = Inr G"
    using assms(1) by (simp add: gitMounts_def)
  then obtain xss where x: "map (parent_mount h bad s) parents @ map (pin_mount h bad s) pins = map Inr xss" "G = concat xss"
    by (rule append_results_InrE)
  then obtain us vs where uv: "map (parent_mount h bad s) parents = map Inr us" "map (pin_mount h bad s) pins = map Inr vs"
    "G = concat us @ concat vs"
    by (auto simp: append_eq_map_conv)
  have parent: "append_results (map (parent_mount h bad s) parents) = Inr (concat us)" using uv(1) by (auto simp: append_results_Inr)
  have pin: "append_results (map (pin_mount h bad s) pins) = Inr (concat vs)" using uv(2) by (auto simp: append_results_Inr)
  from assms(2) uv(3) consider "m \<in> set (concat us)" | "m \<in> set (concat vs)" by auto
  then show ?thesis
  proof cases
    case 1
    from append_map_member [OF parent 1] obtain p zs where
      "p \<in> set parents" "parent_mount h bad s p = Inr zs" "m \<in> set zs" by blast
    then show ?thesis using g(2) by (auto simp: git_path_def parent_mount_def split: if_splits dest!: add_all_Inr)
  next
    case 2
    from append_map_member [OF pin 2] obtain p zs where
      "p \<in> set pins" "pin_mount h bad s p = Inr zs" "m \<in> set zs" by blast
    then show ?thesis using g(1) pin_member [of h bad s p zs m] by (auto simp: git_path_def)
  qed
qed

lemma extra_member:
  assumes "extra_mounts h bad s = Inr E" and "m \<in> set E"
  shows "\<exists>p \<in> set (pr_ReadOnly (sb_Profile s)). m = bind_at p True \<and> \<not> hiddenByPolicy h p s"
proof -
  from append_map_member [OF assms(1) [unfolded extra_mounts_def] assms(2)] obtain p zs where
    "p \<in> set (pr_ReadOnly (sb_Profile s))" "extra_mount h bad s p = Inr zs" "m \<in> set zs" by blast
  then show ?thesis by (auto simp: extra_mount_def split: if_splits dest!: add_all_Inr)
qed

lemma extra_kept:
  assumes "extra_mounts h bad s = Inr E" and "p \<in> set (pr_ReadOnly (sb_Profile s))"
  shows "\<not> hiddenByPolicy h p s"
  using append_map_Inr [OF assms(1) [unfolded extra_mounts_def] assms(2)] by (auto simp: extra_mount_def split: if_splits)

section \<open>Clean paths\<close>

lemma path_join_clean: "is_abs a \<Longrightarrow> clean_abs (path_join (a # ps))"
proof -
  assume a: "is_abs a"
  then have "a \<noteq> []" by (auto simp: is_abs_def)
  then have "path_join (a # ps) = path_clean (join_with ''/'' (a # ps))" by (simp add: path_join_def)
  moreover have "is_abs (join_with ''/'' (a # ps))"
    using a by (cases ps) (auto simp: is_abs_def has_prefix_iff prefix_def)
  ultimately show ?thesis by (simp add: path_clean_clean)
qed

lemma clean_is_abs: "clean_abs p \<Longrightarrow> is_abs p"
  by (simp add: clean_abs_def)

lemma gitDirOf_clean: "is_abs ws \<Longrightarrow> gitDirOf h ws = [] \<or> clean_abs (gitDirOf h ws)"
  using path_join_clean [of ws]
  by (auto simp: gitDirOf_def Let_def intro: path_clean_clean clean_is_abs split: looked_up.split option.split)

lemma gitBaseDirs_clean: "clean_abs ws \<Longrightarrow> gc = [] \<or> clean_abs gc \<Longrightarrow> d \<in> set (gitBaseDirs h ws gc) \<Longrightarrow> clean_abs d"
  using gitDirOf_clean [OF clean_is_abs, of ws h] path_join_clean [OF clean_is_abs, of ws]
  by (auto simp: gitBaseDirs_def Let_def split: if_splits)

lemma submodule_clean: "submodule h dir p \<Longrightarrow> clean_abs dir \<Longrightarrow> clean_abs p"
  by (induction rule: submodule.induct) (auto intro: path_join_clean clean_is_abs)

lemma walk_clean:
  "walk_dir h left dir st = Inr st' \<Longrightarrow> clean_abs dir \<Longrightarrow> \<forall>p \<in> set (snd st). clean_abs p \<Longrightarrow> \<forall>p \<in> set (snd st'). clean_abs p"
  "walk_entries h left dir es st = Inr st' \<Longrightarrow> clean_abs dir \<Longrightarrow> \<forall>p \<in> set (snd st). clean_abs p \<Longrightarrow> \<forall>p \<in> set (snd st'). clean_abs p"
proof (induction h left dir st and h left dir es st arbitrary: st' and st' rule: walk_dir_walk_entries.induct)
  case (1 h left dir st)
  show ?case
  proof (cases "h_list h dir")
    case (Found es)
    then have few: "\<not> maxModuleWalkDirs \<le> length (snd st)" and
      walk: "walk_entries h left dir es (fst st, snd st @ [dir]) = Inr st'"
      using 1(2) by (auto split: if_splits)
    show ?thesis by (rule 1(1) [OF Found few walk]) (use 1(3,4) in auto)
  qed (use 1(2,4) in auto)
next
  case (2 h left dir st)
  then show ?case by simp
next
  case (3 h left dir n k es st)
  note ih = "3.IH" and run = "3.prems"
  show ?case
  proof (cases "k = Directory")
    case False
    then have "walk_entries h left dir es st = Inr st'" using run(1) by simp
    then show ?thesis using ih(1) [OF False] run(2,3) by blast
  next
    case True
    then have dir: "\<not> k \<noteq> Directory" by simp
    let ?p = "path_join [dir, n]"
    have p: "clean_abs ?p" "clean_abs (path_join [?p, ''modules''])" by (simp_all add: path_join_clean clean_is_abs run(2))
    obtain l marker st1 where l: "left = Suc l" and marker: "isGitDirMarker h ?p = Inr marker"
      and few: "\<not> (marker \<and> maxModuleDirs \<le> length (fst st))"
      and st1: "(if marker then walk_dir h l (path_join [?p, ''modules'']) (fst st @ [?p], snd st) else walk_dir h l ?p st) = Inr st1"
        "walk_entries h left dir es st1 = Inr st'"
      using walk_step run(1) unfolding True by metis
    have "\<forall>p \<in> set (snd st1). clean_abs p"
    proof (cases marker)
      case m: True
      then have "walk_dir h l (path_join [?p, ''modules'']) (fst st @ [?p], snd st) = Inr st1" using st1(1) by simp
      from ih(2) [OF dir l refl marker few m this p(2)] show ?thesis using run(3) by simp
    next
      case m: False
      then have "walk_dir h l ?p st = Inr st1" using st1(1) by simp
      from ih(3) [OF dir l refl marker few m this p(1) run(3)] show ?thesis .
    qed
    from ih(4) [OF dir l refl marker few st1 run(2) this] show ?thesis .
  qed
qed

lemma dirs_and_parents_clean:
  "dirs_and_parents h ds = Inr (dirs, parents) \<Longrightarrow> \<forall>d \<in> set ds. clean_abs d \<Longrightarrow>
   (\<forall>d \<in> set dirs. clean_abs d) \<and> (\<forall>d \<in> set parents. clean_abs d)"
proof (induction ds arbitrary: dirs parents)
  case (Cons d ds)
  obtain mods walked dirs' parents' where r: "moduleGitDirs h d = Inr (mods, walked)"
    "dirs_and_parents h ds = Inr (dirs', parents')" "dirs = d # mods @ dirs'" "parents = walked @ parents'"
    using Cons.prems(1) by (auto split: sum.splits)
  have d: "clean_abs (path_join [d, ''modules''])" using Cons.prems(2) by (auto intro: path_join_clean clean_is_abs)
  have "\<forall>p \<in> set mods. clean_abs p" using moduleGitDirs_exact [OF r(1)] submodule_clean [OF _ d] by blast
  moreover have "\<forall>p \<in> set walked. clean_abs p"
    using walk_clean(1) [OF r(1) [unfolded moduleGitDirs_def] d] by simp
  moreover have "(\<forall>d \<in> set dirs'. clean_abs d) \<and> (\<forall>d \<in> set parents'. clean_abs d)"
    by (rule Cons.IH [OF r(2)]) (use Cons.prems(2) in simp)
  moreover have "clean_abs d" using Cons.prems(2) by simp
  ultimately show ?case unfolding r(3,4) by (simp add: ball_Un)
qed simp

lemma worktree_line_clean: "is_abs gitDir \<Longrightarrow> worktree_line gitDir b ls = [] \<or> clean_abs (worktree_line gitDir b ls)"
proof (induction gitDir b ls rule: worktree_line.induct)
  case (2 gitDir b l ls)
  then show ?case
    using path_join_clean [OF 2(3)] by (auto simp: Let_def intro: path_clean_clean clean_is_abs)
qed simp

lemma coreWorktree_clean: "is_abs d \<Longrightarrow> coreWorktree h d = [] \<or> clean_abs (coreWorktree h d)"
  using worktree_line_clean [of d False] by (simp add: coreWorktree_def split: looked_up.split)

lemma submodule_pointer_clean: "is_abs d \<Longrightarrow> submodule_pointer h ws d = Some q \<Longrightarrow> clean_abs q"
  using coreWorktree_clean [of d h] path_join_clean [OF clean_is_abs, of "coreWorktree h d"]
  by (auto simp: submodule_pointer_def Let_def split: if_splits)

lemma git_path_cases:
  assumes "git_path h s p"
  shows "\<exists>dirs parents. dirs_and_parents h (gitBaseDirs h (sb_Workspace s) (sb_GitCommonDir s)) = Inr (dirs, parents) \<and>
    (p \<in> set dirs \<or> p \<in> set (List.map_filter (submodule_pointer h (sb_Workspace s)) dirs) \<or> p \<in> set parents \<or>
     (\<exists>d \<in> set (gitBaseDirs h (sb_Workspace s) (sb_GitCommonDir s)). p = path_join [d, ''modules'']))"
proof (cases "dirs_and_parents h (gitBaseDirs h (sb_Workspace s) (sb_GitCommonDir s))")
  case (Inl e)
  then show ?thesis
    using assms by (simp add: git_path_def GitPins_def GitModuleParents_def gitMetaDirs_def gitDirsAndModuleParents_def)
next
  case (Inr r)
  then show ?thesis
    using assms
    by (cases r) (auto simp: git_path_def GitPins_def GitModuleParents_def gitMetaDirs_def gitDirsAndModuleParents_def)
qed

lemma git_path_clean:
  assumes "clean_abs (sb_Workspace s)" and "sb_GitCommonDir s = [] \<or> clean_abs (sb_GitCommonDir s)" and "git_path h s p"
  shows "clean_abs p"
proof -
  let ?ds = "gitBaseDirs h (sb_Workspace s) (sb_GitCommonDir s)"
  have ds: "\<forall>d \<in> set ?ds. clean_abs d" using gitBaseDirs_clean [OF assms(1,2)] by blast
  obtain dirs parents where r: "dirs_and_parents h ?ds = Inr (dirs, parents)" and p:
    "p \<in> set dirs \<or> p \<in> set (List.map_filter (submodule_pointer h (sb_Workspace s)) dirs) \<or> p \<in> set parents \<or>
     (\<exists>d \<in> set ?ds. p = path_join [d, ''modules''])"
    using git_path_cases [OF assms(3)] by blast
  note clean = dirs_and_parents_clean [OF r ds]
  from p show ?thesis
  proof (elim disjE bexE)
    assume "p \<in> set (List.map_filter (submodule_pointer h (sb_Workspace s)) dirs)"
    then obtain d where "d \<in> set dirs" "submodule_pointer h (sb_Workspace s) d = Some p" by (auto simp: map_filter_def)
    then show ?thesis using clean submodule_pointer_clean [OF clean_is_abs] by blast
  qed (use clean ds path_join_clean [OF clean_is_abs] in blast)+
qed

section \<open>Confinement\<close>

lemma within_strict: "clean_abs c \<Longrightarrow> clean_abs b \<Longrightarrow> within_path c b \<Longrightarrow> c \<noteq> b \<Longrightarrow> b \<noteq> abs_path [] \<Longrightarrow> depth b < depth c"
proof -
  assume c: "clean_abs c" and b: "clean_abs b" and w: "within_path c b" and ne: "c \<noteq> b" "b \<noteq> abs_path []"
  have "prefix (splitSegs b) (splitSegs c)" using w within_clean [OF c b] by blast
  moreover have "splitSegs b \<noteq> splitSegs c" using splitSegs_inj [OF c b] ne(1) by metis
  ultimately have "length (splitSegs b) < length (splitSegs c)" by (simp add: prefix_length_less strict_prefix_def)
  moreover have "splitSegs b \<noteq> []" using clean_abs_segs [OF b] ne(2) by metis
  ultimately show ?thesis using b c by (cases "splitSegs b") (simp_all add: depth_clean)
qed

lemma root_depth: "depth (abs_path []) = 1"
  using depth_clean [OF clean_abs_path, of "[]"] by simp

lemma depth_positive: "clean_abs p \<Longrightarrow> 1 \<le> depth p"
  by (simp add: depth_clean)

lemma within_root: "clean_abs p \<Longrightarrow> within_path p (abs_path [])"
  by (simp add: within_clean)

lemma root_within: "clean_abs a \<Longrightarrow> within_path (abs_path []) a \<Longrightarrow> a = abs_path []"
  using clean_abs_segs [of a] by (simp add: within_clean)

text \<open>
  The specifications the theorem speaks of: clean paths; areas that are not denied and apart from the state
  directory; and no denied path that is missing where the sandbox shows what is around it (a missing path
  is not held).
\<close>

definition areas_apart :: "spec \<Rightarrow> bool" where
  "areas_apart s \<longleftrightarrow> (\<forall>a \<in> set (rwAreas s). clean_abs a \<and> a \<noteq> abs_path [] \<and> \<not> deniedByRules a (sb_Rules s) \<and>
     \<not> within_path a (sb_RyshDir s) \<and> (a \<noteq> sb_Workspace s \<longrightarrow> \<not> within_path (sb_RyshDir s) a))"

definition clean_rules :: "path_rules \<Rightarrow> bool" where
  "clean_rules r \<longleftrightarrow> (\<forall>p \<in> set (pt_ReadOnly r @ pt_ReadWrite r @ pt_Deny r). clean_abs p)"

definition plain_spec :: "host \<Rightarrow> spec \<Rightarrow> bool" where
  "plain_spec h s \<longleftrightarrow> areas_apart s \<and> clean_rules (sb_Rules s) \<and> clean_abs (sb_Home s) \<and>
     (sb_RyshDir s = [] \<or> clean_abs (sb_RyshDir s)) \<and> (sb_GitCommonDir s = [] \<or> clean_abs (sb_GitCommonDir s)) \<and>
     (\<forall>p \<in> set (pr_ReadOnly (sb_Profile s)). clean_abs p) \<and>
     (\<forall>d \<in> set (pt_Deny (sb_Rules s)). insideAny d (rwAreas s @ pr_ReadOnly (sb_Profile s)) \<longrightarrow> linked_at h d)"

lemma insideAny_iff: "insideAny p as \<longleftrightarrow> (\<exists>a \<in> set as. within_path p a)"
  by (simp add: insideAny_def list_ex_iff)

lemma isAnyOf_iff: "isAnyOf p as \<longleftrightarrow> p \<in> set as"
  by (auto simp: isAnyOf_def list_ex_iff)

lemma denied_iff: "deniedByRules p r \<longleftrightarrow> (\<exists>d \<in> set (pt_Deny r). within_path p d)"
  by (simp add: deniedByRules_def list_ex_iff)

lemma within_empty [simp]: "\<not> within_path p []"
  by (simp add: within_path_def)

lemma workspace_area: "sb_Workspace s \<in> set (rwAreas s)"
  by (simp add: rwAreas_def)

text \<open>A mount that can be written, the home apart: where it is, and what the policy says of it.\<close>

definition write_target :: "host \<Rightarrow> spec \<Rightarrow> string \<Rightarrow> bool" where
  "write_target h s t \<longleftrightarrow> clean_abs t \<and> insideAny t (rwAreas s) \<and> \<not> within_path t (sb_RyshDir s) \<and> \<not> deniedByRules t (sb_Rules s)"

lemma write_mount:
  assumes "plain_spec h s" and "layer_mounts h bad parent s = Inr L" and "gitMounts h bad s = Inr G" and "extra_mounts h bad s = Inr E"
    and "m \<in> set (base_mounts s @ L @ G @ E @ R @ map hide_at hides)" and "\<forall>m \<in> set R. mo_ReadOnly m"
    and "\<not> mo_ReadOnly m" and "\<not> mo_Hidden m" and "m \<noteq> bind_at (sb_Home s) False"
  shows "\<exists>t. m = bind_at t False \<and> write_target h s t \<and>
    (verdictReadOnly t (sb_Rules s) \<longrightarrow>
       t \<in> set (pt_ReadWrite (sb_Rules s)) \<and> t \<notin> set (rwAreas s) \<and> exists_at h t \<and>
       m \<in> set L \<and> m \<notin> set (base_mounts s) \<and> m \<notin> set (G @ E @ R @ map hide_at hides))"
proof -
  have areas: "areas_apart s" using assms(1) by (simp add: plain_spec_def)
  have ws: "clean_abs (sb_Workspace s)" "sb_GitCommonDir s = [] \<or> clean_abs (sb_GitCommonDir s)"
    using assms(1) workspace_area by (auto simp: plain_spec_def areas_apart_def)
  have area_target: "write_target h s a" if "a \<in> set (rwAreas s)" for a
    using areas that within_refl [of a] by (auto simp: areas_apart_def write_target_def insideAny_iff)
  have rule_target: "write_target h s t" if "clean_abs t" "\<not> outside_rules s t" for t
    using that by (auto simp: outside_rules_def write_target_def)
  have base: "\<exists>t. m = bind_at t False \<and> write_target h s t \<and> \<not> verdictReadOnly t (sb_Rules s)" if b: "m \<in> set (base_mounts s)"
  proof -
    obtain a where a: "a \<in> set (rwAreas s)" "m = bind_at a (verdictReadOnly a (sb_Rules s))"
      using b assms(9) unfolding base_member by blast
    then have v: "\<not> verdictReadOnly a (sb_Rules s)" using assms(7) by simp
    then show ?thesis using a area_target [OF a(1)] by simp
  qed
  have git: "\<exists>t. m = bind_at t False \<and> write_target h s t \<and> \<not> verdictReadOnly t (sb_Rules s)" if g: "m \<in> set G"
  proof -
    from git_member [OF assms(3) g] obtain p where p: "git_path h s p" "\<not> outside_rules s p"
      "m = bind_at p True \<or> m = bind_at p (verdictReadOnly p (sb_Rules s)) \<or> (\<exists>n \<in> set gitMetaNames. m = bind_at (path_join [p, n]) True)" by blast
    then have "m = bind_at p (verdictReadOnly p (sb_Rules s))" using assms(7) by auto
    moreover have "clean_abs p" by (rule git_path_clean [OF ws p(1)])
    ultimately show ?thesis using assms(7) rule_target [OF _ p(2)] by auto
  qed
  have no_E: "m \<notin> set E" using extra_member [OF assms(4), of m] assms(7) by auto
  have no_R: "m \<notin> set R" using assms(6,7) by blast
  have no_H: "m \<notin> set (map hide_at hides)" using assms(8) by auto
  have layer: "\<exists>t. m = bind_at t False \<and> write_target h s t \<and> t \<in> set (pt_ReadWrite (sb_Rules s)) \<and> t \<notin> set (rwAreas s) \<and> exists_at h t"
    if l: "m \<in> set L"
  proof -
    from layer_rw_member [OF assms(2) l] assms(7) obtain t where t: "m = bind_at t False" "\<not> outside_rules s t"
      "\<not> isAnyOf t (rwAreas s)" "exists_at h t" "t \<in> set (pt_ReadWrite (sb_Rules s))" by auto
    moreover have "clean_abs t" using t(5) assms(1) by (auto simp: plain_spec_def clean_rules_def)
    ultimately show ?thesis using rule_target by (auto simp: isAnyOf_iff)
  qed
  show ?thesis
  proof (cases "m \<in> set (base_mounts s) \<or> m \<in> set G")
    case True
    then show ?thesis using base git by blast
  next
    case False
    then have "m \<in> set L" using assms(5) no_E no_R no_H by auto
    then show ?thesis using layer False no_E no_R no_H by auto
  qed
qed

lemma hidden_above:
  assumes "wins (A @ map hide_at hides) m q" and "\<not> mo_Hidden m" and "d \<in> set hides"
    and "clean_abs q" and "clean_abs d" and "clean_abs (mo_Target m)" and "within_path q d"
  shows "within_path (mo_Target m) d"
proof -
  have "m \<notin> set (map hide_at hides)" using assms(2) by auto
  moreover have "hide_at d \<in> set (map hide_at hides)" using assms(3) by simp
  ultimately have "depth d < depth (mo_Target m)"
    using wins_later [OF assms(1)] assms(7) by fastforce
  then show ?thesis using shallower_within [OF assms(4,5,6,7)] wins_member [OF assms(1)] by blast
qed

text \<open>What is hidden: the state directory inside the workspace, and the denied paths inside an area.\<close>

lemma hidden_rysh: "sb_RyshDir s \<noteq> [] \<Longrightarrow> within_path (sb_RyshDir s) (sb_Workspace s) \<Longrightarrow> sb_RyshDir s \<in> set (hidden_rules h s)"
  by (simp add: hidden_rules_def)

lemma hidden_denied: "plain_spec h s \<Longrightarrow> d \<in> set (pt_Deny (sb_Rules s)) \<Longrightarrow> insideAny d (rwAreas s @ pr_ReadOnly (sb_Profile s)) \<Longrightarrow> d \<in> set (hidden_rules h s)"
  by (auto simp: hidden_rules_def plain_spec_def insideAny_iff)

text \<open>A path under a mount that can be written is neither denied nor in the state directory.\<close>

lemma not_denied_below:
  assumes "plain_spec h s" and "wins (A @ map hide_at hides) m q" and "\<not> mo_Hidden m" and "set (hidden_rules h s) \<subseteq> set hides"
    and "clean_abs q" and "write_target h s (mo_Target m)"
  shows "\<not> deniedByRules q (sb_Rules s) \<and> \<not> within_path q (sb_RyshDir s)"
proof
  let ?t = "mo_Target m"
  have t: "clean_abs ?t" "within_path q ?t" using assms(6) wins_member [OF assms(2)] by (auto simp: write_target_def)
  obtain a where a: "a \<in> set (rwAreas s)" "within_path ?t a" using assms(6) by (auto simp: write_target_def insideAny_iff)
  have ca: "clean_abs a" using a(1) assms(1) by (auto simp: plain_spec_def areas_apart_def)
  show "\<not> deniedByRules q (sb_Rules s)"
  proof
    assume "deniedByRules q (sb_Rules s)"
    then obtain d where d: "d \<in> set (pt_Deny (sb_Rules s))" "within_path q d" by (auto simp: denied_iff)
    then have cd: "clean_abs d" using assms(1) by (auto simp: plain_spec_def clean_rules_def)
    have "within_path ?t d"
    proof (cases "within_path d ?t")
      case True
      then have "within_path d a" using within_trans [OF cd t(1) ca] a(2) by blast
      then have "d \<in> set hides" using hidden_denied [OF assms(1) d(1)] a(1) assms(4) by (auto simp: insideAny_iff)
      then show ?thesis using hidden_above [OF assms(2,3) _ assms(5) cd t(1) d(2)] by blast
    next
      case False
      then show ?thesis using within_linear [OF assms(5) t(1) cd t(2) d(2)] by blast
    qed
    then show False using assms(6) d(1) by (auto simp: write_target_def denied_iff)
  qed
  show "\<not> within_path q (sb_RyshDir s)"
  proof
    assume r: "within_path q (sb_RyshDir s)"
    then have cr: "clean_abs (sb_RyshDir s)" "sb_RyshDir s \<noteq> []" using assms(1) by (auto simp: plain_spec_def)
    have "within_path ?t (sb_RyshDir s)"
    proof (cases "within_path (sb_RyshDir s) ?t")
      case True
      then have "within_path (sb_RyshDir s) a" using within_trans [OF cr(1) t(1) ca] a(2) by blast
      then have "a = sb_Workspace s" using a(1) assms(1) by (auto simp: plain_spec_def areas_apart_def)
      then have "sb_RyshDir s \<in> set hides" using hidden_rysh [OF cr(2)] \<open>within_path (sb_RyshDir s) a\<close> assms(4) by auto
      then show ?thesis using hidden_above [OF assms(2,3) _ assms(5) cr(1) t(1) r] by blast
    next
      case False
      then show ?thesis using within_linear [OF assms(5) t(1) cr(1) t(2) r] by blast
    qed
    then show False using assms(6) by (simp add: write_target_def)
  qed
qed

text \<open>Among mounts sorted by depth, with the read-only ones last at a depth, the deciding one is the greatest.\<close>

lemma wins_sorted:
  assumes "wins (A @ L @ B) m q" and "m \<notin> set A" and "m \<notin> set B" and "sorted (map mount_key L)"
    and "m' \<in> set L" and "within_path q (mo_Target m')"
  shows "mount_key m' \<le> mount_key m"
proof -
  obtain us vs where s: "A @ L @ B = us @ m # vs"
    "\<forall>v \<in> set vs. within_path q (mo_Target v) \<longrightarrow> depth (mo_Target v) < depth (mo_Target m)"
    using assms(1) by (auto simp: wins_def)
  obtain us' where us': "us = A @ us'" "L @ B = us' @ m # vs"
    using split_after [OF s(1) assms(2)] by blast
  obtain vs' where vs': "L = us' @ m # vs'" "vs = vs' @ B"
    using split_before [OF us'(2) assms(3)] by blast
  from assms(5) vs'(1) consider "m' \<in> set us'" | "m' = m" | "m' \<in> set vs'" by auto
  then show ?thesis
  proof cases
    case 1
    then show ?thesis using assms(4) vs'(1) by (auto simp: sorted_append)
  next
    case 3
    then have "depth (mo_Target m') < depth (mo_Target m)" using s(2) vs'(2) assms(6) by auto
    then show ?thesis by (simp add: mount_key_def)
  qed simp
qed

definition stages ::
  "host \<Rightarrow> string \<Rightarrow> (string \<Rightarrow> string) \<Rightarrow> spec \<Rightarrow> mount list \<Rightarrow> mount list \<Rightarrow> mount list \<Rightarrow> mount list \<Rightarrow> string list \<Rightarrow> mount list \<Rightarrow> bool" where
  "stages h bad parent s L G E R hides ms \<longleftrightarrow>
     plain_spec h s \<and> layer_mounts h bad parent s = Inr L \<and> gitMounts h bad s = Inr G \<and> extra_mounts h bad s = Inr E \<and>
     ms = base_mounts s @ L @ G @ E @ R @ map hide_at hides \<and> (\<forall>m \<in> set R. mo_ReadOnly m \<and> clean_abs (mo_Target m)) \<and>
     set (hidden_rules h s) \<subseteq> set hides \<and> (\<forall>d \<in> set hides. clean_abs d) \<and> (\<forall>p. clean_abs p \<longrightarrow> parent p = path_dir p)"

lemma stage_targets:
  assumes "stages h bad parent s L G E R hides ms" and "m \<in> set ms"
  shows "clean_abs (mo_Target m)"
proof -
  have s: "plain_spec h s" "layer_mounts h bad parent s = Inr L" "gitMounts h bad s = Inr G" "extra_mounts h bad s = Inr E"
    using assms(1) by (simp_all add: stages_def)
  have ws: "clean_abs (sb_Workspace s)" "sb_GitCommonDir s = [] \<or> clean_abs (sb_GitCommonDir s)"
    using s(1) workspace_area by (auto simp: plain_spec_def areas_apart_def)
  from assms consider "m \<in> set (base_mounts s)" | "m \<in> set L" | "m \<in> set G" | "m \<in> set E" | "m \<in> set R" | "m \<in> set (map hide_at hides)"
    by (auto simp: stages_def)
  then show ?thesis
  proof cases
    case 1
    then show ?thesis using s(1) by (auto simp: base_member plain_spec_def areas_apart_def)
  next
    case 2
    from layer_rw_member [OF s(2) 2] obtain t where "m = bind_at t (mo_ReadOnly m)"
      "t \<in> set (pt_ReadOnly (sb_Rules s)) \<or> t \<in> set (pt_ReadWrite (sb_Rules s))" by (auto split: if_splits)
    then show ?thesis using s(1) by (metis bind_at_fields(1) UnCI clean_rules_def plain_spec_def set_append)
  next
    case 3
    from git_member [OF s(3) 3] obtain p where p: "git_path h s p"
      "m = bind_at p True \<or> m = bind_at p (verdictReadOnly p (sb_Rules s)) \<or> (\<exists>n \<in> set gitMetaNames. m = bind_at (path_join [p, n]) True)" by blast
    have "clean_abs p" by (rule git_path_clean [OF ws p(1)])
    then show ?thesis using p(2) path_join_clean [OF clean_is_abs, of p] by auto
  next
    case 4
    then show ?thesis using extra_member [OF s(4) 4] s(1) by (auto simp: plain_spec_def)
  qed (use assms(1) in \<open>auto simp: stages_def\<close>)
qed

text \<open>The target of a mount that can be written, and a read-only rule that holds for a path under it.\<close>

definition held_at :: "spec \<Rightarrow> string \<Rightarrow> string \<Rightarrow> bool" where
  "held_at s q S \<longleftrightarrow> S \<in> set (pt_ReadOnly (sb_Rules s)) \<and> within_path q S \<and>
     (\<forall>W \<in> set (pt_ReadWrite (sb_Rules s)). within_path q W \<longrightarrow> depth W \<le> depth S)"

lemma verdict_held: "verdictReadOnly q (sb_Rules s) \<longleftrightarrow> (\<exists>S. held_at s q S)"
  by (auto simp: verdictReadOnly_iff held_at_def)

lemma held_above:
  assumes "clean_rules (sb_Rules s)" and "held_at s q S" and "clean_abs q" and "clean_abs p" and "within_path q p" and "within_path p S"
  shows "held_at s p S"
proof -
  have "depth W \<le> depth S" if w: "W \<in> set (pt_ReadWrite (sb_Rules s))" "within_path p W" for W
  proof -
    have "clean_abs W" using w(1) assms(1) by (auto simp: clean_rules_def)
    then have "within_path q W" using within_trans [OF assms(3,4)] assms(5) w(2) by blast
    then show ?thesis using assms(2) w(1) by (simp add: held_at_def)
  qed
  then show ?thesis using assms(2,6) by (simp add: held_at_def)
qed

lemma held_not_above:
  assumes "plain_spec h s" and "held_at s q S" and "clean_abs q" and "write_target h s t" and "within_path q t"
    and "verdictReadOnly t (sb_Rules s) \<longrightarrow> t \<in> set (pt_ReadWrite (sb_Rules s)) \<and> t \<notin> set (rwAreas s)"
    and "within_path t S"
  shows "t = S"
proof (rule ccontr)
  assume ne: "t \<noteq> S"
  have t: "clean_abs t" and rules: "clean_rules (sb_Rules s)" using assms(1,4) by (auto simp: write_target_def plain_spec_def)
  have S: "clean_abs S" using assms(2) rules by (auto simp: held_at_def clean_rules_def)
  have "held_at s t S" by (rule held_above [OF rules assms(2,3) t assms(5,7)])
  then have rw: "t \<in> set (pt_ReadWrite (sb_Rules s))" "t \<notin> set (rwAreas s)" using assms(6) verdict_held by blast+
  then have le: "depth t \<le> depth S" using assms(2,5) by (simp add: held_at_def)
  obtain a where a: "a \<in> set (rwAreas s)" "within_path t a" using assms(4) by (auto simp: write_target_def insideAny_iff)
  then have ca: "clean_abs a" "a \<noteq> abs_path []" using assms(1) by (auto simp: plain_spec_def areas_apart_def)
  have "t \<noteq> a" using a(1) rw(2) by blast
  then have "depth a < depth t" by (rule within_strict [OF t ca(1) a(2) _ ca(2)])
  then have "S \<noteq> abs_path []" using le root_depth depth_positive [OF ca(1)] by auto
  then have "depth S < depth t" by (rule within_strict [OF t S assms(7) ne])
  then show False using le by simp
qed

lemma parent_between:
  assumes "clean_abs S" and "clean_abs t" and "within_path S t" and "S \<noteq> t"
  shows "clean_abs (path_dir S) \<and> within_path S (path_dir S) \<and> within_path (path_dir S) t \<and>
    length (splitSegs (path_dir S)) < length (splitSegs S)"
proof -
  have pre: "prefix (splitSegs t) (splitSegs S)" using assms(1,2,3) within_clean by blast
  moreover have "splitSegs t \<noteq> splitSegs S" using splitSegs_inj [OF assms(1,2)] assms(4) by metis
  ultimately have "splitSegs S \<noteq> []" by auto
  then obtain segs x where x: "splitSegs S = segs @ [x]" by (metis append_butlast_last_id)
  then have ok: "list_all seg_ok (segs @ [x])" "S = abs_path (segs @ [x])" using clean_abs_segs [OF assms(1)] by metis+
  have P: "path_dir S = abs_path segs" using path_dir_abs_path [OF ok(1)] ok(2) by simp
  have segs: "list_all seg_ok segs" using ok(1) by simp
  then have cP: "clean_abs (path_dir S)" "splitSegs (path_dir S) = segs" using P by simp_all
  have "prefix (splitSegs t) segs" using pre x \<open>splitSegs t \<noteq> splitSegs S\<close> by (simp add: prefix_snoc)
  then show ?thesis using cP x assms(1,2) by (simp add: within_clean)
qed

lemma held_not_writable:
  assumes "stages h bad parent s L G E R hides ms" and "\<not> mo_ReadOnly m" and "\<not> mo_Hidden m" and "m \<noteq> bind_at (sb_Home s) False"
  shows "wins ms m q \<Longrightarrow> clean_abs q \<Longrightarrow> held_at s q S \<Longrightarrow> False"
proof (induction "length (splitSegs q)" arbitrary: q S rule: less_induct)
  case less
  have st: "plain_spec h s" "layer_mounts h bad parent s = Inr L" "gitMounts h bad s = Inr G" "extra_mounts h bad s = Inr E"
    "ms = base_mounts s @ L @ G @ E @ R @ map hide_at hides" "set (hidden_rules h s) \<subseteq> set hides"
    "\<forall>m \<in> set R. mo_ReadOnly m" "\<And>p. clean_abs p \<Longrightarrow> parent p = path_dir p"
    using assms(1) by (auto simp: stages_def)
  have rules: "clean_rules (sb_Rules s)" using st(1) by (simp add: plain_spec_def)
  note wm = wins_member [OF less.prems(1)]
  from write_mount [OF st(1-4) _ st(7) assms(2-4), of hides] wm st(5) obtain t where t: "m = bind_at t False" "write_target h s t"
    and rw: "verdictReadOnly t (sb_Rules s) \<Longrightarrow> t \<in> set (pt_ReadWrite (sb_Rules s)) \<and> t \<notin> set (rwAreas s) \<and> exists_at h t \<and>
       m \<in> set L \<and> m \<notin> set (base_mounts s) \<and> m \<notin> set (G @ E @ R @ map hide_at hides)" by blast
  have ct: "clean_abs t" and qt: "within_path q t" using t wm by (auto simp: write_target_def)
  have S: "S \<in> set (pt_ReadOnly (sb_Rules s))" "within_path q S" using less.prems(3) by (simp_all add: held_at_def)
  have cS: "clean_abs S" using S(1) rules by (auto simp: clean_rules_def)
  have eq: "within_path t S \<Longrightarrow> t = S" using held_not_above [OF st(1) less.prems(3,2) t(2) qt] rw by blast
  have St: "within_path S t" using within_linear [OF less.prems(2) ct cS qt S(2)] eq within_refl [OF cS] by blast
  have vS: "verdictReadOnly S (sb_Rules s)"
    using held_above [OF rules less.prems(3,2) cS S(2) within_refl [OF cS]] verdict_held by blast
  obtain a where a: "a \<in> set (rwAreas s)" "within_path t a" using t(2) by (auto simp: write_target_def insideAny_iff)
  have ca: "clean_abs a" "a \<noteq> abs_path []" using a(1) st(1) by (auto simp: plain_spec_def areas_apart_def)
  have root: "t \<noteq> abs_path []" using root_within [OF ca(1)] a(2) ca(2) by blast
  have deeper: "S \<noteq> t \<Longrightarrow> depth t < depth S" using within_strict [OF cS ct St] root by blast
  have top: "bind_at S True \<in> set ms \<Longrightarrow> S = t"
    using wins_deepest [OF less.prems(1), of "bind_at S True"] S(2) t(1) deeper by fastforce
  have tm: "write_target h s (mo_Target m)" using t by simp
  have wA: "wins ((base_mounts s @ L @ G @ E @ R) @ map hide_at hides) m q" using less.prems(1) st(5) by simp
  have "within_path S a" by (rule within_trans [OF cS ct ca(1) St a(2)])
  moreover have "\<not> deniedByRules q (sb_Rules s) \<and> \<not> within_path q (sb_RyshDir s)"
    by (rule not_denied_below [OF st(1) wA assms(3) st(6) less.prems(2) tm])
  then have "\<not> deniedByRules S (sb_Rules s) \<and> \<not> within_path S (sb_RyshDir s)"
    using within_trans [OF less.prems(2) cS] S(2) rules st(1) by (auto simp: denied_iff clean_rules_def plain_spec_def)
  ultimately have inside: "\<not> outside_rules s S" using a(1) by (auto simp: outside_rules_def insideAny_iff)
  show False
  proof (cases "S \<in> set (rwAreas s)")
    case True
    then have "bind_at S True \<in> set ms" using vS st(5) by (auto simp: base_member)
    then show False using top rw vS True by blast
  next
    case False
    from layer_present [OF st(2) S(1) inside] False consider
      "bind_at S True \<in> set L" | "\<not> exists_at h S" "verdictReadOnly (path_dir S) (sb_Rules s)"
      using st(8) [OF cS] by (auto simp: isAnyOf_iff)
    then show False
    proof cases
      case 1
      then have "S = t" using top st(5) by simp
      then have "mount_key (bind_at S True) \<le> mount_key m"
        using wins_sorted [OF _ _ _ layer_sorted [OF st(2)] 1, of "base_mounts s" "G @ E @ R @ map hide_at hides" m q]
          rw vS less.prems(1) st(5) S(2) by simp
      then show False using t(1) \<open>S = t\<close> by (simp add: mount_key_def)
    next
      case 2
      then have ne: "S \<noteq> t" using rw vS by blast
      note P = parent_between [OF cS ct St ne]
      obtain S' where S': "held_at s (path_dir S) S'" using 2(2) verdict_held by blast
      have qP: "within_path q (path_dir S)" using within_trans [OF less.prems(2) cS] S(2) P by blast
      have "length (splitSegs S) \<le> length (splitSegs q)" using S(2) within_clean [OF less.prems(2) cS] prefix_length_le by blast
      then have small: "length (splitSegs (path_dir S)) < length (splitSegs q)" using P by simp
      have "wins ms m (path_dir S)"
        by (rule wins_above [OF less.prems(1)])
          (use P t(1) qP within_trans [OF less.prems(2)] stage_targets [OF assms(1)] in auto)
      then show False using less.hyps [OF small _ _ S'] P by blast
    qed
  qed
qed

lemma writable_confined:
  assumes "stages h bad parent s L G E R hides ms" and "can_write (by_depth ms) q" and "clean_abs q" and "\<not> within_path q (sb_Home s)"
  shows "insideAny q (rwAreas s) \<and> \<not> verdictReadOnly q (sb_Rules s) \<and> \<not> deniedByRules q (sb_Rules s) \<and>
    \<not> within_path q (sb_RyshDir s)"
proof -
  obtain m where m: "deciding (by_depth ms) q = Some m" "\<not> mo_ReadOnly m" "\<not> mo_Hidden m"
    using assms(2) by (auto simp: can_write_def split: option.splits)
  have w: "wins ms m q" by (rule deciding_wins [OF m(1)])
  note wm = wins_member [OF w]
  have home: "m \<noteq> bind_at (sb_Home s) False" using wm assms(4) by auto
  have st: "plain_spec h s" "layer_mounts h bad parent s = Inr L" "gitMounts h bad s = Inr G" "extra_mounts h bad s = Inr E"
    "ms = base_mounts s @ L @ G @ E @ R @ map hide_at hides" "set (hidden_rules h s) \<subseteq> set hides" "\<forall>m \<in> set R. mo_ReadOnly m"
    using assms(1) by (auto simp: stages_def)
  from write_mount [OF st(1-4) _ st(7) m(2,3) home, of hides] wm st(5) obtain t where t: "m = bind_at t False" "write_target h s t" by blast
  obtain a where a: "a \<in> set (rwAreas s)" "within_path t a" using t(2) by (auto simp: write_target_def insideAny_iff)
  have cta: "clean_abs t" "clean_abs a" using t(2) a(1) st(1) by (auto simp: write_target_def plain_spec_def areas_apart_def)
  have qt: "within_path q t" using wm t(1) by simp
  have tm: "write_target h s (mo_Target m)" using t by simp
  have wA: "wins ((base_mounts s @ L @ G @ E @ R) @ map hide_at hides) m q" using w st(5) by simp
  have "within_path q a" by (rule within_trans [OF assms(3) cta qt a(2)])
  moreover have "\<not> verdictReadOnly q (sb_Rules s)"
    using held_not_writable [OF assms(1) m(2,3) home w assms(3)] verdict_held by blast
  moreover have "\<not> deniedByRules q (sb_Rules s) \<and> \<not> within_path q (sb_RyshDir s)"
    by (rule not_denied_below [OF st(1) wA m(3) st(6) assms(3) tm])
  ultimately show ?thesis using a(1) by (auto simp: insideAny_iff)
qed

section \<open>Denied paths\<close>

lemma meta_name_ok: "n \<in> set gitMetaNames \<Longrightarrow> seg_ok n"
  by (auto simp: gitMetaNames_def seg_ok_def)

lemma meta_segs: "clean_abs p \<Longrightarrow> seg_ok n \<Longrightarrow> splitSegs (path_join [p, n]) = splitSegs p @ [n]"
proof -
  assume p: "clean_abs p" and n: "seg_ok n"
  then have "path_join [abs_path (splitSegs p), join_with ''/'' [n]] = abs_path (splitSegs p @ [n])"
    using clean_abs_segs [OF p] by (intro path_join_abs) simp_all
  then show ?thesis using clean_abs_segs [OF p] n by simp
qed

text \<open>Where a mount that can be seen points, the agent's own files apart.\<close>

lemma seen_target:
  assumes "stages h bad parent s L G E R hides ms" and "m \<in> set ms" and "\<not> mo_Hidden m" and "m \<notin> set R" and "m \<noteq> bind_at (sb_Home s) False"
  shows "insideAny (mo_Target m) (rwAreas s @ pr_ReadOnly (sb_Profile s)) \<and>
    (\<not> deniedByRules (mo_Target m) (sb_Rules s) \<or>
     (\<exists>p n. clean_abs p \<and> n \<in> set gitMetaNames \<and> mo_Target m = path_join [p, n] \<and> \<not> deniedByRules p (sb_Rules s)))"
proof -
  have s: "plain_spec h s" "layer_mounts h bad parent s = Inr L" "gitMounts h bad s = Inr G" "extra_mounts h bad s = Inr E"
    using assms(1) by (simp_all add: stages_def)
  have areas: "areas_apart s" using s(1) by (simp add: plain_spec_def)
  have ws: "clean_abs (sb_Workspace s)" "sb_GitCommonDir s = [] \<or> clean_abs (sb_GitCommonDir s)"
    using s(1) workspace_area by (auto simp: plain_spec_def areas_apart_def)
  have more: "insideAny p (rwAreas s) \<Longrightarrow> insideAny p (rwAreas s @ pr_ReadOnly (sb_Profile s))" for p by (auto simp: insideAny_iff)
  from assms consider "m \<in> set (base_mounts s)" | "m \<in> set L" | "m \<in> set G" | "m \<in> set E" by (auto simp: stages_def)
  then show ?thesis
  proof cases
    case 1
    then obtain a where a: "a \<in> set (rwAreas s)" "mo_Target m = a" using assms(5) by (auto simp: base_member)
    then show ?thesis using areas within_refl [of a] more [of a] by (auto simp: areas_apart_def insideAny_iff)
  next
    case 2
    from layer_member [OF s(2) 2] obtain t where "mo_Target m = t" "\<not> outside_rules s t" by auto
    then show ?thesis using more [of t] by (auto simp: outside_rules_def)
  next
    case 3
    from git_member [OF s(3) 3] obtain p where p: "git_path h s p" "\<not> outside_rules s p"
      "m = bind_at p True \<or> m = bind_at p (verdictReadOnly p (sb_Rules s)) \<or> (\<exists>n \<in> set gitMetaNames. m = bind_at (path_join [p, n]) True)" by blast
    have cp: "clean_abs p" by (rule git_path_clean [OF ws p(1)])
    have out: "\<not> deniedByRules p (sb_Rules s)" "insideAny p (rwAreas s)" using p(2) by (simp_all add: outside_rules_def)
    show ?thesis
    proof (cases "mo_Target m = p")
      case True
      then show ?thesis using out more by simp
    next
      case False
      then obtain n where n: "n \<in> set gitMetaNames" "mo_Target m = path_join [p, n]" using p(3) by auto
      obtain a where a: "a \<in> set (rwAreas s)" "within_path p a" using out(2) by (auto simp: insideAny_iff)
      have ca: "clean_abs a" using a(1) areas by (auto simp: areas_apart_def)
      have cj: "clean_abs (path_join [p, n])" using path_join_clean [OF clean_is_abs [OF cp]] .
      have "within_path (path_join [p, n]) p" using meta_segs [OF cp meta_name_ok [OF n(1)]] within_clean [OF cj cp] by simp
      then have "within_path (path_join [p, n]) a" using within_trans [OF cj cp ca] a(2) by blast
      then have "insideAny (path_join [p, n]) (rwAreas s)" using a(1) by (auto simp: insideAny_iff)
      then show ?thesis using more n cp out(1) by auto
    qed
  next
    case 4
    from extra_member [OF s(4) 4] obtain p where p: "p \<in> set (pr_ReadOnly (sb_Profile s))" "m = bind_at p True" "\<not> hiddenByPolicy h p s" by blast
    then have "clean_abs p" using s(1) by (auto simp: plain_spec_def)
    then show ?thesis using p within_refl [of p] by (auto simp: insideAny_iff denied_iff hiddenByPolicy_def list_ex_iff)
  qed
qed

lemma seen_not_denied:
  assumes "stages h bad parent s L G E R hides ms" and "deciding (by_depth ms) q = Some m" and "\<not> mo_Hidden m"
    and "m \<notin> set R" and "clean_abs q" and "\<not> within_path q (sb_Home s)"
  shows "\<not> deniedByRules q (sb_Rules s)"
proof
  assume "deniedByRules q (sb_Rules s)"
  then obtain d where d: "d \<in> set (pt_Deny (sb_Rules s))" "within_path q d" by (auto simp: denied_iff)
  let ?t = "mo_Target m"
  have w: "wins ms m q" by (rule deciding_wins [OF assms(2)])
  have m: "m \<in> set ms" "within_path q ?t" using wins_member [OF w] by blast+
  have st: "plain_spec h s" "ms = base_mounts s @ L @ G @ E @ R @ map hide_at hides" "set (hidden_rules h s) \<subseteq> set hides"
    using assms(1) by (auto simp: stages_def)
  have cd: "clean_abs d" using d(1) st(1) by (auto simp: plain_spec_def clean_rules_def)
  have ct: "clean_abs ?t" by (rule stage_targets [OF assms(1) m(1)])
  have "m \<noteq> bind_at (sb_Home s) False" using m(2) assms(6) by auto
  note t = seen_target [OF assms(1) m(1) assms(3,4) this]
  obtain v where v: "v \<in> set (rwAreas s @ pr_ReadOnly (sb_Profile s))" "within_path ?t v" using t by (auto simp: insideAny_iff)
  have cv: "clean_abs v" using v(1) st(1) by (auto simp: plain_spec_def areas_apart_def)
  have nv: "\<not> within_path v d"
  proof (cases "v \<in> set (rwAreas s)")
    case True
    then show ?thesis using st(1) d(1) by (auto simp: plain_spec_def areas_apart_def denied_iff)
  next
    case False
    then have "v \<in> set (pr_ReadOnly (sb_Profile s))" using v(1) by simp
    then have "\<not> hiddenByPolicy h v s" using assms(1) extra_kept [of h bad s E v] by (simp add: stages_def)
    then show ?thesis using d(1) by (auto simp: hiddenByPolicy_def list_ex_iff)
  qed
  have qv: "within_path q v" by (rule within_trans [OF assms(5) ct cv m(2) v(2)])
  then have "within_path d v" using within_linear [OF assms(5) cd cv d(2)] nv by blast
  then have "d \<in> set hides" using hidden_denied [OF st(1) d(1)] v(1) st(3) by (auto simp: insideAny_iff)
  then have hd: "hide_at d \<in> set (map hide_at hides)" by simp
  have wA: "wins ((base_mounts s @ L @ G @ E @ R) @ map hide_at hides) m q" using w st(2) by simp
  have "m \<notin> set (map hide_at hides)" using assms(3) by auto
  then have deep: "depth d < depth ?t" using wins_later [OF wA _ hd] d(2) by simp
  then have td: "within_path ?t d" by (rule shallower_within [OF assms(5) cd ct d(2) m(2)])
  then have "deniedByRules ?t (sb_Rules s)" using d(1) by (auto simp: denied_iff)
  then obtain p n where p: "clean_abs p" "n \<in> set gitMetaNames" "?t = path_join [p, n]" "\<not> deniedByRules p (sb_Rules s)" using t by blast
  have segs: "splitSegs ?t = splitSegs p @ [n]" using meta_segs [OF p(1) meta_name_ok [OF p(2)]] p(3) by simp
  have "splitSegs d \<noteq> splitSegs ?t" using deep splitSegs_inj [OF cd ct] by auto
  then have "prefix (splitSegs d) (splitSegs p)" using td within_clean [OF ct cd] segs by (simp add: prefix_snoc)
  then have "within_path p d" using within_clean [OF p(1) cd] by simp
  then show False using p(4) d(1) by (auto simp: denied_iff)
qed

end
