(* ===== verification/SandboxPlan.thy ===== *)
theory SandboxPlan
  imports SandboxMounts
begin

text \<open>
  The plans of the three backends: \<open>Prepare\<close> of \<open>internal/sandbox/container.go\<close>, \<open>bwrap.go\<close> and \<open>macos.go\<close>.
  The profile for \<open>sandbox-exec\<close> is the list of its rules, and its text is what they are written as.
  \<open>tty\<close> is whether standard input is a terminal.
\<close>

section \<open>The container\<close>

definition container_tool :: "host \<Rightarrow> string option" where
  "container_tool h = (case List.find (found_tool h) [''docker'', ''podman''] of None \<Rightarrow> None | Some t \<Rightarrow> h_tool h t)"

definition containerHostDrop :: "string list" where
  "containerHostDrop = [''PATH'', ''TMPDIR'', ''PWD'', ''OLDPWD'', ''SHLVL'', ''_'', ''USER'', ''LOGNAME'', ''SHELL'',
     ''XPC_SERVICE_NAME'', ''XPC_FLAGS'', ''__CF_USER_TEXT_ENCODING'', ''__CFBundleIdentifier'']"

definition containerClientEnv :: "string list" where
  "containerClientEnv = [''HOME'', ''PATH'', ''TMPDIR'', ''XDG_RUNTIME_DIR'', ''XDG_CONFIG_HOME'', ''CONTAINER_HOST'', ''CONTAINERS_CONF'']"

definition hasMountBeneath :: "string \<Rightarrow> mount list \<Rightarrow> bool" where
  "hasMountBeneath target ms \<longleftrightarrow> list_ex (\<lambda>m. mo_Target m \<noteq> target \<and> within_path (mo_Target m) target) ms"

definition hidden_file :: "host \<Rightarrow> string \<Rightarrow> bool" where
  "hidden_file h p \<longleftrightarrow> exists_at h p \<and> \<not> is_directory h p"

definition mountArg :: "host \<Rightarrow> mount \<Rightarrow> string" where
  "mountArg h m =
     (if mo_Hidden m then
        (if hidden_file h (mo_Host m) then ''type=bind,source=/dev/null,target='' @ mo_Target m @ '',readonly''
         else ''type=tmpfs,target='' @ mo_Target m)
      else ''type=bind,source='' @ mo_Host m @ '',target='' @ mo_Target m @ (if mo_ReadOnly m then '',readonly'' else []))"

definition mount_option :: "host \<Rightarrow> mount list \<Rightarrow> mount \<Rightarrow> string list" where
  "mount_option h ms m =
     [''--mount'', mountArg h m @
        (if mo_Hidden m \<and> has_prefix (mountArg h m) ''type=tmpfs,'' \<and> hasMountBeneath (mo_Target m) ms
         then '',tmpfs-mode=0711'' else [])]"

definition env_option :: "spec \<Rightarrow> string \<Rightarrow> string \<Rightarrow> string list" where
  "env_option s marker name =
     [''-e'', if name = ''HOME'' then ''HOME='' @ sb_Home s
        else if name = MarkerEnv then MarkerEnv @ ''='' @ marker
        else case isSetEnv (sb_SetEnv s) name of Some kv \<Rightarrow> kv | None \<Rightarrow> name]"

definition container_env :: "spec \<Rightarrow> string list \<Rightarrow> string list" where
  "container_env s inner =
     filter (\<lambda>kv. entry_name kv \<noteq> ''HOME'' \<and> entry_name kv \<noteq> MarkerEnv \<and> isSetEnv (sb_SetEnv s) (entry_name kv) = None) inner @
     filter (\<lambda>kv. entry_name kv \<in> set containerClientEnv \<or> has_prefix (entry_name kv) ''DOCKER_'' \<or> has_prefix (entry_name kv) ''PODMAN_'')
       (sb_Env s)"

definition container_inner :: "spec \<Rightarrow> string list" where
  "container_inner s =
     (let (drops, sets) = innerParts s containerHostDrop
      in innerEnv (sb_Env s) drops sets (sb_Home s) (BackendContainer @ ''/'' @ pr_Name (sb_Profile s)))"

definition container_argv :: "host \<Rightarrow> bool \<Rightarrow> spec \<Rightarrow> bridge option \<Rightarrow> string \<Rightarrow> mount list \<Rightarrow> string list" where
  "container_argv h tty s br tool ms =
     (let p = sb_Profile s
      in [tool, ''run'', ''--rm'', ''-i''] @ (if tty then [''-t''] else []) @
         [''--name'', ''rysh-sbx-'' @ sb_ID s, ''--pull'', ''never'', ''--init'', ''--cap-drop'', ''ALL'',
          ''--security-opt'', ''no-new-privileges'',
          ''--user'', itoa (int (h_uid h)) @ '':'' @ itoa (int (h_gid h)), ''--workdir'', sb_Workspace s] @
         (if pr_Network p then [] else [''--network'', ''none'']) @
         (case br of None \<Rightarrow> []
          | Some b \<Rightarrow> [''--mount'', ''type=bind,source='' @ br_Dir b @ '',target='' @ BridgeMount,
              ''--mount'', ''type=bind,source='' @ br_Binary b @ '',target='' @ BridgeMount @ ''/rysh,readonly'']) @
         concat (map (mount_option h ms) ms) @
         concat (map (env_option s (BackendContainer @ ''/'' @ pr_Name p)) (envNames (container_inner s))) @
         [pr_Image p] @
         (case br of None \<Rightarrow> sb_Argv s | Some b \<Rightarrow> forwardArgv (br_Port b) (hd (sb_Argv s)) (tl (sb_Argv s))))"

definition bridge_of :: "spec \<Rightarrow> bridge option" where
  "bridge_of s = (if pr_Proxy (sb_Profile s) then sb_Bridge s else None)"

definition bridge_refused :: "decoders \<Rightarrow> spec \<Rightarrow> bridge_error option" where
  "bridge_refused dc s = (if pr_Proxy (sb_Profile s) then checkBridge dc s else None)"

definition container_Prepare :: "decoders \<Rightarrow> host \<Rightarrow> bool \<Rightarrow> spec \<Rightarrow> (prepare_error, sandbox_plan) result" where
  "container_Prepare dc h tty s =
     (case CheckSpec dc h s of
        Some e \<Rightarrow> Inl (BadSpec e)
      | None \<Rightarrow>
          (case container_tool h of
             None \<Rightarrow> Inl NoTool
           | Some tool \<Rightarrow>
               (case bridge_refused dc s of
                  Some e \<Rightarrow> Inl (BadBridge e)
                | None \<Rightarrow>
                    if trim_space (pr_Image (sb_Profile s)) = [] then Inl NoImage
                    else if \<not> ValidName (sb_ID s) then Inl (BadID (sb_ID s))
                    else case container_mounts h s of
                        Inl e \<Rightarrow> Inl e
                      | Inr ms \<Rightarrow> Inr \<lparr>pl_Backend = BackendContainer, pl_Profile = pr_Name (sb_Profile s),
                          pl_Argv = container_argv h tty s (bridge_of s) tool ms,
                          pl_Env = container_env s (container_inner s), pl_InnerEnvNames = envNames (container_inner s),
                          pl_Mounts = ms, pl_ContainerName = ''rysh-sbx-'' @ sb_ID s, pl_Tool = tool, pl_SBPL = []\<rparr>)))"

section \<open>Bubblewrap\<close>

definition bwrapSystemDirs :: "string list" where
  "bwrapSystemDirs = [''/usr'', ''/bin'', ''/sbin'', ''/lib'', ''/lib32'', ''/lib64'', ''/etc'']"

definition bwrapHostDrop :: "string list" where
  "bwrapHostDrop = [''TMPDIR'', ''PWD'', ''OLDPWD'', ''XDG_RUNTIME_DIR'']"

definition bwrap_option :: "host \<Rightarrow> mount \<Rightarrow> string list" where
  "bwrap_option h m =
     (if mo_Hidden m then
        (if hidden_file h (mo_Host m) then [''--ro-bind'', ''/dev/null'', mo_Target m] else [''--tmpfs'', mo_Target m])
      else [if mo_ReadOnly m then ''--ro-bind'' else ''--bind'', mo_Host m, mo_Target m])"

definition bwrap_argv :: "host \<Rightarrow> spec \<Rightarrow> bridge option \<Rightarrow> string \<Rightarrow> string \<Rightarrow> mount list \<Rightarrow> string list" where
  "bwrap_argv h s br tool agent ms =
     [tool, ''--die-with-parent'', ''--new-session'', ''--unshare-all''] @
     concat (map (\<lambda>d. [''--ro-bind-try'', d, d]) bwrapSystemDirs) @
     [''--proc'', ''/proc'', ''--dev'', ''/dev'', ''--tmpfs'', ''/tmp''] @
     concat (map (bwrap_option h) ms) @ [''--chdir'', sb_Workspace s] @
     (case br of
        None \<Rightarrow> agent # tl (sb_Argv s)
      | Some b \<Rightarrow> [''--bind'', br_Dir b, BridgeMount, ''--ro-bind'', br_Binary b, BridgeMount @ ''/rysh''] @
          forwardArgv (br_Port b) agent (tl (sb_Argv s)))"

definition bwrap_inner :: "spec \<Rightarrow> string list" where
  "bwrap_inner s =
     (let (drops, sets) = innerParts s bwrapHostDrop
      in innerEnv (sb_Env s) drops sets (sb_Home s) (BackendBwrap @ ''/'' @ pr_Name (sb_Profile s)))"

definition bwrap_Prepare :: "decoders \<Rightarrow> host \<Rightarrow> spec \<Rightarrow> (prepare_error, sandbox_plan) result" where
  "bwrap_Prepare dc h s =
     (case CheckSpec dc h s of
        Some e \<Rightarrow> Inl (BadSpec e)
      | None \<Rightarrow>
          (case bridge_refused dc s of
             Some e \<Rightarrow> Inl (BadBridge e)
           | None \<Rightarrow>
               if pr_Network (sb_Profile s) then Inl NetworkRefused
               else if \<not> found_tool h ''bwrap'' then Inl NoTool
               else case agentReadPaths h s of
                   Inl e \<Rightarrow> Inl (AgentRefused e)
                 | Inr (agent, readDirs, readLits) \<Rightarrow>
                     (case bwrap_mounts h s (readDirs @ readLits) of
                        Inl e \<Rightarrow> Inl e
                      | Inr ms \<Rightarrow> Inr \<lparr>pl_Backend = BackendBwrap, pl_Profile = pr_Name (sb_Profile s),
                          pl_Argv = bwrap_argv h s (bridge_of s) (the (h_tool h ''bwrap'')) agent ms,
                          pl_Env = bwrap_inner s, pl_InnerEnvNames = envNames (bwrap_inner s),
                          pl_Mounts = ms, pl_ContainerName = [], pl_Tool = the (h_tool h ''bwrap''), pl_SBPL = []\<rparr>)))"

section \<open>macOS: the profile\<close>

datatype sb_filter = PathFilter string string | RegexFilter string | RemoteIP string | GlobalName string

datatype sb_rule = SbRule (sb_allow: bool) (sb_ops: "string list") (sb_filters: "sb_filter list")

abbreviation sbpl_write :: string where "sbpl_write \<equiv> ''file-write*''"
abbreviation sbpl_read_data :: string where "sbpl_read_data \<equiv> ''file-read-data''"

definition readOps :: "string list" where
  "readOps = [''file-read*'', sbpl_read_data]"

fun filter_text :: "sb_filter \<Rightarrow> string" where
  "filter_text (PathFilter kind p) = ''('' @ kind @ '' '' @ [CHR 0x22] @ p @ [CHR 0x22] @ '')''"
| "filter_text (RegexFilter rx) = ''(regex #'' @ [CHR 0x22] @ rx @ [CHR 0x22] @ '')''"
| "filter_text (RemoteIP a) = ''(remote ip '' @ [CHR 0x22] @ a @ [CHR 0x22] @ '')''"
| "filter_text (GlobalName n) = ''(global-name '' @ [CHR 0x22] @ n @ [CHR 0x22] @ '')''"

definition rule_text :: "sb_rule \<Rightarrow> string" where
  "rule_text r = ''('' @ (if sb_allow r then ''allow'' else ''deny'') @ '' '' @ join_with '' '' (sb_ops r) @
     concat (map (\<lambda>f. '' '' @ filter_text f) (sb_filters r)) @ '')'' @ [CHR 0x0A]"

definition sbpl_text :: "sb_rule list \<Rightarrow> string" where
  "sbpl_text rules = ''(version 1)'' @ [CHR 0x0A] @ ''(allow default)'' @ [CHR 0x0A] @ concat (map rule_text rules)"

definition unquotable :: string where
  "unquotable = [CHR 0x22, CHR 0x5C, CHR 0x0A, CHR 0x00]"

definition regex_unquotable :: string where
  "regex_unquotable = [CHR 0x22, CHR 0x0A, CHR 0x00]"

definition path_rule :: "bool \<Rightarrow> string list \<Rightarrow> string \<Rightarrow> string list \<Rightarrow> (prepare_error, sb_rule list) result" where
  "path_rule allow ops kind ps =
     (if ps = [] then Inr []
      else case List.find (\<lambda>p. contains_any p unquotable) ps of
          Some p \<Rightarrow> Inl (BadPath p)
        | None \<Rightarrow> Inr [SbRule allow ops (map (PathFilter kind) ps)])"

function regexQuoteSBPL :: "string \<Rightarrow> string" where
  "regexQuoteSBPL p =
     (if p = [] then []
      else let (r, w) = decode_rune p; chunk = (if r = 65533 then [CHR 0xEF, CHR 0xBF, CHR 0xBD] else take w p)
        in (if hd chunk \<in> set (CHR 0x5C # ''.+*?()|[]{}^$'') then CHR 0x5C # chunk else chunk) @ regexQuoteSBPL (drop w p))"
  by pat_completeness auto
termination
proof (relation "measure length", goal_cases)
  case (2 p x r w)
  then have "w = snd (decode_rune p)" by (metis snd_conv)
  then have "0 < w" using decode_width [OF 2(1)] by simp
  then show ?case using 2(1) by simp
qed simp

declare regexQuoteSBPL.simps [simp del]

definition tempDirs :: "host \<Rightarrow> string list \<Rightarrow> string list" where
  "tempDirs h env =
     (case List.find is_abs (List.map_filter (cut_prefix ''TMPDIR='') env) of
        None \<Rightarrow> []
      | Some v0 \<Rightarrow>
          let v = path_clean (case os_eval (h_os h) v0 of Some r \<Rightarrow> r | None \<Rightarrow> v0)
          in if path_base v = ''T'' \<and> has_prefix v ''/private/var/folders/'' then [path_dir v] else [v])"

text \<open>The directories of the profile.\<close>

definition common_dirs :: "spec \<Rightarrow> string list" where
  "common_dirs s = (if sb_GitCommonDir s \<noteq> [] then [sb_GitCommonDir s] else [])"

definition write_dirs :: "host \<Rightarrow> spec \<Rightarrow> string list" where
  "write_dirs h s = [sb_Workspace s, sb_Home s] @ common_dirs s @ tempDirs h (sb_Env s) @ [''/private/tmp'', ''/dev'']"

definition readable_dirs :: "spec \<Rightarrow> string list \<Rightarrow> string list" where
  "readable_dirs s readDirs = [sb_Workspace s, sb_Home s] @ readDirs @ common_dirs s @ pr_ReadOnly (sb_Profile s)"

definition hidden_paths :: "host \<Rightarrow> spec \<Rightarrow> string list" where
  "hidden_paths h s = SensitivePaths h (sb_HostHome s) @ pt_Deny (sb_Rules s)"

definition layer_rule :: "spec \<Rightarrow> layered_rule \<Rightarrow> (prepare_error, sb_rule list) result" where
  "layer_rule s l =
     (if ly_ReadOnly l then path_rule False [sbpl_write] ''subpath'' [ly_Path l]
      else if insideAny (ly_Path l) (sb_Workspace s # common_dirs s) then path_rule True [sbpl_write] ''subpath'' [ly_Path l]
      else Inr [])"

definition rysh_rules :: "spec \<Rightarrow> (prepare_error, sb_rule list) result list" where
  "rysh_rules s =
     (if sb_RyshDir s = [] then []
      else [path_rule False (readOps @ [sbpl_write]) ''subpath'' [sb_RyshDir s],
            path_rule True (readOps @ [sbpl_write]) ''subpath'' [sb_Home s]])"

definition install_rules :: "spec \<Rightarrow> string list \<Rightarrow> (prepare_error, sb_rule list) result list" where
  "install_rules s readDirs =
     map (\<lambda>d. path_rule True readOps ''subpath'' [d]) (filter (\<lambda>d. isAgentInstallUnderClaude d (sb_HostHome s)) readDirs)"

definition meta_rule :: "string \<Rightarrow> (prepare_error, sb_rule list) result" where
  "meta_rule p = path_rule False [sbpl_write] (if path_base p = ''hooks'' then ''subpath'' else ''literal'') [p]"

definition regex_rule :: "string \<Rightarrow> string \<Rightarrow> (prepare_error, sb_rule list) result" where
  "regex_rule base rest =
     (if contains_any base regex_unquotable then Inl (BadPath base)
      else Inr [SbRule False [sbpl_write] [RegexFilter (''^'' @ regexQuoteSBPL base @ rest)]])"

definition meta_regex :: string where
  "meta_regex = ''(hooks(/.*)?|config|config'' @ [CHR 0x5C] @ ''.worktree|commondir|gitdir)$''"

definition git_rules :: "host \<Rightarrow> spec \<Rightarrow> (prepare_error, sb_rule list) result" where
  "git_rules h s =
     (let ws = sb_Workspace s; gc = sb_GitCommonDir s
      in case GitMetaPaths h ws gc of
          Inl e \<Rightarrow> Inl (GitFailed e)
        | Inr metas \<Rightarrow>
            (case GitPins h ws gc of
               Inl e \<Rightarrow> Inl (GitFailed e)
             | Inr pins \<Rightarrow>
                 append_results (
                   map meta_rule metas @
                   map (\<lambda>p. path_rule False [sbpl_write] ''literal'' [p]) pins @
                   (case GitModuleParents h ws gc of
                      Inl e \<Rightarrow> [Inl (GitFailed e)]
                    | Inr parents \<Rightarrow> map (\<lambda>p. path_rule False [sbpl_write] ''literal'' [p]) parents) @
                   map (\<lambda>d. regex_rule d (''/modules/(.+/)?'' @ meta_regex)) (gitBaseDirs h ws gc) @
                   [regex_rule ws (''/(.+/)?'' @ [CHR 0x5C] @ ''.git$''),
                    regex_rule ws (''/(.+/)?'' @ [CHR 0x5C] @ ''.git/'' @ meta_regex)])))"

definition mach_rule :: sb_rule where
  "mach_rule = SbRule False [''mach-lookup'']
     (map GlobalName [''com.apple.SecurityServer'', ''com.apple.securityd'', ''com.apple.securityd.xpc'', ''com.apple.security.agent'',
        ''com.apple.coreservices.launchservicesd'', ''com.apple.coreservices.appleevents''])"

definition allowedUnixSockets :: "string list" where
  "allowedUnixSockets = [''/private/var/run/mDNSResponder'', ''/private/var/run/syslog'']"

definition proxy_rules :: "int list \<Rightarrow> sb_rule list" where
  "proxy_rules ports = map (\<lambda>p. SbRule True [''network-outbound''] [RemoteIP (''localhost:'' @ itoa p)]) ports"

definition network_rules :: "spec \<Rightarrow> int list \<Rightarrow> sb_rule list" where
  "network_rules s ports =
     (if \<not> pr_Network (sb_Profile s) then
        SbRule False [''network*''] [] # (if pr_Proxy (sb_Profile s) then proxy_rules ports else [])
      else
        SbRule False [''network-outbound''] [PathFilter ''subpath'' ''/''] #
        map (\<lambda>sock. SbRule True [''network-outbound''] [PathFilter ''literal'' sock]) allowedUnixSockets @
        [SbRule True [''network-outbound''] [RemoteIP ''*:*''], SbRule False [''network-outbound''] [RemoteIP ''localhost:*'']] @
        proxy_rules ports)"

definition macos_ports :: "decoders \<Rightarrow> spec \<Rightarrow> int list" where
  "macos_ports dc s = filter (\<lambda>p. sb_ProxyPort s \<noteq> 0 \<and> p = sb_ProxyPort s) (LoopbackProxyPorts dc (sb_Env s))"

definition file_rules :: "host \<Rightarrow> spec \<Rightarrow> string list \<Rightarrow> string list \<Rightarrow> (prepare_error, sb_rule list) result list" where
  "file_rules h s readDirs readLits =
     [Inr [SbRule False [sbpl_write] []],
      path_rule True [sbpl_write] ''subpath'' (write_dirs h s),
      path_rule False [sbpl_read_data] ''subpath'' [sb_HostHome s],
      path_rule True [sbpl_read_data] ''subpath'' (readable_dirs s readDirs),
      path_rule True readOps ''literal'' readLits,
      path_rule False [sbpl_write] ''subpath'' (pr_ReadOnly (sb_Profile s))] @
     map (layer_rule s) (layered (sb_Rules s)) @ rysh_rules s @
     map (\<lambda>p. path_rule False (readOps @ [sbpl_write]) ''subpath'' [p]) (hidden_paths h s) @
     install_rules s readDirs @ [git_rules h s]"

definition macos_rules :: "decoders \<Rightarrow> host \<Rightarrow> spec \<Rightarrow> string list \<Rightarrow> string list \<Rightarrow> (prepare_error, sb_rule list) result" where
  "macos_rules dc h s readDirs readLits =
     map_sum id (\<lambda>rules. rules @ mach_rule # network_rules s (macos_ports dc s)) (append_results (file_rules h s readDirs readLits))"

definition macos_mounts :: "host \<Rightarrow> spec \<Rightarrow> string list \<Rightarrow> mount list" where
  "macos_mounts h s readDirs =
     [bind_at (sb_Workspace s) False, bind_at (sb_Home s) False] @ map (\<lambda>d. bind_at d True) (readDirs @ pr_ReadOnly (sb_Profile s)) @
     map (\<lambda>l. bind_at (ly_Path l) (ly_ReadOnly l)) (layered (sb_Rules s)) @
     map hide_at (filter (\<lambda>p. p \<noteq> []) (sb_RyshDir s # hidden_paths h s))"

abbreviation DefaultSandboxExec :: string where "DefaultSandboxExec \<equiv> ''/usr/bin/sandbox-exec''"

definition macos_inner :: "spec \<Rightarrow> string list" where
  "macos_inner s =
     (let (drops, sets) = innerParts s []
      in innerEnv (sb_Env s) drops sets (sb_Home s) (BackendMacOS @ ''/'' @ pr_Name (sb_Profile s)))"

definition macos_Prepare :: "decoders \<Rightarrow> host \<Rightarrow> spec \<Rightarrow> (prepare_error, sandbox_plan) result" where
  "macos_Prepare dc h s =
     (case CheckSpec dc h s of
        Some e \<Rightarrow> Inl (BadSpec e)
      | None \<Rightarrow>
          if \<not> exists_at h DefaultSandboxExec then Inl NoTool
          else case agentReadPaths h s of
              Inl e \<Rightarrow> Inl (AgentRefused e)
            | Inr (agent, readDirs, readLits) \<Rightarrow>
                (case List.find (\<lambda>ro. hiddenByPolicy h ro s) (pr_ReadOnly (sb_Profile s)) of
                   Some ro \<Rightarrow> Inl (NeverExposed ro)
                 | None \<Rightarrow>
                     (case macos_rules dc h s readDirs readLits of
                        Inl e \<Rightarrow> Inl e
                      | Inr rules \<Rightarrow> Inr \<lparr>pl_Backend = BackendMacOS, pl_Profile = pr_Name (sb_Profile s),
                          pl_Argv = [DefaultSandboxExec, ''-p'', sbpl_text rules, agent] @ tl (sb_Argv s),
                          pl_Env = macos_inner s, pl_InnerEnvNames = envNames (macos_inner s),
                          pl_Mounts = macos_mounts h s readDirs, pl_ContainerName = [], pl_Tool = DefaultSandboxExec,
                          pl_SBPL = sbpl_text rules\<rparr>)))"

section \<open>One interface\<close>

definition Available :: "host \<Rightarrow> backend \<Rightarrow> bool" where
  "Available h b =
     (case b of Container \<Rightarrow> container_tool h \<noteq> None | MacOS \<Rightarrow> exists_at h DefaultSandboxExec | Bwrap \<Rightarrow> found_tool h ''bwrap'')"

definition Prepare :: "decoders \<Rightarrow> host \<Rightarrow> bool \<Rightarrow> backend \<Rightarrow> spec \<Rightarrow> (prepare_error, sandbox_plan) result" where
  "Prepare dc h tty b s =
     (case b of Container \<Rightarrow> container_Prepare dc h tty s | MacOS \<Rightarrow> macos_Prepare dc h s | Bwrap \<Rightarrow> bwrap_Prepare dc h s)"

end
