(* ===== verification/SandboxHome.thy ===== *)
theory SandboxHome
  imports SandboxSpec
begin

text \<open>
  Filling the home of a sandbox (\<open>PrepareHomeFor\<close> and \<open>copyTree\<close> of \<open>internal/sandbox/sandbox.go\<close>): the
  entries of the agent's configuration directory that are copied into it. A directory tree is an
  \<open>fs_node\<close>; reading and writing the files themselves succeeds, except for making the two directories.
\<close>

datatype fs_node = FileNode string | DirNode "(string \<times> fs_node) list" | LinkNode | SpecialNode

definition DefaultCopyConfigFor :: "string \<Rightarrow> string list" where
  "DefaultCopyConfigFor kind = (if kind = ''codex'' then [''AGENTS.md'', ''prompts''] else defaultCopyConfig)"

fun copyTree :: "fs_node \<Rightarrow> fs_node option"
  and copy_entries :: "(string \<times> fs_node) list \<Rightarrow> (string \<times> fs_node) list" where
  "copyTree (FileNode d) = Some (FileNode d)"
| "copyTree (DirNode es) = Some (DirNode (copy_entries es))"
| "copyTree LinkNode = None"
| "copyTree SpecialNode = None"
| "copy_entries [] = []"
| "copy_entries ((n, t) # es) =
     (if refusedConfigName n then copy_entries es
      else case copyTree t of None \<Rightarrow> copy_entries es | Some c \<Rightarrow> (n, c) # copy_entries es)"

datatype home_error = ConfigDirName string | HomeNotMade | CopyRefused string

fun copy_config :: "(string \<Rightarrow> fs_node option) \<Rightarrow> string list \<Rightarrow> (home_error, (string \<times> fs_node) list) result" where
  "copy_config src [] = Inr []"
| "copy_config src (name # names) =
     (if refusedConfigName name \<or> name \<noteq> path_base name then Inl (CopyRefused name)
      else case copy_config src names of
          Inl e \<Rightarrow> Inl e
        | Inr out \<Rightarrow>
            (case src name of
               None \<Rightarrow> Inr out
             | Some t \<Rightarrow> (case copyTree t of None \<Rightarrow> Inr out | Some c \<Rightarrow> Inr ((name, c) # out))))"

definition PrepareHomeFor ::
  "host \<Rightarrow> string \<Rightarrow> string \<Rightarrow> (string \<Rightarrow> fs_node option) \<Rightarrow> string list \<Rightarrow> (home_error, (string \<times> fs_node) list) result" where
  "PrepareHomeFor h home configDirName src names =
     (if configDirName \<noteq> path_base configDirName \<or> \<not> has_prefix configDirName ''.'' \<or> length configDirName < 2
      then Inl (ConfigDirName configDirName)
      else if \<not> h_create h home \<or> \<not> h_create h (path_join [home, configDirName]) then Inl HomeNotMade
      else copy_config src names)"

section \<open>What is copied\<close>

text \<open>No credential file at any depth, and no link.\<close>

fun harmless :: "fs_node \<Rightarrow> bool" and harmless_entries :: "(string \<times> fs_node) list \<Rightarrow> bool" where
  "harmless (FileNode d) = True"
| "harmless (DirNode es) = harmless_entries es"
| "harmless LinkNode = False"
| "harmless SpecialNode = False"
| "harmless_entries [] = True"
| "harmless_entries ((n, t) # es) = (\<not> refusedConfigName n \<and> harmless t \<and> harmless_entries es)"

lemma copyTree_harmless: "copyTree t = Some c \<Longrightarrow> harmless c" and "harmless_entries (copy_entries es)"
  by (induction t and es arbitrary: c rule: copyTree_copy_entries.induct) (auto split: option.splits)

lemma copy_config_harmless: "copy_config src names = Inr out \<Longrightarrow> harmless_entries out"
  by (induction src names arbitrary: out rule: copy_config.induct)
    (auto split: if_splits sum.splits option.splits dest: copyTree_harmless)

text \<open>What is harmless already is copied whole.\<close>

lemma copyTree_whole: "harmless t \<Longrightarrow> copyTree t = Some t" and "harmless_entries es \<Longrightarrow> copy_entries es = es"
  by (induction t and es rule: copyTree_copy_entries.induct) auto

end
