(* ===== verification/AgentExec.thy ===== *)
theory AgentExec
  imports SandboxPlan SandboxHome
begin

text \<open>
  Starting an agent (\<open>internal/agentenv/exec.go\<close>, \<open>sandbox.go\<close>): the arguments of \<open>exec-clean\<close>, the
  environment it passes on, and the launch through a sandbox. The process is replaced by a command, or
  ends with a code; of what is printed only the names of dropped variables are modelled.
\<close>

datatype launch = Exit nat | Exec string "string list" "string list"

record sandbox_request =
  rq_Profile :: string
  rq_RyshDir :: string
  rq_Workspace :: string

definition no_request :: sandbox_request where
  "no_request = \<lparr>rq_Profile = [], rq_RyshDir = [], rq_Workspace = []\<rparr>"

text \<open>
  The world of a launch: the machine, whether standard input is a terminal, the random id, the binary of
  the host end of a bridge when one comes up in its directory, the entries of a configuration
  directory, and whether the exec of a path succeeds.
\<close>

record launcher =
  la_decoders :: decoders
  la_host :: host
  la_tty :: bool
  la_id :: string
  la_bridge :: "string \<Rightarrow> string option"
  la_config :: "string \<Rightarrow> string \<Rightarrow> fs_node option"
  la_replaces :: "string \<Rightarrow> bool"

section \<open>Lines typed into a shell\<close>

definition quote_any_char :: "char \<Rightarrow> string" where
  "quote_any_char c =
     (if c = CHR 0x27 then [CHR 0x27, CHR 0x5C, CHR 0x27, CHR 0x27]
      else if c = CHR 0x5C then [CHR 0x27, CHR 0x5C, CHR 0x5C, CHR 0x27] else [c])"

definition quoteAnyShell :: "string \<Rightarrow> string" where
  "quoteAnyShell s = CHR 0x27 # concat (map quote_any_char s) @ [CHR 0x27]"

definition TypedLine :: "string \<Rightarrow> agent_kind \<Rightarrow> string \<Rightarrow> string" where
  "TypedLine bin kind cmd =
     (if bin = [] then StaticPrefix @ '' '' @ cmd
      else let q = quoteAnyShell bin
        in ''test -x '' @ q @ '' && '' @ q @ '' exec-clean --agent '' @ kind_text kind @ '' -- '' @ cmd @
           '' || test -x '' @ q @ '' || '' @ StaticPrefix @ '' '' @ cmd)"

definition missing_binary :: string where
  "missing_binary = ''rysh: cannot start the sandboxed agent: the rysh binary is missing on this host (the agent was not started)''"

definition refusal_line :: string where
  "refusal_line = ''printf '' @ [CHR 0x27] @ ''%s'' @ [CHR 0x5C] @ ''n'' @ [CHR 0x27] @ '' '' @ quoteAnyShell missing_binary @ '' >&2''"

definition SandboxedTypedLine :: "string \<Rightarrow> agent_kind \<Rightarrow> string \<Rightarrow> string \<Rightarrow> string \<Rightarrow> string \<Rightarrow> string" where
  "SandboxedTypedLine bin kind prof ryshDir workspace cmd =
     (if bin = [] then refusal_line
      else let q = quoteAnyShell bin
        in ''test -x '' @ q @ '' && '' @ q @ '' exec-clean --agent '' @ kind_text kind @
           '' --sandbox '' @ quoteAnyShell prof @ '' --rysh-dir '' @ quoteAnyShell ryshDir @
           '' --workspace '' @ quoteAnyShell workspace @ '' -- '' @ cmd @ '' || test -x '' @ q @ '' || '' @ refusal_line)"

section \<open>Inside a sandbox\<close>

abbreviation sandboxExitCode :: nat where "sandboxExitCode \<equiv> 125"

definition absClean :: "host \<Rightarrow> string \<Rightarrow> string option" where
  "absClean h p =
     (if p = [] then None
      else case path_abs (h_os h) p of
          None \<Rightarrow> None
        | Some a \<Rightarrow> Some (case os_eval (h_os h) a of Some r \<Rightarrow> r | None \<Rightarrow> path_clean a))"

definition RulesPath :: "string \<Rightarrow> string" where
  "RulesPath ryshDir = path_join [ryshDir, ''sandbox'', ''fs-rules.json'']"

definition read_rules :: "decoders \<Rightarrow> host \<Rightarrow> string \<Rightarrow> rules_read" where
  "read_rules dc h ryshDir =
     (case h_read h (RulesPath ryshDir) of
        Missing \<Rightarrow> RulesMissing
      | Unreadable \<Rightarrow> RulesUnreadable
      | Found data \<Rightarrow> (case dc_rules dc data of None \<Rightarrow> RulesMalformed | Some f \<Rightarrow> RulesDecoded f))"

definition config_dir :: "agent_kind \<Rightarrow> string option" where
  "config_dir kind = (case kind of Claude \<Rightarrow> Some ''.claude'' | Codex \<Rightarrow> Some ''.codex'' | OtherAgent _ \<Rightarrow> None)"

definition StartBridge :: "launcher \<Rightarrow> string \<Rightarrow> int \<Rightarrow> int list \<Rightarrow> bridge option" where
  "StartBridge w dir port busPorts =
     (if CheckUpstream (la_decoders w) (''127.0.0.1:'' @ itoa port) busPorts \<noteq> None then None
      else map_option (\<lambda>self. \<lparr>br_Dir = dir, br_Socket = path_join [dir, bridgeSocketName], br_Binary = self, br_Port = port\<rparr>)
        (la_bridge w dir))"

definition spec_for ::
  "launcher \<Rightarrow> agent_kind \<Rightarrow> profile \<Rightarrow> path_rules \<Rightarrow> string \<Rightarrow> string \<Rightarrow> string \<Rightarrow> string \<Rightarrow> string list \<Rightarrow> string list \<Rightarrow> spec" where
  "spec_for w kind p rules hostHome ws ryshDir cfgDir argv env =
     (let h = la_host w; home = HomeDir ryshDir (pr_Name p)
      in \<lparr>sb_Profile = p, sb_Workspace = ws, sb_Home = home, sb_HostHome = path_clean hostHome, sb_RyshDir = ryshDir,
          sb_GitCommonDir = GitCommonDir h ws, sb_Argv = argv, sb_Env = env, sb_Bridge = None,
          sb_BusPorts = BusPorts (la_decoders w) h ryshDir env, sb_ProxyPort = SessionProxyPort (la_decoders w) h ryshDir env,
          sb_SetEnv = (if kind = Codex then [''CODEX_HOME='' @ path_join [home, cfgDir]] else []),
          sb_Rules = rules, sb_ID = la_id w\<rparr>)"

text \<open>The bridge of a proxied launch, when the backend has its own network.\<close>

definition with_bridge :: "launcher \<Rightarrow> backend \<Rightarrow> spec \<Rightarrow> spec option" where
  "with_bridge w b s =
     (if pr_Proxy (sb_Profile s) \<and> b \<noteq> MacOS then
        map_option (\<lambda>br. s\<lparr>sb_Bridge := Some br\<rparr>)
          (StartBridge w (path_join [sb_RyshDir s, ''sandbox'', ''run'', sb_ID s]) (sb_ProxyPort s) (sb_BusPorts s))
      else Some s)"

definition launch_spec :: "launcher \<Rightarrow> agent_kind \<Rightarrow> backend \<Rightarrow> spec \<Rightarrow> string \<Rightarrow> launch" where
  "launch_spec w kind b s cfgDir =
     (case CheckSpec (la_decoders w) (la_host w) s of
        Some e \<Rightarrow> Exit sandboxExitCode
      | None \<Rightarrow>
          (case with_bridge w b s of
             None \<Rightarrow> Exit sandboxExitCode
           | Some s' \<Rightarrow>
               (case PrepareHomeFor (la_host w) (sb_Home s') cfgDir (la_config w (path_join [sb_HostHome s', cfgDir]))
                    (if kind = Codex then DefaultCopyConfigFor ''codex'' else pr_CopyConfig (sb_Profile s')) of
                  Inl e \<Rightarrow> Exit sandboxExitCode
                | Inr copied \<Rightarrow>
                    (case Prepare (la_decoders w) (la_host w) (la_tty w) b s' of
                       Inl e \<Rightarrow> Exit sandboxExitCode
                     | Inr pl \<Rightarrow>
                         if la_replaces w (hd (pl_Argv pl)) then Exec (hd (pl_Argv pl)) (pl_Argv pl) (pl_Env pl)
                         else Exit sandboxExitCode))))"

definition runSandboxed :: "launcher \<Rightarrow> agent_kind \<Rightarrow> sandbox_request \<Rightarrow> string list \<Rightarrow> string list \<Rightarrow> launch" where
  "runSandboxed w kind req argv env =
     (let h = la_host w; dc = la_decoders w; fail = Exit sandboxExitCode
      in case config_dir kind of
          None \<Rightarrow> fail
        | Some cfgDir \<Rightarrow>
            (case Resolve dc h (rq_RyshDir req) (rq_Profile req) of
               Inl e \<Rightarrow> fail
             | Inr p \<Rightarrow>
                 (case os_home (h_os h) of
                    None \<Rightarrow> fail
                  | Some hostHome \<Rightarrow>
                      (case absClean h (rq_Workspace req) of
                         None \<Rightarrow> fail
                       | Some ws \<Rightarrow>
                           (case absClean h (rq_RyshDir req) of
                              None \<Rightarrow> fail
                            | Some ryshDir \<Rightarrow>
                                (case Select h p of
                                   Inl e \<Rightarrow> fail
                                 | Inr b \<Rightarrow>
                                     if \<not> Available h b then fail
                                     else case LoadRules (h_os h) (read_rules dc h ryshDir) of
                                         Inl e \<Rightarrow> fail
                                       | Inr rules \<Rightarrow>
                                           launch_spec w kind b (spec_for w kind p rules hostHome ws ryshDir cfgDir argv env) cfgDir))))))"

section \<open>Exec-clean\<close>

datatype parsed_args = PrintStatic | UnknownAgent | RunWith agent_kind bool sandbox_request "string list"

fun parse_args :: "agent_kind \<Rightarrow> bool \<Rightarrow> sandbox_request \<Rightarrow> string list \<Rightarrow> parsed_args" where
  "parse_args kind explain req [] = RunWith kind explain req []"
| "parse_args kind explain req [a] =
     (if a = ''--'' then RunWith kind explain req []
      else if a = ''--print-static'' then PrintStatic
      else if a = ''--explain'' then RunWith kind True req []
      else if has_prefix a ''--agent='' then
        (case ParseKind (trim_prefix a ''--agent='') of None \<Rightarrow> UnknownAgent | Some k \<Rightarrow> RunWith k explain req [])
      else RunWith kind explain req [a])"
| "parse_args kind explain req (a # v # args) =
     (if a = ''--sandbox'' then parse_args kind explain (req\<lparr>rq_Profile := v\<rparr>) args
      else if a = ''--rysh-dir'' then parse_args kind explain (req\<lparr>rq_RyshDir := v\<rparr>) args
      else if a = ''--workspace'' then parse_args kind explain (req\<lparr>rq_Workspace := v\<rparr>) args
      else if a = ''--'' then RunWith kind explain req (v # args)
      else if a = ''--print-static'' then PrintStatic
      else if a = ''--explain'' then parse_args kind True req (v # args)
      else if a = ''--agent'' then
        (case ParseKind v of None \<Rightarrow> UnknownAgent | Some k \<Rightarrow> parse_args k explain req args)
      else if has_prefix a ''--agent='' then
        (case ParseKind (trim_prefix a ''--agent='') of None \<Rightarrow> UnknownAgent | Some k \<Rightarrow> parse_args k explain req (v # args))
      else RunWith kind explain req (a # v # args))"

definition lookPath :: "host \<Rightarrow> string \<Rightarrow> string list \<Rightarrow> string option" where
  "lookPath h name env =
     (if slash \<in> set name then (if exists_at h name then Some name else None)
      else case List.map_filter (cut_prefix ''PATH='') env of
          [] \<Rightarrow> h_tool h name
        | v # _ \<Rightarrow> List.find (runnable h) (map (\<lambda>dir. path_join [if dir = [] then ''.'' else dir, name]) (split_list v)))"

definition run_direct :: "launcher \<Rightarrow> agent_kind \<Rightarrow> string list \<Rightarrow> string list \<Rightarrow> launch" where
  "run_direct w kind args env0 =
     (let env = (if kind = Claude then withClaudeAccount (la_host w) env0 else env0)
      in case lookPath (la_host w) (hd args) env of
          None \<Rightarrow> Exit 127
        | Some path \<Rightarrow> if la_replaces w path then Exec path args env else Exit 126)"

definition run_agent :: "launcher \<Rightarrow> agent_kind \<Rightarrow> sandbox_request \<Rightarrow> string list \<Rightarrow> string list \<Rightarrow> launch" where
  "run_agent w kind req args environ =
     (if args = [] then Exit 2
      else let env = Filter environ kind
        in if req \<noteq> no_request then
             (if rq_Profile req = [] \<or> rq_RyshDir req = [] \<or> rq_Workspace req = [] then Exit 2
              else runSandboxed w kind req args env)
           else run_direct w kind args env)"

text \<open>The names that are printed, and what becomes of the process.\<close>

definition Main :: "launcher \<Rightarrow> string list \<Rightarrow> string list \<Rightarrow> string list \<times> launch" where
  "Main w args environ =
     (case parse_args Claude False no_request args of
        PrintStatic \<Rightarrow> ([StaticPrefix], Exit 0)
      | UnknownAgent \<Rightarrow> ([], Exit 2)
      | RunWith kind explain req rest \<Rightarrow>
          (if explain \<and> rest \<noteq> [] then Dropped environ kind else [], run_agent w kind req rest environ))"

end
