(* ===== verification/SandboxPlans.thy ===== *)
theory SandboxPlans
  imports SandboxConfines AgentExec
begin

text \<open>
  What the plans of the backends guarantee, and what starting an agent in a sandbox can come to. The
  mounts of a plan are the ones its list names: the fixed ones of a command line (the system directories,
  \<open>/tmp\<close>, the directory of the bridge) are not among them.
\<close>

section \<open>The mounts of a plan\<close>

lemma parentDir_dir: "clean_abs p \<Longrightarrow> parentDir p = path_dir p"
proof (erule clean_absE)
  fix segs assume ok: "list_all seg_ok segs" and p: "p = abs_path segs"
  show "parentDir p = path_dir p"
  proof (cases segs rule: rev_cases)
    case Nil
    have "upto_slash ''/'' = ''/''" by code_simp
    then show ?thesis unfolding p Nil path_dir_root by (simp add: parentDir_def abs_path_def)
  next
    case (snoc ss x)
    then have "slash \<notin> set x" using ok by (simp add: seg_ok_def)
    then have "upto_slash p = (if ss = [] then [] else abs_path ss) @ ''/''"
      using upto_slash_snoc [of x "if ss = [] then [] else abs_path ss"] p snoc by (simp add: abs_path_snoc)
    then have "parentDir p = abs_path ss" by (simp add: parentDir_def Let_def butlast_append) (simp add: abs_path_def)
    then show ?thesis using path_dir_abs_path [of ss x] ok p snoc by simp
  qed
qed

lemma sensitive_clean: "clean_abs hh \<Longrightarrow> p \<in> set (SensitivePaths h hh) \<Longrightarrow> clean_abs p"
proof -
  assume "clean_abs hh" and p: "p \<in> set (SensitivePaths h hh)"
  then have "is_abs hh" by (simp add: clean_abs_def)
  moreover have "is_abs ''/run/user''" by code_simp
  moreover have "is_abs (h_runtime_dir h) \<Longrightarrow> is_abs (path_clean (h_runtime_dir h))"
    using path_clean_clean by (simp add: clean_abs_def)
  ultimately show ?thesis using p path_join_clean by (auto simp: SensitivePaths_def split: if_splits)
qed

text \<open>
  The layouts the theorems speak of: clean paths, a shared git directory apart from the state directory, and
  no denied path that is missing where the sandbox shows what is around it (a missing path is not held).
\<close>

definition plain_layout :: "host \<Rightarrow> spec \<Rightarrow> bool" where
  "plain_layout h s \<longleftrightarrow>
     (sb_RyshDir s = [] \<or> clean_abs (sb_RyshDir s)) \<and>
     (sb_GitCommonDir s = [] \<or> clean_abs (sb_GitCommonDir s) \<and> sb_GitCommonDir s \<noteq> ''/'' \<and>
        \<not> within_path (sb_GitCommonDir s) (sb_RyshDir s) \<and> \<not> within_path (sb_RyshDir s) (sb_GitCommonDir s)) \<and>
     clean_rules (sb_Rules s) \<and> list_all clean_abs (pr_ReadOnly (sb_Profile s)) \<and>
     list_all (\<lambda>d. insideAny d (rwAreas s @ pr_ReadOnly (sb_Profile s)) \<longrightarrow> linked_at h d) (pt_Deny (sb_Rules s))"

definition clean_agent :: "host \<Rightarrow> spec \<Rightarrow> bool" where
  "clean_agent h s \<longleftrightarrow> (case agentReadPaths h s of Inl e \<Rightarrow> True | Inr (agent, readDirs, readLits) \<Rightarrow> list_all clean_abs (readDirs @ readLits))"

lemma root_text: "abs_path [] = ''/''"
  by (simp add: abs_path_def)

lemma plain_layout_spec: "CheckSpec dc h s = None \<Longrightarrow> plain_layout h s \<Longrightarrow> plain_spec h s"
proof -
  assume c: "CheckSpec dc h s = None" and l: "plain_layout h s"
  note passed = CheckSpec_passed [OF c]
  have "sb_Workspace s \<noteq> ''/''" using within_root [OF passed(5)] passed(6) root_text by metis
  moreover have "\<not> within_path (sb_Workspace s) (sb_RyshDir s)" using passed(14) by (cases "sb_RyshDir s = []") auto
  ultimately have "areas_apart s" using passed l by (auto simp: areas_apart_def rwAreas_def plain_layout_def root_text)
  then show ?thesis using passed l by (auto simp: plain_spec_def plain_layout_def list_all_iff)
qed

lemma hidden_clean: "plain_spec h s \<Longrightarrow> d \<in> set (hidden_rules h s) \<Longrightarrow> clean_abs d"
  by (auto simp: hidden_rules_def plain_spec_def clean_rules_def split: if_splits)

lemma container_stages:
  assumes "CheckSpec dc h s = None" and "plain_layout h s" and "container_mounts h s = Inr ms"
  obtains L G E xs where "ms = by_depth xs"
    and "stages h container_bad path_dir s L G E [] (hidden_rules h s @ hidden_home h s) xs"
proof -
  obtain xs where xs: "staged h container_bad path_dir s [] (hidden_rules h s @ hidden_home h s) = Inr xs" "ms = by_depth xs"
    using assms(3) unfolding container_staged by (cases "staged h container_bad path_dir s [] (hidden_rules h s @ hidden_home h s)") auto
  have plain: "plain_spec h s" by (rule plain_layout_spec [OF assms(1,2)])
  have "\<forall>d \<in> set (hidden_rules h s @ hidden_home h s). clean_abs d"
    using hidden_clean [OF plain] sensitive_clean [OF CheckSpec_passed(5) [OF assms(1)]] by (auto simp: hidden_home_def)
  then show ?thesis
    by (rule_tac stagedE [OF xs(1)]) (rule that [OF xs(2)], use plain in \<open>auto simp: stages_def\<close>)
qed

lemma bwrap_stages:
  assumes "CheckSpec dc h s = None" and "plain_layout h s" and "bwrap_mounts h s reads = Inr ms" and "list_all clean_abs reads"
  obtains L G E xs where "ms = by_depth xs"
    and "stages h bwrap_bad parentDir s L G E (agent_reads s reads) (hidden_rules h s) xs"
proof -
  obtain xs where xs: "staged h bwrap_bad parentDir s (agent_reads s reads) (hidden_rules h s) = Inr xs" "ms = by_depth xs"
    using assms(3) unfolding bwrap_staged by (cases "staged h bwrap_bad parentDir s (agent_reads s reads) (hidden_rules h s)") auto
  have plain: "plain_spec h s" by (rule plain_layout_spec [OF assms(1,2)])
  have "\<forall>m \<in> set (agent_reads s reads). mo_ReadOnly m \<and> clean_abs (mo_Target m)"
    using assms(4) by (auto simp: agent_reads_def list_all_iff)
  then show ?thesis
    by (rule_tac stagedE [OF xs(1)]) (rule that [OF xs(2)], use plain hidden_clean [OF plain] parentDir_dir in \<open>auto simp: stages_def\<close>)
qed

lemma container_Prepare_mounts: "container_Prepare dc h tty s = Inr pl \<Longrightarrow> CheckSpec dc h s = None \<and> container_mounts h s = Inr (pl_Mounts pl)"
  by (auto simp: container_Prepare_def split: option.splits if_splits sum.splits)

lemma bwrap_Prepare_mounts: "bwrap_Prepare dc h s = Inr pl \<Longrightarrow> CheckSpec dc h s = None \<and>
   (\<exists>agent readDirs readLits. agentReadPaths h s = Inr (agent, readDirs, readLits) \<and> bwrap_mounts h s (readDirs @ readLits) = Inr (pl_Mounts pl))"
  by (auto simp: bwrap_Prepare_def split: option.splits if_splits sum.splits)

text \<open>
  C31: When a container or bubblewrap plan is prepared for a plain layout, what its mounts let the agent write,
  the sandbox home apart, lies in the workspace or the shared git directory, and the policy neither makes
  it read-only nor denies it, and it is not in the state directory. A container shows no denied path.
\<close>

theorem bind_mounts_confine:
  assumes "Prepare dc h tty b s = Inr pl" and "b \<noteq> MacOS" and "plain_layout h s" and "b = Bwrap \<Longrightarrow> clean_agent h s"
    and "clean_abs q" and "\<not> within_path q (sb_Home s)"
  shows "(can_write (pl_Mounts pl) q \<longrightarrow>
      insideAny q (rwAreas s) \<and> \<not> verdictReadOnly q (sb_Rules s) \<and> \<not> deniedByRules q (sb_Rules s) \<and> \<not> within_path q (sb_RyshDir s)) \<and>
    (b = Container \<and> can_see (pl_Mounts pl) q \<longrightarrow> \<not> deniedByRules q (sb_Rules s))"
proof (cases b)
  case Container
  then have c: "CheckSpec dc h s = None" "container_mounts h s = Inr (pl_Mounts pl)"
    using assms(1) container_Prepare_mounts by (auto simp: Prepare_def)
  obtain L G E xs where st: "pl_Mounts pl = by_depth xs"
    "stages h container_bad path_dir s L G E [] (hidden_rules h s @ hidden_home h s) xs"
    by (rule container_stages [OF c(1) assms(3) c(2)])
  have "can_see (pl_Mounts pl) q \<Longrightarrow> \<not> deniedByRules q (sb_Rules s)"
    using seen_not_denied [OF st(2) _ _ _ assms(5,6)] st(1) by (auto simp: can_see_def split: option.splits)
  then show ?thesis using writable_confined [OF st(2) _ assms(5,6)] st(1) by auto
next
  case Bwrap
  then have "bwrap_Prepare dc h s = Inr pl" using assms(1) by (simp add: Prepare_def)
  from bwrap_Prepare_mounts [OF this] obtain agent readDirs readLits where c: "CheckSpec dc h s = None"
    "agentReadPaths h s = Inr (agent, readDirs, readLits)" "bwrap_mounts h s (readDirs @ readLits) = Inr (pl_Mounts pl)" by blast
  have "list_all clean_abs (readDirs @ readLits)" using assms(4) Bwrap c(2) by (simp add: clean_agent_def)
  from bwrap_stages [OF c(1) assms(3) c(3) this] obtain L G E xs where st: "pl_Mounts pl = by_depth xs"
    "stages h bwrap_bad parentDir s L G E (agent_reads s (readDirs @ readLits)) (hidden_rules h s) xs" .
  then show ?thesis using writable_confined [OF st(2) _ assms(5,6)] Bwrap by auto
qed (use assms(2) in simp)

section \<open>A machine to try them on\<close>

definition demo_kind :: "string \<Rightarrow> file_kind looked_up" where
  "demo_kind p =
     (if p \<in> {''/ws'', ''/ws/vendor'', ''/ws/keys'', ''/ws/.git'', ''/ws/.git/hooks'', ''/opt'', ''/opt/agent''} then Found Directory
      else if p \<in> {''/ws/.git/config'', ''/opt/agent/claude'', ''/bwrap'', ''/usr/bin/sandbox-exec''} then Found RegularFile else Missing)"

definition demo_host :: "string \<Rightarrow> host" where
  "demo_host goos = \<lparr>h_lstat = demo_kind, h_stat = (\<lambda>p. case demo_kind p of Found k \<Rightarrow> Some (k, 493) | _ \<Rightarrow> None),
     h_read = (\<lambda>p. Missing), h_list = (\<lambda>p. Missing), h_open = (\<lambda>p. None), h_glob = (\<lambda>p. []), h_create = (\<lambda>p. True),
     h_tool = (\<lambda>t. Some (CHR ''/'' # t)), h_os = \<lparr>os_wd = Some ''/ws'', os_home = Some ''/home/u'', os_eval = Some\<rparr>,
     h_goos = goos, h_uid = 1000, h_gid = 1000, h_runtime_dir = []\<rparr>"

definition demo_decoders :: decoders where
  "demo_decoders = \<lparr>dc_url = (\<lambda>u. Some (''127.0.0.1'', ''8088'')), dc_port = (\<lambda>d n. None), dc_profiles = (\<lambda>d. Inl []),
     dc_rules = (\<lambda>d. None), dc_split = (\<lambda>u. None)\<rparr>"

definition demo_profile :: "bool \<Rightarrow> profile" where
  "demo_profile proxy = \<lparr>pr_Name = ''default'', pr_Backend = ''auto'', pr_Image = ''img'', pr_Network = False, pr_Proxy = proxy,
     pr_ReadOnly = [], pr_CopyConfig = []\<rparr>"

definition demo_spec :: "bool \<Rightarrow> spec" where
  "demo_spec proxy = \<lparr>sb_Profile = demo_profile proxy, sb_Workspace = ''/ws'', sb_Home = ''/home/u/.rysh/sandbox/homes/default'',
     sb_HostHome = ''/home/u'', sb_RyshDir = ''/home/u/.rysh'', sb_GitCommonDir = [], sb_Argv = [''claude''],
     sb_Env = [''PATH=/opt/agent''] @ (if proxy then [''ANTHROPIC_API_KEY=k'', ''ANTHROPIC_BASE_URL=u''] else []),
     sb_Bridge = (if proxy then Some \<lparr>br_Dir = ''/r'', br_Socket = ''/r/bridge.sock'', br_Binary = ''/rysh'', br_Port = 8088\<rparr> else None),
     sb_BusPorts = [4222], sb_ProxyPort = (if proxy then 8088 else 0), sb_SetEnv = [],
     sb_Rules = \<lparr>pt_ReadOnly = [''/ws/vendor''], pt_ReadWrite = [], pt_Deny = [''/ws/keys'']\<rparr>, sb_ID = ''a1''\<rparr>"

lemma demo_container: "\<not> isl (Prepare demo_decoders (demo_host ''linux'') False Container (demo_spec False))"
  by code_simp

lemma demo_layout: "plain_layout (demo_host ''linux'') (demo_spec False)"
  by code_simp

theorem bind_mounts_confine_witness:
  "\<exists>pl. Prepare demo_decoders (demo_host ''linux'') False Container (demo_spec False) = Inr pl \<and>
     \<not> can_write (pl_Mounts pl) ''/ws/vendor/x'' \<and> \<not> can_see (pl_Mounts pl) ''/ws/keys/id'' \<and> can_write (pl_Mounts pl) ''/ws/src''"
proof -
  obtain pl where pl: "Prepare demo_decoders (demo_host ''linux'') False Container (demo_spec False) = Inr pl"
    using demo_container by (cases "Prepare demo_decoders (demo_host ''linux'') False Container (demo_spec False)") simp_all
  have a: "clean_abs ''/ws/vendor/x''" "\<not> within_path ''/ws/vendor/x'' (sb_Home (demo_spec False))"
    "clean_abs ''/ws/keys/id''" "\<not> within_path ''/ws/keys/id'' (sb_Home (demo_spec False))"
    "verdictReadOnly ''/ws/vendor/x'' (sb_Rules (demo_spec False))" "deniedByRules ''/ws/keys/id'' (sb_Rules (demo_spec False))"
    by code_simp+
  have "container_mounts (demo_host ''linux'') (demo_spec False) = Inr (pl_Mounts pl)"
    using pl container_Prepare_mounts by (simp add: Prepare_def)
  moreover have "case container_mounts (demo_host ''linux'') (demo_spec False) of Inl e \<Rightarrow> False | Inr ms \<Rightarrow> can_write ms ''/ws/src''"
    by code_simp
  ultimately show ?thesis
    using pl a bind_mounts_confine [OF pl _ demo_layout, of "''/ws/vendor/x''"] bind_mounts_confine [OF pl _ demo_layout, of "''/ws/keys/id''"]
    by simp
qed

end
