(* ===== verification/SandboxProfile.thy ===== *)
theory SandboxProfile
  imports SandboxPlans
begin

text \<open>
  What the profile for \<open>sandbox-exec\<close> allows: of the rules that match an operation on a path, the last one
  decides, and an operation no rule matches is allowed, as the profile's first line says. Whether a
  regular expression matches a path is a parameter.
\<close>

section \<open>The verdict\<close>

definition filter_covers :: "(string \<Rightarrow> string \<Rightarrow> bool) \<Rightarrow> string \<Rightarrow> sb_filter \<Rightarrow> bool" where
  "filter_covers rx p f =
     (case f of PathFilter kind t \<Rightarrow> if kind = ''subpath'' then within_path p t else p = t
      | RegexFilter r \<Rightarrow> rx r p | RemoteIP a \<Rightarrow> False | GlobalName n \<Rightarrow> False)"

definition rule_covers :: "(string \<Rightarrow> string \<Rightarrow> bool) \<Rightarrow> string \<Rightarrow> string \<Rightarrow> sb_rule \<Rightarrow> bool" where
  "rule_covers rx op p r \<longleftrightarrow> op \<in> set (sb_ops r) \<and> (sb_filters r = [] \<or> list_ex (filter_covers rx p) (sb_filters r))"

fun judge :: "(string \<Rightarrow> string \<Rightarrow> bool) \<Rightarrow> string \<Rightarrow> string \<Rightarrow> bool \<Rightarrow> sb_rule list \<Rightarrow> bool" where
  "judge rx op p v [] = v"
| "judge rx op p v (r # rs) = judge rx op p (if rule_covers rx op p r then sb_allow r else v) rs"

definition permits :: "(string \<Rightarrow> string \<Rightarrow> bool) \<Rightarrow> sb_rule list \<Rightarrow> string \<Rightarrow> string \<Rightarrow> bool" where
  "permits rx rules op p = judge rx op p True rules"

lemma judge_append: "judge rx op p v (rs @ rs') = judge rx op p (judge rx op p v rs) rs'"
  by (induction rs arbitrary: v) simp_all

lemma judge_skip: "(\<forall>r \<in> set rs. \<not> rule_covers rx op p r) \<Longrightarrow> judge rx op p v rs = v"
  by (induction rs arbitrary: v) simp_all

lemma judge_denies: "(\<forall>r \<in> set rs. rule_covers rx op p r \<longrightarrow> \<not> sb_allow r) \<Longrightarrow>
   judge rx op p v rs \<longleftrightarrow> v \<and> (\<forall>r \<in> set rs. \<not> rule_covers rx op p r)"
  by (induction rs arbitrary: v) simp_all

lemma judge_allows: "judge rx op p v rs \<Longrightarrow> v \<or> (\<exists>r \<in> set rs. rule_covers rx op p r \<and> sb_allow r)"
  by (induction rs arbitrary: v) (auto split: if_splits)

lemma covers_path [simp]: "rule_covers rx op p (SbRule a ops (map (PathFilter kind) ps)) \<longleftrightarrow>
   op \<in> set ops \<and> (ps = [] \<or> (\<exists>t \<in> set ps. if kind = ''subpath'' then within_path p t else p = t))"
  by (auto simp: rule_covers_def filter_covers_def list_ex_iff)

section \<open>The pieces of the profile\<close>

lemma append_results_append: "append_results (xs @ ys) = Inr zs \<Longrightarrow>
   \<exists>us vs. append_results xs = Inr us \<and> append_results ys = Inr vs \<and> zs = us @ vs"
proof -
  assume "append_results (xs @ ys) = Inr zs"
  then obtain xss where x: "xs @ ys = map Inr xss" "zs = concat xss" by (auto simp: append_results_Inr)
  then obtain us vs where uv: "xss = us @ vs" "xs = map Inr us" "ys = map Inr vs" by (auto simp: append_eq_map_conv)
  have "append_results xs = Inr (concat us)" "append_results ys = Inr (concat vs)" using uv(2,3) by (auto simp: append_results_Inr)
  then show ?thesis using x(2) uv(1) by auto
qed

lemma append_results_Cons: "append_results (r # rs) = Inr zs \<Longrightarrow> \<exists>us vs. r = Inr us \<and> append_results rs = Inr vs \<and> zs = us @ vs"
  using append_results_append [of "[r]" rs zs] by (auto simp: append_results_Inr)

lemma append_results_one: "append_results [r] = Inr zs \<longleftrightarrow> r = Inr zs"
  by (cases r) (simp_all add: append_results_def)

lemma append_results_member: "append_results rs = Inr zs \<Longrightarrow> z \<in> set zs \<Longrightarrow> \<exists>us. Inr us \<in> set rs \<and> z \<in> set us"
  by (auto simp: append_results_Inr) (metis image_eqI)

lemma path_rule_Inr: "path_rule a ops kind ps = Inr rs \<longleftrightarrow>
   (if ps = [] then rs = [] else \<not> list_ex (\<lambda>p. contains_any p unquotable) ps \<and> rs = [SbRule a ops (map (PathFilter kind) ps)])"
  by (auto simp: path_rule_def find_None_iff list_ex_iff split: option.split dest: find_Some_iff2)

lemma path_rules_member: "append_results (map (\<lambda>p. path_rule a ops kind [p]) ps) = Inr rs \<Longrightarrow>
   rs = map (\<lambda>p. SbRule a ops [PathFilter kind p]) ps"
proof (induction ps arbitrary: rs)
  case (Cons p ps)
  then have "append_results (path_rule a ops kind [p] # map (\<lambda>p. path_rule a ops kind [p]) ps) = Inr rs" by simp
  from append_results_Cons [OF this] obtain us vs where
    "path_rule a ops kind [p] = Inr us" "append_results (map (\<lambda>p. path_rule a ops kind [p]) ps) = Inr vs" "rs = us @ vs" by blast
  then show ?case using Cons.IH [of vs] by (auto simp: path_rule_Inr)
qed (simp add: append_results_def)

text \<open>The profile's rules in their parts.\<close>

lemma macos_rules_parts:
  assumes "macos_rules dc h s readDirs readLits = Inr rules"
  obtains B L Y H I G where
    "append_results (take 6 (file_rules h s readDirs readLits)) = Inr B"
    "append_results (map (layer_rule s) (layered (sb_Rules s))) = Inr L"
    "append_results (rysh_rules s) = Inr Y"
    "H = map (\<lambda>p. SbRule False (readOps @ [sbpl_write]) [PathFilter ''subpath'' p]) (hidden_paths h s)"
    "append_results (install_rules s readDirs) = Inr I"
    "git_rules h s = Inr G"
    "rules = B @ L @ Y @ H @ I @ G @ mach_rule # network_rules s (macos_ports dc s)"
proof -
  let ?b = "take 6 (file_rules h s readDirs readLits)"
  let ?hidden = "map (\<lambda>p. path_rule False (readOps @ [sbpl_write]) ''subpath'' [p]) (hidden_paths h s)"
  obtain fs where f: "append_results (file_rules h s readDirs readLits) = Inr fs"
    "rules = fs @ mach_rule # network_rules s (macos_ports dc s)"
    using assms by (cases "append_results (file_rules h s readDirs readLits)") (auto simp: macos_rules_def)
  have parts: "?b @ map (layer_rule s) (layered (sb_Rules s)) @ rysh_rules s @ ?hidden @ install_rules s readDirs @ [git_rules h s] =
      file_rules h s readDirs readLits"
    by (simp add: file_rules_def)
  have f1: "append_results (?b @ map (layer_rule s) (layered (sb_Rules s)) @ rysh_rules s @ ?hidden @ install_rules s readDirs @
      [git_rules h s]) = Inr fs"
    unfolding parts by (rule f(1))
  obtain B r1 where 1: "append_results ?b = Inr B" "fs = B @ r1"
    "append_results (map (layer_rule s) (layered (sb_Rules s)) @ rysh_rules s @ ?hidden @ install_rules s readDirs @ [git_rules h s]) = Inr r1"
    using append_results_append [OF f1] by blast
  obtain L r2 where 2: "append_results (map (layer_rule s) (layered (sb_Rules s))) = Inr L" "r1 = L @ r2"
    "append_results (rysh_rules s @ ?hidden @ install_rules s readDirs @ [git_rules h s]) = Inr r2"
    using append_results_append [OF 1(3)] by blast
  obtain Y r3 where 3: "append_results (rysh_rules s) = Inr Y" "r2 = Y @ r3"
    "append_results (?hidden @ install_rules s readDirs @ [git_rules h s]) = Inr r3"
    using append_results_append [OF 2(3)] by blast
  obtain H r4 where 4: "append_results ?hidden = Inr H" "r3 = H @ r4"
    "append_results (install_rules s readDirs @ [git_rules h s]) = Inr r4"
    using append_results_append [OF 3(3)] by blast
  obtain I G where 5: "append_results (install_rules s readDirs) = Inr I" "r4 = I @ G" "append_results [git_rules h s] = Inr G"
    using append_results_append [OF 4(3)] by blast
  have "rules = B @ L @ Y @ H @ I @ G @ mach_rule # network_rules s (macos_ports dc s)"
    using f(2) 1(2) 2(2) 3(2) 4(2) 5(2) by simp
  then show ?thesis
    using that [OF 1(1) 2(1) 3(1) path_rules_member [OF 4(1)] 5(1)] 5(3) by (simp add: append_results_one)
qed

text \<open>What comes last says nothing of files.\<close>

lemma file_ops_distinct: "sbpl_write \<noteq> ''mach-lookup''" "sbpl_read_data \<noteq> ''mach-lookup''" by simp_all

lemma network_covers: "op \<in> {sbpl_write, sbpl_read_data} \<Longrightarrow> r \<in> set (mach_rule # network_rules s ports) \<Longrightarrow> \<not> rule_covers rx op p r"
  by (cases "pr_Network (sb_Profile s)"; cases "pr_Proxy (sb_Profile s)") (auto simp: network_rules_def proxy_rules_def mach_rule_def rule_covers_def)

text \<open>Every step of the git part only denies writing.\<close>

definition denies_writes :: "(prepare_error, sb_rule list) result \<Rightarrow> bool" where
  "denies_writes x \<longleftrightarrow> (\<forall>us. x = Inr us \<longrightarrow> (\<forall>r \<in> set us. \<not> sb_allow r \<and> sb_ops r = [sbpl_write]))"

lemma denies_writes_steps:
  "denies_writes (meta_rule p)" "denies_writes (path_rule False [sbpl_write] kind ps)" "denies_writes (regex_rule d x)" "denies_writes (Inl e)"
  by (auto simp: denies_writes_def meta_rule_def path_rule_Inr regex_rule_def split: if_splits)

lemma denies_writes_append: "\<forall>x \<in> set xs. denies_writes x \<Longrightarrow> denies_writes (append_results xs)"
  unfolding denies_writes_def using append_results_member by fast

lemma git_denies_writes: "denies_writes (git_rules h s)"
proof -
  let ?ws = "sb_Workspace s" and ?gc = "sb_GitCommonDir s"
  show ?thesis
  proof (cases "GitMetaPaths h ?ws ?gc")
    case m: (Inr metas)
    show ?thesis
    proof (cases "GitPins h ?ws ?gc")
      case p: (Inr pins)
      show ?thesis
        unfolding git_rules_def Let_def m p sum.case
        by (rule denies_writes_append, cases "GitModuleParents h ?ws ?gc";
            simp only: set_append set_map list.set ball_Un ball_simps sum.case denies_writes_steps ball_triv simp_thms)
    qed (simp add: git_rules_def m denies_writes_steps)
  qed (simp add: git_rules_def denies_writes_steps)
qed

lemma git_covers_meta:
  assumes "git_rules h s = Inr G" and "GitMetaPaths h (sb_Workspace s) (sb_GitCommonDir s) = Inr metas"
    and "GitPins h (sb_Workspace s) (sb_GitCommonDir s) = Inr pins" and "q \<in> set metas \<union> set pins" and "clean_abs q"
  shows "\<exists>r \<in> set G. rule_covers rx sbpl_write q r"
proof -
  note g1 = assms(1) [unfolded git_rules_def Let_def assms(2,3) sum.case]
  from append_results_append [OF g1] obtain us G1 where 1: "append_results (map meta_rule metas) = Inr us" "G = us @ G1"
    and g2: "append_results (map (\<lambda>p. path_rule False [sbpl_write] ''literal'' [p]) pins @
      (case GitModuleParents h (sb_Workspace s) (sb_GitCommonDir s) of Inl e \<Rightarrow> [Inl (GitFailed e)]
       | Inr parents \<Rightarrow> map (\<lambda>p. path_rule False [sbpl_write] ''literal'' [p]) parents) @
      map (\<lambda>d. regex_rule d (''/modules/(.+/)?'' @ meta_regex)) (gitBaseDirs h (sb_Workspace s) (sb_GitCommonDir s)) @
      [regex_rule (sb_Workspace s) (''/(.+/)?'' @ [CHR 0x5C] @ ''.git$''),
       regex_rule (sb_Workspace s) (''/(.+/)?'' @ [CHR 0x5C] @ ''.git/'' @ meta_regex)]) = Inr G1" by blast
  from append_results_append [OF g2] obtain vs G2 where
    2: "append_results (map (\<lambda>p. path_rule False [sbpl_write] ''literal'' [p]) pins) = Inr vs" "G1 = vs @ G2" by blast
  have u: "append_results (map meta_rule metas) = Inr us" "set us \<subseteq> set G"
    "append_results (map (\<lambda>p. path_rule False [sbpl_write] ''literal'' [p]) pins) = Inr vs" "set vs \<subseteq> set G"
    using 1 2 by auto
  show ?thesis
  proof (cases "q \<in> set pins")
    case True
    then have "SbRule False [sbpl_write] [PathFilter ''literal'' q] \<in> set vs" unfolding path_rules_member [OF u(3)] by simp
    then show ?thesis using u(4) covers_path [of rx sbpl_write q False "[sbpl_write]" "''literal''" "[q]"] by auto
  next
    case False
    then obtain zs where z: "meta_rule q = Inr zs" "set zs \<subseteq> set us" using assms(4) append_map_Inr [OF u(1)] by blast
    let ?k = "if path_base q = ''hooks'' then ''subpath'' else ''literal''"
    have "zs = [SbRule False [sbpl_write] (map (PathFilter ?k) [q])]" using z(1) by (simp add: meta_rule_def path_rule_Inr)
    then have "SbRule False [sbpl_write] (map (PathFilter ?k) [q]) \<in> set G" using z(2) u(2) by auto
    moreover have "rule_covers rx sbpl_write q (SbRule False [sbpl_write] (map (PathFilter ?k) [q]))"
      using within_refl [OF assms(5)] by (subst covers_path) simp
    ultimately show ?thesis by blast
  qed
qed

section \<open>Writing\<close>

lemma base_rules:
  assumes "append_results (take 6 (file_rules h s readDirs readLits)) = Inr B"
  shows "judge rx sbpl_write q True B \<Longrightarrow> insideAny q (write_dirs h s)"
    and "judge rx sbpl_read_data q True B \<Longrightarrow> within_path q (sb_HostHome s) \<Longrightarrow>
      insideAny q (readable_dirs s readDirs) \<or> q \<in> set readLits"
proof -
  have w: "write_dirs h s \<noteq> []" "readable_dirs s readDirs \<noteq> []" by (simp_all add: write_dirs_def readable_dirs_def)
  obtain lits ros where
    l: "path_rule True readOps ''literal'' readLits = Inr lits" "path_rule False [sbpl_write] ''subpath'' (pr_ReadOnly (sb_Profile s)) = Inr ros"
    and B: "B = [SbRule False [sbpl_write] [], SbRule True [sbpl_write] (map (PathFilter ''subpath'') (write_dirs h s)),
       SbRule False [sbpl_read_data] (map (PathFilter ''subpath'') [sb_HostHome s]),
       SbRule True [sbpl_read_data] (map (PathFilter ''subpath'') (readable_dirs s readDirs))] @ lits @ ros"
    using assms w by (auto simp: file_rules_def path_rule_Inr dest!: append_results_Cons)
      (auto simp: append_results_def)
  have all: "rule_covers rx sbpl_write q (SbRule False [sbpl_write] [])" by (simp add: rule_covers_def)
  have lits: "r \<in> set lits \<Longrightarrow> rule_covers rx op q r \<Longrightarrow> op \<noteq> sbpl_write \<and> q \<in> set readLits" for r op
    using l(1) by (auto simp: path_rule_Inr readOps_def split: if_splits)
  have ros: "\<forall>r \<in> set ros. rule_covers rx sbpl_write q r \<longrightarrow> \<not> sb_allow r" "\<forall>r \<in> set ros. \<not> rule_covers rx sbpl_read_data q r"
    using l(2) by (auto simp: path_rule_Inr split: if_splits)
  have 1: "judge rx sbpl_write q v lits = v" for v by (rule judge_skip) (use lits in blast)
  have 2: "judge rx sbpl_write q v ros \<Longrightarrow> v" for v using judge_denies [OF ros(1)] by blast
  have 3: "judge rx sbpl_read_data q v ros = v" for v by (rule judge_skip [OF ros(2)])
  have 4: "judge rx sbpl_read_data q v lits \<Longrightarrow> v \<or> q \<in> set readLits" for v using judge_allows lits by blast
  show "insideAny q (write_dirs h s)" if "judge rx sbpl_write q True B"
  proof -
    have "judge rx sbpl_write q True [SbRule False [sbpl_write] [], SbRule True [sbpl_write] (map (PathFilter ''subpath'') (write_dirs h s)),
       SbRule False [sbpl_read_data] (map (PathFilter ''subpath'') [sb_HostHome s]),
       SbRule True [sbpl_read_data] (map (PathFilter ''subpath'') (readable_dirs s readDirs))]"
      using that 1 2 unfolding B judge_append by metis
    then show ?thesis using w(1) all by (auto simp: insideAny_iff split: if_splits simp del: list.map)
  qed
  show "insideAny q (readable_dirs s readDirs) \<or> q \<in> set readLits" if "judge rx sbpl_read_data q True B" and "within_path q (sb_HostHome s)"
  proof -
    have "judge rx sbpl_read_data q True [SbRule False [sbpl_write] [], SbRule True [sbpl_write] (map (PathFilter ''subpath'') (write_dirs h s)),
       SbRule False [sbpl_read_data] (map (PathFilter ''subpath'') [sb_HostHome s]),
       SbRule True [sbpl_read_data] (map (PathFilter ''subpath'') (readable_dirs s readDirs))] \<or> q \<in> set readLits"
      using that 3 4 unfolding B judge_append by metis
    moreover have "\<not> rule_covers rx sbpl_read_data q (SbRule False [sbpl_write] [])" by (simp add: rule_covers_def)
    ultimately show ?thesis using w(2) that(2) by (auto simp: insideAny_iff split: if_splits simp del: list.map)
  qed
qed

lemma layer_rules:
  assumes "append_results (map (layer_rule s) ls) = Inr L"
  shows "judge rx sbpl_write q v L \<Longrightarrow> (v \<Longrightarrow> \<not> ro) \<Longrightarrow>
      \<not> fold (\<lambda>l ro. if within_path q (ly_Path l) then ly_ReadOnly l else ro) ls ro"
    and "r \<in> set L \<Longrightarrow> sb_ops r = [sbpl_write]"
    and "r \<in> set L \<Longrightarrow> sb_allow r \<Longrightarrow> rule_covers rx op q r \<Longrightarrow>
      \<exists>l \<in> set ls. within_path q (ly_Path l) \<and> insideAny (ly_Path l) (sb_Workspace s # common_dirs s)"
proof -
  have step: "append_results (map (layer_rule s) (l # ls)) = Inr L \<Longrightarrow>
     \<exists>us vs. layer_rule s l = Inr us \<and> append_results (map (layer_rule s) ls) = Inr vs \<and> L = us @ vs" for l ls L
    using append_results_Cons by simp
  have one: "layer_rule s l = Inr us \<Longrightarrow> us = (if ly_ReadOnly l then [SbRule False [sbpl_write] (map (PathFilter ''subpath'') [ly_Path l])]
      else if insideAny (ly_Path l) (sb_Workspace s # common_dirs s) then [SbRule True [sbpl_write] (map (PathFilter ''subpath'') [ly_Path l])]
      else [])" for l us
    by (auto simp: layer_rule_def path_rule_Inr split: if_splits)
  show "judge rx sbpl_write q v L \<Longrightarrow> (v \<Longrightarrow> \<not> ro) \<Longrightarrow>
      \<not> fold (\<lambda>l ro. if within_path q (ly_Path l) then ly_ReadOnly l else ro) ls ro"
    using assms
  proof (induction ls arbitrary: L v ro)
    case Nil
    then show ?case by (simp add: append_results_def)
  next
    case (Cons l ls)
    obtain us vs where s: "layer_rule s l = Inr us" "append_results (map (layer_rule s) ls) = Inr vs" "L = us @ vs"
      using step [OF Cons.prems(3)] by blast
    have "judge rx sbpl_write q (judge rx sbpl_write q v us) vs" using Cons.prems(1) s(3) by (simp add: judge_append)
    moreover have "judge rx sbpl_write q v us \<Longrightarrow> \<not> (if within_path q (ly_Path l) then ly_ReadOnly l else ro)"
      using Cons.prems(2) one [OF s(1)] by (auto split: if_splits simp del: list.map)
    ultimately show ?case using Cons.IH [OF _ _ s(2)] by simp
  qed
  show "r \<in> set L \<Longrightarrow> sb_ops r = [sbpl_write]"
    using append_map_member [OF assms, of r] by (auto dest!: one split: if_splits)
  show "r \<in> set L \<Longrightarrow> sb_allow r \<Longrightarrow> rule_covers rx op q r \<Longrightarrow>
      \<exists>l \<in> set ls. within_path q (ly_Path l) \<and> insideAny (ly_Path l) (sb_Workspace s # common_dirs s)"
  proof -
    assume r: "r \<in> set L" "sb_allow r" "rule_covers rx op q r"
    obtain l zs where l: "l \<in> set ls" "layer_rule s l = Inr zs" "r \<in> set zs" using append_map_member [OF assms r(1)] by blast
    then have "r = SbRule True [sbpl_write] (map (PathFilter ''subpath'') [ly_Path l])" "insideAny (ly_Path l) (sb_Workspace s # common_dirs s)"
      using one [OF l(2)] r(2) by (auto split: if_splits)
    then show ?thesis using r(3) l(1) covers_path [of rx op q True "[sbpl_write]" "''subpath''" "[ly_Path l]"] by auto
  qed
qed

text \<open>The state directory is closed to both, and the home inside it open.\<close>

lemma rysh_verdict:
  assumes "append_results (rysh_rules s) = Inr Y" and "op \<in> {sbpl_write, sbpl_read_data}"
  shows "judge rx op q v Y \<longleftrightarrow>
    (if sb_RyshDir s = [] then v else within_path q (sb_Home s) \<or> (v \<and> \<not> within_path q (sb_RyshDir s)))"
proof (cases "sb_RyshDir s = []")
  case True
  then show ?thesis using assms(1) by (simp add: rysh_rules_def append_results_def)
next
  case False
  then have "Y = [SbRule False (readOps @ [sbpl_write]) (map (PathFilter ''subpath'') [sb_RyshDir s]),
      SbRule True (readOps @ [sbpl_write]) (map (PathFilter ''subpath'') [sb_Home s])]"
    using assms(1) by (cases "path_rule False (readOps @ [sbpl_write]) ''subpath'' [sb_RyshDir s]";
        cases "path_rule True (readOps @ [sbpl_write]) ''subpath'' [sb_Home s]") (auto simp: rysh_rules_def append_results_def path_rule_Inr)
  then show ?thesis using False assms(2) by (auto simp: readOps_def simp del: list.map)
qed

lemma hidden_verdict:
  "op \<in> {sbpl_write, sbpl_read_data} \<Longrightarrow>
   judge rx op q v (map (\<lambda>p. SbRule False (readOps @ [sbpl_write]) [PathFilter ''subpath'' p]) ps) \<longleftrightarrow> v \<and> \<not> insideAny q ps"
  by (induction ps arbitrary: v)
    (auto simp: insideAny_def rule_covers_def filter_covers_def readOps_def)

lemma install_member:
  assumes "append_results (install_rules s readDirs) = Inr I" and "r \<in> set I"
  shows "\<exists>d \<in> set readDirs. isAgentInstallUnderClaude d (sb_HostHome s) \<and> r = SbRule True readOps (map (PathFilter ''subpath'') [d])"
  using append_map_member [OF assms(1) [unfolded install_rules_def] assms(2)] by (auto simp: path_rule_Inr)

lemma areas_write: "insideAny p (sb_Workspace s # common_dirs s) \<Longrightarrow> \<exists>a \<in> set (write_dirs h s). (a = sb_Workspace s \<or> a = sb_GitCommonDir s \<and> a \<noteq> []) \<and> within_path p a"
  by (auto simp: insideAny_iff write_dirs_def common_dirs_def split: if_splits)

lemma network_silent:
  "op \<in> {sbpl_write, sbpl_read_data} \<Longrightarrow> judge rx op q v (mach_rule # network_rules s ports) = v"
  by (rule judge_skip) (use network_covers in blast)

lemma git_deny_only: "git_rules h s = Inr G \<Longrightarrow> r \<in> set G \<Longrightarrow> \<not> sb_allow r \<and> sb_ops r = [sbpl_write]"
  using git_denies_writes [of h s] by (simp add: denies_writes_def)

lemma write_verdict:
  assumes "macos_rules dc h s readDirs readLits = Inr rules" and "permits rx rules sbpl_write q"
  shows "\<exists>B L G. append_results (take 6 (file_rules h s readDirs readLits)) = Inr B \<and>
    append_results (map (layer_rule s) (layered (sb_Rules s))) = Inr L \<and> git_rules h s = Inr G \<and>
    \<not> insideAny q (hidden_paths h s) \<and> (\<forall>r \<in> set G. \<not> rule_covers rx sbpl_write q r) \<and>
    (judge rx sbpl_write q True (B @ L) \<and> \<not> within_path q (sb_RyshDir s) \<or> within_path q (sb_Home s))"
proof -
  from macos_rules_parts [OF assms(1)] obtain B L Y H I G where
    p: "append_results (take 6 (file_rules h s readDirs readLits)) = Inr B"
    "append_results (map (layer_rule s) (layered (sb_Rules s))) = Inr L" "append_results (rysh_rules s) = Inr Y"
    "H = map (\<lambda>p. SbRule False (readOps @ [sbpl_write]) [PathFilter ''subpath'' p]) (hidden_paths h s)"
    "append_results (install_rules s readDirs) = Inr I" "git_rules h s = Inr G"
    and rules: "rules = B @ L @ Y @ H @ I @ G @ mach_rule # network_rules s (macos_ports dc s)" .
  let ?v = "judge rx sbpl_write q True (B @ L @ Y @ H @ I)"
  have "judge rx sbpl_write q ?v G"
    using assms(2) network_silent [of sbpl_write] unfolding permits_def rules by (simp add: judge_append)
  then have v: "?v" "\<forall>r \<in> set G. \<not> rule_covers rx sbpl_write q r"
    using judge_denies [of G rx sbpl_write q ?v] git_deny_only [OF p(6)] by blast+
  have "judge rx sbpl_write q w I = w" for w
    by (rule judge_skip) (auto simp: readOps_def simp del: list.map dest!: install_member [OF p(5)])
  then have "judge rx sbpl_write q (judge rx sbpl_write q True (B @ L)) Y \<and> \<not> insideAny q (hidden_paths h s)"
    using v(1) hidden_verdict [of sbpl_write rx q _ "hidden_paths h s"] unfolding p(4) by (simp add: judge_append)
  then have "\<not> insideAny q (hidden_paths h s) \<and>
      (judge rx sbpl_write q True (B @ L) \<and> \<not> within_path q (sb_RyshDir s) \<or> within_path q (sb_Home s))"
    using rysh_verdict [OF p(3), of sbpl_write] by (auto split: if_splits)
  then show ?thesis using p(1,2,6) v(2) by blast
qed

lemma read_verdict:
  assumes "macos_rules dc h s readDirs readLits = Inr rules" and "permits rx rules sbpl_read_data q"
    and "\<not> insideAny q (filter (\<lambda>d. isAgentInstallUnderClaude d (sb_HostHome s)) readDirs)"
  shows "\<exists>B. append_results (take 6 (file_rules h s readDirs readLits)) = Inr B \<and> \<not> insideAny q (hidden_paths h s) \<and>
    (within_path q (sb_Home s) \<or> judge rx sbpl_read_data q True B \<and> \<not> within_path q (sb_RyshDir s))"
proof -
  from macos_rules_parts [OF assms(1)] obtain B L Y H I G where
    p: "append_results (take 6 (file_rules h s readDirs readLits)) = Inr B"
    "append_results (map (layer_rule s) (layered (sb_Rules s))) = Inr L" "append_results (rysh_rules s) = Inr Y"
    "H = map (\<lambda>p. SbRule False (readOps @ [sbpl_write]) [PathFilter ''subpath'' p]) (hidden_paths h s)"
    "append_results (install_rules s readDirs) = Inr I" "git_rules h s = Inr G"
    and rules: "rules = B @ L @ Y @ H @ I @ G @ mach_rule # network_rules s (macos_ports dc s)" .
  have "judge rx sbpl_read_data q v G = v" for v
    by (rule judge_skip) (use git_deny_only [OF p(6)] in \<open>auto simp: rule_covers_def\<close>)
  then have "judge rx sbpl_read_data q (judge rx sbpl_read_data q True (B @ L @ Y @ H)) I"
    using assms(2) network_silent [of sbpl_read_data] unfolding permits_def rules by (simp add: judge_append)
  moreover have "\<not> rule_covers rx sbpl_read_data q r" if m: "r \<in> set I" for r
  proof
    assume c: "rule_covers rx sbpl_read_data q r"
    obtain d where "d \<in> set readDirs" "isAgentInstallUnderClaude d (sb_HostHome s)" "r = SbRule True readOps (map (PathFilter ''subpath'') [d])"
      using install_member [OF p(5) m] by blast
    then show False using c assms(3) covers_path [of rx sbpl_read_data q True readOps "''subpath''" "[d]"] by (auto simp: insideAny_iff)
  qed
  ultimately have H: "judge rx sbpl_read_data q True (B @ L @ Y @ H)" using judge_allows by blast
  have "judge rx sbpl_read_data q v L = v" for v
    by (rule judge_skip) (use layer_rules(2) [OF p(2)] in \<open>auto simp: rule_covers_def\<close>)
  then have "judge rx sbpl_read_data q (judge rx sbpl_read_data q True B) Y \<and> \<not> insideAny q (hidden_paths h s)"
    using H hidden_verdict [of sbpl_read_data rx q _ "hidden_paths h s"] unfolding p(4) by (simp add: judge_append)
  then show ?thesis using p(1) rysh_verdict [OF p(3), of sbpl_read_data] by (auto split: if_splits)
qed

lemma written_area:
  assumes B: "append_results (take 6 (file_rules h s readDirs readLits)) = Inr B"
    and L: "append_results (map (layer_rule s) (layered (sb_Rules s))) = Inr L" and v: "judge rx sbpl_write q True (B @ L)"
    and clean: "clean_rules (sb_Rules s)" "sb_GitCommonDir s = [] \<or> clean_abs (sb_GitCommonDir s)" "clean_abs (sb_Workspace s)" "clean_abs q"
  shows "insideAny q (write_dirs h s) \<and> \<not> verdictReadOnly q (sb_Rules s)"
proof (rule conjI)
  show "\<not> verdictReadOnly q (sb_Rules s)"
    using layer_rules(1) [OF L, of rx q "judge rx sbpl_write q True B" False] v by (simp add: verdictReadOnly_def judge_append)
  from v judge_allows [of rx sbpl_write q "judge rx sbpl_write q True B" L] consider
    "judge rx sbpl_write q True B" | r where "r \<in> set L" "rule_covers rx sbpl_write q r" "sb_allow r"
    by (auto simp: judge_append)
  then show "insideAny q (write_dirs h s)"
  proof cases
    case 1
    then show ?thesis by (rule base_rules(1) [OF B])
  next
    case 2
    from layer_rules(3) [OF L 2(1,3,2)] obtain l where l: "l \<in> set (layered (sb_Rules s))" "within_path q (ly_Path l)"
      "insideAny (ly_Path l) (sb_Workspace s # common_dirs s)" by blast
    obtain w where w: "w \<in> set (write_dirs h s)" "w = sb_Workspace s \<or> w = sb_GitCommonDir s \<and> w \<noteq> []" "within_path (ly_Path l) w"
      using areas_write [OF l(3)] by blast
    have "clean_abs (ly_Path l)" using l(1) clean(1) by (auto simp: layered_def clean_rules_def)
    moreover have "clean_abs w" using w(2) clean(2,3) by auto
    ultimately have "within_path q w" using within_trans [OF clean(4)] l(2) w(3) by blast
    then show ?thesis using w(1) by (auto simp: insideAny_iff)
  qed
qed

text \<open>
  C32: Under the profile of a macOS plan, with the last matching rule deciding: what can be written lies in the
  directories opened for writing, is not hidden, is neither metadata of git nor a git directory itself and,
  outside the sandbox home, is not in the state directory nor read-only by the policy; what can be read is
  not hidden, and below the real home it is in what was opened for reading, the agent's own install apart.
\<close>

theorem profile_confines:
  assumes "macos_Prepare dc h s = Inr pl" and "clean_rules (sb_Rules s)" and "sb_GitCommonDir s = [] \<or> clean_abs (sb_GitCommonDir s)"
    and "clean_abs q"
  shows "\<exists>agent readDirs readLits rules. agentReadPaths h s = Inr (agent, readDirs, readLits) \<and>
    pl_Argv pl = [DefaultSandboxExec, ''-p'', sbpl_text rules, agent] @ tl (sb_Argv s) \<and>
    (permits rx rules sbpl_write q \<longrightarrow>
       insideAny q (write_dirs h s) \<and> \<not> insideAny q (hidden_paths h s) \<and>
       (\<not> within_path q (sb_Home s) \<longrightarrow> \<not> within_path q (sb_RyshDir s) \<and> \<not> verdictReadOnly q (sb_Rules s)) \<and>
       (\<exists>metas pins. GitMetaPaths h (sb_Workspace s) (sb_GitCommonDir s) = Inr metas \<and>
          GitPins h (sb_Workspace s) (sb_GitCommonDir s) = Inr pins \<and> q \<notin> set metas \<union> set pins)) \<and>
    (permits rx rules sbpl_read_data q \<longrightarrow>
       insideAny q (filter (\<lambda>d. isAgentInstallUnderClaude d (sb_HostHome s)) readDirs) \<or>
       \<not> insideAny q (hidden_paths h s) \<and>
       (within_path q (sb_RyshDir s) \<longrightarrow> within_path q (sb_Home s)) \<and>
       (within_path q (sb_HostHome s) \<longrightarrow> within_path q (sb_Home s) \<or> insideAny q (readable_dirs s readDirs) \<or> q \<in> set readLits))"
proof -
  have ws: "clean_abs (sb_Workspace s)"
    by (rule CheckSpec_passed(3)) (use assms(1) in \<open>auto simp: macos_Prepare_def split: option.splits\<close>)
  obtain agent readDirs readLits rules where a: "agentReadPaths h s = Inr (agent, readDirs, readLits)"
    "pl_Argv pl = [DefaultSandboxExec, ''-p'', sbpl_text rules, agent] @ tl (sb_Argv s)" and r: "macos_rules dc h s readDirs readLits = Inr rules"
    using assms(1) by (auto simp: macos_Prepare_def split: option.splits if_splits sum.splits)
  have W: "insideAny q (write_dirs h s) \<and> \<not> insideAny q (hidden_paths h s) \<and>
      (\<not> within_path q (sb_Home s) \<longrightarrow> \<not> within_path q (sb_RyshDir s) \<and> \<not> verdictReadOnly q (sb_Rules s)) \<and>
      (\<exists>metas pins. GitMetaPaths h (sb_Workspace s) (sb_GitCommonDir s) = Inr metas \<and>
          GitPins h (sb_Workspace s) (sb_GitCommonDir s) = Inr pins \<and> q \<notin> set metas \<union> set pins)"
    if p: "permits rx rules sbpl_write q"
  proof -
    from write_verdict [OF r p] obtain B L G where b: "append_results (take 6 (file_rules h s readDirs readLits)) = Inr B"
      "append_results (map (layer_rule s) (layered (sb_Rules s))) = Inr L" and G: "git_rules h s = Inr G"
      and v: "\<not> insideAny q (hidden_paths h s)" "\<forall>r \<in> set G. \<not> rule_covers rx sbpl_write q r"
      "judge rx sbpl_write q True (B @ L) \<and> \<not> within_path q (sb_RyshDir s) \<or> within_path q (sb_Home s)" by blast
    obtain metas pins where g: "GitMetaPaths h (sb_Workspace s) (sb_GitCommonDir s) = Inr metas"
      "GitPins h (sb_Workspace s) (sb_GitCommonDir s) = Inr pins"
      using G by (auto simp: git_rules_def Let_def split: sum.splits)
    have "within_path q (sb_Home s) \<Longrightarrow> insideAny q (write_dirs h s)" by (auto simp: insideAny_iff write_dirs_def)
    then show ?thesis
      using v g git_covers_meta [OF G g _ assms(4)] written_area [OF b _ assms(2,3) ws assms(4)] by blast
  qed
  have R: "insideAny q (filter (\<lambda>d. isAgentInstallUnderClaude d (sb_HostHome s)) readDirs) \<or>
         \<not> insideAny q (hidden_paths h s) \<and>
         (within_path q (sb_RyshDir s) \<longrightarrow> within_path q (sb_Home s)) \<and>
         (within_path q (sb_HostHome s) \<longrightarrow> within_path q (sb_Home s) \<or> insideAny q (readable_dirs s readDirs) \<or> q \<in> set readLits)"
    if "permits rx rules sbpl_read_data q"
    using read_verdict [OF r that] base_rules(2) by blast
  show ?thesis
    by (rule exI [of _ agent], rule exI [of _ readDirs], rule exI [of _ readLits], rule exI [of _ rules]) (use a W R in blast)
qed

lemma demo_macos: "\<not> isl (macos_Prepare demo_decoders (demo_host ''darwin'') (demo_spec False))"
  by code_simp

theorem profile_confines_witness:
  "\<exists>pl agent readDirs readLits rules. macos_Prepare demo_decoders (demo_host ''darwin'') (demo_spec False) = Inr pl \<and>
     pl_Argv pl = [DefaultSandboxExec, ''-p'', sbpl_text rules, agent] @ tl (sb_Argv (demo_spec False)) \<and>
     agentReadPaths (demo_host ''darwin'') (demo_spec False) = Inr (agent, readDirs, readLits) \<and>
     \<not> permits (\<lambda>r p. False) rules sbpl_write ''/ws/vendor/x''"
proof -
  obtain pl where pl: "macos_Prepare demo_decoders (demo_host ''darwin'') (demo_spec False) = Inr pl"
    using demo_macos by (cases "macos_Prepare demo_decoders (demo_host ''darwin'') (demo_spec False)") simp_all
  have a: "clean_rules (sb_Rules (demo_spec False))" "sb_GitCommonDir (demo_spec False) = [] \<or> clean_abs (sb_GitCommonDir (demo_spec False))"
    "clean_abs ''/ws/vendor/x''" "\<not> within_path ''/ws/vendor/x'' (sb_Home (demo_spec False))"
    "verdictReadOnly ''/ws/vendor/x'' (sb_Rules (demo_spec False))"
    by code_simp+
  show ?thesis using profile_confines [OF pl a(1-3), of "\<lambda>r p. False"] pl a(4,5) by blast
qed

end
