(* ===== verification/SandboxLaunch.thy ===== *)
theory SandboxLaunch
  imports SandboxPlans
begin

text \<open>
  What starting an agent in a sandbox can come to: a backend's tool in place of the agent or an exit, and an
  environment without the credentials.
\<close>

section \<open>The command of a plan\<close>

lemma plan_command: "Prepare dc h tty b s = Inr pl \<Longrightarrow> hd (pl_Argv pl) = pl_Tool pl"
  by (cases b) (auto simp: Prepare_def container_Prepare_def bwrap_Prepare_def macos_Prepare_def container_argv_def bwrap_argv_def
    Let_def split: option.splits if_splits sum.splits)

lemma Prepare_checked: "Prepare dc h tty b s = Inr pl \<Longrightarrow> CheckSpec dc h s = None"
  by (cases b) (auto simp: Prepare_def container_Prepare_def bwrap_Prepare_def macos_Prepare_def
    split: option.splits sum.splits if_splits)

text \<open>The tool each backend runs.\<close>

definition backend_tool :: "host \<Rightarrow> backend \<Rightarrow> string option" where
  "backend_tool h b = (case b of Container \<Rightarrow> container_tool h | Bwrap \<Rightarrow> h_tool h ''bwrap'' | MacOS \<Rightarrow> Some DefaultSandboxExec)"

lemma plan_tool: "Prepare dc h tty b s = Inr pl \<Longrightarrow> backend_tool h b = Some (pl_Tool pl)"
  by (cases b) (auto simp: Prepare_def container_Prepare_def bwrap_Prepare_def macos_Prepare_def backend_tool_def found_tool_def
    split: option.splits if_splits sum.splits)

lemma with_bridge_fields: "with_bridge w b s = Some s' \<Longrightarrow> \<exists>br. s' = s\<lparr>sb_Bridge := br\<rparr>"
  by (auto simp: with_bridge_def split: if_splits option.splits intro: exI [of _ "sb_Bridge s'"])

lemma launch_spec_Exec:
  assumes "launch_spec w kind b s cfgDir = Exec path argv env"
  shows "\<exists>s' pl. with_bridge w b s = Some s' \<and> Prepare (la_decoders w) (la_host w) (la_tty w) b s' = Inr pl \<and>
    path = pl_Tool pl \<and> argv = pl_Argv pl \<and> env = pl_Env pl"
  using assms plan_command by (fastforce simp: launch_spec_def split: option.splits sum.splits if_splits)

lemma runSandboxed_Exec:
  assumes "runSandboxed w kind req args env0 = Exec path argv env"
  shows "\<exists>cfgDir p hostHome ws ryshDir b rules.
    Resolve (la_decoders w) (la_host w) (rq_RyshDir req) (rq_Profile req) = Inr p \<and>
    absClean (la_host w) (rq_Workspace req) = Some ws \<and> absClean (la_host w) (rq_RyshDir req) = Some ryshDir \<and>
    Select (la_host w) p = Inr b \<and> Available (la_host w) b \<and>
    LoadRules (h_os (la_host w)) (read_rules (la_decoders w) (la_host w) ryshDir) = Inr rules \<and>
    launch_spec w kind b (spec_for w kind p rules hostHome ws ryshDir cfgDir args env0) cfgDir = Exec path argv env"
  using assms unfolding runSandboxed_def Let_def
  by (auto split: option.splits sum.splits if_splits)

text \<open>
  C33: A launch that asks for a sandbox either ends, or replaces the process by the tool of the selected backend,
  with the command and the environment of a plan that was prepared from a specification that passed every
  check, with the resolved profile, the published rules and the filtered environment. It never runs the
  agent itself.
\<close>

theorem sandboxed_or_nothing:
  assumes "run_agent w kind req args environ = Exec path argv env" and "req \<noteq> no_request"
  shows "\<exists>p b s pl rules. Resolve (la_decoders w) (la_host w) (rq_RyshDir req) (rq_Profile req) = Inr p \<and>
    Select (la_host w) p = Inr b \<and> Available (la_host w) b \<and>
    LoadRules (h_os (la_host w)) (read_rules (la_decoders w) (la_host w) (sb_RyshDir s)) = Inr rules \<and>
    sb_Profile s = p \<and> sb_Rules s = rules \<and> sb_Argv s = args \<and> sb_Env s = Filter environ kind \<and>
    CheckSpec (la_decoders w) (la_host w) s = None \<and>
    Prepare (la_decoders w) (la_host w) (la_tty w) b s = Inr pl \<and> backend_tool (la_host w) b = Some path \<and>
    argv = pl_Argv pl \<and> env = pl_Env pl"
proof -
  have "runSandboxed w kind req args (Filter environ kind) = Exec path argv env"
    using assms by (auto simp: run_agent_def Let_def split: if_splits)
  from runSandboxed_Exec [OF this] obtain cfgDir p hostHome ws ryshDir b rules where r:
    "Resolve (la_decoders w) (la_host w) (rq_RyshDir req) (rq_Profile req) = Inr p"
    "Select (la_host w) p = Inr b" "Available (la_host w) b"
    "LoadRules (h_os (la_host w)) (read_rules (la_decoders w) (la_host w) ryshDir) = Inr rules"
    "launch_spec w kind b (spec_for w kind p rules hostHome ws ryshDir cfgDir args (Filter environ kind)) cfgDir = Exec path argv env"
    by blast
  let ?s = "spec_for w kind p rules hostHome ws ryshDir cfgDir args (Filter environ kind)"
  obtain s pl where s: "with_bridge w b ?s = Some s" "Prepare (la_decoders w) (la_host w) (la_tty w) b s = Inr pl"
    "path = pl_Tool pl" "argv = pl_Argv pl" "env = pl_Env pl" using launch_spec_Exec [OF r(5)] by blast
  obtain br where "s = ?s\<lparr>sb_Bridge := br\<rparr>" using with_bridge_fields [OF s(1)] by blast
  then have "sb_Profile s = p" "sb_RyshDir s = ryshDir" "sb_Rules s = rules" "sb_Argv s = args" "sb_Env s = Filter environ kind"
    by (simp_all add: spec_for_def Let_def)
  then show ?thesis using r(1-4) s Prepare_checked [OF s(2)] plan_tool [OF s(2)] by blast
qed

section \<open>The environment inside\<close>

definition plan_inner :: "backend \<Rightarrow> spec \<Rightarrow> string list" where
  "plan_inner b s = (case b of Container \<Rightarrow> container_inner s | Bwrap \<Rightarrow> bwrap_inner s | MacOS \<Rightarrow> macos_inner s)"

text \<open>The entries rysh writes itself.\<close>

definition rysh_entries :: "backend \<Rightarrow> spec \<Rightarrow> string list" where
  "rysh_entries b s =
     snd (innerParts s []) @ [''HOME='' @ sb_Home s, MarkerEnv @ ''='' @ backend_name b @ ''/'' @ pr_Name (sb_Profile s)]"

definition host_drops :: "backend \<Rightarrow> string list" where
  "host_drops b = (case b of Container \<Rightarrow> containerHostDrop | Bwrap \<Rightarrow> bwrapHostDrop | MacOS \<Rightarrow> [])"

lemma plan_inner_parts: "plan_inner b s =
   filter (crosses (fst (innerParts s (host_drops b))) (snd (innerParts s []))) (sb_Env s) @ rysh_entries b s"
  by (cases b) (simp_all add: plan_inner_def rysh_entries_def container_inner_def bwrap_inner_def macos_inner_def innerEnv_def
    innerParts_def host_drops_def)

text \<open>What the filter keeps although its name is denied is dropped again when the session's proxy holds the keys.\<close>

lemma kept_dropped: "n \<in> set (keepFor kind env) \<Longrightarrow> Denied n \<Longrightarrow> n \<in> set proxyDropNames"
proof -
  have "list_all (\<lambda>n. Denied n \<longrightarrow> n \<in> set proxyDropNames) (keepClaude @ keepClaudeBedrock @ keepClaudeVertex @ keepCodex)"
    by code_simp
  then show "n \<in> set (keepFor kind env) \<Longrightarrow> Denied n \<Longrightarrow> n \<in> set proxyDropNames"
    by (auto simp: keepFor_def list_all_iff split: agent_kind.splits if_splits)
qed

text \<open>
  C34: An entry of the environment inside a sandbox that rysh does not set itself comes from the caller's, under
  a name that is not one of the dropped ones and is denied only if it is kept for this agent; behind the
  proxy it is not denied at all and is no name a credential arrives in.
\<close>

theorem sandbox_env_is_clean:
  assumes "kv \<in> set (plan_inner b s)" and "sb_Env s = Filter environ kind" and "kv \<notin> set (rysh_entries b s)"
  shows "kv \<in> set environ \<and> entry_name kv \<notin> set innerDropNames \<and>
    entry_name kv \<notin> entry_name ` set (snd (innerParts s [])) \<and>
    (pr_Proxy (sb_Profile s) \<longrightarrow> \<not> Denied (entry_name kv) \<and> entry_name kv \<notin> set proxyDropNames) \<and>
    (Denied (entry_name kv) \<longrightarrow> entry_name kv \<in> set (keepFor kind environ))"
proof -
  have kv: "kv \<in> set (Filter environ kind)" and c: "crosses (fst (innerParts s (host_drops b))) (snd (innerParts s [])) kv"
    using assms unfolding plan_inner_parts by auto
  have "pr_Proxy (sb_Profile s) \<Longrightarrow> entry_name kv \<notin> set proxyDropNames"
    using c by (auto simp: crosses_def Let_def innerParts_def)
  then show ?thesis using kv c kept_dropped by (auto simp: set_Filter crosses_def Let_def)
qed

section \<open>Tried\<close>

definition demo_launcher :: launcher where
  "demo_launcher = \<lparr>la_decoders = demo_decoders\<lparr>dc_rules := (\<lambda>d. Some \<lparr>rf_Version = rulesVersion, rf_FailClosed = False, rf_Reason = [],
       rf_ReadOnly = [], rf_ReadWrite = [], rf_Deny = [], rf_Unenforceable = []\<rparr>)\<rparr>,
     la_host = (demo_host ''darwin'')\<lparr>h_read := (\<lambda>p. if p = ''/home/u/.rysh/sandbox/fs-rules.json'' then Found [] else Missing)\<rparr>,
     la_tty = False, la_id = ''a1'', la_bridge = (\<lambda>d. None), la_config = (\<lambda>d n. None), la_replaces = (\<lambda>p. True)\<rparr>"

definition demo_request :: sandbox_request where
  "demo_request = \<lparr>rq_Profile = ''default'', rq_RyshDir = ''/home/u/.rysh'', rq_Workspace = ''/ws''\<rparr>"

definition launched :: "launch \<Rightarrow> bool" where
  "launched l \<longleftrightarrow> (case l of Exit n \<Rightarrow> False | Exec path argv env \<Rightarrow> True)"

theorem sandboxed_or_nothing_witness:
  "\<exists>path argv env. run_agent demo_launcher Claude demo_request [''claude''] [''PATH=/opt/agent''] = Exec path argv env \<and>
     path = ''/usr/bin/sandbox-exec''"
proof -
  have "launched (run_agent demo_launcher Claude demo_request [''claude''] [''PATH=/opt/agent''])" by code_simp
  then obtain path argv env where run: "run_agent demo_launcher Claude demo_request [''claude''] [''PATH=/opt/agent''] = Exec path argv env"
    by (auto simp: launched_def split: launch.splits)
  have "demo_request \<noteq> no_request" by (simp add: demo_request_def no_request_def)
  from sandboxed_or_nothing [OF run this] obtain p b where
    b: "Select (la_host demo_launcher) p = Inr b" "backend_tool (la_host demo_launcher) b = Some path" "Available (la_host demo_launcher) b"
      "Resolve (la_decoders demo_launcher) (la_host demo_launcher) (rq_RyshDir demo_request) (rq_Profile demo_request) = Inr p"
    by blast
  have "case Resolve (la_decoders demo_launcher) (la_host demo_launcher) (rq_RyshDir demo_request) (rq_Profile demo_request) of
      Inl e \<Rightarrow> False | Inr p \<Rightarrow> Select (la_host demo_launcher) p = Inr MacOS" by code_simp
  then have "b = MacOS" using b(1,4) by simp
  then show ?thesis using run b(2) by (simp add: backend_tool_def)
qed

theorem sandbox_env_is_clean_witness:
  "''PATH=/opt/agent'' \<in> set (plan_inner MacOS (demo_spec True)) \<and> \<not> Denied ''PATH'' \<and>
     ''ANTHROPIC_API_KEY=k'' \<notin> set (plan_inner MacOS (demo_spec True))"
proof -
  have e: "sb_Env (demo_spec True) = Filter [''PATH=/opt/agent'', ''ANTHROPIC_API_KEY=k'', ''ANTHROPIC_BASE_URL=u''] Claude" by code_simp
  have p: "''PATH=/opt/agent'' \<in> set (plan_inner MacOS (demo_spec True))" "''PATH=/opt/agent'' \<notin> set (rysh_entries MacOS (demo_spec True))"
    "pr_Proxy (sb_Profile (demo_spec True))" "entry_name ''PATH=/opt/agent'' = ''PATH''"
    "''ANTHROPIC_API_KEY=k'' \<notin> set (rysh_entries MacOS (demo_spec True))" "entry_name ''ANTHROPIC_API_KEY=k'' \<in> set proxyDropNames"
    by code_simp+
  show ?thesis using sandbox_env_is_clean [OF p(1) e p(2)] sandbox_env_is_clean [OF _ e p(5)] p by auto
qed

end
