(* ===== verification/SandboxGaps.thy ===== *)
theory SandboxGaps
  imports SandboxLaunch
begin

text \<open>
  Where the sandbox promises more than it does, each shown on a concrete machine.
\<close>

text \<open>A sandbox request whose three values are all empty counts as none, and the agent runs without a sandbox.\<close>

lemma empty_request_is_no_sandbox:
  "parse_args Claude False no_request
     [''--sandbox'', [], ''--rysh-dir'', [], ''--workspace'', [], ''--'', ''claude''] = RunWith Claude False no_request [''claude'']"
  "run_agent w Claude no_request [''claude''] environ = run_direct w Claude [''claude''] (Filter environ Claude)"
  by (simp_all add: no_request_def run_agent_def)

text \<open>A path the policy denies and that does not exist yet is not held: the agent can make it and use it.\<close>

definition denies_missing :: spec where
  "denies_missing = (demo_spec False)\<lparr>sb_Rules := \<lparr>pt_ReadOnly = [], pt_ReadWrite = [], pt_Deny = [''/ws/secrets'']\<rparr>\<rparr>"

lemma missing_denied_path_is_open:
  "deniedByRules ''/ws/secrets/key'' (sb_Rules denies_missing)"
  "case container_Prepare demo_decoders (demo_host ''linux'') False denies_missing of
     Inl e \<Rightarrow> False | Inr pl \<Rightarrow> can_write (pl_Mounts pl) ''/ws/secrets/key''"
  by code_simp+

text \<open>A pointer file in the workspace chooses the shared git directory, which is mounted for writing whatever it is.\<close>

definition pointing_host :: host where
  "pointing_host = (demo_host ''linux'')\<lparr>h_read := (\<lambda>p. if p = ''/ws/.git'' then Found ''gitdir: /home/u/.ssh'' else Missing),
     h_lstat := (\<lambda>p. if p = ''/ws/.git'' then Found RegularFile else if p = ''/home/u/.ssh'' then Found Directory else demo_kind p)\<rparr>"

definition pointed_spec :: spec where
  "pointed_spec = (demo_spec False)\<lparr>sb_GitCommonDir := GitCommonDir pointing_host ''/ws''\<rparr>"

lemma pointer_opens_home_keys:
  "''/home/u/.ssh'' \<in> set (SensitivePaths pointing_host ''/home/u'')"
  "case container_Prepare demo_decoders pointing_host False pointed_spec of
     Inl e \<Rightarrow> False | Inr pl \<Rightarrow> can_write (pl_Mounts pl) ''/home/u/.ssh/id''"
  by code_simp+

text \<open>A denied path below a system directory is not hidden by bubblewrap, which shows the directory.\<close>

lemma denied_system_path_is_shown:
  "hidden_rules h ((demo_spec False)\<lparr>sb_Rules := \<lparr>pt_ReadOnly = [], pt_ReadWrite = [], pt_Deny = [''/etc/keys'']\<rparr>\<rparr>) = []"
  "''/etc'' \<in> set bwrapSystemDirs"
proof -
  have n: "\<not> insideAny ''/etc/keys'' [''/ws'']" "\<not> within_path ''/home/u/.rysh'' ''/ws''" by code_simp+
  show "hidden_rules h ((demo_spec False)\<lparr>sb_Rules := \<lparr>pt_ReadOnly = [], pt_ReadWrite = [], pt_Deny = [''/etc/keys'']\<rparr>\<rparr>) = []"
    using n by (simp add: hidden_rules_def demo_spec_def demo_profile_def rwAreas_def)
  show "''/etc'' \<in> set bwrapSystemDirs" by code_simp
qed

end
