(* ===== verification/Spec2Isabelle.thy ===== *)
theory Spec2Isabelle
  imports FleetProperties GoalProperties PlanProperties WatchProperties ShellProperties PolicyProperties
    FsProperties BashRun LedgerProperties DiffProperties FlowProperties TextProperties SandboxProperties SandboxProfile SandboxGaps
begin

text \<open>
  A verification library of rysh, a terminal session daemon that runs groups of coding agents. It models
  the parts of the daemon that decide: who belongs to a fleet and what it is doing, what the goal
  executor makes of that, which commands and paths an agent may use, and what the daemon may spend.

  \<^bold>\<open>The parts and how they interact.\<close>
  A \<^emph>\<open>fleet\<close> is a named group of panes with a board they write to. The registry of \<open>internal/fleet\<close> holds
  the fleets, their members, a ledger row for each member (what it declares, what the daemon observed),
  goals and the configuration of check-ins and of the goal executor; everything else reads and writes it
  through its methods or the one write subject of \<open>wire.go\<close>. On every tick the registry derives blockers and
  health and decides whom to ask. The \<^emph>\<open>goal executor\<close> of \<open>internal/fleetgoal\<close> takes a snapshot of one
  fleet, adds a bounded memory of observations, judges it (\<open>assess.go\<close>) and plans what to tell whom
  (\<open>plan.go\<close>); commands it sends appear in the \<^emph>\<open>inbox\<close> of the addressed pane (\<open>internal/board/inbox.go\<close>). A
  command line an agent wants to run is read by \<open>internal/shellscan\<close>; the \<^emph>\<open>policy\<close> of \<open>internal/policy\<close>,
  merged from the org's file and the project's, decides whether it needs approval and which paths it may
  name; the workspace (\<open>internal/actors/workspace_policy.go\<close>) publishes the policy in force or closes
  everything; the bash tool (\<open>internal/tools/bash.go\<close>) combines the two and runs the command. The \<^emph>\<open>gateway
  ledger\<close> of \<open>internal/gateway\<close> reports usage to the server and spends against leases it grants.

  \<^bold>\<open>Theories and sources.\<close>
  \<^item> Shared: \<open>Prelude\<close> (lists, association lists, collections), \<open>GoStrings\<close> (Go's \<open>strings\<close>, \<open>strconv\<close>),
    \<open>GoPath\<close> (Go's \<open>path\<close>, \<open>unicode/utf8\<close>), \<open>Digraph\<close> (the two graph searches the code has in three copies, and
    the locale \<open>ring_search\<close> of their clients).
  \<^item> Fleet: \<open>BoardId\<close> (\<open>internal/msg/board_id.go\<close>), \<open>FleetTypes\<close> (the records: \<open>fleet\<close> with prefix \<open>f_\<close>,
    \<open>member\<close> \<open>m_\<close>, \<open>member_status\<close> \<open>st_\<close>), \<open>FleetRegistry\<close> (\<open>registry.go\<close>, \<open>persist.go\<close>), \<open>FleetStatus\<close> and
    \<open>FleetHealth\<close> (\<open>status.go\<close>, \<open>attention.go\<close>, \<open>scout.go\<close>), \<open>FleetGoals\<close> (\<open>goal.go\<close>, \<open>wire.go\<close>, \<open>events.go\<close>),
    \<open>FleetProperties\<close>.
  \<^item> Goal executor: \<open>GoalAssess\<close>, \<open>CriticalPath\<close> (\<open>assess.go\<close>), \<open>GoalPlan\<close> (\<open>plan.go\<close>), \<open>BoardInbox\<close>, and the
    properties in \<open>GoalProperties\<close>, \<open>PlanProperties\<close>, \<open>WatchProperties\<close>.
  \<^item> Command lines: \<open>ShellScan\<close> (\<open>shellscan.go\<close>), \<open>ShellQuote\<close> (the two quoting functions of \<open>internal/actors\<close>),
    \<open>ShellProperties\<close>, \<open>BashGate\<close> and \<open>BashRun\<close> (\<open>internal/tools/bash.go\<close>, \<open>fs_policy.go\<close>).
  \<^item> Policy: \<open>PolicyFile\<close> (\<open>policy.go\<close>: load, validate, merge), \<open>Approval\<close> (\<open>approval.go\<close>), \<open>FsPaths\<close>,
    \<open>FsRules\<close> (\<open>fs.go\<close>), \<open>FsBash\<close> (\<open>fs_bash.go\<close>), \<open>MemoryPolicy\<close> (\<open>memory.go\<close>), \<open>PolicyGate\<close> (\<open>gate.go\<close> and what
    the workspace publishes), \<open>SegmentGlob\<close> (the meaning of a glob of one path segment), and the properties
    in \<open>PolicyProperties\<close> and \<open>FsProperties\<close>.
  \<^item> Gateway: \<open>Ledger\<close> (\<open>ledger.go\<close>), \<open>LedgerProperties\<close>.

  A definition has the name of the function it models; the parts of a longer function, cut where its
  branches and loops are, have names of their own, and the manifest gives the lines of each.

  \<^bold>\<open>How the code is modelled.\<close>
  A Go string is the list of its bytes. A Go \<open>int\<close> that is only compared, added and multiplied by small
  constants is an \<open>int\<close>; where a product can wrap it does (\<open>BashRun.duration\<close>). A map is an association list
  with distinct keys, whose order stands for the map's unspecified one. A method of a mutex-guarded
  object is a function from its state to its state: calls are atomic, and their order is that of the
  steps of a run (\<open>FleetGoals.ledger_step\<close>, \<open>Ledger.client_step\<close>); where the code gives the lock up in
  between, as a flush or a renewal does, there is one step per critical section, and whatever other steps
  may come in between. Code outside the repository or behind an interface is a parameter: the YAML and
  JSON decoders (given as what they decode to), the file system and its links, the environment, the
  server's replies, the shared module's constants.

  \<^bold>\<open>Interfaces.\<close>
  \<open>fleet_edit\<close> and its extension \<open>ledger_edit\<close> (with \<open>member_edit\<close> below it) are the contracts of an edit
  of one fleet, interpreted on every operation of the registry and the ledger: an edit that meets the contract preserves
  well-formedness and the roster's refinement. \<open>ring_search\<close> is the contract between the depth-first search
  and what a client does with a ring, interpreted on the board's rings and on the executor's deadlocks.

  \<^bold>\<open>What is shown.\<close>
  Fleet: the registry stays well-formed and refines a map from fleets to members, its records survive the
  store, reconciling keeps exactly the live members, a declaration is accepted exactly when it is valid,
  rings of blocked members are found, health settles in one pass, check-ins are rate limited. Goal
  executor: waiting counts are the transitive closure, reported deadlocks are disjoint rings, estimates
  agree with the recursive definition, the verdict is on track exactly when nothing is wrong, budgets and
  ladder bound what is sent. Command lines: the scanner agrees with a reference reading, quoting is
  read back. Policy: a merge only restricts, a policy that cannot be used closes everything, a line runs
  unasked only if each of its commands is known, a denied directory is closed, memory stays on the
  machine. Gateway: through every interleaving usage, tokens and money are accounted for. Lemmas named in
  the findings show where the code does something else than it says.

  \<^bold>\<open>Bounds.\<close>
  \<open>dfs_fuel\<close> is one more than the number of nodes: the recursion enters a white node and colours it, so it
  is never deeper, and \<open>dfs_run_total\<close> shows the search returns. \<open>finish_fuel\<close> is the number of members and
  two: a nested call adds the member to \<open>visiting\<close> (\<open>finish_fuel_enough\<close>). Every other loop is a terminating
  function.

  \<^bold>\<open>Not modelled.\<close>
  Terminal and web interfaces, the actor runtime and its messages, chat channels, meetings, the model
  providers, the tools other than bash, the upstream connection, proxies and sandboxes of the operating
  system: input and output around the modelled decisions, or rendering. Of modelled files: the wording of
  directives, reports and errors, logging, HTTP and NATS requests.
\<close>

end
